(* ===== verification/Prelude.thy ===== *)
theory Prelude
  imports Complex_Main "HOL-Library.Word" "HOL-Library.AList" "HOL-Library.Multiset"
begin

text \<open>
  Shared vocabulary of the development: the machine types of the source, the two ways a
  Rust function can fail to return its value (an error value and a panic), hash maps as
  association lists, and the generic lemmas the component theories rest on.
\<close>

section \<open>Types\<close>

text \<open>
  A Rust \<open>u64\<close> whose arithmetic can leave its range is a 64-bit word (the release profile
  wraps); sequence numbers, sizes and other counters that a run only ever counts up by one
  are natural numbers.
\<close>

type_synonym u64 = "64 word"

text \<open>\<open>Result<T, E>\<close> is a sum with the error on the left.\<close>

type_synonym ('e, 'a) result = "'e + 'a"

text \<open>A computation that may panic: \<open>None\<close> is the panic.\<close>

type_synonym 'a panicky = "'a option"

text \<open>
  A \<open>HashMap\<close> is an association list with distinct keys: the order of the list is the
  map's (unspecified) iteration order, so a statement that holds for every list holds for
  every iteration order.
\<close>

type_synonym ('k, 'v) hashmap = "('k \<times> 'v) list"

named_theorems invs \<open>facts that an operation keeps a component's invariant\<close>
named_theorems gets \<open>what a map or a record holds after an update\<close>

section \<open>Results\<close>

fun is_ok :: "('e, 'a) result \<Rightarrow> bool" where
  "is_ok (Inl _) = False"
| "is_ok (Inr _) = True"

fun map_err :: "('e \<Rightarrow> 'f) \<Rightarrow> ('e, 'a) result \<Rightarrow> ('f, 'a) result" where
  "map_err g (Inl e) = Inl (g e)"
| "map_err g (Inr a) = Inr a"

text \<open>\<open>iter().map(f).collect::<Result<Vec<_>, _>>()\<close>: stops at the first error.\<close>

fun collect_results :: "('a \<Rightarrow> ('e, 'b) result) \<Rightarrow> 'a list \<Rightarrow> ('e, 'b list) result" where
  "collect_results f [] = Inr []"
| "collect_results f (x # xs) =
     (case f x of
        Inl e \<Rightarrow> Inl e
      | Inr y \<Rightarrow> (case collect_results f xs of Inl e \<Rightarrow> Inl e | Inr ys \<Rightarrow> Inr (y # ys)))"

lemma collect_results_Inr:
  "collect_results f xs = Inr ys \<longleftrightarrow> list_all2 (\<lambda>x y. f x = Inr y) xs ys"
proof (induction xs arbitrary: ys)
  case Nil
  then show ?case by auto
next
  case (Cons x xs)
  then show ?case by (cases ys) (auto simp flip: Cons.IH split: sum.splits)
qed

lemma collect_results_length: "collect_results f xs = Inr ys \<Longrightarrow> length ys = length xs"
  by (auto simp: collect_results_Inr dest: list_all2_lengthD)

section \<open>Hash maps\<close>

definition contains_key :: "('k, 'v) hashmap \<Rightarrow> 'k \<Rightarrow> bool" where
  "contains_key m k \<longleftrightarrow> map_of m k \<noteq> None"

definition wf_map :: "('k, 'v) hashmap \<Rightarrow> bool" where
  "wf_map m \<longleftrightarrow> distinct (map fst m)"

lemma wf_map_Nil [simp]: "wf_map []"
  by (simp add: wf_map_def)

lemma wf_map_update [simp]: "wf_map m \<Longrightarrow> wf_map (AList.update k v m)"
  by (simp add: wf_map_def distinct_update)

lemma contains_key_update [simp]:
  "contains_key (AList.update k v m) k' \<longleftrightarrow> k' = k \<or> contains_key m k'"
  by (auto simp: contains_key_def update_conv)

lemma contains_key_iff: "contains_key m k \<longleftrightarrow> k \<in> fst ` set m"
  by (auto simp: contains_key_def map_of_eq_None_iff)

lemma map_of_update [simp]:
  "map_of (AList.update k v m) k' = (if k' = k then Some v else map_of m k')"
  by (simp add: update_conv)

text \<open>Mapping a function over the values of a hash map keeps its keys.\<close>

lemma set_update_mem: "(k', w) \<in> set (AList.update k v m) \<Longrightarrow> (k', w) \<in> set m \<or> k' = k \<and> w = v"
  by (induction m) (auto split: if_splits)

lemma distinct_remdups_adj_sorted: "sorted xs \<Longrightarrow> distinct (remdups_adj xs)"
  by (induction xs rule: remdups_adj.induct) auto

lemma map_of_map_snd: "map_of (map (\<lambda>(k, v). (k, f k v)) m) k = map_option (f k) (map_of m k)"
  by (induction m) auto

lemma wf_map_map_snd: "wf_map (map (\<lambda>(k, v). (k, f k v)) m) = wf_map m"
  by (simp add: wf_map_def o_def split_def)

section \<open>Lists\<close>

lemma sum_list_indicator:
  "(\<Sum>i\<leftarrow>[0..<n]. if i < k then 1 else 0) = (min k n :: nat)"
proof (induction n)
  case 0
  then show ?case by simp
next
  case (Suc n)
  then show ?case by (auto simp: min_def)
qed

lemma foldl_max_ge: "(a :: 'a :: linorder) \<le> foldl max a xs"
proof (induction xs arbitrary: a)
  case (Cons y ys)
  from Cons.IH [of "max a y"] show ?case by (simp only: foldl_Cons max.bounded_iff)
qed simp

lemma foldl_max_mem: "x \<in> set xs \<Longrightarrow> (x :: 'a :: linorder) \<le> foldl max a xs"
proof (induction xs arbitrary: a)
  case (Cons y ys)
  then show ?case using foldl_max_ge [of "max a y" ys] by (auto intro: order_trans)
qed simp

lemma foldl_max_in: "foldl max (a :: 'a :: linorder) xs \<in> insert a (set xs)"
  by (induction xs arbitrary: a) (auto simp: max_def)

section \<open>Unsigned words\<close>

lemma upt_3: "[0..<3] = [0, Suc 0, 2]"
  by (simp add: upt_conv_Cons numeral_3_eq_3 numeral_2_eq_2)

lemma unat_u64_less: "unat (n :: u64) < 2 ^ 64"
  using unsigned_less [of n] by simp

lemma unat_of_nat_u64: "i < 2 ^ 64 \<Longrightarrow> unat (of_nat i :: u64) = i"
  by (simp add: unsigned_of_nat take_bit_nat_eq_self)

lemma unat_max: "unat (max a b) = max (unat a) (unat (b :: u64))"
  by (simp add: max_def word_le_nat_alt)

lemma unat_of_bool [simp]: "unat (if b then 1 else (0 :: u64)) = (if b then 1 else 0)"
  by simp

lemma unat_add_fits: "unat (a :: u64) + unat b < 2 ^ 64 \<Longrightarrow> unat (a + b) = unat a + unat b"
  by (simp add: unat_word_ariths)

end
