(* ===== verification/F64.thy ===== *)
theory F64
  imports Prelude "HOL-Library.Log_Nat"
begin

text \<open>
  Rust's \<open>f64\<close>: IEEE 754 binary64 with round-to-nearest, ties-to-even. A finite value is
  carried as the rational it denotes; every arithmetic operation computes the exact rational
  result and rounds it once (\<open>rnd\<close>: 53 significant bits, subnormals down to
  $2^{-1074}$, overflow to an infinity), which is what the standard asks of the hardware.
  The two zeros are one value here: the source never divides by a zero whose sign it could
  observe and never prints one. NaN and the infinities are values of their own, with IEEE
  comparisons, so that the code's NaN-sensitive branches come out as they run.
\<close>

section \<open>Rounding a rational to binary64\<close>

definition round_half_even :: "rat \<Rightarrow> int" where
  "round_half_even x =
     (let f = \<lfloor>x\<rfloor>; r = x - of_int f
      in if r < 1/2 then f else if 1/2 < r then f + 1 else if even f then f else f + 1)"

definition expo :: "rat \<Rightarrow> int" where
  "expo x =
     (let (n, d) = quotient_of x; k = bitlen n - bitlen d
      in if 2 powi k \<le> x then k else k - 1)"

lemma rhe_of_int [simp]: "round_half_even (of_int n) = n"
  by (simp add: round_half_even_def)

lemma rhe_bounds: "\<lfloor>x\<rfloor> \<le> round_half_even x" "round_half_even x \<le> \<lfloor>x\<rfloor> + 1"
  by (auto simp: round_half_even_def Let_def)

lemma rhe_small:
  assumes "0 \<le> x" "x < 1 / 2"
  shows "round_half_even x = 0"
proof -
  have "\<lfloor>x\<rfloor> = 0" using assms by (simp add: floor_eq_iff)
  then show ?thesis using assms by (simp add: round_half_even_def)
qed

lemma rhe_mono: 
  assumes "x \<le> y" shows "round_half_even x \<le> round_half_even y"
proof (cases "\<lfloor>x\<rfloor> = \<lfloor>y\<rfloor>")
  case True
  then show ?thesis using assms
    by (auto simp: round_half_even_def Let_def)
next
  case False
  with assms have "\<lfloor>x\<rfloor> + 1 \<le> \<lfloor>y\<rfloor>" using floor_mono [OF assms] by linarith
  then show ?thesis using rhe_bounds(2) [of x] rhe_bounds(1) [of y] by linarith
qed

lemma bitlen_pow_bounds:
  assumes "0 < (n::int)"
  shows "2 powi (bitlen n - 1) \<le> (of_int n :: rat)" "(of_int n :: rat) < 2 powi (bitlen n)"
proof -
  have b: "2 ^ nat (bitlen n - 1) \<le> n" "n < 2 ^ nat (bitlen n)"
    using bitlen_bounds [OF assms] by auto
  have pos: "1 \<le> bitlen n" using assms by (simp add: bitlen_alt_def bitlen_nonneg)
  have "(of_int (2 ^ nat (bitlen n - 1)) :: rat) \<le> of_int n" using b(1) by (simp only: of_int_le_iff)
  then show "2 powi (bitlen n - 1) \<le> (of_int n :: rat)" using pos by (simp add: power_int_def)
  have "(of_int n :: rat) < of_int (2 ^ nat (bitlen n))" using b(2) by (simp only: of_int_less_iff)
  then show "(of_int n :: rat) < 2 powi (bitlen n)" using pos by (simp add: power_int_def)
qed

lemma expo_bounds:
  assumes "0 < x"
  shows "2 powi (expo x) \<le> x" "x < 2 powi (expo x + 1)"
proof -
  obtain n d where q: "quotient_of x = (n, d)" by (cases "quotient_of x") auto
  have d: "0 < d" using quotient_of_denom_pos [OF q] .
  have x: "x = of_int n / of_int d" using quotient_of_div [OF q] .
  have n: "0 < n" using assms x d by (simp add: zero_less_divide_iff)
  let ?k = "bitlen n - bitlen d"
  note bn = bitlen_pow_bounds [OF n] and bd = bitlen_pow_bounds [OF d]
  have dp: "(0::rat) < of_int d" using d by simp
  have up: "x < 2 powi (?k + 1)"
  proof -
    have "of_int n < (2 powi (bitlen n) :: rat)" by (rule bn)
    also have "\<dots> = 2 powi (?k + 1) * 2 powi (bitlen d - 1)"
      by (simp flip: power_int_add)
    also have "\<dots> \<le> 2 powi (?k + 1) * of_int d"
      using bd(1) by (intro mult_left_mono) auto
    finally show ?thesis using dp by (simp add: x divide_less_eq)
  qed
  have lo: "2 powi (?k - 1) \<le> x"
  proof -
    have "2 powi (?k - 1) * of_int d \<le> (2 powi (?k - 1) * 2 powi (bitlen d) :: rat)"
      using bd(2) by (intro mult_left_mono) auto
    also have "\<dots> = 2 powi (bitlen n - 1)" by (simp flip: power_int_add)
    also have "\<dots> \<le> of_int n" by (rule bn)
    finally show ?thesis using dp by (simp add: x le_divide_eq)
  qed
  show "2 powi (expo x) \<le> x" using lo by (simp add: expo_def q Let_def)
  show "x < 2 powi (expo x + 1)" using up by (auto simp: expo_def q Let_def not_le)
qed


lemma pow2_less_iff [simp]: "(2::rat) powi a < 2 powi b \<longleftrightarrow> a < b"
  by (metis linorder_neqE not_less_iff_gr_or_eq one_less_numeral_iff power_int_strict_increasing semiring_norm(76))

lemma pow2_le_iff [simp]: "(2::rat) powi a \<le> 2 powi b \<longleftrightarrow> a \<le> b"
  by (simp flip: not_less)

lemma pow2_split: "e' \<le> e \<Longrightarrow> (2::rat) powi e = 2 ^ nat (e - e') * 2 powi e'"
  by (subst power_int_of_nat [symmetric]) (simp flip: power_int_add)

lemma expo_unique:
  assumes "2 powi e \<le> x" "x < 2 powi (e + 1)"
  shows "expo x = e"
proof -
  have x: "0 < x" using assms(1) less_le_trans [of 0 "2 powi e :: rat" x] by simp
  have "(2::rat) powi (expo x) < 2 powi (e + 1)" using expo_bounds(1) [OF x] assms(2) by linarith
  moreover have "(2::rat) powi e < 2 powi (expo x + 1)" using expo_bounds(2) [OF x] assms(1) by linarith
  ultimately have "expo x < e + 1" "e < expo x + 1"
    by (simp_all add: pow2_less_iff)
  then show ?thesis by simp
qed

lemma expo_pow2 [simp]: "expo (2 powi e) = e"
  by (rule expo_unique) simp_all

lemma expo_mono:
  assumes "0 < x" "x \<le> y"
  shows "expo x \<le> expo y"
proof -
  have "(2::rat) powi (expo x) < 2 powi (expo y + 1)"
    using expo_bounds(1) [of x] expo_bounds(2) [of y] assms by linarith
  then show ?thesis by (simp add: pow2_less_iff)
qed

definition quantum :: "rat \<Rightarrow> rat" where
  "quantum x = 2 powi (max (expo x - 52) (- 1074))"

definition rnd_pos :: "rat \<Rightarrow> rat" where
  "rnd_pos x = of_int (round_half_even (x / quantum x)) * quantum x"

lemma quantum_pos [simp]: "0 < quantum x"
  by (simp add: quantum_def)

definition on_grid :: "int \<Rightarrow> rat \<Rightarrow> bool" where
  "on_grid e x \<longleftrightarrow> (\<exists>k::int. x = of_int k * 2 powi e)"

lemma on_grid_mono: 
  assumes "on_grid e x" "e' \<le> e" shows "on_grid e' x"
proof -
  from assms(1) obtain k where k: "x = of_int k * 2 powi e" by (auto simp: on_grid_def)
  have "(2::rat) powi e = 2 ^ nat (e - e') * 2 powi e'"
    using assms(2) by (rule pow2_split)
  then show ?thesis
    unfolding on_grid_def by (intro exI [of _ "k * 2 ^ nat (e - e')"]) (simp add: k)
qed

definition qexp :: "rat \<Rightarrow> int" where
  "qexp x = max (expo x - 52) (- 1074)"

lemma quantum_qexp: "quantum x = 2 powi (qexp x)"
  by (simp add: quantum_def qexp_def)

lemma on_grid_pow2: "e \<le> e' \<Longrightarrow> on_grid e (2 powi e')"
  unfolding on_grid_def by (intro exI [of _ "2 ^ nat (e' - e)"]) (simp add: pow2_split [of e e'])

lemma on_grid_rnd_pos: "on_grid (qexp x) (rnd_pos x)"
  by (auto simp: on_grid_def rnd_pos_def quantum_qexp)

lemma on_grid_quotient:
  assumes "on_grid (qexp x) p"
  obtains k :: int where "p = of_int k * quantum x" "round_half_even (p / quantum x) = k"
proof -
  from assms obtain k where "p = of_int k * quantum x" by (auto simp: on_grid_def quantum_qexp)
  moreover have "quantum x \<noteq> 0" using quantum_pos [of x] by linarith
  ultimately show thesis by (intro that [of k]) simp_all
qed

lemma rnd_pos_le_grid:
  assumes "on_grid (qexp x) p" "x \<le> p"
  shows "rnd_pos x \<le> p"
proof -
  obtain k where k: "p = of_int k * quantum x" "round_half_even (p / quantum x) = k"
    using on_grid_quotient [OF assms(1)] .
  have "round_half_even (x / quantum x) \<le> k"
    using rhe_mono [OF divide_right_mono [OF assms(2), of "quantum x"]] k(2) quantum_pos [of x] by simp
  then show ?thesis by (simp add: rnd_pos_def k(1))
qed

lemma rnd_pos_ge_grid:
  assumes "on_grid (qexp x) p" "p \<le> x"
  shows "p \<le> rnd_pos x"
proof -
  obtain k where k: "p = of_int k * quantum x" "round_half_even (p / quantum x) = k"
    using on_grid_quotient [OF assms(1)] .
  have "k \<le> round_half_even (x / quantum x)"
    using rhe_mono [OF divide_right_mono [OF assms(2), of "quantum x"]] k(2) quantum_pos [of x] by simp
  then show ?thesis by (simp add: rnd_pos_def k(1))
qed

lemma rnd_pos_grid_id: "on_grid (qexp x) x \<Longrightarrow> rnd_pos x = x"
  by (intro antisym rnd_pos_le_grid rnd_pos_ge_grid order_refl)

lemma qexp_le_expo: "- 1074 \<le> expo x \<Longrightarrow> qexp x \<le> expo x"
  by (simp add: qexp_def)

lemma rnd_pos_pow2: "- 1074 \<le> e \<Longrightarrow> rnd_pos (2 powi e) = 2 powi e"
  by (intro rnd_pos_grid_id on_grid_pow2) (simp add: qexp_def)

lemma rnd_pos_mono:
  assumes "0 < x" "x \<le> y"
  shows "rnd_pos x \<le> rnd_pos y"
proof (cases "qexp x = qexp y")
  case True
  then have "quantum x = quantum y" by (simp add: quantum_qexp)
  moreover have "round_half_even (x / quantum y) \<le> round_half_even (y / quantum y)"
    using assms by (intro rhe_mono divide_right_mono) (simp_all add: less_imp_le)
  ultimately show ?thesis by (simp add: rnd_pos_def)
next
  case False
  then have e: "expo x + 1 \<le> expo y" and n: "- 1074 < expo y - 52"
    using expo_mono [OF assms] by (auto simp: qexp_def max_def split: if_splits)
  have "x \<le> 2 powi (expo y)"
    using expo_bounds(2) [OF assms(1)] e by (meson less_imp_le order_less_le_trans pow2_le_iff)
  then have "rnd_pos x \<le> 2 powi (expo y)"
    using e n by (intro rnd_pos_le_grid on_grid_pow2) (auto simp: qexp_def)
  also have "\<dots> \<le> rnd_pos y"
    using expo_bounds(1) [of y] assms n by (intro rnd_pos_ge_grid on_grid_pow2) (auto simp: qexp_def)
  finally show ?thesis .
qed

lemma rnd_pos_nonneg: "0 < x \<Longrightarrow> 0 \<le> rnd_pos x"
  by (rule rnd_pos_ge_grid) (auto simp: on_grid_def)

lemma rnd_pos_le_pow2:
  assumes "0 < x"
  shows "rnd_pos x \<le> 2 powi (expo x + 1)"
proof (cases "qexp x \<le> expo x + 1")
  case True
  then show ?thesis
    using expo_bounds(2) [OF assms] by (intro rnd_pos_le_grid on_grid_pow2) auto
next
  case False
  then have q: "quantum x = 2 powi (-1074)" and e: "expo x + 2 \<le> - 1074"
    by (auto simp: qexp_def quantum_qexp max_def split: if_splits)
  have "x < 2 powi (expo x + 1)" by (rule expo_bounds [OF assms])
  also have "\<dots> \<le> 2 powi (- 1075)" using e by (subst pow2_le_iff) simp
  also have "\<dots> = quantum x / 2" by (simp add: q power_int_minus power_int_numeral)
  finally have "x / quantum x < 1 / 2" by (simp add: divide_less_eq)
  moreover have "0 \<le> x / quantum x" using assms by (simp add: less_imp_le)
  ultimately have "round_half_even (x / quantum x) = 0" by (intro rhe_small)
  then show ?thesis by (simp add: rnd_pos_def)
qed

lemma rnd_pos_idem:
  assumes "0 < x" "0 < rnd_pos x"
  shows "rnd_pos (rnd_pos x) = rnd_pos x"
proof (rule rnd_pos_grid_id, cases "rnd_pos x = 2 powi (expo x + 1)")
  case True
  then have e: "expo (rnd_pos x) = expo x + 1" by (simp add: expo_unique)
  have "qexp x \<le> expo x + 1"
  proof (rule ccontr)
    assume n: "\<not> qexp x \<le> expo x + 1"
    obtain k :: int where k: "rnd_pos x = of_int k * 2 powi (qexp x)"
      using on_grid_rnd_pos [of x] by (auto simp: on_grid_def)
    have "(0::rat) < 2 powi (qexp x)" by simp
    from zero_less_mult_pos2 [OF assms(2) [unfolded k] this] have "0 < k" by (simp only: of_int_0_less_iff)
    then have "1 * 2 powi (qexp x) \<le> rnd_pos x" unfolding k by (intro mult_right_mono) auto
    then have "(2::rat) powi (qexp x) \<le> 2 powi (expo x + 1)" by (simp add: True)
    with n show False by (subst (asm) pow2_le_iff) simp
  qed
  then show "on_grid (qexp (rnd_pos x)) (rnd_pos x)"
    unfolding True by (intro on_grid_pow2) (auto simp: qexp_def e [unfolded True])
next
  case False
  then have "rnd_pos x < 2 powi (expo x + 1)" using rnd_pos_le_pow2 [OF assms(1)] by linarith
  then have "(2::rat) powi (expo (rnd_pos x)) < 2 powi (expo x + 1)"
    using expo_bounds(1) [OF assms(2)] by linarith
  then have "expo (rnd_pos x) < expo x + 1" by (subst (asm) pow2_less_iff)
  then have "qexp (rnd_pos x) \<le> qexp x" by (simp add: qexp_def)
  then show "on_grid (qexp (rnd_pos x)) (rnd_pos x)" by (rule on_grid_mono [OF on_grid_rnd_pos])
qed

lemma rnd_pos_int:
  assumes "0 < n" "n \<le> 2 ^ 53"
  shows "rnd_pos (of_int n) = of_int n"
proof (cases "n = 2 ^ 53")
  case True
  have "rnd_pos (2 powi 53) = 2 powi 53"
    by (rule rnd_pos_pow2) simp
  then show ?thesis using True by simp
next
  case False
  then have "n < 2 ^ 53" using assms by simp
  then have "(of_int n :: rat) < of_int (2 ^ 53)" by (simp only: of_int_less_iff)
  then have "(of_int n :: rat) < 2 powi 53" by simp
  moreover have "0 < (of_int n :: rat)" using assms by simp
  ultimately have "(2::rat) powi (expo (of_int n)) < 2 powi 53"
    using expo_bounds(1) [of "of_int n"] by linarith
  then have "qexp (of_int n) \<le> 0" by (subst (asm) pow2_less_iff) (simp add: qexp_def)
  moreover have "on_grid 0 (of_int n)" by (auto simp: on_grid_def)
  ultimately show ?thesis by (intro rnd_pos_grid_id) (rule on_grid_mono)
qed


section \<open>Values, comparisons and arithmetic\<close>

datatype f64 = Fin rat | PInf | NInf | NaN

definition rnd :: "rat \<Rightarrow> f64" where
  "rnd x =
     (if x = 0 then Fin 0
      else let r = rnd_pos \<bar>x\<bar>
           in if 2 powi 1024 \<le> r then (if 0 < x then PInf else NInf)
              else Fin (if 0 < x then r else - r))"

fun f64_lt :: "f64 \<Rightarrow> f64 \<Rightarrow> bool" where
  "f64_lt NaN _ = False"
| "f64_lt _ NaN = False"
| "f64_lt (Fin a) (Fin b) = (a < b)"
| "f64_lt (Fin a) y = (y = PInf)"
| "f64_lt NInf y = (y \<noteq> NInf)"
| "f64_lt PInf y = False"

fun f64_le :: "f64 \<Rightarrow> f64 \<Rightarrow> bool" where
  "f64_le NaN _ = False"
| "f64_le _ NaN = False"
| "f64_le (Fin a) (Fin b) = (a \<le> b)"
| "f64_le (Fin a) y = (y = PInf)"
| "f64_le NInf y = True"
| "f64_le PInf y = (y = PInf)"

fun f64_neg :: "f64 \<Rightarrow> f64" where
  "f64_neg (Fin a) = Fin (- a)"
| "f64_neg PInf = NInf"
| "f64_neg NInf = PInf"
| "f64_neg NaN = NaN"

fun f64_add :: "f64 \<Rightarrow> f64 \<Rightarrow> f64" where
  "f64_add NaN _ = NaN"
| "f64_add _ NaN = NaN"
| "f64_add (Fin a) (Fin b) = rnd (a + b)"
| "f64_add (Fin a) y = y"
| "f64_add PInf y = (if y = NInf then NaN else PInf)"
| "f64_add NInf y = (if y = PInf then NaN else NInf)"

fun f64_mul :: "f64 \<Rightarrow> f64 \<Rightarrow> f64" where
  "f64_mul NaN _ = NaN"
| "f64_mul _ NaN = NaN"
| "f64_mul (Fin a) (Fin b) = rnd (a * b)"
| "f64_mul (Fin a) y = (if a = 0 then NaN else if 0 < a then y else f64_neg y)"
| "f64_mul x (Fin b) = (if b = 0 then NaN else if 0 < b then x else f64_neg x)"
| "f64_mul x y = (if x = y then PInf else NInf)"


fun f64_div :: "f64 \<Rightarrow> f64 \<Rightarrow> f64" where
  "f64_div NaN _ = NaN"
| "f64_div _ NaN = NaN"
| "f64_div (Fin a) (Fin b) =
     (if b = 0 then (if a = 0 then NaN else if 0 < a then PInf else NInf) else rnd (a / b))"
| "f64_div (Fin a) y = Fin 0"
| "f64_div x (Fin b) = (if b < 0 then f64_neg x else x)"
| "f64_div x y = NaN"

instantiation f64 :: "{plus, minus, times, inverse, uminus, abs, ord, zero, one}"
begin

definition plus_f64 :: "f64 \<Rightarrow> f64 \<Rightarrow> f64" where [simp]: "x + y = f64_add x y"
definition minus_f64 :: "f64 \<Rightarrow> f64 \<Rightarrow> f64" where [simp]: "x - y = f64_add x (f64_neg y)"
definition times_f64 :: "f64 \<Rightarrow> f64 \<Rightarrow> f64" where [simp]: "x * y = f64_mul x y"
definition divide_f64 :: "f64 \<Rightarrow> f64 \<Rightarrow> f64" where [simp]: "x div y = f64_div x y"
definition inverse_f64 :: "f64 \<Rightarrow> f64" where [simp]: "inverse x = f64_div (Fin 1) x"
definition uminus_f64 :: "f64 \<Rightarrow> f64" where [simp]: "- x = f64_neg x"
definition abs_f64 :: "f64 \<Rightarrow> f64" where
  "\<bar>x\<bar> = (case x of Fin a \<Rightarrow> Fin \<bar>a\<bar> | NInf \<Rightarrow> PInf | _ \<Rightarrow> x)"
definition less_f64 :: "f64 \<Rightarrow> f64 \<Rightarrow> bool" where [simp]: "x < y = f64_lt x y"
definition less_eq_f64 :: "f64 \<Rightarrow> f64 \<Rightarrow> bool" where [simp]: "x \<le> y = f64_le x y"
definition zero_f64 :: f64 where [simp]: "0 = Fin 0"
definition one_f64 :: f64 where [simp]: "1 = Fin 1"

instance ..

end

lemma abs_f64_simps [simp]: "\<bar>Fin a\<bar> = Fin \<bar>a\<bar>" "\<bar>PInf\<bar> = PInf" "\<bar>NInf\<bar> = PInf" "\<bar>NaN\<bar> = NaN"
  by (simp_all add: abs_f64_def)

text \<open>The IEEE \<open>==\<close>: NaN is not equal to itself.\<close>

definition f64_eq :: "f64 \<Rightarrow> f64 \<Rightarrow> bool" where
  "f64_eq x y \<longleftrightarrow> x \<noteq> NaN \<and> x = y"

definition is_finite :: "f64 \<Rightarrow> bool" where
  "is_finite x \<longleftrightarrow> (case x of Fin _ \<Rightarrow> True | _ \<Rightarrow> False)"

text \<open>\<open>f64::max\<close> and \<open>f64::min\<close> ignore a NaN operand.\<close>

definition f64_max :: "f64 \<Rightarrow> f64 \<Rightarrow> f64" where
  "f64_max x y = (if x = NaN then y else if y = NaN then x else if x < y then y else x)"

definition f64_min :: "f64 \<Rightarrow> f64 \<Rightarrow> f64" where
  "f64_min x y = (if x = NaN then y else if y = NaN then x else if y < x then y else x)"

definition round_half_away :: "rat \<Rightarrow> int" where
  "round_half_away r = (if 0 \<le> r then \<lfloor>r + 1/2\<rfloor> else - \<lfloor>- r + 1/2\<rfloor>)"

definition f64_round :: "f64 \<Rightarrow> f64" where
  "f64_round x = (case x of Fin r \<Rightarrow> Fin (of_int (round_half_away r)) | _ \<Rightarrow> x)"

definition f64_of_nat :: "nat \<Rightarrow> f64" where
  "f64_of_nat n = rnd (of_nat n)"

text \<open>\<open>as u64\<close> truncates towards zero and saturates; NaN gives 0.\<close>

definition f64_to_u64 :: "f64 \<Rightarrow> nat" where
  "f64_to_u64 x = (case x of Fin r \<Rightarrow> min (nat \<lfloor>r\<rfloor>) (2 ^ 64 - 1) | PInf \<Rightarrow> 2 ^ 64 - 1 | _ \<Rightarrow> 0)"

definition EPSILON :: f64 where
  "EPSILON = Fin (2 powi (- 52))"

section \<open>Representable values and monotone rounding\<close>

definition rep :: "rat \<Rightarrow> bool" where
  "rep r \<longleftrightarrow> rnd r = Fin r"

lemma rep_0 [simp]: "rep 0" by (simp add: rep_def rnd_def)

lemma rnd_0 [simp]: "rnd 0 = Fin 0" by (simp add: rnd_def)

lemma rnd_not_NaN [simp]: "rnd x \<noteq> NaN" by (simp add: rnd_def Let_def)

lemma rnd_uminus: "rnd (- x) = f64_neg (rnd x)"
  by (auto simp: rnd_def Let_def)

lemma rep_uminus [simp]: "rep (- r) \<longleftrightarrow> rep r"
proof -
  have "f64_neg x = Fin (- r) \<longleftrightarrow> x = Fin r" for x by (cases x) auto
  then show ?thesis by (simp add: rep_def rnd_uminus)
qed

lemma rnd_mono_pos:
  assumes "0 < x" "x \<le> y"
  shows "f64_le (rnd x) (rnd y)"
  using rnd_pos_mono [OF assms] assms by (auto simp: rnd_def Let_def)

lemma f64_le_neg: "f64_le (f64_neg x) (f64_neg y) \<longleftrightarrow> f64_le y x"
  by (cases x; cases y) auto

lemma rnd_pos_ge_0: "0 < x \<Longrightarrow> f64_le (Fin 0) (rnd x)"
  using rnd_pos_nonneg [of x] by (auto simp: rnd_def Let_def)

lemma f64_le_trans: "f64_le x y \<Longrightarrow> f64_le y z \<Longrightarrow> f64_le x z"
  by (cases x; cases y; cases z) auto

lemma rnd_mono:
  assumes "x \<le> y"
  shows "f64_le (rnd x) (rnd y)"
proof -
  consider "0 < x" | "x \<le> 0" "0 \<le> y" | "y < 0" by linarith
  then show ?thesis
  proof cases
    case 1
    then show ?thesis using assms by (rule rnd_mono_pos)
  next
    case 2
    have "f64_le (rnd x) (Fin 0)"
      using rnd_pos_ge_0 [of "- x"] 2 f64_le_neg [of "Fin 0" "rnd x"]
      by (cases "x = 0") (auto simp: rnd_uminus)
    moreover have "f64_le (Fin 0) (rnd y)"
      using rnd_pos_ge_0 [of y] 2 by (cases "y = 0") auto
    ultimately show ?thesis by (rule f64_le_trans)
  next
    case 3
    then have "f64_le (rnd (- y)) (rnd (- x))" using assms by (intro rnd_mono_pos) auto
    then show ?thesis by (simp add: rnd_uminus f64_le_neg)
  qed
qed

lemma rnd_le_rep: "x \<le> b \<Longrightarrow> rep b \<Longrightarrow> f64_le (rnd x) (Fin b)"
  using rnd_mono [of x b] by (simp add: rep_def)

lemma rnd_ge_rep: "a \<le> x \<Longrightarrow> rep a \<Longrightarrow> f64_le (Fin a) (rnd x)"
  using rnd_mono [of a x] by (simp add: rep_def)

lemma rep_int:
  assumes "\<bar>n\<bar> \<le> 2 ^ 53"
  shows "rep (of_int n)"
proof -
  have *: "rep (of_int m)" if "0 < m" "m \<le> 2 ^ 53" for m :: int
  proof -
    have "(of_int m :: rat) \<le> of_int (2 ^ 53)" using that(2) by (simp only: of_int_le_iff)
    moreover have "(2 :: rat) ^ 53 < 2 powi 1024" by (simp add: power_strict_increasing)
    ultimately have "\<not> 2 powi 1024 \<le> (of_int m :: rat)" by simp
    then show ?thesis using rnd_pos_int [OF that] that by (simp add: rep_def rnd_def)
  qed
  consider "n = 0" | "0 < n" | "0 < - n" by linarith
  then show ?thesis
  proof cases
    case 3
    then have "rep (of_int (- n))" using assms by (intro *) auto
    then show ?thesis by simp
  qed (use * assms in auto)
qed

lemma rnd_rep:
  assumes "rnd x = Fin r"
  shows "rep r"
proof (cases "r = 0")
  case False
  let ?y = "rnd_pos \<bar>x\<bar>"
  have x: "x \<noteq> 0" using assms False by auto
  have y: "\<bar>r\<bar> = ?y" and lt: "\<not> 2 powi 1024 \<le> ?y"
    using assms x rnd_pos_nonneg [of "\<bar>x\<bar>"] by (auto simp: rnd_def Let_def split: if_splits)
  have "rnd_pos ?y = ?y" using x y False by (intro rnd_pos_idem) auto
  with y lt have "rep \<bar>r\<bar>" using False by (auto simp: rep_def rnd_def Let_def)
  then show ?thesis by (cases "0 < r") (auto simp: abs_if split: if_splits)
qed simp

lemma rnd_between:
  assumes "rep a" "rep b" "a \<le> x" "x \<le> b"
  obtains r where "rnd x = Fin r" "a \<le> r" "r \<le> b" "rep r"
  using rnd_ge_rep [OF assms(3,1)] rnd_le_rep [OF assms(4,2)] rnd_rep [of x]
  by (cases "rnd x") auto

lemma rep_nat: "n \<le> 2 ^ 53 \<Longrightarrow> rep (of_nat n)"
  using rep_int [of "int n"] by simp

lemma rep_pow2:
  assumes "- 1074 \<le> e" "e < 1024"
  shows "rep (2 powi e)"
proof -
  have "\<not> 2 powi 1024 \<le> (2 :: rat) powi e" using assms(2) by (subst pow2_le_iff) simp
  moreover have "(2 :: rat) powi e \<noteq> 0" by simp
  ultimately show ?thesis using rnd_pos_pow2 [OF assms(1)] by (simp add: rep_def rnd_def)
qed

end
