(* ===== verification/Durations.thy ===== *)
theory Durations
  imports F64
begin

text \<open>
  \<open>std::time::Duration\<close>: a number of whole seconds (\<open>u64\<close>) and of nanoseconds below
  $10^9$. The pair is carried as the total number of nanoseconds, which orders durations the
  same way; every duration of the program is below \<open>DURATION_LIMIT\<close>. Adding past that limit and
  subtracting a longer duration panic, as the standard library's operators do.
\<close>

type_synonym duration = nat

definition NANOS_PER_SEC :: nat where
  "NANOS_PER_SEC = 1000000000"

definition DURATION_LIMIT :: nat where
  "DURATION_LIMIT = 2 ^ 64 * NANOS_PER_SEC"

definition from_secs :: "nat \<Rightarrow> duration" where
  "from_secs s = s * NANOS_PER_SEC"

definition from_millis :: "nat \<Rightarrow> duration" where
  "from_millis ms = ms * 1000000"

definition from_micros :: "nat \<Rightarrow> duration" where
  "from_micros us = us * 1000"

definition dur_add :: "duration \<Rightarrow> duration \<Rightarrow> duration panicky" where
  "dur_add a b = (if a + b < DURATION_LIMIT then Some (a + b) else None)"

definition dur_sub :: "duration \<Rightarrow> duration \<Rightarrow> duration panicky" where
  "dur_sub a b = (if b \<le> a then Some (a - b) else None)"

text \<open>\<open>iter().sum()\<close> over durations adds from zero, left to right.\<close>

fun dur_sum_from :: "duration \<Rightarrow> duration list \<Rightarrow> duration panicky" where
  "dur_sum_from acc [] = Some acc"
| "dur_sum_from acc (d # ds) =
     (case dur_add acc d of None \<Rightarrow> None | Some acc' \<Rightarrow> dur_sum_from acc' ds)"

definition dur_sum :: "duration list \<Rightarrow> duration panicky" where
  "dur_sum ds = dur_sum_from 0 ds"

definition as_secs_f64 :: "duration \<Rightarrow> f64" where
  "as_secs_f64 d =
     f64_of_nat (d div NANOS_PER_SEC) + f64_of_nat (d mod NANOS_PER_SEC) / f64_of_nat NANOS_PER_SEC"

text \<open>
  \<open>Duration::from_secs_f64\<close> rounds to the nearest nanosecond (ties to even) and panics on a
  negative, non-finite or out-of-range number of seconds.
\<close>

definition from_secs_f64 :: "f64 \<Rightarrow> duration panicky" where
  "from_secs_f64 x =
     (case x of
        Fin s \<Rightarrow>
          (let n = round_half_even (s * of_nat NANOS_PER_SEC)
           in if s < 0 \<or> int DURATION_LIMIT \<le> n then None else Some (nat n))
      | _ \<Rightarrow> None)"

lemma dur_sum_from_eq:
  "acc + sum_list ds < DURATION_LIMIT \<Longrightarrow> dur_sum_from acc ds = Some (acc + sum_list ds)"
  by (induction ds arbitrary: acc) (auto simp: dur_add_def)

lemma dur_sum_eq: "sum_list ds < DURATION_LIMIT \<Longrightarrow> dur_sum ds = Some (sum_list ds)"
  by (simp add: dur_sum_def dur_sum_from_eq)

lemma dur_sum_from_Some: "dur_sum_from acc ds = Some d \<Longrightarrow> d = acc + sum_list ds"
  by (induction ds arbitrary: acc) (fastforce simp: dur_add_def split: if_splits)+

lemma dur_sum_Some: "dur_sum ds = Some d \<Longrightarrow> d = sum_list ds"
  by (auto simp: dur_sum_def dest: dur_sum_from_Some)

text \<open>
  The fractional part of a duration in seconds: the quotient of two exactly represented
  integers, rounded once, lies in the unit interval and grows with the nanoseconds.
\<close>

definition frac_secs :: "nat \<Rightarrow> rat" where
  "frac_secs n = of_nat n / of_nat NANOS_PER_SEC"

lemma frac_secs_bounds: "n \<le> NANOS_PER_SEC \<Longrightarrow> 0 \<le> frac_secs n \<and> frac_secs n \<le> 1"
  by (simp add: frac_secs_def NANOS_PER_SEC_def divide_le_eq)

lemma frac_secs_mono: "m \<le> n \<Longrightarrow> frac_secs m \<le> frac_secs n"
  by (simp add: frac_secs_def NANOS_PER_SEC_def divide_right_mono)

lemma rep_1 [simp]: "rep 1"
  using rep_int [of 1] by simp

lemma rnd_frac_secs:
  assumes "n \<le> NANOS_PER_SEC"
  obtains q where "rnd (frac_secs n) = Fin q" "0 \<le> q" "q \<le> 1" "rep q"
  using rnd_between [of 0 1 "frac_secs n"] frac_secs_bounds [OF assms] by auto

lemma f64_of_nat_exact: "n \<le> 2 ^ 53 \<Longrightarrow> f64_of_nat n = Fin (of_nat n)"
  using rep_nat [of n] by (simp add: f64_of_nat_def rep_def)

lemma frac_secs_f64:
  assumes "n < NANOS_PER_SEC"
  shows "f64_of_nat n / f64_of_nat NANOS_PER_SEC = rnd (frac_secs n)"
proof -
  have "NANOS_PER_SEC \<le> 2 ^ 53" by (simp add: NANOS_PER_SEC_def)
  then have "f64_of_nat n = Fin (of_nat n)" "f64_of_nat NANOS_PER_SEC = Fin (of_nat NANOS_PER_SEC)"
    using assms by (auto intro!: f64_of_nat_exact)
  then show ?thesis by (simp add: frac_secs_def NANOS_PER_SEC_def)
qed

text \<open>Up to $2^{53}$ whole seconds the conversion to seconds is total and monotone.\<close>

lemma as_secs_f64_Fin:
  assumes "d div NANOS_PER_SEC \<le> 2 ^ 53"
  obtains q r where "rnd (frac_secs (d mod NANOS_PER_SEC)) = Fin q" "0 \<le> q" "q \<le> 1"
    "as_secs_f64 d = Fin r" "rnd (of_nat (d div NANOS_PER_SEC) + q) = Fin r" "0 \<le> r"
proof -
  let ?s = "of_nat (d div NANOS_PER_SEC) :: rat"
  have m: "d mod NANOS_PER_SEC < NANOS_PER_SEC" by (simp add: NANOS_PER_SEC_def)
  obtain q where q: "rnd (frac_secs (d mod NANOS_PER_SEC)) = Fin q" "0 \<le> q" "q \<le> 1"
    using rnd_frac_secs m less_imp_le by metis
  have "rep ((2::rat) ^ 54)" using rep_pow2 [of 54] by simp
  moreover have "?s \<le> of_nat (2 ^ 53)" using assms by (simp only: of_nat_le_iff)
  then have "?s + q \<le> 2 ^ 54" using q(3) by simp
  ultimately obtain r where r: "rnd (?s + q) = Fin r" "0 \<le> r"
    using rnd_between [of 0 "2 ^ 54" "?s + q"] q(2) by (auto simp: of_nat_0_le_iff)
  have "as_secs_f64 d = rnd (?s + q)"
    using frac_secs_f64 [OF m] q(1) f64_of_nat_exact [OF assms] by (simp add: as_secs_f64_def)
  then show thesis using that q r by simp
qed

lemma as_secs_f64_mono:
  assumes "d \<le> d'" "d' div NANOS_PER_SEC \<le> 2 ^ 53"
  shows "as_secs_f64 d \<le> as_secs_f64 d'"
proof -
  let ?s = "d div NANOS_PER_SEC" and ?s' = "d' div NANOS_PER_SEC"
  have le: "?s \<le> ?s'" using assms(1) by (rule div_le_mono)
  with assms(2) have "?s \<le> 2 ^ 53" by linarith
  then obtain q where q: "rnd (frac_secs (d mod NANOS_PER_SEC)) = Fin q" "q \<le> 1"
    "as_secs_f64 d = rnd (of_nat ?s + q)"
    by (elim as_secs_f64_Fin) simp
  obtain q' where q': "rnd (frac_secs (d' mod NANOS_PER_SEC)) = Fin q'" "0 \<le> q'"
    "as_secs_f64 d' = rnd (of_nat ?s' + q')"
    using assms(2) by (elim as_secs_f64_Fin) simp
  have "of_nat ?s + q \<le> of_nat ?s' + q'"
  proof (cases "?s = ?s'")
    case True
    then have "d mod NANOS_PER_SEC \<le> d' mod NANOS_PER_SEC"
      using assms(1) div_mult_mod_eq [of d NANOS_PER_SEC] div_mult_mod_eq [of d' NANOS_PER_SEC]
      by (metis add_le_cancel_left)
    then have "f64_le (Fin q) (Fin q')"
      using rnd_mono [OF frac_secs_mono] q(1) q'(1) by metis
    with True show ?thesis by simp
  next
    case False
    with le have "?s + 1 \<le> ?s'" by simp
    then have "(of_nat (?s + 1) :: rat) \<le> of_nat ?s'" by (simp only: of_nat_le_iff)
    then show ?thesis using q(2) q'(2) by simp
  qed
  then show ?thesis unfolding q(3) q'(3) less_eq_f64_def by (rule rnd_mono)
qed

text \<open>
  The position inside a ramp stage: how far into a stage of length \<open>len\<close> an instant is, as
  the executors compute it, never leaves the unit interval.
\<close>

definition progress :: "duration \<Rightarrow> duration \<Rightarrow> f64" where
  "progress d len = as_secs_f64 d / f64_max (as_secs_f64 len) (rnd (1 / 1000000000))"

lemma progress_unit:
  assumes "d \<le> len" "len div NANOS_PER_SEC \<le> 2 ^ 53"
  obtains p where "progress d len = Fin p" "0 \<le> p" "p \<le> 1"
proof -
  have "d div NANOS_PER_SEC \<le> 2 ^ 53" using assms div_le_mono [OF assms(1)] order_trans by blast
  then obtain a where a: "as_secs_f64 d = Fin a" "0 \<le> a" by (elim as_secs_f64_Fin)
  obtain b where b: "as_secs_f64 len = Fin b" using assms(2) by (elim as_secs_f64_Fin)
  have ab: "a \<le> b" using as_secs_f64_mono [OF assms] by (simp add: a b)
  obtain e where e: "rnd (1 / 1000000000) = Fin e" "2 powi (- 30) \<le> e"
    using rnd_between [of "2 powi (- 30)" 1 "1 / 1000000000"] rep_pow2 [of "- 30"]
    by (auto simp: power_int_minus power_int_numeral)
  obtain m where m: "f64_max (as_secs_f64 len) (rnd (1 / 1000000000)) = Fin m" "b \<le> m" "e \<le> m"
    by (cases "b < e") (auto simp: f64_max_def b e(1))
  have "0 < e" using e(2) less_le_trans [of 0 "2 powi (- 30) :: rat" e] by simp
  with m(3) have "0 < m" by simp
  moreover have "0 \<le> a / m" "a / m \<le> 1" using \<open>0 < m\<close> a(2) ab m(2) by (simp_all add: divide_le_eq)
  then obtain p where "rnd (a / m) = Fin p" "0 \<le> p" "p \<le> 1" using rnd_between [of 0 1 "a / m"] by auto
  ultimately show thesis using that by (simp add: progress_def a(1) m(1))
qed

end
