(* ===== verification/Executor_Spec.thy ===== *)
theory Executor_Spec
  imports Durations
begin

text \<open>
  What a scenario asks of its executor: the scenario's optional fields and their validation
  into a strict \<open>ExecutorSpec\<close> (\<open>loadr-config/src/plan.rs\<close>), the ramp schedules, the split
  of a specification across the agents of a distributed run and the resulting numbering of
  virtual users (\<open>loadr-core/src/executor.rs\<close>, \<open>engine.rs\<close>, \<open>loadr-agent/src/controller.rs\<close>).
\<close>

section \<open>The executor specification\<close>

datatype executor_kind =
    KConstantVus | KRampingVus | KConstantArrivalRate | KRampingArrivalRate
  | KPerVuIterations | KSharedIterations | KExternallyControlled

datatype exec_spec =
    ConstantVus u64 duration
  | RampingVus u64 "(duration \<times> u64) list"
  | ConstantArrivalRate f64 duration u64 u64
  | RampingArrivalRate f64 "(duration \<times> f64) list" u64 u64
  | PerVuIterations u64 u64 duration
  | SharedIterations u64 u64 duration
  | ExternallyControlled u64 "duration option"

record stage =
  stage_duration :: duration
  stage_target :: f64

record scenario =
  sc_executor :: executor_kind
  sc_vus :: "u64 option"
  sc_duration :: "duration option"
  sc_iterations :: "u64 option"
  sc_start_vus :: "u64 option"
  sc_stages :: "stage list"
  sc_rate :: "f64 option"
  sc_start_rate :: "f64 option"
  sc_time_unit :: "duration option"
  sc_pre_allocated_vus :: "u64 option"
  sc_max_vus :: "u64 option"
  sc_max_duration :: "duration option"

text \<open>One constructor per error message of \<open>Scenario::executor_spec\<close>.\<close>

datatype spec_error =
    TimeUnitZero
  | Requires executor_kind string
  | VusZero | DurationZero | StagesEmpty executor_kind
  | BadTarget f64 | NegativeRateTarget | RateNotPositive | MaxBelowPre | VusOrIterationsZero
  | MaxVusZero

text \<open>
  \<open>f64::fract\<close>: the value minus its truncation, a subtraction that is exact on floats; NaN for
  NaN and the infinities.
\<close>

definition f64_fract :: "f64 \<Rightarrow> f64" where
  "f64_fract x =
     (case x of
        Fin r \<Rightarrow> Fin (r - of_int (if 0 \<le> r then \<lfloor>r\<rfloor> else \<lceil>r\<rceil>))
      | _ \<Rightarrow> NaN)"

definition require :: "spec_error \<Rightarrow> 'a option \<Rightarrow> (spec_error, 'a) result" where
  "require e x = (case x of None \<Rightarrow> Inl e | Some v \<Rightarrow> Inr v)"

text \<open>The two stage conversions of \<open>executor_spec\<close>.\<close>

definition vus_stage :: "stage \<Rightarrow> (spec_error, duration \<times> u64) result" where
  "vus_stage s =
     (if stage_target s < Fin 0 \<or> \<not> f64_eq (f64_fract (stage_target s)) (Fin 0)
      then Inl (BadTarget (stage_target s))
      else Inr (stage_duration s, of_nat (f64_to_u64 (stage_target s))))"

definition rate_stage :: "(f64 \<Rightarrow> f64) \<Rightarrow> stage \<Rightarrow> (spec_error, duration \<times> f64) result" where
  "rate_stage per_second s =
     (if stage_target s < Fin 0 then Inl NegativeRateTarget
      else Inr (stage_duration s, per_second (stage_target s)))"

definition DEFAULT_MAX_DURATION :: duration where
  "DEFAULT_MAX_DURATION = from_secs 600"

fun spec_of_kind :: "scenario \<Rightarrow> (f64 \<Rightarrow> f64) \<Rightarrow> executor_kind \<Rightarrow> (spec_error, exec_spec) result" where
  "spec_of_kind s per_second KConstantVus =
     (case require (Requires KConstantVus ''vus'') (sc_vus s) of
        Inl e \<Rightarrow> Inl e
      | Inr vus \<Rightarrow>
          (case require (Requires KConstantVus ''duration'') (sc_duration s) of
             Inl e \<Rightarrow> Inl e
           | Inr duration \<Rightarrow>
               if vus = 0 then Inl VusZero
               else if duration = 0 then Inl DurationZero
               else Inr (ConstantVus vus duration)))"
| "spec_of_kind s per_second KRampingVus =
     (if sc_stages s = [] then Inl (StagesEmpty KRampingVus)
      else case collect_results vus_stage (sc_stages s) of
             Inl e \<Rightarrow> Inl e
           | Inr stages \<Rightarrow>
               Inr (RampingVus (case sc_start_vus s of None \<Rightarrow> 0 | Some v \<Rightarrow> v) stages))"
| "spec_of_kind s per_second KConstantArrivalRate =
     (case require (Requires KConstantArrivalRate ''rate'') (sc_rate s) of
        Inl e \<Rightarrow> Inl e
      | Inr rate \<Rightarrow>
          (case require (Requires KConstantArrivalRate ''duration'') (sc_duration s) of
             Inl e \<Rightarrow> Inl e
           | Inr duration \<Rightarrow>
               (case require (Requires KConstantArrivalRate ''pre_allocated_vus'') (sc_pre_allocated_vus s) of
                  Inl e \<Rightarrow> Inl e
                | Inr pre \<Rightarrow>
                    if rate \<le> Fin 0 then Inl RateNotPositive
                    else let max_vus = (case sc_max_vus s of None \<Rightarrow> pre | Some m \<Rightarrow> m)
                         in if max_vus < pre then Inl MaxBelowPre
                            else Inr (ConstantArrivalRate (per_second rate) duration pre max_vus))))"
| "spec_of_kind s per_second KRampingArrivalRate =
     (if sc_stages s = [] then Inl (StagesEmpty KRampingArrivalRate)
      else case require (Requires KRampingArrivalRate ''pre_allocated_vus'') (sc_pre_allocated_vus s) of
             Inl e \<Rightarrow> Inl e
           | Inr pre \<Rightarrow>
               let max_vus = (case sc_max_vus s of None \<Rightarrow> pre | Some m \<Rightarrow> m)
               in if max_vus < pre then Inl MaxBelowPre
                  else case collect_results (rate_stage per_second) (sc_stages s) of
                         Inl e \<Rightarrow> Inl e
                       | Inr stages \<Rightarrow>
                           Inr (RampingArrivalRate
                                  (per_second (case sc_start_rate s of None \<Rightarrow> Fin 0 | Some r \<Rightarrow> r))
                                  stages pre max_vus))"
| "spec_of_kind s per_second KPerVuIterations =
     (case require (Requires KPerVuIterations ''vus'') (sc_vus s) of
        Inl e \<Rightarrow> Inl e
      | Inr vus \<Rightarrow>
          (case require (Requires KPerVuIterations ''iterations'') (sc_iterations s) of
             Inl e \<Rightarrow> Inl e
           | Inr iterations \<Rightarrow>
               if vus = 0 \<or> iterations = 0 then Inl VusOrIterationsZero
               else Inr (PerVuIterations vus iterations
                          (case sc_max_duration s of None \<Rightarrow> DEFAULT_MAX_DURATION | Some d \<Rightarrow> d))))"
| "spec_of_kind s per_second KSharedIterations =
     (case require (Requires KSharedIterations ''vus'') (sc_vus s) of
        Inl e \<Rightarrow> Inl e
      | Inr vus \<Rightarrow>
          (case require (Requires KSharedIterations ''iterations'') (sc_iterations s) of
             Inl e \<Rightarrow> Inl e
           | Inr iterations \<Rightarrow>
               if vus = 0 \<or> iterations = 0 then Inl VusOrIterationsZero
               else Inr (SharedIterations vus iterations
                          (case sc_max_duration s of None \<Rightarrow> DEFAULT_MAX_DURATION | Some d \<Rightarrow> d))))"
| "spec_of_kind s per_second KExternallyControlled =
     (case require (Requires KExternallyControlled ''max_vus'') (sc_max_vus s) of
        Inl e \<Rightarrow> Inl e
      | Inr max_vus \<Rightarrow>
          if max_vus = 0 then Inl MaxVusZero
          else Inr (ExternallyControlled max_vus (sc_duration s)))"

definition executor_spec :: "scenario \<Rightarrow> (spec_error, exec_spec) result" where
  "executor_spec s =
     (let time_unit = (case sc_time_unit s of None \<Rightarrow> from_secs 1 | Some d \<Rightarrow> d)
      in if time_unit = 0 then Inl TimeUnitZero
         else spec_of_kind s (\<lambda>rate. rate / as_secs_f64 time_unit) (sc_executor s))"

definition scheduled_duration :: "exec_spec \<Rightarrow> duration option panicky" where
  "scheduled_duration spec =
     (case spec of
        ConstantVus _ duration \<Rightarrow> Some (Some duration)
      | RampingVus _ stages \<Rightarrow> map_option Some (dur_sum (map fst stages))
      | ConstantArrivalRate _ duration _ _ \<Rightarrow> Some (Some duration)
      | RampingArrivalRate _ stages _ _ \<Rightarrow> map_option Some (dur_sum (map fst stages))
      | PerVuIterations _ _ max_duration \<Rightarrow> Some (Some max_duration)
      | SharedIterations _ _ max_duration \<Rightarrow> Some (Some max_duration)
      | ExternallyControlled _ duration \<Rightarrow> Some duration)"

definition peak_vus :: "exec_spec \<Rightarrow> u64" where
  "peak_vus spec =
     (case spec of
        ConstantVus vus _ \<Rightarrow> vus
      | RampingVus start_vus stages \<Rightarrow>
          (case map snd stages @ [start_vus] of [] \<Rightarrow> 0 | t # ts \<Rightarrow> foldl max t ts)
      | ConstantArrivalRate _ _ _ max_vus \<Rightarrow> max_vus
      | RampingArrivalRate _ _ _ max_vus \<Rightarrow> max_vus
      | ExternallyControlled max_vus _ \<Rightarrow> max_vus
      | PerVuIterations vus _ _ \<Rightarrow> vus
      | SharedIterations vus _ _ \<Rightarrow> vus)"

definition vu_capacity :: "exec_spec \<Rightarrow> u64" where
  "vu_capacity spec =
     (case spec of
        ConstantVus vus _ \<Rightarrow> vus
      | PerVuIterations vus _ _ \<Rightarrow> vus
      | SharedIterations vus _ _ \<Rightarrow> vus
      | RampingVus start_vus stages \<Rightarrow> foldl max start_vus (map snd stages)
      | ConstantArrivalRate _ _ pre max_vus \<Rightarrow> max pre max_vus
      | RampingArrivalRate _ _ pre max_vus \<Rightarrow> max pre max_vus
      | ExternallyControlled max_vus _ \<Rightarrow> max_vus)"

section \<open>Ramp schedules\<close>

text \<open>
  The loop of \<open>vus_at\<close> and of \<open>RateSchedule::rate_at\<close>: the outer \<open>None\<close> is the panic of
  adding or subtracting durations, \<open>Some None\<close> is a loop that ran past the last stage.
\<close>

fun vus_at_loop :: "f64 \<Rightarrow> duration \<Rightarrow> (duration \<times> u64) list \<Rightarrow> duration \<Rightarrow> u64 option panicky" where
  "vus_at_loop from offset [] t = Some None"
| "vus_at_loop from offset ((len, target) # stages) t =
     (let to = f64_of_nat (unat target)
      in case dur_add offset len of
           None \<Rightarrow> None
         | Some end' \<Rightarrow>
             if t < end'
             then (case dur_sub t offset of
                     None \<Rightarrow> None
                   | Some d \<Rightarrow>
                       Some (Some (of_nat (f64_to_u64 (f64_round (from + (to - from) * progress d len))))))
             else vus_at_loop to end' stages t)"

definition vus_at :: "u64 \<Rightarrow> (duration \<times> u64) list \<Rightarrow> duration \<Rightarrow> u64 panicky" where
  "vus_at start_vus stages t =
     (case vus_at_loop (f64_of_nat (unat start_vus)) 0 stages t of
        None \<Rightarrow> None
      | Some (Some v) \<Rightarrow> Some v
      | Some None \<Rightarrow> Some (case rev stages of [] \<Rightarrow> start_vus | (_, target) # _ \<Rightarrow> target))"

datatype rate_schedule =
    Constant f64 duration
  | Ramping f64 "(duration \<times> f64) list"

definition total_duration :: "rate_schedule \<Rightarrow> duration panicky" where
  "total_duration sch =
     (case sch of Constant _ d \<Rightarrow> Some d | Ramping _ stages \<Rightarrow> dur_sum (map fst stages))"

fun rate_at_loop :: "f64 \<Rightarrow> duration \<Rightarrow> (duration \<times> f64) list \<Rightarrow> duration \<Rightarrow> f64 option panicky" where
  "rate_at_loop from offset [] t = Some None"
| "rate_at_loop from offset ((len, target) # stages) t =
     (case dur_add offset len of
        None \<Rightarrow> None
      | Some end' \<Rightarrow>
          if t < end'
          then (case dur_sub t offset of
                  None \<Rightarrow> None
                | Some d \<Rightarrow> Some (Some (from + (target - from) * progress d len)))
          else rate_at_loop target end' stages t)"

definition rate_at :: "rate_schedule \<Rightarrow> duration \<Rightarrow> f64 panicky" where
  "rate_at sch t =
     (case sch of
        Constant rate _ \<Rightarrow> Some rate
      | Ramping start_rate stages \<Rightarrow>
          (case rate_at_loop start_rate 0 stages t of
             None \<Rightarrow> None
           | Some (Some r) \<Rightarrow> Some r
           | Some None \<Rightarrow> Some (case rev stages of [] \<Rightarrow> start_rate | (_, r) # _ \<Rightarrow> r)))"

section \<open>Partitioning\<close>

definition split :: "u64 \<Rightarrow> u64 \<Rightarrow> u64 \<Rightarrow> u64" where
  "split index cnt n = n div cnt + (if index < n mod cnt then 1 else 0)"

definition split_min1 :: "u64 \<Rightarrow> u64 \<Rightarrow> u64 \<Rightarrow> u64" where
  "split_min1 index cnt n = max (split index cnt n) (if 0 < n then 1 else 0)"

definition frac :: "u64 \<Rightarrow> f64 \<Rightarrow> f64" where
  "frac cnt r = r / f64_of_nat (unat cnt)"

text \<open>\<open>partition_spec\<close> asserts that the partition is valid: a failed assertion panics.\<close>

definition partition_spec :: "exec_spec \<Rightarrow> u64 \<Rightarrow> u64 \<Rightarrow> exec_spec panicky" where
  "partition_spec spec index cnt =
     (if \<not> (0 < cnt \<and> index < cnt) then None
      else Some
        (case spec of
           ConstantVus vus duration \<Rightarrow> ConstantVus (split index cnt vus) duration
         | RampingVus start_vus stages \<Rightarrow>
             RampingVus (split index cnt start_vus) (map (\<lambda>(d, t). (d, split index cnt t)) stages)
         | ConstantArrivalRate rate duration pre max_vus \<Rightarrow>
             ConstantArrivalRate (frac cnt rate) duration
               (split_min1 index cnt pre) (split_min1 index cnt max_vus)
         | RampingArrivalRate start_rate stages pre max_vus \<Rightarrow>
             RampingArrivalRate (frac cnt start_rate) (map (\<lambda>(d, r). (d, frac cnt r)) stages)
               (split_min1 index cnt pre) (split_min1 index cnt max_vus)
         | PerVuIterations vus iterations max_duration \<Rightarrow>
             PerVuIterations (split index cnt vus) iterations max_duration
         | SharedIterations vus iterations max_duration \<Rightarrow>
             SharedIterations (split_min1 index cnt vus) (split index cnt iterations) max_duration
         | ExternallyControlled max_vus duration \<Rightarrow>
             ExternallyControlled (split_min1 index cnt max_vus) duration))"

text \<open>The controller's split of a \<open>scale\<close> command; dividing by zero agents panics.\<close>

definition scale_shares :: "u64 \<Rightarrow> u64 \<Rightarrow> u64 list" where
  "scale_shares total_vus agents =
     map (\<lambda>i. total_vus div agents + (if of_nat i < total_vus mod agents then 1 else 0)) [0..<unat agents]"

record placement =
  pl_vus :: u64
  pl_offset :: u64

text \<open>
  One scenario's contribution to the shares of all partitions; the addition wraps as the
  release build's does.
\<close>

fun add_shares :: "exec_spec \<Rightarrow> u64 \<Rightarrow> nat \<Rightarrow> u64 list \<Rightarrow> u64 list panicky" where
  "add_shares spec cnt i [] = Some []"
| "add_shares spec cnt i (share # shares) =
     (case partition_spec spec (of_nat i) cnt of
        None \<Rightarrow> None
      | Some part \<Rightarrow>
          (case add_shares spec cnt (Suc i) shares of
             None \<Rightarrow> None
           | Some rest \<Rightarrow> Some ((share + vu_capacity part) # rest)))"

fun placement_shares ::
  "(string \<times> scenario) list \<Rightarrow> u64 \<Rightarrow> u64 list \<Rightarrow> (string \<times> spec_error, u64 list) result panicky" where
  "placement_shares [] cnt shares = Some (Inr shares)"
| "placement_shares ((name, sc) # scs) cnt shares =
     (case executor_spec sc of
        Inl e \<Rightarrow> Some (Inl (name, e))
      | Inr spec \<Rightarrow>
          (case add_shares spec cnt 0 shares of
             None \<Rightarrow> None
           | Some shares' \<Rightarrow> placement_shares scs cnt shares'))"

definition vu_placement ::
  "(string \<times> scenario) list \<Rightarrow> (u64 \<times> u64) option
     \<Rightarrow> (string \<times> spec_error, placement) result panicky" where
  "vu_placement scenarios placed =
     (let (index, cnt) = (case placed of None \<Rightarrow> (0, 1) | Some p \<Rightarrow> p)
      in case placement_shares scenarios cnt (replicate (unat cnt) 0) of
           None \<Rightarrow> None
         | Some (Inl e) \<Rightarrow> Some (Inl e)
         | Some (Inr shares) \<Rightarrow>
             if unat index < length shares
             then Some (Inr \<lparr>pl_vus = shares ! unat index, pl_offset = sum_list (take (unat index) shares)\<rparr>)
             else None)"

section \<open>What an accepted specification guarantees\<close>

lemma vus_stage_exact:
  assumes "vus_stage sg = Inr (d, v)"
  shows "d = stage_duration sg \<and>
    (\<exists>n. stage_target sg = Fin (of_nat n) \<and> unat v = min n (2 ^ 64 - 1))"
proof (cases "stage_target sg")
  case (Fin r)
  with assms have r: "0 \<le> r" "r = of_int \<lfloor>r\<rfloor>"
    by (auto simp: vus_stage_def f64_fract_def f64_eq_def split: if_splits)
  then have "r = of_nat (nat \<lfloor>r\<rfloor>)" by simp
  moreover have "v = of_nat (min (nat \<lfloor>r\<rfloor>) (2 ^ 64 - 1))"
    using assms Fin by (auto simp: vus_stage_def f64_to_u64_def split: if_splits)
  then have "unat v = min (nat \<lfloor>r\<rfloor>) (2 ^ 64 - 1)" by (simp only:) (rule unat_of_nat_u64, simp)
  ultimately show ?thesis using assms Fin by (auto simp: vus_stage_def split: if_splits)
qed (use assms in \<open>auto simp: vus_stage_def f64_fract_def f64_eq_def split: if_splits\<close>)

text \<open>What each kind of executor may rely on, relative to the stages of the scenario.\<close>

fun spec_ok :: "stage list \<Rightarrow> exec_spec \<Rightarrow> bool" where
  "spec_ok sgs (ConstantVus vus duration) \<longleftrightarrow> vus \<noteq> 0 \<and> duration \<noteq> 0"
| "spec_ok sgs (RampingVus _ stages) \<longleftrightarrow> stages \<noteq> [] \<and>
     list_all2 (\<lambda>sg (d, v). d = stage_duration sg \<and>
       (\<exists>n. stage_target sg = Fin (of_nat n) \<and> unat v = min n (2 ^ 64 - 1))) sgs stages"
| "spec_ok sgs (ConstantArrivalRate _ _ pre max_vus) \<longleftrightarrow> pre \<le> max_vus"
| "spec_ok sgs (RampingArrivalRate _ stages pre max_vus) \<longleftrightarrow> stages \<noteq> [] \<and> pre \<le> max_vus \<and>
     list_all2 (\<lambda>sg (d, _). d = stage_duration sg \<and> \<not> stage_target sg < Fin 0) sgs stages"
| "spec_ok sgs (PerVuIterations vus iterations _) \<longleftrightarrow> vus \<noteq> 0 \<and> iterations \<noteq> 0"
| "spec_ok sgs (SharedIterations vus iterations _) \<longleftrightarrow> vus \<noteq> 0 \<and> iterations \<noteq> 0"
| "spec_ok sgs (ExternallyControlled max_vus _) \<longleftrightarrow> max_vus \<noteq> 0"

lemma collect_results_all2:
  "collect_results f xs = Inr ys \<Longrightarrow> (\<And>x y. f x = Inr y \<Longrightarrow> P x y) \<Longrightarrow> list_all2 P xs ys"
  by (induction xs arbitrary: ys) (auto split: sum.splits)

lemma spec_of_kind_ok:
  assumes "spec_of_kind s ps k = Inr spec"
  shows "spec_ok (sc_stages s) spec"
proof (cases k)
  case KRampingVus
  then obtain st where st: "collect_results vus_stage (sc_stages s) = Inr st" "sc_stages s \<noteq> []"
    "\<exists>v. spec = RampingVus v st"
    using assms by (auto split: if_splits sum.splits)
  have "list_all2 (\<lambda>sg (d, v). d = stage_duration sg \<and>
      (\<exists>n. stage_target sg = Fin (of_nat n) \<and> unat v = min n (2 ^ 64 - 1))) (sc_stages s) st"
    using st(1) by (rule collect_results_all2) (use vus_stage_exact in auto)
  then show ?thesis using st(2,3) by auto
next
  case KRampingArrivalRate
  then obtain st where st: "collect_results (rate_stage ps) (sc_stages s) = Inr st" "sc_stages s \<noteq> []"
    "\<exists>r pre m. spec = RampingArrivalRate r st pre m \<and> pre \<le> m"
    using assms by (auto simp: Let_def not_less require_def split: if_splits sum.splits option.splits)
  have "list_all2 (\<lambda>sg (d, _). d = stage_duration sg \<and> \<not> stage_target sg < Fin 0) (sc_stages s) st"
    using st(1) by (rule collect_results_all2) (auto simp: rate_stage_def split: if_splits)
  then show ?thesis using st(2,3) by auto
qed (use assms in \<open>auto simp: Let_def not_less require_def split: if_splits sum.splits option.splits\<close>)

lemma foldl_max_append: "foldl max a (xs @ [b]) = foldl max (max b a) xs" for a :: "'a :: linorder"
  by (induction xs arbitrary: a) (auto simp: max.assoc max.commute max.left_commute)

lemma peak_vus_ramping: "peak_vus (RampingVus a stages) = vu_capacity (RampingVus a stages)"
  by (cases "map snd stages") (auto simp: peak_vus_def vu_capacity_def foldl_max_append simp del: foldl_append)

lemma peak_vus_capacity: "spec_ok sgs spec \<Longrightarrow> vu_capacity spec = peak_vus spec"
  by (cases spec; simp add: peak_vus_ramping; simp add: vu_capacity_def peak_vus_def)


definition example_scenario :: scenario where
  "example_scenario =
     \<lparr>sc_executor = KConstantVus, sc_vus = Some 10, sc_duration = Some (from_secs 30),
      sc_iterations = None, sc_start_vus = None, sc_stages = [], sc_rate = None, sc_start_rate = None,
      sc_time_unit = None, sc_pre_allocated_vus = None, sc_max_vus = None, sc_max_duration = None\<rparr>"

lemma example_scenario_spec: "executor_spec example_scenario = Inr (ConstantVus 10 (from_secs 30))"
  by (simp add: executor_spec_def example_scenario_def require_def from_secs_def NANOS_PER_SEC_def)


section \<open>Conservation of a partitioned load\<close>

lemma unat_split:
  assumes "0 < cnt" "i < unat cnt"
  shows "unat (split (of_nat i) cnt n) = unat n div unat cnt + (if i < unat n mod unat cnt then 1 else 0)"
proof -
  have c: "0 < unat cnt" using assms(2) by simp
  have i: "unat (of_nat i :: u64) = i"
    using assms(2) unat_u64_less [of cnt] by (intro unat_of_nat_u64) simp
  have lt: "of_nat i < n mod cnt \<longleftrightarrow> i < unat n mod unat cnt"
    by (simp add: word_less_nat_alt unat_mod i)
  have fits: "unat n div unat cnt + (if i < unat n mod unat cnt then 1 else 0) < 2 ^ 64"
  proof (cases "i < unat n mod unat cnt")
    case True
    then have "unat n mod unat cnt \<noteq> 0" by simp
    then have "unat cnt \<noteq> 1" by auto
    with c have "2 \<le> unat cnt" by simp
    then have "unat n div unat cnt \<le> unat n div 2" by (simp add: div_le_mono2)
    also have "unat n div 2 < 2 ^ 63" using unat_u64_less [of n] by (intro less_mult_imp_div_less) simp
    finally show ?thesis by simp
  next
    case False
    have "unat n div unat cnt \<le> unat n" by (rule div_le_dividend)
    also have "\<dots> < 2 ^ 64" by (rule unat_u64_less)
    finally show ?thesis using False by simp
  qed
  have "unat (n div cnt + (if of_nat i < n mod cnt then 1 else 0)) =
      unat (n div cnt) + unat (if of_nat i < n mod cnt then 1 else 0 :: u64)"
    using fits by (intro unat_add_fits) (simp add: unat_div lt)
  then show ?thesis by (simp add: split_def unat_div lt)
qed

lemma sum_list_map_add_const:
  "(\<Sum>i\<leftarrow>xs. c + f i) = length xs * c + (\<Sum>i\<leftarrow>xs. f i)" for c :: nat
  by (induction xs) auto

lemma split_sum:
  assumes "0 < cnt"
  shows "(\<Sum>i\<leftarrow>[0..<unat cnt]. unat (split (of_nat i) cnt n)) = unat n"
proof -
  have "0 < unat cnt" using assms by (simp add: word_less_nat_alt)
  then have le: "unat n mod unat cnt \<le> unat cnt" by (simp add: less_imp_le)
  have "(\<Sum>i\<leftarrow>[0..<unat cnt]. unat (split (of_nat i) cnt n)) =
      (\<Sum>i\<leftarrow>[0..<unat cnt]. unat n div unat cnt + (if i < unat n mod unat cnt then 1 else 0))"
    using assms by (intro arg_cong [of _ _ sum_list] map_cong) (auto simp: unat_split)
  also have "\<dots> = unat cnt * (unat n div unat cnt) + unat n mod unat cnt"
    using le by (simp only: sum_list_map_add_const sum_list_indicator) simp
  finally show ?thesis by simp
qed

lemma unat_split_min1:
  assumes "0 < cnt" "i < unat cnt"
  shows "unat (split_min1 (of_nat i) cnt n) =
    max (unat (split (of_nat i) cnt n)) (if n = 0 then 0 else 1)"
  by (simp add: split_min1_def max_def word_le_nat_alt word_neq_0_conv)

lemma split_min1_sum:
  assumes "0 < cnt"
  shows "(\<Sum>i\<leftarrow>[0..<unat cnt]. unat (split_min1 (of_nat i) cnt n)) =
    (if n = 0 then 0 else max (unat n) (unat cnt))"
proof -
  have c: "0 < unat cnt" using assms by (simp add: word_less_nat_alt)
  consider "n = 0" | "n \<noteq> 0" "unat cnt \<le> unat n" | "n \<noteq> 0" "unat n < unat cnt" by linarith
  then show ?thesis
  proof cases
    case 1
    then have "map (\<lambda>i. unat (split_min1 (of_nat i) cnt n)) [0..<unat cnt] = map (\<lambda>_. 0) [0..<unat cnt]"
      using assms by (intro map_cong) (auto simp: unat_split_min1 unat_split)
    then show ?thesis using 1 by simp
  next
    case 2
    then have "1 \<le> unat n div unat cnt" using c by (simp add: div_greater_zero_iff Suc_le_eq)
    then have "map (\<lambda>i. unat (split_min1 (of_nat i) cnt n)) [0..<unat cnt] =
        map (\<lambda>i. unat (split (of_nat i) cnt n)) [0..<unat cnt]"
      using assms 2 by (intro map_cong) (auto simp: unat_split_min1 unat_split)
    then show ?thesis using 2 split_sum [OF assms, of n] by (simp add: max_def del: map_eq_conv)
  next
    case 3
    then have "map (\<lambda>i. unat (split_min1 (of_nat i) cnt n)) [0..<unat cnt] = map (\<lambda>_. 1) [0..<unat cnt]"
      using assms by (intro map_cong) (auto simp: unat_split_min1 unat_split)
    then show ?thesis using 3 by (simp add: sum_list_triv max_def del: map_eq_conv)
  qed
qed

section \<open>Ramps stay inside their targets\<close>

lemma round_half_away_between:
  assumes "of_nat a \<le> r" "r \<le> of_nat b"
  shows "int a \<le> round_half_away r" "round_half_away r \<le> int b"
proof -
  have "0 \<le> r" using assms(1) order_trans [of 0 "of_nat a :: rat" r] by simp
  then have r: "round_half_away r = \<lfloor>r + 1/2\<rfloor>" by (simp add: round_half_away_def)
  have "of_int (int a) \<le> r + 1/2" using assms(1) by simp
  then show "int a \<le> round_half_away r" by (simp only: r le_floor_iff)
  have "r + 1/2 < of_int (int b + 1)" using assms(2) by simp
  then show "round_half_away r \<le> int b" using floor_less_iff [of "r + 1/2" "int b + 1"] by (simp add: r)
qed

lemma ramp_value:
  assumes "a \<le> 2 ^ 53" "b \<le> 2 ^ 53" "0 \<le> p" "p \<le> 1"
  obtains v where "f64_of_nat a + (f64_of_nat b - f64_of_nat a) * Fin p = Fin v"
    "of_nat (min a b) \<le> v" "v \<le> of_nat (max a b)"
proof -
  let ?d = "int b - int a"
  have rd: "rep (of_int ?d)" using assms by (intro rep_int) simp
  then have d: "f64_of_nat b - f64_of_nat a = Fin (of_int ?d)"
    using assms by (simp add: f64_of_nat_exact rep_def)
  obtain q where q: "rnd (of_int ?d * p) = Fin q" "of_int (min 0 ?d) \<le> q" "q \<le> of_int (max 0 ?d)"
  proof -
    have rep0: "rep (of_int (min 0 ?d))" "rep (of_int (max 0 ?d))"
      using rd by (simp_all add: min_def max_def)
    have "of_int (min 0 ?d) \<le> of_int ?d * p \<and> of_int ?d * p \<le> of_int (max 0 ?d)"
    proof (cases "0 \<le> ?d")
      case True
      then have "0 \<le> (of_int ?d :: rat)" by (simp only: of_int_0_le_iff)
      then show ?thesis using True assms(3,4) mult_left_le [of p "of_int ?d :: rat"]
        by (simp add: min_def max_def del: of_int_diff)
    next
      case False
      then have "(of_int ?d :: rat) \<le> 0" by (simp only: of_int_le_0_iff)
      then show ?thesis using False assms(3,4) mult_left_mono_neg [of p 1 "of_int ?d :: rat"]
        by (simp add: min_def max_def mult_nonpos_nonneg del: of_int_diff)
    qed
    then show thesis using rep0 that rnd_between by metis
  qed
  have "of_nat (min a b) \<le> of_nat a + q" "of_nat a + q \<le> of_nat (max a b)"
    using q(2,3) by (auto simp: min_def max_def split: if_splits)
  then obtain v where "rnd (of_nat a + q) = Fin v" "of_nat (min a b) \<le> v" "v \<le> of_nat (max a b)"
    using assms rnd_between [of "of_nat (min a b)" "of_nat (max a b)" "of_nat a + q"]
    by (metis max.bounded_iff min.coboundedI1 rep_nat)
  then show thesis using that assms(1) q(1) by (simp only: d) (simp add: f64_of_nat_exact)
qed

lemma ramp_step:
  assumes "lo \<le> a" "a \<le> hi" "lo \<le> b" "b \<le> hi" "hi \<le> 2 ^ 53" "0 \<le> p" "p \<le> 1"
  shows "lo \<le> f64_to_u64 (f64_round (f64_of_nat a + (f64_of_nat b - f64_of_nat a) * Fin p))"
    "f64_to_u64 (f64_round (f64_of_nat a + (f64_of_nat b - f64_of_nat a) * Fin p)) \<le> hi"
proof -
  obtain v where v: "f64_of_nat a + (f64_of_nat b - f64_of_nat a) * Fin p = Fin v"
      "of_nat (min a b) \<le> v" "v \<le> of_nat (max a b)"
    using assms by (elim ramp_value [of a b p, rotated 4]) auto
  have "int (min a b) \<le> round_half_away v" "round_half_away v \<le> int (max a b)"
    using round_half_away_between [OF v(2,3)] by auto
  then show "lo \<le> f64_to_u64 (f64_round (f64_of_nat a + (f64_of_nat b - f64_of_nat a) * Fin p))"
    "f64_to_u64 (f64_round (f64_of_nat a + (f64_of_nat b - f64_of_nat a) * Fin p)) \<le> hi"
    using assms(1-5) unfolding v(1) by (auto simp: f64_round_def f64_to_u64_def)
qed

lemma vus_at_loop_bounds:
  assumes "lo \<le> a" "a \<le> hi" "hi \<le> 2 ^ 53" "\<forall>(d, v) \<in> set stages. lo \<le> unat v \<and> unat v \<le> hi"
    "off + sum_list (map fst stages) < 2 ^ 53 * NANOS_PER_SEC" "off \<le> t"
  shows "\<exists>r. vus_at_loop (f64_of_nat a) off stages t = Some r \<and> (\<forall>v. r = Some v \<longrightarrow> lo \<le> unat v \<and> unat v \<le> hi)"
  using assms
proof (induction stages arbitrary: a off)
  case (Cons st stages)
  obtain len target where st [simp]: "st = (len, target)" by (cases st)
  have lim: "2 ^ 53 * NANOS_PER_SEC \<le> DURATION_LIMIT" by (simp add: DURATION_LIMIT_def NANOS_PER_SEC_def)
  then have add: "dur_add off len = Some (off + len)" using Cons.prems(5) by (simp add: dur_add_def)
  show ?case
  proof (cases "t < off + len")
    case True
    have len: "len div NANOS_PER_SEC \<le> 2 ^ 53"
      using Cons.prems(5) by (intro less_imp_le less_mult_imp_div_less) simp
    have "t - off \<le> len" using True by simp
    then obtain p where p: "progress (t - off) len = Fin p" "0 \<le> p" "p \<le> 1"
      using len by (rule progress_unit)
    let ?v = "f64_to_u64 (f64_round (f64_of_nat a + (f64_of_nat (unat target) - f64_of_nat a) * Fin p))"
    have "lo \<le> ?v" "?v \<le> hi" using Cons.prems p by (intro ramp_step; auto)+
    then show ?thesis using True Cons.prems(3,6) p
      by (simp add: Let_def add dur_sub_def unat_of_nat_u64 del: plus_f64_def minus_f64_def times_f64_def)
  next
    case False
    then show ?thesis using Cons.IH [of "unat target" "off + len"] Cons.prems
      by (simp add: Let_def add add.assoc)
  qed
qed auto

lemma vu_capacity_ramping:
  "v \<in> set (start_vus # map snd stages) \<Longrightarrow> v \<le> vu_capacity (RampingVus start_vus stages)"
  using foldl_max_ge [of start_vus "map snd stages"] foldl_max_mem [of v "map snd stages" start_vus]
  by (auto simp: vu_capacity_def)

lemma vu_capacity_ramping_in:
  "vu_capacity (RampingVus start_vus stages) \<in> set (start_vus # map snd stages)"
  using foldl_max_in [of start_vus "map snd stages"] by (auto simp: vu_capacity_def)

lemma vus_at_between:
  assumes "\<forall>v \<in> set (start_vus # map snd stages). lo \<le> v"
    and "unat (vu_capacity (RampingVus start_vus stages)) \<le> 2 ^ 53"
    and "sum_list (map fst stages) < 2 ^ 53 * NANOS_PER_SEC"
  shows "\<exists>v. vus_at start_vus stages t = Some v \<and> lo \<le> v \<and> v \<le> vu_capacity (RampingVus start_vus stages)"
proof -
  let ?hi = "unat (vu_capacity (RampingVus start_vus stages))"
  have le: "unat lo \<le> unat v \<and> unat v \<le> ?hi" if "v \<in> set (start_vus # map snd stages)" for v
    using bspec [OF assms(1) that] vu_capacity_ramping [OF that] by (simp add: word_le_nat_alt)
  have st: "\<forall>(d, v) \<in> set stages. unat lo \<le> unat v \<and> unat v \<le> ?hi"
  proof safe
    fix d v assume "(d, v) \<in> set stages"
    then have "v \<in> set (start_vus # map snd stages)" by force
    then show "unat lo \<le> unat v" "unat v \<le> ?hi" using le by blast+
  qed
  obtain r where r: "vus_at_loop (f64_of_nat (unat start_vus)) 0 stages t = Some r"
      "\<forall>v. r = Some v \<longrightarrow> unat lo \<le> unat v \<and> unat v \<le> ?hi"
    using vus_at_loop_bounds [of "unat lo" "unat start_vus" ?hi stages 0 t] le [of start_vus] assms(2,3) st
    by auto
  have last: "unat lo \<le> unat v \<and> unat v \<le> ?hi"
    if "v = (case rev stages of [] \<Rightarrow> start_vus | (_, target) # _ \<Rightarrow> target)" for v
    using le [of start_vus] st set_rev [of stages] that by (auto split: list.splits prod.splits)
  show ?thesis using r last by (cases r) (auto simp: vus_at_def word_le_nat_alt)
qed

lemma vus_at_in_capacity:
  assumes "unat (vu_capacity (RampingVus start_vus stages)) \<le> 2 ^ 53"
    and "sum_list (map fst stages) < 2 ^ 53 * NANOS_PER_SEC" "vus_at start_vus stages t = Some v"
  shows "v \<le> vu_capacity (RampingVus start_vus stages)"
  using vus_at_between [of start_vus stages 0 t] assms by auto

text \<open>
  With VU counts of at most $2^{53}$ and a ramp shorter than $2^{53}$ seconds, \<open>vus_at\<close> never
  panics, and at every instant its VU count lies between the smallest and the largest of the
  start count and the stage targets, so it never exceeds the capacity \<open>vu_capacity\<close> reserves.
\<close>

theorem vus_at_bounds:
  assumes "\<forall>v \<in> set (start_vus # map snd stages). lo \<le> v"
    and "unat (vu_capacity (RampingVus start_vus stages)) \<le> 2 ^ 53"
    and "sum_list (map fst stages) < 2 ^ 53 * NANOS_PER_SEC"
  shows "\<exists>v. vus_at start_vus stages t = Some v \<and> lo \<le> v \<and> v \<le> vu_capacity (RampingVus start_vus stages)"
  using assms by (rule vus_at_between)

theorem vus_at_bounds_witness:
  "\<exists>v. vus_at 2 [(from_secs 10, 20), (from_secs 5, 4)] (from_secs 12) = Some v \<and> 2 \<le> v \<and>
     v \<le> vu_capacity (RampingVus 2 [(from_secs 10, 20), (from_secs 5, 4)])"
  by (rule vus_at_bounds) (simp_all add: vu_capacity_def from_secs_def NANOS_PER_SEC_def)

section \<open>Partitioning a specification\<close>

text \<open>
  The numbers of a specification that \<open>partition_spec\<close> splits exactly (VU targets and shared
  iterations), and the worker-pool sizes it keeps at least one each.
\<close>

fun vu_numbers :: "exec_spec \<Rightarrow> u64 list" where
  "vu_numbers (ConstantVus vus _) = [vus]"
| "vu_numbers (RampingVus start_vus stages) = start_vus # map snd stages"
| "vu_numbers (PerVuIterations vus _ _) = [vus]"
| "vu_numbers (SharedIterations _ iterations _) = [iterations]"
| "vu_numbers _ = []"

fun pool_numbers :: "exec_spec \<Rightarrow> u64 list" where
  "pool_numbers (ConstantArrivalRate _ _ pre max_vus) = [pre, max_vus]"
| "pool_numbers (RampingArrivalRate _ _ pre max_vus) = [pre, max_vus]"
| "pool_numbers (SharedIterations vus _ _) = [vus]"
| "pool_numbers (ExternallyControlled max_vus _) = [max_vus]"
| "pool_numbers _ = []"

lemma of_nat_index: "i < unat (cnt :: u64) \<Longrightarrow> unat (of_nat i :: u64) = i"
  using unat_u64_less [of cnt] by (intro unat_of_nat_u64) simp

lemma valid_index: "i < unat cnt \<Longrightarrow> 0 < cnt \<and> (of_nat i :: u64) < cnt"
  by (auto simp: word_less_nat_alt of_nat_index)

lemma partition_numbers:
  assumes "i < unat cnt"
  shows "vu_numbers (the (partition_spec spec (of_nat i) cnt)) = map (split (of_nat i) cnt) (vu_numbers spec)"
    and "pool_numbers (the (partition_spec spec (of_nat i) cnt)) = map (split_min1 (of_nat i) cnt) (pool_numbers spec)"
  using valid_index [OF assms]
  by (cases spec; auto simp: partition_spec_def)+

lemma partition_sums:
  "k < length (vu_numbers spec) \<Longrightarrow>
     map (\<lambda>i. unat (vu_numbers (the (partition_spec spec (of_nat i) cnt)) ! k)) [0..<unat cnt] =
     map (\<lambda>i. unat (split (of_nat i) cnt (vu_numbers spec ! k))) [0..<unat cnt]"
  "k < length (pool_numbers spec) \<Longrightarrow>
     map (\<lambda>i. unat (pool_numbers (the (partition_spec spec (of_nat i) cnt)) ! k)) [0..<unat cnt] =
     map (\<lambda>i. unat (split_min1 (of_nat i) cnt (pool_numbers spec ! k))) [0..<unat cnt]"
  by (rule map_cong; simp add: partition_numbers)+

text \<open>
  C14: partitioning conserves the load: over the \<open>cnt\<close> partitions of a run every VU target and
  every shared iteration count adds up to the plan's number, and any two shares differ by at most
  one; every non-empty worker pool keeps at least one VU on every partition, which makes the pools
  add up to \<open>max n cnt\<close>.
\<close>

theorem partition_conserves:
  assumes "0 < cnt"
  shows "(\<forall>k < length (vu_numbers spec).
       (\<Sum>i\<leftarrow>[0..<unat cnt]. unat (vu_numbers (the (partition_spec spec (of_nat i) cnt)) ! k)) =
         unat (vu_numbers spec ! k) \<and>
       (\<forall>i < unat cnt. \<forall>j < unat cnt.
         unat (vu_numbers (the (partition_spec spec (of_nat i) cnt)) ! k) \<le>
         unat (vu_numbers (the (partition_spec spec (of_nat j) cnt)) ! k) + 1)) \<and>
     (\<forall>k < length (pool_numbers spec). pool_numbers spec ! k \<noteq> 0 \<longrightarrow>
       (\<Sum>i\<leftarrow>[0..<unat cnt]. unat (pool_numbers (the (partition_spec spec (of_nat i) cnt)) ! k)) =
         max (unat (pool_numbers spec ! k)) (unat cnt) \<and>
       (\<forall>i < unat cnt. 0 < unat (pool_numbers (the (partition_spec spec (of_nat i) cnt)) ! k)))"
  using assms
  by (auto simp: partition_sums partition_numbers split_sum split_min1_sum unat_split unat_split_min1
      simp del: map_eq_conv)

theorem partition_conserves_witness:
  "(\<Sum>i\<leftarrow>[0..<3]. unat (vu_numbers (the (partition_spec (ConstantVus 10 (from_secs 1)) (of_nat i) 3)) ! 0)) = 10"
  using partition_conserves [of 3 "ConstantVus 10 (from_secs 1)"] by simp

section \<open>Placement of virtual users\<close>

text \<open>The capacity a list of specifications takes on partition \<open>i\<close> of \<open>cnt\<close>.\<close>

definition partition_capacity :: "exec_spec list \<Rightarrow> u64 \<Rightarrow> nat \<Rightarrow> nat" where
  "partition_capacity specs cnt i =
     (\<Sum>spec\<leftarrow>specs. unat (vu_capacity (the (partition_spec spec (of_nat i) cnt))))"

lemma add_shares_eq:
  "i + n \<le> unat cnt \<Longrightarrow>
   add_shares spec cnt i (map f [i..<i + n]) =
     Some (map (\<lambda>k. f k + vu_capacity (the (partition_spec spec (of_nat k) cnt))) [i..<i + n])"
proof (induction n arbitrary: i)
  case (Suc n)
  have "[i..<i + Suc n] = i # [Suc i..<Suc i + n]" by (simp add: upt_conv_Cons)
  moreover have "\<exists>part. partition_spec spec (of_nat i) cnt = Some part"
    using valid_index [of i cnt] Suc.prems by (simp add: partition_spec_def)
  ultimately show ?case using Suc.IH [of "Suc i"] Suc.prems by auto
qed simp

lemma placement_shares_eq:
  assumes "map (\<lambda>sc. executor_spec (snd sc)) scs = map Inr specs"
  shows "placement_shares scs cnt (map f [0..<unat cnt]) =
    Some (Inr (map (\<lambda>k. f k + of_nat (partition_capacity specs cnt k)) [0..<unat cnt]))"
  using assms
proof (induction scs arbitrary: specs f)
  case (Cons sc scs)
  obtain nm s where sc: "sc = (nm, s)" by (cases sc)
  from Cons.prems obtain spec rest where specs: "specs = spec # rest"
    and e: "executor_spec s = Inr spec" "map (\<lambda>sc. executor_spec (snd sc)) scs = map Inr rest"
    by (cases specs) (auto simp: sc)
  show ?case using e(1) Cons.IH [OF e(2)] add_shares_eq [of 0 "unat cnt" cnt spec f]
    by (simp add: sc specs partition_capacity_def add.assoc)
qed (simp add: partition_capacity_def)

lemma sum_list_of_nat: "sum_list (map (\<lambda>k. of_nat (f k)) ks) = (of_nat (sum_list (map f ks)) :: u64)"
  by (induction ks) auto

lemma vu_placement_eq:
  assumes "map (\<lambda>sc. executor_spec (snd sc)) scs = map Inr specs" "i < unat cnt"
  shows "vu_placement scs (Some (of_nat i, cnt)) =
    Some (Inr \<lparr>pl_vus = of_nat (partition_capacity specs cnt i),
               pl_offset = of_nat (\<Sum>k\<leftarrow>[0..<i]. partition_capacity specs cnt k)\<rparr>)"
  using placement_shares_eq [OF assms(1), of cnt "\<lambda>_. 0"] assms(2)
  by (simp add: vu_placement_def map_replicate_const of_nat_index sum_list_of_nat take_map)

lemma sum_list_upt_split:
  "i < j \<Longrightarrow> (\<Sum>k\<leftarrow>[0..<i]. f k) + f i \<le> (\<Sum>k\<leftarrow>[0..<j]. f k)" for f :: "nat \<Rightarrow> nat"
proof (induction j)
  case (Suc j)
  then show ?case by (cases "i = j") auto
qed simp

text \<open>
  C23: VU numbers are unique across the agents of a run: when every scenario's specification is
  valid and the run's total capacity fits in 64 bits, each partition is placed with exactly its
  capacity, and the range \<open>vu_offset + 1 ..= vu_offset + vus\<close> of a partition ends before the
  range of every later one starts.
\<close>

theorem vu_placement_unique:
  assumes "map (\<lambda>sc. executor_spec (snd sc)) scs = map Inr specs"
    and "(\<Sum>k\<leftarrow>[0..<unat cnt]. partition_capacity specs cnt k) < 2 ^ 64"
    and "i < j" "j < unat cnt"
  shows "\<exists>p q. vu_placement scs (Some (of_nat i, cnt)) = Some (Inr p) \<and>
     vu_placement scs (Some (of_nat j, cnt)) = Some (Inr q) \<and>
     unat (pl_vus p) = partition_capacity specs cnt i \<and> unat (pl_vus q) = partition_capacity specs cnt j \<and>
     unat (pl_offset p) + unat (pl_vus p) \<le> unat (pl_offset q)"
proof -
  let ?c = "partition_capacity specs cnt"
  have fits: "(\<Sum>k\<leftarrow>[0..<n]. ?c k) + ?c n < 2 ^ 64" if "n < unat cnt" for n
    using sum_list_upt_split [OF that, of ?c] assms(2) by simp
  then have "?c n < 2 ^ 64" "(\<Sum>k\<leftarrow>[0..<n]. ?c k) < 2 ^ 64" if "n < unat cnt" for n
    using fits [OF that] by simp_all
  with assms(3,4) show ?thesis
    by (simp add: vu_placement_eq [OF assms(1)] unat_of_nat_u64 sum_list_upt_split)
qed

theorem vu_placement_unique_witness:
  "\<exists>p q. vu_placement [(''main'', example_scenario)] (Some (of_nat 0, 3)) = Some (Inr p) \<and>
     vu_placement [(''main'', example_scenario)] (Some (of_nat 2, 3)) = Some (Inr q) \<and>
     unat (pl_vus p) = 4 \<and> unat (pl_vus q) = 3 \<and>
     unat (pl_offset p) + unat (pl_vus p) \<le> unat (pl_offset q)"
proof -
  have cap: "partition_capacity [ConstantVus 10 (from_secs 30)] 3 0 = 4"
    "partition_capacity [ConstantVus 10 (from_secs 30)] 3 (Suc 0) = 3"
    "partition_capacity [ConstantVus 10 (from_secs 30)] 3 2 = 3"
    by (simp_all add: partition_capacity_def partition_spec_def vu_capacity_def split_def)
  show ?thesis using example_scenario_spec
      vu_placement_unique [of "[(''main'', example_scenario)]" "[ConstantVus 10 (from_secs 30)]" 3 0 2] cap
    by (simp add: upt_3)
qed

text \<open>
  A \<open>scale\<close> command is divided over the agents without loss: one share per agent, the shares
  add up to the requested VU count, and they are the shares \<open>partition_spec\<close> gives the same
  count.
\<close>

theorem scale_shares_conserve:
  assumes "0 < agents"
  shows "length (scale_shares n agents) = unat agents \<and> sum_list (map unat (scale_shares n agents)) = unat n \<and>
    (\<forall>i < unat agents. partition_spec (ConstantVus n d) (of_nat i) agents = Some (ConstantVus (scale_shares n agents ! i) d))"
proof -
  have "scale_shares n agents = map (\<lambda>i. split (of_nat i) agents n) [0..<unat agents]"
    by (simp add: scale_shares_def split_def)
  then show ?thesis using split_sum [OF assms, of n] valid_index [of _ agents]
    by (simp add: partition_spec_def comp_def)
qed

theorem scale_shares_conserve_witness:
  "sum_list (map unat (scale_shares 10 3)) = 10 \<and> scale_shares 10 3 = [4, 3, 3]"
  using scale_shares_conserve [of 3 10] by (simp add: scale_shares_def upt_3)

end
