(* ===== verification/Vu_Env.thy ===== *)
theory Vu_Env
  imports Executor_Spec
begin

text \<open>
  What all executors of \<open>loadr-core/src/executor.rs\<close> share: the environment of one scenario
  (\<open>ExecEnv\<close>, the scenario's cancellation token and its graceful-stop watchdog), the creation of
  a VU worker, pausing, and running one iteration. The tasks of a scenario interleave: a state is
  the environment, the executor's shared data and one phase per spawned task, and \<open>vu_step\<close>
  lets any task or the environment move. The locale \<open>vu_workers\<close> is the contract between an
  executor's task body and this bookkeeping; every executor interprets it.
\<close>

section \<open>The environment of a scenario\<close>

text \<open>
  \<open>arm_graceful_stop\<close> as a task: it waits for the soft deadline or a soft stop, then lets the
  grace period pass and cancels the scenario.
\<close>

datatype watchdog = WdWaiting "nat option" | WdGrace nat | WdDone

record env =
  soft_stop :: bool
  hard_stop :: bool
  cancelled :: bool
  paused :: bool
  pause_open :: bool
  clock :: nat
  vu_ids :: nat
  active_vus :: nat
  abort_log :: "string list"
  watchdog :: watchdog

datatype iteration_outcome = Completed | StopVu | AbortScenario | AbortTest string

text \<open>
  \<open>ExecEnv::new_worker\<close> takes the next global id. The script runtime is not part of the model:
  a worker is its id.
\<close>

definition new_worker :: "env \<Rightarrow> nat \<times> env" where
  "new_worker e = (vu_ids e + 1, e\<lparr>vu_ids := vu_ids e + 1\<rparr>)"

definition active_add :: "env \<Rightarrow> env" where
  "active_add e = e\<lparr>active_vus := active_vus e + 1\<rparr>"

definition active_sub :: "env \<Rightarrow> env" where
  "active_sub e = e\<lparr>active_vus := active_vus e - 1\<rparr>"

text \<open>
  One poll of \<open>wait_unpaused\<close>: \<open>None\<close> is a pending future. A closed pause channel counts as
  not paused, and cancellation is looked at first.
\<close>

definition wait_unpaused :: "env \<Rightarrow> bool option" where
  "wait_unpaused e =
     (if cancelled e then Some False
      else if \<not> paused e then Some True
      else if \<not> pause_open e then Some True
      else None)"

text \<open>
  \<open>run_one\<close>: cancellation wins over the iteration; otherwise the outcome of the iteration, an
  argument here, decides whether the VU keeps going and is reported.
\<close>

definition run_one :: "iteration_outcome \<Rightarrow> env \<Rightarrow> bool \<times> env" where
  "run_one o' e =
     (if cancelled e then (False, e)
      else case o' of
             Completed \<Rightarrow> (True, e)
           | StopVu \<Rightarrow> (False, e)
           | AbortScenario \<Rightarrow> (False, e\<lparr>cancelled := True\<rparr>)
           | AbortTest reason \<Rightarrow> (False, e\<lparr>abort_log := abort_log e @ [reason]\<rparr>))"

definition arm_graceful_stop :: "nat option \<Rightarrow> env \<Rightarrow> env" where
  "arm_graceful_stop soft_deadline e = e\<lparr>watchdog := WdWaiting soft_deadline\<rparr>"

definition watchdog_poll :: "duration \<Rightarrow> env \<Rightarrow> env" where
  "watchdog_poll graceful e =
     (case watchdog e of
        WdWaiting deadline \<Rightarrow>
          if (case deadline of None \<Rightarrow> False | Some d \<Rightarrow> d \<le> clock e) \<or> soft_stop e
          then e\<lparr>watchdog := WdGrace (clock e + graceful)\<rparr>
          else if cancelled e then e\<lparr>watchdog := WdDone\<rparr> else e
      | WdGrace until' \<Rightarrow>
          if until' \<le> clock e then e\<lparr>cancelled := True, watchdog := WdDone\<rparr>
          else if cancelled e then e\<lparr>watchdog := WdDone\<rparr> else e
      | WdDone \<Rightarrow> e)"

text \<open>
  What happens around the tasks of a scenario: time passes, the run is stopped softly or hard,
  pausing is switched, the hard stop reaches the scenario, the watchdog is polled, another
  scenario takes a VU id.
\<close>

inductive env_step :: "duration \<Rightarrow> env \<Rightarrow> env \<Rightarrow> bool" for graceful where
  tick: "env_step graceful e (e\<lparr>clock := clock e + n\<rparr>)"
| stop: "env_step graceful e (e\<lparr>soft_stop := True\<rparr>)"
| kill: "env_step graceful e (e\<lparr>hard_stop := True\<rparr>)"
| propagate: "hard_stop e \<Longrightarrow> env_step graceful e (e\<lparr>cancelled := True\<rparr>)"
| pause: "pause_open e \<Longrightarrow> env_step graceful e (e\<lparr>paused := b\<rparr>)"
| unsubscribe: "env_step graceful e (e\<lparr>pause_open := False\<rparr>)"
| watchdog: "env_step graceful e (watchdog_poll graceful e)"
| other_scenario: "env_step graceful e (e\<lparr>vu_ids := vu_ids e + 1\<rparr>)"

section \<open>Interleaving of tasks\<close>

text \<open>
  \<open>worker i in env shared phase\<close> runs task \<open>i\<close> up to its next await point; \<open>control\<close> is
  whatever task steers the executor (ramp controller, arrival dispatcher).
\<close>

type_synonym ('i, 's, 'p) worker_fun = "nat \<Rightarrow> 'i \<Rightarrow> env \<Rightarrow> 's \<Rightarrow> 'p \<Rightarrow> env \<times> 's \<times> 'p"
type_synonym ('s, 'p) system = "env \<times> 's \<times> 'p list"
type_synonym ('s, 'p) control = "('s, 'p) system \<Rightarrow> ('s, 'p) system \<Rightarrow> bool"

inductive vu_step :: "('i, 's, 'p) worker_fun \<Rightarrow> ('s, 'p) control \<Rightarrow> duration
    \<Rightarrow> ('s, 'p) system \<Rightarrow> ('s, 'p) system \<Rightarrow> bool" for worker control graceful where
  task: "i < length ws \<Longrightarrow> worker i inp e s (ws ! i) = (e', s', p') \<Longrightarrow>
    vu_step worker control graceful (e, s, ws) (e', s', ws[i := p'])"
| environment: "env_step graceful e e' \<Longrightarrow> vu_step worker control graceful (e, s, ws) (e', s, ws)"
| steer: "control (e, s, ws) (e', s', ws') \<Longrightarrow> vu_step worker control graceful (e, s, ws) (e', s', ws')"

inductive vu_run :: "('i, 's, 'p) worker_fun \<Rightarrow> ('s, 'p) control \<Rightarrow> duration
    \<Rightarrow> ('s, 'p) system \<Rightarrow> ('s, 'p) system \<Rightarrow> bool" for worker control graceful where
  refl: "vu_run worker control graceful x x"
| step: "vu_run worker control graceful x y \<Longrightarrow> vu_step worker control graceful y z \<Longrightarrow>
    vu_run worker control graceful x z"

inductive_cases vu_stepE: "vu_step worker control graceful (e, s, ws) y"
inductive_cases env_stepE: "env_step graceful e e'"

lemma vu_run_invariant:
  assumes "vu_run worker control graceful x y" "I x"
    and "\<And>i inp e s ws e' s' p'. I (e, s, ws) \<Longrightarrow> i < length ws \<Longrightarrow>
      worker i inp e s (ws ! i) = (e', s', p') \<Longrightarrow> I (e', s', ws[i := p'])"
    and "\<And>e s ws e'. I (e, s, ws) \<Longrightarrow> env_step graceful e e' \<Longrightarrow> I (e', s, ws)"
    and "\<And>e s ws e' s' ws'. I (e, s, ws) \<Longrightarrow> control (e, s, ws) (e', s', ws') \<Longrightarrow> I (e', s', ws')"
  shows "I y"
  using assms(1,2)
proof induction
  case (step y z)
  from step.hyps(2) step.IH [OF step.prems] show ?case
    by cases (use assms(3-5) in blast)+
qed

text \<open>A schedule of tasks, executed in order; every such execution is a run.\<close>

fun run_tasks :: "('i, 's, 'p) worker_fun \<Rightarrow> (nat \<times> 'i) list \<Rightarrow> ('s, 'p) system \<Rightarrow> ('s, 'p) system" where
  "run_tasks worker [] x = x"
| "run_tasks worker ((i, inp) # sched) (e, s, ws) =
     (if i < length ws
      then (case worker i inp e s (ws ! i) of (e', s', p') \<Rightarrow> run_tasks worker sched (e', s', ws[i := p']))
      else run_tasks worker sched (e, s, ws))"

lemma run_tasks_run:
  "vu_run worker control graceful x y \<Longrightarrow> vu_run worker control graceful x (run_tasks worker sched y)"
proof (induction sched arbitrary: y)
  case (Cons a sched)
  obtain i inp where a: "a = (i, inp)" by (cases a)
  obtain e s ws where y: "y = (e, s, ws)" by (cases y)
  show ?case
    using Cons.IH Cons.prems vu_run.step [OF Cons.prems [unfolded y] vu_step.task]
    by (auto simp: a y split: prod.splits)
qed simp

definition example_env :: env where
  "example_env = \<lparr>soft_stop = False, hard_stop = False, cancelled = False, paused = False, pause_open = True,
     clock = 0, vu_ids = 0, active_vus = 0, abort_log = [], watchdog = WdDone\<rparr>"

section \<open>VU bookkeeping\<close>

definition live_count :: "('p \<Rightarrow> bool) \<Rightarrow> 'p list \<Rightarrow> nat" where
  "live_count live ws = length (filter live ws)"

lemma live_count_Nil [simp]: "live_count live [] = 0"
  by (simp add: live_count_def)

lemma live_count_append [simp]: "live_count live (xs @ ys) = live_count live xs + live_count live ys"
  by (simp add: live_count_def)

lemma live_count_replicate [simp]: "live_count live (replicate n p) = (if live p then n else 0)"
  by (simp add: live_count_def)

lemma live_count_update:
  "i < length ws \<Longrightarrow> live_count live (ws[i := p]) + of_bool (live (ws ! i)) =
     live_count live ws + of_bool (live p)"
proof (induction ws arbitrary: i)
  case (Cons w ws)
  then show ?case by (cases i) (auto simp: live_count_def)
qed simp

lemma live_count_pos: "i < length ws \<Longrightarrow> live (ws ! i) \<Longrightarrow> 1 \<le> live_count live ws"
  by (auto simp: live_count_def Suc_le_eq filter_empty_conv)

text \<open>
  The books of a scenario: the active-VU gauge counts the live tasks, and the ids its tasks hold
  are positive, allocated and pairwise different.
\<close>

definition vu_books :: "('p \<Rightarrow> bool) \<Rightarrow> ('p \<Rightarrow> nat option) \<Rightarrow> ('s, 'p) system \<Rightarrow> bool" where
  "vu_books live vu_id x =
     (case x of (e, s, ws) \<Rightarrow>
        active_vus e = live_count live ws \<and>
        (\<forall>i < length ws. \<forall>a. vu_id (ws ! i) = Some a \<longrightarrow>
           0 < a \<and> a \<le> vu_ids e \<and> (\<forall>j < length ws. vu_id (ws ! j) = Some a \<longrightarrow> i = j)))"

lemma vu_booksI:
  assumes "active_vus e = live_count live ws"
    and "\<And>i a. i < length ws \<Longrightarrow> vu_id (ws ! i) = Some a \<Longrightarrow> 0 < a \<and> a \<le> vu_ids e"
    and "\<And>i j a. i < length ws \<Longrightarrow> j < length ws \<Longrightarrow> vu_id (ws ! i) = Some a \<Longrightarrow> vu_id (ws ! j) = Some a \<Longrightarrow> i = j"
  shows "vu_books live vu_id (e, s, ws)"
  using assms by (fastforce simp: vu_books_def)

lemma vu_booksD:
  assumes "vu_books live vu_id (e, s, ws)"
  shows "active_vus e = live_count live ws"
    and "i < length ws \<Longrightarrow> vu_id (ws ! i) = Some a \<Longrightarrow> 0 < a \<and> a \<le> vu_ids e"
    and "i < length ws \<Longrightarrow> j < length ws \<Longrightarrow> vu_id (ws ! i) = Some a \<Longrightarrow> vu_id (ws ! j) = Some a \<Longrightarrow> i = j"
  using assms by (auto simp: vu_books_def)

lemma vu_books_distinct:
  assumes "vu_books live vu_id (e, s, ws)"
  shows "\<forall>i < length ws. \<forall>j < length ws. vu_id (ws ! i) \<noteq> None \<and> vu_id (ws ! i) = vu_id (ws ! j) \<longrightarrow> i = j"
  using vu_booksD(3) [OF assms] by (metis option.exhaust)

lemma vu_books_init:
  "active_vus e = 0 \<Longrightarrow> \<not> live p \<Longrightarrow> vu_id p = None \<Longrightarrow> vu_books live vu_id (e, s, replicate n p)"
  by (rule vu_booksI) auto

lemma watchdog_poll_frame [simp]:
  "vu_ids (watchdog_poll g e) = vu_ids e" "active_vus (watchdog_poll g e) = active_vus e"
  "clock (watchdog_poll g e) = clock e" "cancelled e \<Longrightarrow> cancelled (watchdog_poll g e)"
  by (auto simp: watchdog_poll_def split: watchdog.splits option.splits)

lemma env_step_frame:
  "env_step g e e' \<Longrightarrow> active_vus e' = active_vus e \<and> vu_ids e \<le> vu_ids e' \<and> (cancelled e \<longrightarrow> cancelled e') \<and>
     (soft_stop e \<longrightarrow> soft_stop e') \<and> clock e \<le> clock e'"
  by (auto elim!: env_stepE simp: watchdog_poll_def split: watchdog.splits option.splits)

lemma run_one_frame [simp]:
  "vu_ids (snd (run_one o' e)) = vu_ids e" "active_vus (snd (run_one o' e)) = active_vus e"
  "clock (snd (run_one o' e)) = clock e"
  by (simp_all add: run_one_def split: iteration_outcome.splits)

lemma new_worker_frame: 
  "new_worker e = (vu, e') \<Longrightarrow> vu = vu_ids e + 1 \<and> vu_ids e' = vu_ids e + 1 \<and> active_vus e' = active_vus e"
  by (auto simp: new_worker_def)

lemma active_frame [simp]:
  "active_vus (active_add e) = active_vus e + 1" "active_vus (active_sub e) = active_vus e - 1"
  "vu_ids (active_add e) = vu_ids e" "vu_ids (active_sub e) = vu_ids e"
  "cancelled (active_add e) = cancelled e" "cancelled (active_sub e) = cancelled e"
  "clock (active_add e) = clock e" "clock (active_sub e) = clock e"
  "soft_stop (active_add e) = soft_stop e" "soft_stop (active_sub e) = soft_stop e"
  by (simp_all add: active_add_def active_sub_def)

lemma run_one_frame':
  "run_one o' e = (k, e') \<Longrightarrow> vu_ids e' = vu_ids e \<and> active_vus e' = active_vus e"
  using run_one_frame [of o' e] by simp

locale vu_workers =
  fixes worker :: "('i, 's, 'p) worker_fun"
    and control :: "('s, 'p) control"
    and live :: "'p \<Rightarrow> bool"
    and vu_id :: "'p \<Rightarrow> nat option"
  assumes worker_active: "worker i inp e s p = (e', s', p') \<Longrightarrow> of_bool (live p) \<le> active_vus e \<Longrightarrow>
      active_vus e' + of_bool (live p) = active_vus e + of_bool (live p')"
    and worker_id: "worker i inp e s p = (e', s', p') \<Longrightarrow>
      vu_id p' = vu_id p \<and> vu_ids e' = vu_ids e \<or>
      vu_id p = None \<and> vu_id p' = Some (vu_ids e + 1) \<and> vu_ids e' = vu_ids e + 1"
    and control_spawns: "control (e, s, ws) (e', s', ws') \<Longrightarrow>
      active_vus e' = active_vus e \<and> vu_ids e' = vu_ids e \<and>
      (\<exists>new. ws' = ws @ new \<and> (\<forall>p \<in> set new. \<not> live p \<and> vu_id p = None))"
begin

lemma books_task:
  assumes "vu_books live vu_id (e, s, ws)" "i < length ws" "worker i inp e s (ws ! i) = (e', s', p')"
  shows "vu_books live vu_id (e', s', ws[i := p'])"
proof (rule vu_booksI)
  note books = vu_booksD [OF assms(1)]
  have "of_bool (live (ws ! i)) \<le> active_vus e"
    using live_count_pos [OF assms(2), of live] books(1) by (auto simp: of_bool_def)
  then show "active_vus e' = live_count live (ws[i := p'])"
    using worker_active [OF assms(3)] live_count_update [OF assms(2), of live p'] books(1) by simp
next
  note books = vu_booksD(2,3) [OF assms(1)] and id = worker_id [OF assms(3)]
  fix j a assume j: "j < length (ws[i := p'])" "vu_id (ws[i := p'] ! j) = Some a"
  then show "0 < a \<and> a \<le> vu_ids e'"
    using id books(1) [of j a] by (cases "j = i") auto
next
  note books = vu_booksD(2,3) [OF assms(1)] and id = worker_id [OF assms(3)]
  fix j k a assume jk: "j < length (ws[i := p'])" "k < length (ws[i := p'])"
    "vu_id (ws[i := p'] ! j) = Some a" "vu_id (ws[i := p'] ! k) = Some a"
  show "j = k"
  proof (cases "vu_id p' = vu_id (ws ! i)")
    case True
    then have "vu_id (ws[i := p'] ! l) = vu_id (ws ! l)" if "l < length ws" for l
      using that by (cases "l = i") auto
    then show ?thesis using jk books(2) [of j k a] by simp
  next
    case False
    then have fresh: "vu_id p' = Some (vu_ids e + 1)" using id by auto
    have other: "vu_id (ws ! l) \<noteq> vu_id p'" if "l < length ws" for l
      using books(1) [OF that, of "vu_ids e + 1"] fresh by auto
    show ?thesis
      using jk books(2) [of j k a] fresh other [of j] other [of k] by (cases "j = i"; cases "k = i") simp_all
  qed
qed

lemma books_steer:
  assumes "vu_books live vu_id (e, s, ws)" "control (e, s, ws) (e', s', ws')"
  shows "vu_books live vu_id (e', s', ws')"
proof -
  from control_spawns [OF assms(2)] obtain new where new: "ws' = ws @ new"
      "\<forall>p \<in> set new. \<not> live p \<and> vu_id p = None" "active_vus e' = active_vus e" "vu_ids e' = vu_ids e" by auto
  have old: "i < length ws" if "i < length ws'" "vu_id (ws' ! i) = Some a" for i a
    using that new(1,2) by (auto simp: nth_append split: if_splits)
  show ?thesis
  proof (rule vu_booksI)
    have "filter live new = []" using new(2) by (simp add: filter_empty_conv)
    then show "active_vus e' = live_count live ws'"
      using vu_booksD(1) [OF assms(1)] new(1,3) by (simp add: live_count_def)
  next
    fix i a assume "i < length ws'" "vu_id (ws' ! i) = Some a"
    with old [OF this] show "0 < a \<and> a \<le> vu_ids e'"
      using vu_booksD(2) [OF assms(1), of i a] new(1,4) by (simp add: nth_append)
  next
    fix i j a assume ij: "i < length ws'" "j < length ws'" "vu_id (ws' ! i) = Some a" "vu_id (ws' ! j) = Some a"
    with old [of i a] old [of j a] show "i = j"
      using vu_booksD(3) [OF assms(1), of i j a] new(1) by (simp add: nth_append)
  qed
qed

lemma books_kept:
  assumes "vu_run worker control graceful x y" "vu_books live vu_id x"
  shows "vu_books live vu_id y"
  using assms
proof (rule vu_run_invariant)
  fix e s ws e' assume "vu_books live vu_id (e, s, ws)" "env_step graceful e e'"
  then show "vu_books live vu_id (e', s, ws)"
    using env_step_frame [of graceful e e'] by (force simp: vu_books_def)
qed (fact books_task books_steer)+

end

end
