(* ===== verification/Executors.thy ===== *)
theory Executors
  imports Vu_Env
begin

text \<open>
  The closed-model executors of \<open>loadr-core/src/executor.rs\<close>: constant VUs, per-VU and shared
  iterations, and the allocated pool behind ramping VUs and external control. Each task body is
  a function from the phase the task awaits in to its next one.
\<close>

section \<open>Constant VUs\<close>

datatype cv_phase = CvSpawned | CvCheck nat | CvPause nat | CvRun nat | CvDone nat

fun cv_worker :: "nat \<Rightarrow> (iteration_outcome, 's, cv_phase) worker_fun" where
  "cv_worker soft_deadline i o' e s CvSpawned =
     (let (vu, e') = new_worker e in (active_add e', s, CvCheck vu))"
| "cv_worker soft_deadline i o' e s (CvCheck vu) =
     (if clock e < soft_deadline \<and> \<not> cancelled e \<and> \<not> soft_stop e then (e, s, CvPause vu)
      else (active_sub e, s, CvDone vu))"
| "cv_worker soft_deadline i o' e s (CvPause vu) =
     (case wait_unpaused e of
        None \<Rightarrow> (e, s, CvPause vu)
      | Some True \<Rightarrow> (e, s, CvRun vu)
      | Some False \<Rightarrow> (active_sub e, s, CvDone vu))"
| "cv_worker soft_deadline i o' e s (CvRun vu) =
     (case run_one o' e of
        (True, e') \<Rightarrow> (e', s, CvCheck vu)
      | (False, e') \<Rightarrow> (active_sub e', s, CvDone vu))"
| "cv_worker soft_deadline i o' e s (CvDone vu) = (e, s, CvDone vu)"

fun cv_done :: "cv_phase \<Rightarrow> bool" where
  "cv_done (CvDone _) = True"
| "cv_done _ = False"

fun cv_live :: "cv_phase \<Rightarrow> bool" where
  "cv_live CvSpawned = False"
| "cv_live (CvDone _) = False"
| "cv_live _ = True"

fun cv_id :: "cv_phase \<Rightarrow> nat option" where
  "cv_id CvSpawned = None"
| "cv_id (CvCheck vu) = Some vu"
| "cv_id (CvPause vu) = Some vu"
| "cv_id (CvRun vu) = Some vu"
| "cv_id (CvDone vu) = Some vu"

text \<open>The executor task itself: when every worker task has ended it cancels the scenario.\<close>

inductive join_tasks :: "('p \<Rightarrow> bool) \<Rightarrow> ('s, 'p) control" for ended where
  "\<forall>p \<in> set ws. ended p \<Longrightarrow> join_tasks ended (e, s, ws) (e\<lparr>cancelled := True\<rparr>, s, ws)"

definition run_constant_vus :: "env \<Rightarrow> nat \<Rightarrow> duration \<Rightarrow> nat \<times> (unit, cv_phase) system" where
  "run_constant_vus e vus duration =
     (let soft_deadline = clock e + duration
      in (soft_deadline, arm_graceful_stop (Some soft_deadline) e, (), replicate vus CvSpawned))"

section \<open>Iterations\<close>

datatype iteration_budget = PerVu nat | Shared

text \<open>
  The shared data: the counter of \<open>IterationBudget::Shared\<close>, and two history variables that count
  the claims and the iterations started.
\<close>

record it_shared =
  it_counter :: nat
  it_claims :: nat
  it_started :: nat

datatype it_phase =
    ItSpawned
  | ItTop nat nat
  | ItCas nat nat nat
  | ItPause nat nat
  | ItRun nat nat
  | ItDone nat nat

text \<open>
  \<open>spurious\<close> lets \<open>compare_exchange_weak\<close> fail although the counter has the expected value.
\<close>

fun it_worker :: "nat \<Rightarrow> iteration_budget \<Rightarrow> (iteration_outcome \<times> bool, it_shared, it_phase) worker_fun" where
  "it_worker soft_deadline budget i inp e s ItSpawned =
     (let (vu, e') = new_worker e in (active_add e', s, ItTop vu 0))"
| "it_worker soft_deadline budget i inp e s (ItTop vu done) =
     (if cancelled e \<or> soft_stop e \<or> soft_deadline \<le> clock e then (active_sub e, s, ItDone vu done)
      else case budget of
             Shared \<Rightarrow> (e, s, ItCas vu done (it_counter s))
           | PerVu per_vu \<Rightarrow>
               if per_vu \<le> done then (active_sub e, s, ItDone vu done)
               else (e, s, ItPause vu done))"
| "it_worker soft_deadline budget i (o', spurious) e s (ItCas vu done remaining) =
     (if remaining = 0 then (active_sub e, s, ItDone vu done)
      else if it_counter s = remaining \<and> \<not> spurious
      then (e, s\<lparr>it_counter := remaining - 1, it_claims := it_claims s + 1\<rparr>, ItPause vu done)
      else (e, s, ItCas vu done (it_counter s)))"
| "it_worker soft_deadline budget i inp e s (ItPause vu done) =
     (case wait_unpaused e of
        None \<Rightarrow> (e, s, ItPause vu done)
      | Some True \<Rightarrow> (e, s\<lparr>it_started := it_started s + 1\<rparr>, ItRun vu done)
      | Some False \<Rightarrow> (active_sub e, s, ItDone vu done))"
| "it_worker soft_deadline budget i (o', spurious) e s (ItRun vu done) =
     (case run_one o' e of
        (True, e') \<Rightarrow> (e', s, ItTop vu (done + 1))
      | (False, e') \<Rightarrow> (active_sub e', s, ItDone vu (done + 1)))"
| "it_worker soft_deadline budget i inp e s (ItDone vu done) = (e, s, ItDone vu done)"

fun it_done :: "it_phase \<Rightarrow> bool" where
  "it_done (ItDone _ _) = True"
| "it_done _ = False"

fun it_live :: "it_phase \<Rightarrow> bool" where
  "it_live ItSpawned = False"
| "it_live (ItDone _ _) = False"
| "it_live _ = True"

fun it_id :: "it_phase \<Rightarrow> nat option" where
  "it_id ItSpawned = None"
| "it_id (ItTop vu _) = Some vu"
| "it_id (ItCas vu _ _) = Some vu"
| "it_id (ItPause vu _) = Some vu"
| "it_id (ItRun vu _) = Some vu"
| "it_id (ItDone vu _) = Some vu"

definition run_iterations ::
  "env \<Rightarrow> nat \<Rightarrow> iteration_budget \<Rightarrow> nat \<Rightarrow> duration \<Rightarrow> nat \<times> (it_shared, it_phase) system" where
  "run_iterations e vus budget iterations max_duration =
     (let soft_deadline = clock e + max_duration
      in (soft_deadline, arm_graceful_stop (Some soft_deadline) e,
          \<lparr>it_counter = (case budget of Shared \<Rightarrow> iterations | PerVu _ \<Rightarrow> 0), it_claims = 0, it_started = 0\<rparr>,
          replicate vus ItSpawned))"

section \<open>The allocated pool\<close>

text \<open>The watch channel of the allowed VU count; \<open>allowed_open\<close> while its sender lives.\<close>

record pool_shared =
  allowed :: nat
  allowed_open :: bool

datatype pool_phase =
    PlTop "nat option" bool
  | PlWait "nat option"
  | PlPause "nat option" bool
  | PlRun nat "nat option"
  | PlDone "nat option"

text \<open>
  What a poll of a pool task may observe: a change of the allowed count, the end of its
  iteration, or neither.
\<close>

datatype pool_input = Idle | Changed | Finished iteration_outcome

text \<open>
  One poll of the deallocation future of a running iteration: its state is the end of the grace
  period it sleeps for; the result says whether the iteration is interrupted.
\<close>

definition dealloc_poll :: "duration \<Rightarrow> nat \<Rightarrow> nat \<Rightarrow> nat \<Rightarrow> nat option \<Rightarrow> bool \<times> nat option" where
  "dealloc_poll grace now allowed_now i g =
     (case g of
        None \<Rightarrow> if allowed_now \<le> i then (False, Some (now + grace)) else (False, None)
      | Some until' \<Rightarrow>
          if now < until' then (False, Some until')
          else if allowed_now \<le> i then (True, None) else (False, None))"

definition pool_leave :: "bool \<Rightarrow> env \<Rightarrow> env" where
  "pool_leave active e = (if active then active_sub e else e)"

fun pool_worker :: "nat option \<Rightarrow> duration \<Rightarrow> (pool_input, pool_shared, pool_phase) worker_fun" where
  "pool_worker soft_deadline grace i inp e s (PlTop w active) =
     (if cancelled e \<or> soft_stop e \<or> (case soft_deadline of None \<Rightarrow> False | Some d \<Rightarrow> d \<le> clock e)
      then (pool_leave active e, s, PlDone w)
      else if allowed s \<le> i then (pool_leave active e, s, PlWait w)
      else (e, s, PlPause w active))"
| "pool_worker soft_deadline grace i inp e s (PlWait w) =
     (if cancelled e then (e, s, PlDone w)
      else if inp = Changed then (e, s, PlTop w False)
      else if \<not> allowed_open s then (e, s, PlDone w)
      else (e, s, PlWait w))"
| "pool_worker soft_deadline grace i inp e s (PlPause w active) =
     (case wait_unpaused e of
        None \<Rightarrow> (e, s, PlPause w active)
      | Some False \<Rightarrow> (pool_leave active e, s, PlDone w)
      | Some True \<Rightarrow>
          (let e' = (if active then e else active_add e)
           in case w of
                Some vu \<Rightarrow> (e', s, PlRun vu None)
              | None \<Rightarrow> (let (vu, e'') = new_worker e' in (e'', s, PlRun vu None))))"
| "pool_worker soft_deadline grace i inp e s (PlRun vu g) =
     (if cancelled e then (active_sub e, s, PlDone (Some vu))
      else case inp of
             Finished o' \<Rightarrow>
               (case run_one o' e of
                  (True, e') \<Rightarrow> (e', s, PlTop (Some vu) True)
                | (False, e') \<Rightarrow> (active_sub e', s, PlDone (Some vu)))
           | _ \<Rightarrow>
               (case dealloc_poll grace (clock e) (allowed s) i g of
                  (True, _) \<Rightarrow> (e, s, PlTop (Some vu) True)
                | (False, g') \<Rightarrow> (e, s, PlRun vu g')))"
| "pool_worker soft_deadline grace i inp e s (PlDone w) = (e, s, PlDone w)"

fun pool_done :: "pool_phase \<Rightarrow> bool" where
  "pool_done (PlDone _) = True"
| "pool_done _ = False"

fun pool_live :: "pool_phase \<Rightarrow> bool" where
  "pool_live (PlTop _ active) = active"
| "pool_live (PlWait _) = False"
| "pool_live (PlPause _ active) = active"
| "pool_live (PlRun _ _) = True"
| "pool_live (PlDone _) = False"

fun pool_id :: "pool_phase \<Rightarrow> nat option" where
  "pool_id (PlTop w _) = w"
| "pool_id (PlWait w) = w"
| "pool_id (PlPause w _) = w"
| "pool_id (PlRun vu _) = Some vu"
| "pool_id (PlDone w) = w"

text \<open>
  The ramp controller of \<open>run_ramping_vus\<close>: on each of its ticks it sends the interpolated
  target, and it drops the sender after the last stage or when the scenario is cancelled.
\<close>

inductive ramp_control ::
  "u64 \<Rightarrow> (duration \<times> u64) list \<Rightarrow> nat \<Rightarrow> duration \<Rightarrow> (pool_shared, pool_phase) control"
  for start_vus stages started whole where
  cancel: "cancelled e \<Longrightarrow>
    ramp_control start_vus stages started whole (e, s, ws) (e, s\<lparr>allowed_open := False\<rparr>, ws)"
| send: "allowed_open s \<Longrightarrow> vus_at start_vus stages (clock e - started) = Some target \<Longrightarrow>
    ramp_control start_vus stages started whole (e, s, ws)
      (e, s\<lparr>allowed := unat target, allowed_open := clock e - started < whole\<rparr>, ws)"
| join: "join_tasks pool_done (e, s, ws) y \<Longrightarrow> ramp_control start_vus stages started whole (e, s, ws) y"

definition run_allocated_pool :: "nat \<Rightarrow> pool_phase list" where
  "run_allocated_pool peak = replicate peak (PlTop None False)"

definition run_ramping_vus ::
  "env \<Rightarrow> u64 \<Rightarrow> (duration \<times> u64) list \<Rightarrow> (nat \<times> duration \<times> (pool_shared, pool_phase) system) panicky" where
  "run_ramping_vus e start_vus stages =
     (case dur_sum (map fst stages) of
        None \<Rightarrow> None
      | Some whole \<Rightarrow>
          (let soft_deadline = clock e + whole;
               peak = (case map snd stages @ [start_vus] of [] \<Rightarrow> 0 | t # ts \<Rightarrow> foldl max t ts)
           in Some (soft_deadline, whole, arm_graceful_stop (Some soft_deadline) e,
                \<lparr>allowed = unat start_vus, allowed_open = True\<rparr>, run_allocated_pool (unat peak))))"

text \<open>
  \<open>run_externally_controlled\<close>: \<open>external_target\<close> is the watch channel of \<open>scale\<close> commands. Without
  one the sender of a fresh channel is dropped at once.
\<close>

definition run_externally_controlled ::
  "env \<Rightarrow> nat \<Rightarrow> duration option \<Rightarrow> nat option \<Rightarrow> nat option \<times> (pool_shared, pool_phase) system" where
  "run_externally_controlled e max_vus duration external_target =
     (let soft_deadline = map_option (\<lambda>d. clock e + d) duration
      in (soft_deadline, arm_graceful_stop soft_deadline e,
          (case external_target of
             Some v \<Rightarrow> \<lparr>allowed = v, allowed_open = True\<rparr>
           | None \<Rightarrow> \<lparr>allowed = 0, allowed_open = False\<rparr>),
          run_allocated_pool max_vus))"

inductive scale_control :: "(pool_shared, pool_phase) control" where
  scale: "allowed_open s \<Longrightarrow> scale_control (e, s, ws) (e, s\<lparr>allowed := v\<rparr>, ws)"
| hangup: "scale_control (e, s, ws) (e, s\<lparr>allowed_open := False\<rparr>, ws)"
| join: "join_tasks pool_done (e, s, ws) y \<Longrightarrow> scale_control (e, s, ws) y"

inductive_cases join_tasksE: "join_tasks ended (e, s, ws) (e', s', ws')"
inductive_cases ramp_controlE: "ramp_control start_vus stages started whole (e, s, ws) (e', s', ws')"
inductive_cases scale_controlE: "scale_control (e, s, ws) (e', s', ws')"

section \<open>Every executor keeps the books\<close>

interpretation cv: vu_workers "cv_worker soft_deadline" "join_tasks cv_done" cv_live cv_id
proof unfold_locales
  fix i inp e s p e' s' p'
  assume w: "cv_worker soft_deadline i inp e s p = (e', s', p')"
  show "active_vus e' + of_bool (cv_live p) = active_vus e + of_bool (cv_live p')"
    if "of_bool (cv_live p) \<le> active_vus e"
    using w that by (cases p)
      (auto dest: run_one_frame' simp: new_worker_def split: prod.splits bool.splits if_splits option.splits)
  show "cv_id p' = cv_id p \<and> vu_ids e' = vu_ids e \<or>
      cv_id p = None \<and> cv_id p' = Some (vu_ids e + 1) \<and> vu_ids e' = vu_ids e + 1"
    using w by (cases p)
      (auto dest: run_one_frame' simp: new_worker_def split: prod.splits bool.splits if_splits option.splits)
qed (auto elim!: join_tasksE)

interpretation it: vu_workers "it_worker soft_deadline budget" "join_tasks it_done" it_live it_id
proof unfold_locales
  fix i inp e s p e' s' p'
  assume w: "it_worker soft_deadline budget i inp e s p = (e', s', p')"
  show "active_vus e' + of_bool (it_live p) = active_vus e + of_bool (it_live p')"
    if "of_bool (it_live p) \<le> active_vus e"
    using w that by (cases p; cases inp)
      (auto dest: run_one_frame' simp: new_worker_def
        split: prod.splits bool.splits if_splits option.splits iteration_budget.splits)
  show "it_id p' = it_id p \<and> vu_ids e' = vu_ids e \<or>
      it_id p = None \<and> it_id p' = Some (vu_ids e + 1) \<and> vu_ids e' = vu_ids e + 1"
    using w by (cases p; cases inp)
      (auto dest: run_one_frame' simp: new_worker_def
        split: prod.splits bool.splits if_splits option.splits iteration_budget.splits)
qed (auto elim!: join_tasksE)

lemma pool_worker_active:
  assumes "pool_worker soft_deadline grace i inp e s p = (e', s', p')" "of_bool (pool_live p) \<le> active_vus e"
  shows "active_vus e' + of_bool (pool_live p) = active_vus e + of_bool (pool_live p')"
  using assms by (cases p)
    (auto dest: run_one_frame' simp: new_worker_def pool_leave_def Let_def
      split: prod.splits bool.splits if_splits option.splits pool_input.splits)

lemma pool_worker_id:
  assumes "pool_worker soft_deadline grace i inp e s p = (e', s', p')"
  shows "pool_id p' = pool_id p \<and> vu_ids e' = vu_ids e \<or>
      pool_id p = None \<and> pool_id p' = Some (vu_ids e + 1) \<and> vu_ids e' = vu_ids e + 1"
  using assms by (cases p)
    (auto dest: run_one_frame' simp: new_worker_def pool_leave_def Let_def
      split: prod.splits bool.splits if_splits option.splits pool_input.splits)

interpretation ramp: vu_workers "pool_worker soft_deadline grace" "ramp_control start_vus stages started whole"
    pool_live pool_id
  by unfold_locales (use pool_worker_active pool_worker_id in \<open>auto elim!: ramp_controlE join_tasksE\<close>)

interpretation ext: vu_workers "pool_worker soft_deadline grace" scale_control pool_live pool_id
  by unfold_locales (use pool_worker_active pool_worker_id in \<open>auto elim!: scale_controlE join_tasksE\<close>)

section \<open>Shared iterations are claimed exactly once\<close>

fun it_paused :: "it_phase \<Rightarrow> bool" where
  "it_paused (ItPause _ _) = True"
| "it_paused _ = False"

definition uninterrupted :: "nat \<Rightarrow> env \<Rightarrow> bool" where
  "uninterrupted soft_deadline e \<longleftrightarrow> \<not> cancelled e \<and> \<not> soft_stop e \<and> clock e < soft_deadline"

text \<open>Claims and the counter add up, and nobody starts an iteration it has not claimed.\<close>

definition claims_inv :: "nat \<Rightarrow> (it_shared, it_phase) system \<Rightarrow> bool" where
  "claims_inv iterations x =
     (case x of (e, s, ws) \<Rightarrow>
        it_claims s + it_counter s = iterations \<and>
        it_started s + live_count it_paused ws \<le> it_claims s \<and>
        (\<forall>vu d r. ItCas vu d r \<in> set ws \<longrightarrow> it_counter s \<le> r))"

text \<open>While nothing interrupts the run no claim is lost, and tasks end only on an empty counter.\<close>

definition claims_kept :: "nat \<Rightarrow> (it_shared, it_phase) system \<Rightarrow> bool" where
  "claims_kept soft_deadline x =
     (case x of (e, s, ws) \<Rightarrow>
        uninterrupted soft_deadline e \<longrightarrow>
        it_claims s = it_started s + live_count it_paused ws \<and>
        (\<forall>p \<in> set ws. it_done p \<longrightarrow> it_counter s = 0))"

lemma set_update_cases: "p \<in> set (ws[i := p']) \<Longrightarrow> p = p' \<or> p \<in> set ws"
  using set_update_subset_insert [of ws i p'] by auto

lemma claims_task:
  assumes "claims_inv n (e, s, ws)" "i < length ws" "it_worker soft_deadline Shared i inp e s (ws ! i) = (e', s', p')"
  shows "claims_inv n (e', s', ws[i := p'])"
proof -
  have old: "ws ! i \<in> set ws" using assms(2) by simp
  have cas: "it_counter s \<le> r" if "ItCas vu d r \<in> set ws" for vu d r
    using assms(1) that by (auto simp: claims_inv_def)
  have new: "it_counter s' \<le> r" if "p' = ItCas vu d r" for vu d r
    using assms(3) that old cas by (cases "ws ! i"; cases inp)
      (auto simp: new_worker_def split: if_splits option.splits bool.splits prod.splits)
  have mono: "it_counter s' \<le> it_counter s"
    using assms(3) by (cases "ws ! i"; cases inp)
      (auto simp: new_worker_def split: if_splits option.splits bool.splits prod.splits)
  have counts: "it_claims s' + it_counter s' = it_claims s + it_counter s \<and>
      it_started s' + of_bool (it_paused p') + it_claims s \<le> it_started s + of_bool (it_paused (ws ! i)) + it_claims s'"
    using assms(3) by (cases "ws ! i"; cases inp)
      (auto simp: new_worker_def split: if_splits option.splits bool.splits prod.splits)
  have "ItCas vu d r \<in> set (ws[i := p']) \<Longrightarrow> it_counter s' \<le> r" for vu d r
    using new [of vu d r] cas [of vu d r] mono by (auto dest: set_update_cases)
  then show ?thesis
    using assms(1) counts live_count_update [OF assms(2), of it_paused p'] by (auto simp: claims_inv_def)
qed

lemma it_worker_keeps_claims:
  assumes "it_worker soft_deadline Shared i (Completed, spurious) e s p = (e', s', p')" "uninterrupted soft_deadline e"
  shows "it_started s' + of_bool (it_paused p') + it_claims s = it_started s + of_bool (it_paused p) + it_claims s'"
  using assms by (cases p)
    (auto simp: new_worker_def run_one_def wait_unpaused_def uninterrupted_def
      split: if_splits option.splits bool.splits prod.splits)

lemma it_worker_ends:
  assumes "it_worker soft_deadline Shared i (Completed, spurious) e s p = (e', s', p')" "uninterrupted soft_deadline e"
    and "\<And>vu d r. p = ItCas vu d r \<Longrightarrow> it_counter s \<le> r" "it_done p'" "\<not> it_done p"
  shows "it_counter s' = 0"
  using assms by (cases p)
    (auto simp: new_worker_def run_one_def wait_unpaused_def uninterrupted_def
      split: if_splits option.splits bool.splits prod.splits)

lemma claims_kept_task:
  assumes "claims_inv n (e, s, ws)" "claims_kept soft_deadline (e, s, ws)" "i < length ws"
    and "it_worker soft_deadline Shared i (Completed, spurious) e s (ws ! i) = (e', s', p')"
  shows "claims_kept soft_deadline (e', s', ws[i := p'])"
proof -
  have old: "ws ! i \<in> set ws" using assms(3) by simp
  have same: "uninterrupted soft_deadline e' = uninterrupted soft_deadline e"
    using assms(4) by (cases "ws ! i")
      (auto simp: new_worker_def run_one_def uninterrupted_def split: if_splits option.splits bool.splits prod.splits)
  have counts: "it_started s' + of_bool (it_paused p') + it_claims s = it_started s + of_bool (it_paused (ws ! i)) + it_claims s'"
    if "uninterrupted soft_deadline e"
    using it_worker_keeps_claims [OF assms(4) that] .
  have cas: "it_counter s \<le> r" if "ItCas vu d r \<in> set ws" for vu d r
    using assms(1) that by (auto simp: claims_inv_def)
  have ends: "it_counter s' = 0" if "uninterrupted soft_deadline e" "it_done p'" "\<not> it_done (ws ! i)"
    using it_worker_ends [OF assms(4) that(1) _ that(2,3)] old cas by metis
  have mono: "it_counter s' \<le> it_counter s"
    using assms(4) by (cases "ws ! i")
      (auto simp: new_worker_def split: if_splits option.splits bool.splits prod.splits)
  have zero: "it_counter s = 0" if "uninterrupted soft_deadline e" "p \<in> set ws" "it_done p" for p
    using assms(2) that by (auto simp: claims_kept_def)
  have "it_counter s' = 0" if "uninterrupted soft_deadline e" "p \<in> set (ws[i := p'])" "it_done p" for p
    using set_update_cases [OF that(2)] that ends zero [of p] zero [of "ws ! i"] old mono
    by (cases "it_done (ws ! i)") auto
  then show ?thesis
    using assms(2) same counts live_count_update [OF assms(3), of it_paused p'] by (auto simp: claims_kept_def)
qed

text \<open>
  C10: with a shared budget of \<open>iterations\<close>, whatever the interleaving of the VU tasks, pauses,
  stops and failing compare-and-swap attempts: claims plus the remaining counter always equal the
  budget, at most \<open>iterations\<close> iterations start, the active-VU gauge equals the number of live
  tasks, and no two tasks hold the same VU id.
\<close>

theorem shared_iterations_exact:
  assumes "run_iterations e0 vus Shared iterations max_duration = (soft_deadline, x)"
    and "active_vus e0 = 0"
    and "vu_run (it_worker soft_deadline Shared) (join_tasks it_done) graceful x (e, s, ws)"
  shows "it_claims s + it_counter s = iterations \<and> it_started s \<le> iterations \<and>
    active_vus e = live_count it_live ws \<and>
    (\<forall>i < length ws. \<forall>j < length ws. it_id (ws ! i) \<noteq> None \<and> it_id (ws ! i) = it_id (ws ! j) \<longrightarrow> i = j)"
proof -
  have x: "x = (arm_graceful_stop (Some soft_deadline) e0,
      \<lparr>it_counter = iterations, it_claims = 0, it_started = 0\<rparr>, replicate vus ItSpawned)"
    using assms(1) by (auto simp: run_iterations_def Let_def)
  have "claims_inv iterations (e, s, ws)"
    by (rule vu_run_invariant [OF assms(3)], simp add: claims_inv_def x, erule (2) claims_task)
      (auto simp: claims_inv_def elim!: join_tasksE)
  then have "it_claims s + it_counter s = iterations \<and> it_started s \<le> iterations"
    by (simp add: claims_inv_def)
  moreover have "vu_books it_live it_id (e, s, ws)"
    using assms(2) by (intro it.books_kept [OF assms(3)]) (simp add: x vu_books_init arm_graceful_stop_def)
  note vu_booksD(1) [OF this] vu_books_distinct [OF this]
  ultimately show ?thesis by blast
qed

definition example_schedule :: "(nat \<times> iteration_outcome \<times> bool) list" where
  "example_schedule = map (\<lambda>i. (i, Completed, False)) [0, 1, 0, 0, 1, 1, 1, 1, 1, 0, 0, 0, 0, 0, 0, 0, 0, 0, 1, 1]"

lemma example_schedule_result:
  "run_tasks (it_worker 10 Shared) example_schedule
     (arm_graceful_stop (Some 10) example_env, \<lparr>it_counter = 2, it_claims = 0, it_started = 0\<rparr>, [ItSpawned, ItSpawned]) =
   (example_env\<lparr>vu_ids := 2, watchdog := WdWaiting (Some 10)\<rparr>, \<lparr>it_counter = 0, it_claims = 2, it_started = 2\<rparr>,
    [ItDone 1 1, ItDone 2 1])"
  by (simp add: example_schedule_def example_env_def arm_graceful_stop_def new_worker_def active_add_def
      active_sub_def wait_unpaused_def run_one_def Let_def)

theorem shared_iterations_exact_witness:
  "it_claims \<lparr>it_counter = 0, it_claims = 2, it_started = 2\<rparr> = 2 \<and>
   live_count it_live [ItDone 1 1, ItDone 2 1] = active_vus (example_env\<lparr>vu_ids := 2, watchdog := WdWaiting (Some 10)\<rparr>)"
proof -
  let ?x = "(arm_graceful_stop (Some 10) example_env, \<lparr>it_counter = 2, it_claims = 0, it_started = 0\<rparr>, [ItSpawned, ItSpawned])"
  have init: "run_iterations example_env 2 Shared 2 10 = (10, ?x)"
    by (simp add: run_iterations_def example_env_def numeral_2_eq_2)
  have "vu_run (it_worker 10 Shared) (join_tasks it_done) 30 ?x
      (run_tasks (it_worker 10 Shared) example_schedule ?x)"
    by (intro run_tasks_run vu_run.refl)
  then have run: "vu_run (it_worker 10 Shared) (join_tasks it_done) 30 ?x
      (example_env\<lparr>vu_ids := 2, watchdog := WdWaiting (Some 10)\<rparr>,
       \<lparr>it_counter = 0, it_claims = 2, it_started = 2\<rparr>, [ItDone 1 1, ItDone 2 1])"
    by (simp only: example_schedule_result)
  have "active_vus example_env = 0" by (simp add: example_env_def)
  from shared_iterations_exact [OF init this run] show ?thesis by (simp add: example_env_def)
qed

text \<open>
  C24: when every iteration completes and neither a stop, a cancellation nor the maximal duration
  interrupts the run, the tasks of a non-empty pool end only after exactly \<open>iterations\<close> iterations
  have been started.
\<close>

theorem shared_iterations_complete:
  assumes "run_iterations e0 vus Shared iterations max_duration = (soft_deadline, x)" "0 < vus"
    and "vu_run (\<lambda>i spurious. it_worker soft_deadline Shared i (Completed, spurious))
      (join_tasks it_done) graceful x (e, s, ws)"
    and "\<forall>p \<in> set ws. it_done p" "\<not> cancelled e" "\<not> soft_stop e" "clock e < soft_deadline"
  shows "it_started s = iterations"
proof -
  have x: "x = (arm_graceful_stop (Some soft_deadline) e0,
      \<lparr>it_counter = iterations, it_claims = 0, it_started = 0\<rparr>, replicate vus ItSpawned)"
    using assms(1) by (auto simp: run_iterations_def Let_def)
  let ?I = "\<lambda>y. claims_inv iterations y \<and> claims_kept soft_deadline y \<and> snd (snd y) \<noteq> []"
  have "?I (e, s, ws)"
  proof (rule vu_run_invariant [OF assms(3), of ?I])
    show "?I x" using assms(2) by (simp add: x claims_inv_def claims_kept_def)
  next
    fix i sp e1 s1 ws1 e2 s2 p
    assume "?I (e1, s1, ws1)" "i < length ws1" "it_worker soft_deadline Shared i (Completed, sp) e1 s1 (ws1 ! i) = (e2, s2, p)"
    then show "?I (e2, s2, ws1[i := p])" using claims_task claims_kept_task by auto
  next
    fix e1 s1 ws1 e2 assume "?I (e1, s1, ws1)" "env_step graceful e1 e2"
    then show "?I (e2, s1, ws1)" using env_step_frame [of graceful e1 e2]
      by (auto simp: claims_inv_def claims_kept_def uninterrupted_def)
  qed (auto simp: claims_inv_def claims_kept_def uninterrupted_def elim!: join_tasksE)
  moreover have "uninterrupted soft_deadline e" using assms by (simp add: uninterrupted_def)
  moreover have "live_count it_paused ws = 0"
    using assms(4) by (auto simp: live_count_def filter_empty_conv) (metis it_done.simps(5) it_paused.elims(2))
  ultimately show ?thesis using assms(4) by (cases ws) (auto simp: claims_inv_def claims_kept_def)
qed

theorem shared_iterations_complete_witness:
  "it_started \<lparr>it_counter = 0, it_claims = 2, it_started = 2\<rparr> = 2"
proof -
  let ?w = "\<lambda>i spurious. it_worker 10 Shared i (Completed, spurious)"
  let ?x = "(arm_graceful_stop (Some 10) example_env, \<lparr>it_counter = 2, it_claims = 0, it_started = 0\<rparr>, [ItSpawned, ItSpawned])"
  have init: "run_iterations example_env 2 Shared 2 10 = (10, ?x)"
    by (simp add: run_iterations_def example_env_def numeral_2_eq_2)
  have "vu_run ?w (join_tasks it_done) 30 ?x (run_tasks ?w (map (\<lambda>i. (i, False)) [0, 1, 0, 0, 1, 1, 1, 1, 1, 0, 0, 0, 0, 0, 0, 0, 0, 0, 1, 1]) ?x)"
    by (intro run_tasks_run vu_run.refl)
  moreover have "run_tasks ?w (map (\<lambda>i. (i, False)) [0, 1, 0, 0, 1, 1, 1, 1, 1, 0, 0, 0, 0, 0, 0, 0, 0, 0, 1, 1]) ?x =
      (example_env\<lparr>vu_ids := 2, watchdog := WdWaiting (Some 10)\<rparr>, \<lparr>it_counter = 0, it_claims = 2, it_started = 2\<rparr>,
       [ItDone 1 1, ItDone 2 1])"
    by (simp add: example_env_def arm_graceful_stop_def new_worker_def active_add_def
        active_sub_def wait_unpaused_def run_one_def Let_def)
  ultimately have run: "vu_run ?w (join_tasks it_done) 30 ?x
      (example_env\<lparr>vu_ids := 2, watchdog := WdWaiting (Some 10)\<rparr>,
       \<lparr>it_counter = 0, it_claims = 2, it_started = 2\<rparr>, [ItDone 1 1, ItDone 2 1])" by (simp only:)
  show ?thesis using shared_iterations_complete [OF init _ run] by (simp add: example_env_def)
qed

section \<open>Per-VU iterations\<close>

text \<open>How many iterations a task has finished, if it has started.\<close>

fun it_finished :: "it_phase \<Rightarrow> nat" where
  "it_finished ItSpawned = 0"
| "it_finished (ItTop _ d) = d"
| "it_finished (ItCas _ d _) = d"
| "it_finished (ItPause _ d) = d"
| "it_finished (ItRun _ d) = d"
| "it_finished (ItDone _ d) = d"

fun it_in_budget :: "nat \<Rightarrow> it_phase \<Rightarrow> bool" where
  "it_in_budget per_vu (ItPause _ d) \<longleftrightarrow> d < per_vu"
| "it_in_budget per_vu (ItRun _ d) \<longleftrightarrow> d < per_vu"
| "it_in_budget per_vu (ItCas _ _ _) \<longleftrightarrow> False"
| "it_in_budget per_vu p \<longleftrightarrow> it_finished p \<le> per_vu"

lemma it_budget_task:
  assumes "it_worker soft_deadline (PerVu per_vu) i inp e s p = (e', s', p')" "it_in_budget per_vu p"
  shows "it_in_budget per_vu p'"
  using assms by (cases p; cases inp)
    (auto simp: new_worker_def split: if_splits option.splits bool.splits prod.splits)

lemma it_full_task:
  assumes "it_worker soft_deadline (PerVu per_vu) i (Completed, spurious) e s p = (e', s', p')"
    and "it_in_budget per_vu p" "uninterrupted soft_deadline e" "\<not> it_done p" "it_done p'"
  shows "it_finished p' = per_vu"
  using assms by (cases p)
    (auto simp: new_worker_def run_one_def wait_unpaused_def uninterrupted_def
      split: if_splits option.splits bool.splits prod.splits)

lemma it_done_stays: "it_worker soft_deadline budget i inp e s p = (e', s', p') \<Longrightarrow> it_done p \<Longrightarrow> p' = p"
  by (cases p; cases inp) auto

lemma it_completed_uninterrupted:
  "it_worker soft_deadline budget i (Completed, spurious) e s p = (e', s', p') \<Longrightarrow>
   uninterrupted soft_deadline e' = uninterrupted soft_deadline e"
  by (cases p)
    (auto simp: new_worker_def run_one_def uninterrupted_def
      split: if_splits option.splits bool.splits prod.splits iteration_budget.splits)

text \<open>
  With a per-VU budget no VU ever finishes more than its \<open>per_vu\<close> iterations, and in a run
  whose iterations complete and that nothing interrupts every task that ends has finished exactly
  that many.
\<close>

theorem per_vu_iterations_exact:
  assumes "run_iterations e0 vus (PerVu per_vu) n max_duration = (soft_deadline, x)"
    and "vu_run (\<lambda>i spurious. it_worker soft_deadline (PerVu per_vu) i (Completed, spurious))
      (join_tasks it_done) graceful x (e, s, ws)"
  shows "\<forall>p \<in> set ws. it_finished p \<le> per_vu \<and>
    (it_done p \<and> \<not> cancelled e \<and> \<not> soft_stop e \<and> clock e < soft_deadline \<longrightarrow> it_finished p = per_vu)"
proof -
  let ?ok = "\<lambda>e p. it_in_budget per_vu p \<and>
    (it_done p \<and> uninterrupted soft_deadline e \<longrightarrow> it_finished p = per_vu)"
  let ?I = "\<lambda>y. \<forall>p \<in> set (snd (snd y)). ?ok (fst y) p"
  have x: "set (snd (snd x)) \<subseteq> {ItSpawned}" using assms(1) by (auto simp: run_iterations_def Let_def)
  have "?I (e, s, ws)"
  proof (rule vu_run_invariant [OF assms(2), of ?I])
    show "?I x" using x by auto
  next
    fix i sp e1 s1 ws1 e2 s2 p
    assume I: "?I (e1, s1, ws1)" and i: "i < length ws1"
      and w: "it_worker soft_deadline (PerVu per_vu) i (Completed, sp) e1 s1 (ws1 ! i) = (e2, s2, p)"
    from I i have "?ok e1 (ws1 ! i)" by simp
    then have "?ok e2 p"
      using it_budget_task [OF w] it_full_task [OF w] it_done_stays [OF w]
        it_completed_uninterrupted [OF w] by (cases "it_done (ws1 ! i)") auto
    then show "?I (e2, s2, ws1[i := p])"
      using I it_completed_uninterrupted [OF w] by (auto dest!: set_update_cases)
  next
    fix e1 s1 ws1 e2 assume "?I (e1, s1, ws1)" "env_step graceful e1 e2"
    then show "?I (e2, s1, ws1)" using env_step_frame [of graceful e1 e2] by (auto simp: uninterrupted_def)
  qed (auto simp: uninterrupted_def elim!: join_tasksE)
  then show ?thesis by (auto simp: uninterrupted_def elim!: it_in_budget.elims)
qed

theorem per_vu_iterations_exact_witness:
  "list_all (\<lambda>p. it_finished p = 2) (snd (snd (run_tasks (\<lambda>i spurious. it_worker 10 (PerVu 2) i (Completed, spurious))
     (replicate 8 (0, False)) (snd (run_iterations example_env 1 (PerVu 2) 0 10)))))"
proof -
  let ?w = "\<lambda>i spurious. it_worker 10 (PerVu 2) i (Completed, spurious)"
  let ?x = "(arm_graceful_stop (Some 10) example_env, \<lparr>it_counter = 0, it_claims = 0, it_started = 0\<rparr>, [ItSpawned])"
  have init: "run_iterations example_env 1 (PerVu 2) 0 10 = (10, ?x)"
    by (simp add: run_iterations_def example_env_def)
  have "vu_run ?w (join_tasks it_done) 30 ?x (run_tasks ?w (replicate 8 (0, False)) ?x)"
    by (intro run_tasks_run vu_run.refl)
  moreover have result: "run_tasks ?w (replicate 8 (0, False)) ?x =
      (example_env\<lparr>vu_ids := 1, watchdog := WdWaiting (Some 10)\<rparr>, \<lparr>it_counter = 0, it_claims = 0, it_started = 2\<rparr>, [ItDone 1 2])"
    by (simp add: eval_nat_numeral example_env_def arm_graceful_stop_def new_worker_def active_add_def
        active_sub_def wait_unpaused_def run_one_def Let_def)
  ultimately have run: "vu_run ?w (join_tasks it_done) 30 ?x
      (example_env\<lparr>vu_ids := 1, watchdog := WdWaiting (Some 10)\<rparr>, \<lparr>it_counter = 0, it_claims = 0, it_started = 2\<rparr>, [ItDone 1 2])"
    by (simp only:)
  show ?thesis unfolding init snd_conv result using per_vu_iterations_exact [OF init run] by (simp add: example_env_def)
qed

section \<open>Ramping and externally controlled VUs\<close>

lemma pool_worker_shared: "pool_worker soft_deadline grace i inp e s p = (e', s', p') \<Longrightarrow> s' = s"
  by (cases p) (auto simp: Let_def split: if_splits option.splits bool.splits prod.splits pool_input.splits)

text \<open>
  C26: a ramp of at most $2^{53}$ VUs and less than $2^{53}$ seconds starts without a panic and
  spawns exactly \<open>vu_capacity\<close> tasks; in every interleaving the allowed VU count stays within
  that capacity, the active-VU gauge equals the number of live tasks, and the VU ids held are
  pairwise different, so the scenario takes no more ids than its capacity.
\<close>

theorem ramping_vus_books:
  assumes "unat (vu_capacity (RampingVus start_vus stages)) \<le> 2 ^ 53"
    and "sum_list (map fst stages) < 2 ^ 53 * NANOS_PER_SEC"
    and "active_vus e0 = 0"
  shows "\<exists>soft_deadline whole x. run_ramping_vus e0 start_vus stages = Some (soft_deadline, whole, x) \<and>
    (\<forall>e s ws. vu_run (pool_worker (Some soft_deadline) grace) (ramp_control start_vus stages (clock e0) whole)
         graceful x (e, s, ws) \<longrightarrow>
       length ws = unat (vu_capacity (RampingVus start_vus stages)) \<and>
       allowed s \<le> unat (vu_capacity (RampingVus start_vus stages)) \<and>
       active_vus e = live_count pool_live ws \<and>
       (\<forall>i < length ws. \<forall>j < length ws. pool_id (ws ! i) \<noteq> None \<and> pool_id (ws ! i) = pool_id (ws ! j) \<longrightarrow> i = j))"
proof -
  let ?cap = "unat (vu_capacity (RampingVus start_vus stages))"
  let ?whole = "sum_list (map fst stages)"
  have "?whole < DURATION_LIMIT" using assms(2) by (simp add: DURATION_LIMIT_def NANOS_PER_SEC_def)
  moreover have "(case map snd stages @ [start_vus] of [] \<Rightarrow> 0 | t # ts \<Rightarrow> foldl max t ts) = vu_capacity (RampingVus start_vus stages)"
    using peak_vus_ramping [of start_vus stages] by (simp add: peak_vus_def)
  ultimately obtain x where init: "run_ramping_vus e0 start_vus stages = Some (clock e0 + ?whole, ?whole, x)"
    and x: "x = (arm_graceful_stop (Some (clock e0 + ?whole)) e0, \<lparr>allowed = unat start_vus, allowed_open = True\<rparr>,
      replicate ?cap (PlTop None False))"
    by (simp add: run_ramping_vus_def dur_sum_eq Let_def run_allocated_pool_def)
  have start: "unat start_vus \<le> ?cap"
    using vu_capacity_ramping [of start_vus start_vus stages] by (simp add: word_le_nat_alt)
  have target: "unat v \<le> ?cap" if "vus_at start_vus stages t = Some v" for t v
    using vus_at_in_capacity [OF assms(1,2)] that by (simp add: word_le_nat_alt)
  show ?thesis
  proof (rule exI, rule exI, rule exI, rule conjI [OF init], intro allI impI)
    fix e s ws
    assume run: "vu_run (pool_worker (Some (clock e0 + ?whole)) grace)
      (ramp_control start_vus stages (clock e0) ?whole) graceful x (e, s, ws)"
    let ?I = "\<lambda>y. length (snd (snd y)) = ?cap \<and> allowed (fst (snd y)) \<le> ?cap"
    have "?I (e, s, ws)"
      by (rule vu_run_invariant [OF run, of ?I])
        (auto simp: x start target elim!: ramp_controlE join_tasksE dest!: pool_worker_shared)
    moreover have "vu_books pool_live pool_id (e, s, ws)"
      using assms(3) by (intro ramp.books_kept [OF run]) (simp add: x vu_books_init arm_graceful_stop_def)
    note vu_booksD(1) [OF this] vu_books_distinct [OF this]
    ultimately show "length ws = ?cap \<and> allowed s \<le> ?cap \<and> active_vus e = live_count pool_live ws \<and>
       (\<forall>i < length ws. \<forall>j < length ws. pool_id (ws ! i) \<noteq> None \<and> pool_id (ws ! i) = pool_id (ws ! j) \<longrightarrow> i = j)"
      by auto
  qed
qed

theorem ramping_vus_books_witness:
  "\<exists>soft_deadline whole e s ws. run_ramping_vus example_env 1 [(1000000000, 2)] = Some (soft_deadline, whole, e, s, ws) \<and>
     length ws = 2 \<and> allowed s \<le> 2 \<and> active_vus e = live_count pool_live ws"
proof -
  have cap: "vu_capacity (RampingVus 1 [(1000000000, 2)]) = 2" by (simp add: vu_capacity_def)
  have hyps: "unat (vu_capacity (RampingVus 1 [(1000000000, 2)])) \<le> 2 ^ 53"
    "sum_list (map fst [(1000000000, 2 :: u64)]) < 2 ^ 53 * NANOS_PER_SEC" "active_vus example_env = 0"
    by (simp_all add: cap NANOS_PER_SEC_def example_env_def)
  obtain sd whole x where x: "run_ramping_vus example_env 1 [(1000000000, 2)] = Some (sd, whole, x)"
    and all: "\<And>e s ws. vu_run (pool_worker (Some sd) 5) (ramp_control 1 [(1000000000, 2)] (clock example_env) whole) 30 x (e, s, ws) \<Longrightarrow>
      length ws = unat (vu_capacity (RampingVus 1 [(1000000000, 2)])) \<and>
      allowed s \<le> unat (vu_capacity (RampingVus 1 [(1000000000, 2)])) \<and> active_vus e = live_count pool_live ws"
    using ramping_vus_books [OF hyps, of 5 30] by blast
  obtain e s ws where e: "x = (e, s, ws)" by (cases x)
  with all [of e s ws] have "length ws = 2 \<and> allowed s \<le> 2 \<and> active_vus e = live_count pool_live ws"
    by (simp add: vu_run.refl cap)
  with x e show ?thesis by blast
qed

text \<open>
  Without a control channel the tasks of an externally controlled scenario end at their second
  poll instead of waiting for a stop: the sender is gone, so waiting for a change fails at once.
\<close>

lemma external_disconnected_ends:
  assumes "run_externally_controlled e0 max_vus None None = (soft_deadline, e, s, ws)"
    and "i < max_vus" "\<not> cancelled e0" "\<not> soft_stop e0"
  shows "run_tasks (pool_worker soft_deadline grace) [(i, Idle), (i, Idle)] (e, s, ws) = (e, s, ws[i := PlDone None])"
  using assms by (auto simp: run_externally_controlled_def arm_graceful_stop_def run_allocated_pool_def pool_leave_def)

end
