(* ===== verification/Arrival.thy ===== *)
theory Arrival
  imports Vu_Env
begin

text \<open>
  The open-model executor of \<open>loadr-core/src/executor.rs\<close>: \<open>ArrivalGate\<close>, the dispatcher loop of
  \<open>run_arrival_rate\<close> and its worker tasks. The gate's budget is a \<open>tokio::sync::Semaphore\<close>, which
  is code outside the repository: it is the argument \<open>sem\<close>, and \<open>sem_laws\<close> collects what its
  documentation promises and the gate's comments rely on.
\<close>

section \<open>The semaphore interface\<close>

datatype acquire_result = Acquired | NoPermits | SemClosed

text \<open>
  \<open>sem_poll w\<close> polls the \<open>acquire()\<close> future of waiter \<open>w\<close>, queueing it when no permit is available
  (\<open>NoPermits\<close>, a pending future); a future that resolves is gone, and so is one that is dropped.
\<close>

record 's semaphore =
  sem_new :: 's
  sem_try_acquire :: "'s \<Rightarrow> acquire_result \<times> 's"
  sem_poll :: "nat \<Rightarrow> 's \<Rightarrow> acquire_result \<times> 's"
  sem_drop :: "nat \<Rightarrow> 's \<Rightarrow> 's"
  sem_add_permits :: "nat \<Rightarrow> 's \<Rightarrow> 's panicky"
  sem_forget_permits :: "nat \<Rightarrow> 's \<Rightarrow> nat \<times> 's"
  sem_close :: "'s \<Rightarrow> 's"

definition MAX_PERMITS :: nat where
  "MAX_PERMITS = (2 ^ 64 - 1) div 8"

text \<open>
  The documented behaviour, over the permits in the pool (\<open>avail\<close>), the permits in the pool or
  assigned to a queued waiter (\<open>held\<close>) and the queued waiters: acquiring takes exactly one permit,
  adding adds, forgetting takes only from the pool, closing and dropping a future lose none, and
  without queued waiters every permit is in the pool.
\<close>

definition law_new :: "'s semaphore \<Rightarrow> ('s \<Rightarrow> bool) \<Rightarrow> ('s \<Rightarrow> nat) \<Rightarrow> ('s \<Rightarrow> nat set) \<Rightarrow> bool" where
  "law_new sem ok held waiters \<longleftrightarrow>
     ok (sem_new sem) \<and> held (sem_new sem) = 0 \<and> waiters (sem_new sem) = {}"

definition law_try :: "'s semaphore \<Rightarrow> ('s \<Rightarrow> bool) \<Rightarrow> ('s \<Rightarrow> nat) \<Rightarrow> ('s \<Rightarrow> nat set) \<Rightarrow> bool" where
  "law_try sem ok held waiters \<longleftrightarrow>
     (\<forall>s r s'. ok s \<and> sem_try_acquire sem s = (r, s') \<longrightarrow>
        ok s' \<and> held s = held s' + of_bool (r = Acquired) \<and> waiters s' = waiters s)"

definition law_poll :: "'s semaphore \<Rightarrow> ('s \<Rightarrow> bool) \<Rightarrow> ('s \<Rightarrow> nat) \<Rightarrow> ('s \<Rightarrow> nat set) \<Rightarrow> bool" where
  "law_poll sem ok held waiters \<longleftrightarrow>
     (\<forall>w s r s'. ok s \<and> sem_poll sem w s = (r, s') \<longrightarrow>
        ok s' \<and> held s = held s' + of_bool (r = Acquired) \<and>
        waiters s' = (if r = NoPermits then insert w (waiters s) else waiters s - {w}))"

definition law_drop :: "'s semaphore \<Rightarrow> ('s \<Rightarrow> bool) \<Rightarrow> ('s \<Rightarrow> nat) \<Rightarrow> ('s \<Rightarrow> nat set) \<Rightarrow> bool" where
  "law_drop sem ok held waiters \<longleftrightarrow>
     (\<forall>w s. ok s \<longrightarrow> ok (sem_drop sem w s) \<and> held (sem_drop sem w s) = held s \<and>
        waiters (sem_drop sem w s) = waiters s - {w})"

definition law_add :: "'s semaphore \<Rightarrow> ('s \<Rightarrow> bool) \<Rightarrow> ('s \<Rightarrow> nat) \<Rightarrow> ('s \<Rightarrow> nat set) \<Rightarrow> bool" where
  "law_add sem ok held waiters \<longleftrightarrow>
     (\<forall>n s s'. ok s \<and> sem_add_permits sem n s = Some s' \<longrightarrow>
        ok s' \<and> held s' = held s + n \<and> waiters s' = waiters s)"

definition law_forget ::
  "'s semaphore \<Rightarrow> ('s \<Rightarrow> bool) \<Rightarrow> ('s \<Rightarrow> nat) \<Rightarrow> ('s \<Rightarrow> nat) \<Rightarrow> ('s \<Rightarrow> nat set) \<Rightarrow> bool" where
  "law_forget sem ok held avail waiters \<longleftrightarrow>
     (\<forall>n s k s'. ok s \<and> sem_forget_permits sem n s = (k, s') \<longrightarrow>
        ok s' \<and> k = min n (avail s) \<and> held s = held s' + k \<and> waiters s' = waiters s)"

definition law_close :: "'s semaphore \<Rightarrow> ('s \<Rightarrow> bool) \<Rightarrow> ('s \<Rightarrow> nat) \<Rightarrow> ('s \<Rightarrow> nat set) \<Rightarrow> bool" where
  "law_close sem ok held waiters \<longleftrightarrow>
     (\<forall>s. ok s \<longrightarrow> ok (sem_close sem s) \<and> held (sem_close sem s) = held s \<and>
        waiters (sem_close sem s) = waiters s)"

definition law_pool :: "('s \<Rightarrow> bool) \<Rightarrow> ('s \<Rightarrow> nat) \<Rightarrow> ('s \<Rightarrow> nat) \<Rightarrow> ('s \<Rightarrow> nat set) \<Rightarrow> bool" where
  "law_pool ok held avail waiters \<longleftrightarrow>
     (\<forall>s. ok s \<longrightarrow> avail s \<le> held s \<and> avail s \<le> MAX_PERMITS \<and> (waiters s = {} \<longrightarrow> avail s = held s))"

definition sem_laws ::
  "'s semaphore \<Rightarrow> ('s \<Rightarrow> bool) \<Rightarrow> ('s \<Rightarrow> nat) \<Rightarrow> ('s \<Rightarrow> nat) \<Rightarrow> ('s \<Rightarrow> nat set) \<Rightarrow> bool" where
  "sem_laws sem ok held avail waiters \<longleftrightarrow>
     law_new sem ok held waiters \<and> law_try sem ok held waiters \<and> law_poll sem ok held waiters \<and>
     law_drop sem ok held waiters \<and> law_add sem ok held waiters \<and> law_forget sem ok held avail waiters \<and>
     law_close sem ok held waiters \<and> law_pool ok held avail waiters"

lemma sem_lawsD:
  assumes "sem_laws sem ok held avail waiters"
  shows "law_new sem ok held waiters" "law_try sem ok held waiters" "law_poll sem ok held waiters"
    "law_drop sem ok held waiters" "law_add sem ok held waiters" "law_forget sem ok held avail waiters"
    "law_close sem ok held waiters" "law_pool ok held avail waiters"
  using assms by (simp_all add: sem_laws_def)

section \<open>The gate\<close>

record 's gate =
  budget :: 's
  parked :: nat
  gate_closed :: bool

datatype claim = Claimed | Empty | Closed

definition gate_new :: "'s semaphore \<Rightarrow> 's gate" where
  "gate_new sem = \<lparr>budget = sem_new sem, parked = 0, gate_closed = False\<rparr>"

definition try_claim :: "'s semaphore \<Rightarrow> 's gate \<Rightarrow> claim \<times> 's gate" where
  "try_claim sem g =
     (case sem_try_acquire sem (budget g) of
        (Acquired, b) \<Rightarrow> (Claimed, g\<lparr>budget := b\<rparr>)
      | (NoPermits, b) \<Rightarrow> (Empty, g\<lparr>budget := b\<rparr>)
      | (SemClosed, b) \<Rightarrow> (Closed, g\<lparr>budget := b\<rparr>))"

text \<open>One poll of \<open>claim_parked\<close>: \<open>None\<close> while the worker stays parked.\<close>

definition claim_parked :: "'s semaphore \<Rightarrow> nat \<Rightarrow> 's gate \<Rightarrow> bool option \<times> 's gate" where
  "claim_parked sem w g =
     (case sem_poll sem w (budget g) of
        (Acquired, b) \<Rightarrow> (Some True, g\<lparr>budget := b\<rparr>)
      | (SemClosed, b) \<Rightarrow> (Some False, g\<lparr>budget := b\<rparr>)
      | (NoPermits, b) \<Rightarrow> (None, g\<lparr>budget := b\<rparr>))"

definition park :: "'s gate \<Rightarrow> 's gate" where
  "park g = g\<lparr>parked := parked g + 1\<rparr>"

text \<open>The drop of a \<open>ParkGuard\<close>.\<close>

definition unpark :: "'s gate \<Rightarrow> 's gate" where
  "unpark g = g\<lparr>parked := parked g - 1\<rparr>"

definition publish :: "'s semaphore \<Rightarrow> nat \<Rightarrow> nat option \<Rightarrow> nat \<Rightarrow> duration \<Rightarrow> 's gate \<Rightarrow> (nat option \<times> 's gate) panicky" where
  "publish sem due expiry now tick g =
     (case sem_add_permits sem due (budget g) of
        None \<Rightarrow> None
      | Some b \<Rightarrow> Some (case expiry of None \<Rightarrow> Some (now + tick) | Some until' \<Rightarrow> Some until', g\<lparr>budget := b\<rparr>))"

definition take_unclaimed :: "'s semaphore \<Rightarrow> 's gate \<Rightarrow> nat \<times> 's gate" where
  "take_unclaimed sem g =
     (case sem_forget_permits sem MAX_PERMITS (budget g) of (k, b) \<Rightarrow> (k, g\<lparr>budget := b\<rparr>))"

definition expire_due :: "'s semaphore \<Rightarrow> nat option \<Rightarrow> nat \<Rightarrow> 's gate \<Rightarrow> nat \<times> nat option \<times> 's gate" where
  "expire_due sem expiry now g =
     (case expiry of
        Some until' \<Rightarrow>
          if until' \<le> now then (case take_unclaimed sem g of (k, g') \<Rightarrow> (k, None, g')) else (0, Some until', g)
      | None \<Rightarrow> (0, None, g))"

definition gate_close :: "'s semaphore \<Rightarrow> 's gate \<Rightarrow> nat \<times> 's gate" where
  "gate_close sem g = take_unclaimed sem (g\<lparr>budget := sem_close sem (budget g), gate_closed := True\<rparr>)"

section \<open>The dispatcher\<close>

text \<open>
  \<open>dispatch_tick\<close>: the argument is the value of \<open>LOADR_DISPATCH_TICK_US\<close> when it is set and
  parses as a \<open>u64\<close>.
\<close>

definition dispatch_tick :: "u64 option \<Rightarrow> duration" where
  "dispatch_tick v =
     (let us = unat (case v of None \<Rightarrow> 5000 | Some us \<Rightarrow> us) in from_micros (min (max us 250) 1000000))"

datatype dispatch_phase = Dispatching | Draining | Joining | Finished

text \<open>
  The dispatcher's variables, the dropped-iterations counter it feeds, and two history variables:
  the arrivals published and the iterations workers started.
\<close>

record 's arrival =
  ar_gate :: "'s gate"
  ar_phase :: dispatch_phase
  ar_emitted :: f64
  ar_last :: nat
  ar_expiry :: "nat option"
  ar_allocated :: nat
  ar_dropped :: nat
  ar_published :: nat
  ar_ran :: nat

definition record_dropped :: "nat \<Rightarrow> 's arrival \<Rightarrow> 's arrival" where
  "record_dropped n a = (if 0 < n then a\<lparr>ar_dropped := ar_dropped a + n\<rparr> else a)"

text \<open>The parameters fixed before the loop.\<close>

record dispatch_config =
  dc_schedule :: rate_schedule
  dc_max_vus :: nat
  dc_tick :: duration
  dc_soft_deadline :: nat
  dc_started :: nat

definition expire_and_drop :: "'s semaphore \<Rightarrow> nat \<Rightarrow> 's arrival \<Rightarrow> 's arrival" where
  "expire_and_drop sem now a =
     (case expire_due sem (ar_expiry a) now (ar_gate a) of
        (k, expiry, g) \<Rightarrow> record_dropped k (a\<lparr>ar_gate := g, ar_expiry := expiry\<rparr>))"

definition drop_active_batch :: "'s semaphore \<Rightarrow> 's arrival \<Rightarrow> 's arrival" where
  "drop_active_batch sem a =
     (if ar_expiry a \<noteq> None
      then (case take_unclaimed sem (ar_gate a) of
              (k, g) \<Rightarrow> record_dropped k (a\<lparr>ar_gate := g, ar_expiry := None\<rparr>))
      else a)"

definition end_or_continue :: "bool \<Rightarrow> 's arrival \<Rightarrow> 's arrival" where
  "end_or_continue deadline_elapsed a = (if deadline_elapsed then a\<lparr>ar_phase := Draining\<rparr> else a)"

text \<open>
  The body of the dispatcher loop after its \<open>select!\<close>: \<open>woke_late\<close> says that the deadline branch
  fired, \<open>clock e\<close> is what \<open>Instant::now()\<close> and \<open>started.elapsed()\<close> read. The result is the new
  state and the number of workers to spawn; a natural end moves to draining.
\<close>

definition dispatch_body ::
  "'s semaphore \<Rightarrow> dispatch_config \<Rightarrow> env \<Rightarrow> bool \<Rightarrow> 's arrival \<Rightarrow> (nat \<times> 's arrival) panicky" where
  "dispatch_body sem cfg e woke_late a =
     (let now = min (clock e) (dc_soft_deadline cfg);
          deadline_elapsed = (woke_late \<or> dc_soft_deadline cfg \<le> now);
          a1 = expire_and_drop sem now a
      in if paused e
         then Some (0, end_or_continue deadline_elapsed ((drop_active_batch sem a1)\<lparr>ar_last := now\<rparr>))
         else
           (case rate_at (dc_schedule cfg) (clock e - dc_started cfg) of
              None \<Rightarrow> None
            | Some rate \<Rightarrow>
                (let dt = as_secs_f64 (now - ar_last a1);
                     emitted = ar_emitted a1 + rate * dt;
                     due = f64_to_u64 emitted;
                     a2 = a1\<lparr>ar_last := now, ar_emitted := emitted\<rparr>
                 in if due = 0 then Some (0, end_or_continue deadline_elapsed a2)
                    else
                      (let grow = min (due - parked (ar_gate a2)) (dc_max_vus cfg - ar_allocated a2)
                       in case publish sem due (ar_expiry a2) now (dc_tick cfg) (ar_gate a2) of
                            None \<Rightarrow> None
                          | Some (expiry, g) \<Rightarrow>
                              Some (grow, end_or_continue deadline_elapsed
                                (a2\<lparr>ar_emitted := emitted - f64_of_nat due,
                                    ar_allocated := ar_allocated a2 + grow,
                                    ar_gate := g, ar_expiry := expiry,
                                    ar_published := ar_published a2 + due\<rparr>))))))"

text \<open>One round of the drain loop after a natural end; \<open>stopped\<close> is the stop or cancel branch.\<close>

definition drain_body :: "'s semaphore \<Rightarrow> env \<Rightarrow> 's arrival \<Rightarrow> 's arrival" where
  "drain_body sem e a =
     (if ar_expiry a = None \<or> cancelled e \<or> soft_stop e then a\<lparr>ar_phase := Joining\<rparr>
      else if paused e then (drop_active_batch sem a)\<lparr>ar_phase := Joining\<rparr>
      else expire_and_drop sem (clock e) a)"

definition close_and_drop :: "'s semaphore \<Rightarrow> 's arrival \<Rightarrow> 's arrival" where
  "close_and_drop sem a =
     (case gate_close sem (ar_gate a) of (k, g) \<Rightarrow> record_dropped k (a\<lparr>ar_gate := g\<rparr>))"

definition final_sweep :: "'s semaphore \<Rightarrow> 's arrival \<Rightarrow> 's arrival" where
  "final_sweep sem a =
     (case take_unclaimed sem (ar_gate a) of (k, g) \<Rightarrow> record_dropped k (a\<lparr>ar_gate := g\<rparr>))"

section \<open>Worker tasks\<close>

datatype ar_phase_w = ArSpawned | ArTop nat | ArPaused nat | ArParked nat | ArRun nat | ArDone nat

text \<open>
  A worker task, one poll at a time. A claim flows unconditionally into the iteration; a parked
  worker that is cancelled drops its park guard and its acquire future.
\<close>

fun ar_worker :: "'s semaphore \<Rightarrow> (iteration_outcome, 's arrival, ar_phase_w) worker_fun" where
  "ar_worker sem i o' e a ArSpawned =
     (let (vu, e') = new_worker e in (active_add e', a, ArTop vu))"
| "ar_worker sem i o' e a (ArTop vu) =
     (if paused e then (e, a, ArPaused vu)
      else case try_claim sem (ar_gate a) of
             (Claimed, g) \<Rightarrow> (e, a\<lparr>ar_gate := g, ar_ran := ar_ran a + 1\<rparr>, ArRun vu)
           | (Closed, g) \<Rightarrow> (active_sub e, a\<lparr>ar_gate := g\<rparr>, ArDone vu)
           | (Empty, g) \<Rightarrow> (e, a\<lparr>ar_gate := park g\<rparr>, ArParked vu))"
| "ar_worker sem i o' e a (ArPaused vu) =
     (if gate_closed (ar_gate a) then (active_sub e, a, ArDone vu)
      else case wait_unpaused e of
             None \<Rightarrow> (e, a, ArPaused vu)
           | Some False \<Rightarrow> (active_sub e, a, ArDone vu)
           | Some True \<Rightarrow> (e, a, ArTop vu))"
| "ar_worker sem i o' e a (ArParked vu) =
     (if cancelled e
      then (active_sub e, a\<lparr>ar_gate := unpark ((ar_gate a)\<lparr>budget := sem_drop sem i (budget (ar_gate a))\<rparr>)\<rparr>, ArDone vu)
      else case claim_parked sem i (ar_gate a) of
             (None, g) \<Rightarrow> (e, a\<lparr>ar_gate := g\<rparr>, ArParked vu)
           | (Some True, g) \<Rightarrow> (e, a\<lparr>ar_gate := unpark g, ar_ran := ar_ran a + 1\<rparr>, ArRun vu)
           | (Some False, g) \<Rightarrow> (active_sub e, a\<lparr>ar_gate := unpark g\<rparr>, ArDone vu))"
| "ar_worker sem i o' e a (ArRun vu) =
     (case run_one o' e of
        (True, e') \<Rightarrow> (e', a, ArTop vu)
      | (False, e') \<Rightarrow> (active_sub e', a, ArDone vu))"
| "ar_worker sem i o' e a (ArDone vu) = (e, a, ArDone vu)"

fun ar_done :: "ar_phase_w \<Rightarrow> bool" where
  "ar_done (ArDone _) = True"
| "ar_done _ = False"

fun ar_live :: "ar_phase_w \<Rightarrow> bool" where
  "ar_live ArSpawned = False"
| "ar_live (ArDone _) = False"
| "ar_live _ = True"

fun ar_id :: "ar_phase_w \<Rightarrow> nat option" where
  "ar_id ArSpawned = None"
| "ar_id (ArTop vu) = Some vu"
| "ar_id (ArPaused vu) = Some vu"
| "ar_id (ArParked vu) = Some vu"
| "ar_id (ArRun vu) = Some vu"
| "ar_id (ArDone vu) = Some vu"

text \<open>
  The dispatcher task: the loop, its early exit on a stop, the drain, the closure, and the final
  sweep once every worker has been joined.
\<close>

inductive dispatcher :: "'s semaphore \<Rightarrow> dispatch_config \<Rightarrow> ('s arrival, ar_phase_w) control" for sem cfg where
  body: "ar_phase a = Dispatching \<Longrightarrow> dispatch_body sem cfg e woke_late a = Some (grow, a') \<Longrightarrow>
    dispatcher sem cfg (e, a, ws) (e, a', ws @ replicate grow ArSpawned)"
| stop: "ar_phase a = Dispatching \<Longrightarrow> cancelled e \<or> soft_stop e \<Longrightarrow>
    dispatcher sem cfg (e, a, ws) (e, (close_and_drop sem a)\<lparr>ar_phase := Joining\<rparr>, ws)"
| drain: "ar_phase a = Draining \<Longrightarrow> drain_body sem e a = a' \<Longrightarrow> ar_phase a' = Draining \<Longrightarrow>
    dispatcher sem cfg (e, a, ws) (e, a', ws)"
| drained: "ar_phase a = Draining \<Longrightarrow> drain_body sem e a = a' \<Longrightarrow> ar_phase a' = Joining \<Longrightarrow>
    dispatcher sem cfg (e, a, ws) (e, close_and_drop sem a', ws)"
| joined: "ar_phase a = Joining \<Longrightarrow> \<forall>p \<in> set ws. ar_done p \<Longrightarrow>
    dispatcher sem cfg (e, a, ws) (e\<lparr>cancelled := True\<rparr>, (final_sweep sem a)\<lparr>ar_phase := Finished\<rparr>, ws)"

inductive_cases dispatcherE: "dispatcher sem cfg (e, a, ws) (e', a', ws')"

definition run_arrival_rate ::
  "'s semaphore \<Rightarrow> env \<Rightarrow> rate_schedule \<Rightarrow> duration \<Rightarrow> nat \<Rightarrow> nat
     \<Rightarrow> (dispatch_config \<times> ('s arrival, ar_phase_w) system) panicky" where
  "run_arrival_rate sem e schedule tick pre_allocated max_vus =
     (case total_duration schedule of
        None \<Rightarrow> None
      | Some whole \<Rightarrow>
          (let soft_deadline = clock e + whole
           in Some (\<lparr>dc_schedule = schedule, dc_max_vus = max_vus, dc_tick = tick,
                     dc_soft_deadline = soft_deadline, dc_started = clock e\<rparr>,
                arm_graceful_stop (Some soft_deadline) e,
                \<lparr>ar_gate = gate_new sem, ar_phase = Dispatching, ar_emitted = Fin 0, ar_last = clock e,
                 ar_expiry = None, ar_allocated = pre_allocated, ar_dropped = 0, ar_published = 0, ar_ran = 0\<rparr>,
                replicate pre_allocated ArSpawned)))"

section \<open>Conservation of arrivals\<close>

lemma ar_worker_active:
  assumes "ar_worker sem i inp e a p = (e', a', p')" "of_bool (ar_live p) \<le> active_vus e"
  shows "active_vus e' + of_bool (ar_live p) = active_vus e + of_bool (ar_live p')"
  using assms by (cases p)
    (auto dest: run_one_frame' simp: new_worker_def try_claim_def claim_parked_def
      split: prod.splits bool.splits if_splits option.splits acquire_result.splits claim.splits)

lemma ar_worker_id:
  assumes "ar_worker sem i inp e a p = (e', a', p')"
  shows "ar_id p' = ar_id p \<and> vu_ids e' = vu_ids e \<or>
      ar_id p = None \<and> ar_id p' = Some (vu_ids e + 1) \<and> vu_ids e' = vu_ids e + 1"
  using assms by (cases p)
    (auto dest: run_one_frame' simp: new_worker_def try_claim_def claim_parked_def
      split: prod.splits bool.splits if_splits option.splits acquire_result.splits claim.splits)

interpretation arrival: vu_workers "ar_worker sem" "dispatcher sem cfg" ar_live ar_id
  by unfold_locales (erule (1) ar_worker_active, erule ar_worker_id, auto elim!: dispatcherE)

text \<open>What a sweep of the gate may change: permits of the pool become dropped iterations.\<close>

definition sweeps :: "('s \<Rightarrow> bool) \<Rightarrow> ('s \<Rightarrow> nat) \<Rightarrow> ('s \<Rightarrow> nat set) \<Rightarrow> 's arrival \<Rightarrow> 's arrival \<Rightarrow> bool" where
  "sweeps ok held waiters a a' \<longleftrightarrow>
     (ok (budget (ar_gate a)) \<longrightarrow>
       ok (budget (ar_gate a')) \<and>
       ar_dropped a' + held (budget (ar_gate a')) = ar_dropped a + held (budget (ar_gate a)) \<and>
       waiters (budget (ar_gate a')) = waiters (budget (ar_gate a))) \<and>
     ar_published a' = ar_published a \<and> ar_ran a' = ar_ran a \<and>
     parked (ar_gate a') = parked (ar_gate a) \<and> ar_allocated a' = ar_allocated a"

lemma sweeps_refl [simp]: "sweeps ok held waiters a a"
  by (simp add: sweeps_def)

lemma sweeps_trans: "sweeps ok held waiters a b \<Longrightarrow> sweeps ok held waiters b c \<Longrightarrow> sweeps ok held waiters a c"
  by (auto simp: sweeps_def)

lemma sweeps_update [simp]:
  "sweeps ok held waiters a (b\<lparr>ar_phase := ph\<rparr>) = sweeps ok held waiters a b"
  "sweeps ok held waiters a (b\<lparr>ar_last := l\<rparr>) = sweeps ok held waiters a b"
  "sweeps ok held waiters a (b\<lparr>ar_expiry := x\<rparr>) = sweeps ok held waiters a b"
  "sweeps ok held waiters a (b\<lparr>ar_emitted := m\<rparr>) = sweeps ok held waiters a b"
  "sweeps ok held waiters a (end_or_continue d b) = sweeps ok held waiters a b"
  by (auto simp: sweeps_def end_or_continue_def)

lemma take_unclaimed_held:
  assumes "sem_laws sem ok held avail waiters" "take_unclaimed sem g = (k, g')" "ok (budget g)"
  shows "ok (budget g') \<and> held (budget g) = held (budget g') + k \<and> waiters (budget g') = waiters (budget g) \<and>
    parked g' = parked g \<and> k = avail (budget g)"
proof -
  obtain b where b: "sem_forget_permits sem MAX_PERMITS (budget g) = (k, b)" "g' = g\<lparr>budget := b\<rparr>"
    using assms(2) by (auto simp: take_unclaimed_def split: prod.splits)
  have "avail (budget g) \<le> MAX_PERMITS"
    using sem_lawsD(8) [OF assms(1)] assms(3) by (auto simp: law_pool_def)
  moreover have "ok b \<and> k = min MAX_PERMITS (avail (budget g)) \<and> held (budget g) = held b + k \<and> waiters b = waiters (budget g)"
    using sem_lawsD(6) [OF assms(1), unfolded law_forget_def] b(1) assms(3) by blast
  ultimately show ?thesis using b(2) by (simp add: min_absorb2)
qed

lemma record_dropped_frame [simp]:
  "ar_gate (record_dropped k a) = ar_gate a" "ar_dropped (record_dropped k a) = ar_dropped a + k"
  "ar_published (record_dropped k a) = ar_published a" "ar_ran (record_dropped k a) = ar_ran a"
  "ar_allocated (record_dropped k a) = ar_allocated a" "ar_phase (record_dropped k a) = ar_phase a"
  "ar_expiry (record_dropped k a) = ar_expiry a"
  by (simp_all add: record_dropped_def)

lemma take_unclaimed_parked: "take_unclaimed sem g = (k, g') \<Longrightarrow> parked g' = parked g"
  by (auto simp: take_unclaimed_def split: prod.splits)

lemma final_sweep_sweeps:
  assumes "sem_laws sem ok held avail waiters"
  shows "sweeps ok held waiters a (final_sweep sem a)"
  using take_unclaimed_held [OF assms, of "ar_gate a"] take_unclaimed_parked [of sem "ar_gate a"]
  by (auto simp: final_sweep_def sweeps_def split: prod.splits)

lemma drop_active_batch_sweeps:
  assumes "sem_laws sem ok held avail waiters"
  shows "sweeps ok held waiters a (drop_active_batch sem a)"
  using take_unclaimed_held [OF assms, of "ar_gate a"] take_unclaimed_parked [of sem "ar_gate a"]
  by (auto simp: drop_active_batch_def sweeps_def split: prod.splits)

lemma expire_and_drop_sweeps:
  assumes "sem_laws sem ok held avail waiters"
  shows "sweeps ok held waiters a (expire_and_drop sem now a)"
  using take_unclaimed_held [OF assms, of "ar_gate a"] take_unclaimed_parked [of sem "ar_gate a"]
  by (auto simp: expire_and_drop_def expire_due_def sweeps_def split: prod.splits option.splits if_splits)

lemma close_and_drop_sweeps:
  assumes "sem_laws sem ok held avail waiters"
  shows "sweeps ok held waiters a (close_and_drop sem a)"
  using take_unclaimed_held [OF assms, of "(ar_gate a)\<lparr>budget := sem_close sem (budget (ar_gate a)), gate_closed := True\<rparr>"]
    take_unclaimed_parked [of sem "(ar_gate a)\<lparr>budget := sem_close sem (budget (ar_gate a)), gate_closed := True\<rparr>"]
    sem_lawsD(7) [OF assms, unfolded law_close_def]
  by (auto simp: close_and_drop_def gate_close_def sweeps_def split: prod.splits)

lemma drain_body_sweeps:
  assumes "sem_laws sem ok held avail waiters"
  shows "sweeps ok held waiters a (drain_body sem e a)"
  using drop_active_batch_sweeps [OF assms, of a] expire_and_drop_sweeps [OF assms, of a "clock e"]
  by (simp add: drain_body_def)

lemma publish_held:
  assumes "sem_laws sem ok held avail waiters" "publish sem due expiry now tick g = Some (expiry', g')" "ok (budget g)"
  shows "ok (budget g') \<and> held (budget g') = held (budget g) + due \<and> waiters (budget g') = waiters (budget g) \<and>
    parked g' = parked g"
  using assms(2,3) sem_lawsD(5) [OF assms(1), unfolded law_add_def]
  by (auto simp: publish_def split: option.splits)

lemma end_or_continue_frame [simp]:
  "ar_gate (end_or_continue d a) = ar_gate a" "ar_dropped (end_or_continue d a) = ar_dropped a"
  "ar_published (end_or_continue d a) = ar_published a" "ar_ran (end_or_continue d a) = ar_ran a"
  "ar_allocated (end_or_continue d a) = ar_allocated a"
  "ar_phase (end_or_continue d a) = (if d then Draining else ar_phase a)"
  by (simp_all add: end_or_continue_def)

text \<open>The dispatcher's account: what it publishes becomes claimable, and the pool grows within its limit.\<close>

definition dispatches ::
  "('s \<Rightarrow> bool) \<Rightarrow> ('s \<Rightarrow> nat) \<Rightarrow> ('s \<Rightarrow> nat set) \<Rightarrow> nat \<Rightarrow> nat \<Rightarrow> 's arrival \<Rightarrow> 's arrival \<Rightarrow> bool" where
  "dispatches ok held waiters max_vus grow a a' \<longleftrightarrow>
     ok (budget (ar_gate a')) \<and>
     ar_published a + ar_dropped a' + held (budget (ar_gate a')) =
       ar_published a' + ar_dropped a + held (budget (ar_gate a)) \<and>
     ar_ran a' = ar_ran a \<and> waiters (budget (ar_gate a')) = waiters (budget (ar_gate a)) \<and>
     parked (ar_gate a') = parked (ar_gate a) \<and>
     ar_allocated a' = ar_allocated a + grow \<and> (grow \<noteq> 0 \<longrightarrow> ar_allocated a' \<le> max_vus)"

lemma sweeps_dispatches:
  "sweeps ok held waiters a a' \<Longrightarrow> ok (budget (ar_gate a)) \<Longrightarrow> dispatches ok held waiters m 0 a a'"
  by (auto simp: sweeps_def dispatches_def)

lemma dispatch_body_dispatches:
  assumes "sem_laws sem ok held avail waiters" "dispatch_body sem cfg e wl a = Some (grow, a')" "ok (budget (ar_gate a))"
  shows "dispatches ok held waiters (dc_max_vus cfg) grow a a'"
proof -
  let ?now = "min (clock e) (dc_soft_deadline cfg)"
  define a1 where "a1 = expire_and_drop sem ?now a"
  have s1: "sweeps ok held waiters a a1" unfolding a1_def by (rule expire_and_drop_sweeps [OF assms(1)])
  then have ok1: "ok (budget (ar_gate a1))" using assms(3) by (simp add: sweeps_def)
  show ?thesis
  proof (cases "paused e")
    case True
    then show ?thesis using assms(2,3) sweeps_trans [OF s1 drop_active_batch_sweeps [OF assms(1)]]
      by (auto simp: dispatch_body_def Let_def a1_def intro!: sweeps_dispatches)
  next
    case False
    then obtain rate where rate: "rate_at (dc_schedule cfg) (clock e - dc_started cfg) = Some rate"
      using assms(2) by (auto simp: dispatch_body_def Let_def split: option.splits)
    define due where "due = f64_to_u64 (ar_emitted a1 + rate * as_secs_f64 (?now - ar_last a1))"
    show ?thesis
    proof (cases "due = 0")
      case True
      with False rate show ?thesis using assms(2,3) s1
        by (auto simp: dispatch_body_def Let_def a1_def [symmetric] due_def [symmetric] intro!: sweeps_dispatches
            simp del: plus_f64_def times_f64_def)
    next
      case due0: False
      from False rate due0 assms(2) obtain expiry g where
        pub: "publish sem due (ar_expiry a1) ?now (dc_tick cfg) (ar_gate a1) = Some (expiry, g)"
        and grow: "grow = min (due - parked (ar_gate a1)) (dc_max_vus cfg - ar_allocated a1)"
        and a': "ar_gate a' = g" "ar_published a' = ar_published a1 + due" "ar_dropped a' = ar_dropped a1"
          "ar_ran a' = ar_ran a1" "ar_allocated a' = ar_allocated a1 + grow"
        by (auto simp: dispatch_body_def Let_def a1_def [symmetric] due_def [symmetric]
            simp del: plus_f64_def times_f64_def minus_f64_def split: option.splits)
      show ?thesis using publish_held [OF assms(1) pub ok1] s1 assms(3) a' grow
        by (auto simp: dispatches_def sweeps_def)
    qed
  qed
qed

fun ar_is_parked :: "ar_phase_w \<Rightarrow> bool" where
  "ar_is_parked (ArParked _) = True"
| "ar_is_parked _ = False"

lemma try_claim_held:
  assumes "sem_laws sem ok held avail waiters" "ok (budget g)" "try_claim sem g = (c, g')"
  shows "ok (budget g') \<and> held (budget g) = held (budget g') + of_bool (c = Claimed) \<and>
    waiters (budget g') = waiters (budget g) \<and> parked g' = parked g"
proof -
  obtain r b where b: "sem_try_acquire sem (budget g) = (r, b)" by (cases "sem_try_acquire sem (budget g)")
  with sem_lawsD(2) [OF assms(1), unfolded law_try_def] assms(2)
  have "ok b \<and> held (budget g) = held b + of_bool (r = Acquired) \<and> waiters b = waiters (budget g)" by blast
  moreover have "g' = g\<lparr>budget := b\<rparr> \<and> (c = Claimed) = (r = Acquired)"
    using b assms(3) by (cases r) (simp_all add: try_claim_def)
  ultimately show ?thesis by simp
qed

lemma claim_parked_held:
  assumes "sem_laws sem ok held avail waiters" "ok (budget g)" "claim_parked sem w g = (r, g')"
  shows "ok (budget g') \<and> held (budget g) = held (budget g') + of_bool (r = Some True) \<and>
    waiters (budget g') = (if r = None then insert w (waiters (budget g)) else waiters (budget g) - {w}) \<and>
    parked g' = parked g"
proof -
  obtain q b where b: "sem_poll sem w (budget g) = (q, b)" by (cases "sem_poll sem w (budget g)")
  with sem_lawsD(3) [OF assms(1), unfolded law_poll_def] assms(2)
  have "ok b \<and> held (budget g) = held b + of_bool (q = Acquired) \<and>
      waiters b = (if q = NoPermits then insert w (waiters (budget g)) else waiters (budget g) - {w})" by blast
  moreover have "g' = g\<lparr>budget := b\<rparr> \<and> (r = Some True) = (q = Acquired) \<and> (r = None) = (q = NoPermits)"
    using b assms(3) by (cases q) (auto simp: claim_parked_def)
  ultimately show ?thesis by simp
qed

text \<open>
  The workers' account: a claim turns exactly one permit into one iteration, and a worker is
  queued at the semaphore only while it is parked.
\<close>

definition works :: "('s \<Rightarrow> bool) \<Rightarrow> ('s \<Rightarrow> nat) \<Rightarrow> ('s \<Rightarrow> nat set) \<Rightarrow> nat \<Rightarrow> 's arrival \<Rightarrow> ar_phase_w \<Rightarrow> 's arrival \<Rightarrow> ar_phase_w \<Rightarrow> bool" where
  "works ok held waiters i a p a' p' \<longleftrightarrow>
     ok (budget (ar_gate a')) \<and>
     ar_ran a' + held (budget (ar_gate a')) = ar_ran a + held (budget (ar_gate a)) \<and>
     ar_published a' = ar_published a \<and> ar_dropped a' = ar_dropped a \<and> ar_allocated a' = ar_allocated a \<and>
     ar_phase a' = ar_phase a \<and>
     waiters (budget (ar_gate a')) \<subseteq> insert i (waiters (budget (ar_gate a))) \<and>
     (i \<in> waiters (budget (ar_gate a')) \<longrightarrow> ar_is_parked p') \<and>
     parked (ar_gate a') + of_bool (ar_is_parked p) = parked (ar_gate a) + of_bool (ar_is_parked p')"

lemma ar_worker_works:
  assumes laws: "sem_laws sem ok held avail waiters" and w: "ar_worker sem i o' e a p = (e', a', p')"
    and okb: "ok (budget (ar_gate a))" and q: "i \<in> waiters (budget (ar_gate a)) \<longrightarrow> ar_is_parked p"
    and pk: "of_bool (ar_is_parked p) \<le> parked (ar_gate a)"
  shows "works ok held waiters i a p a' p'"
proof (cases p)
  case (ArTop vu)
  obtain c g where c: "try_claim sem (ar_gate a) = (c, g)" by (cases "try_claim sem (ar_gate a)")
  note held = try_claim_held [OF laws okb c]
  consider "a' = a" "p' = ArPaused vu" | "c = Claimed" "a' = a\<lparr>ar_gate := g, ar_ran := ar_ran a + 1\<rparr>" "p' = ArRun vu"
    | "c = Closed" "a' = a\<lparr>ar_gate := g\<rparr>" "p' = ArDone vu" | "c = Empty" "a' = a\<lparr>ar_gate := park g\<rparr>" "p' = ArParked vu"
    using w ArTop c by (cases c) (auto split: if_splits)
  then show ?thesis using held okb q ArTop by cases (simp_all add: works_def park_def subset_insertI)
next
  case (ArParked vu)
  obtain r g where r: "claim_parked sem i (ar_gate a) = (r, g)" by (cases "claim_parked sem i (ar_gate a)")
  note held = claim_parked_held [OF laws okb r]
  have drop: "ok (sem_drop sem i (budget (ar_gate a))) \<and> held (sem_drop sem i (budget (ar_gate a))) = held (budget (ar_gate a)) \<and>
      waiters (sem_drop sem i (budget (ar_gate a))) = waiters (budget (ar_gate a)) - {i}"
    using sem_lawsD(4) [OF laws, unfolded law_drop_def] okb by blast
  consider "a' = a\<lparr>ar_gate := unpark ((ar_gate a)\<lparr>budget := sem_drop sem i (budget (ar_gate a))\<rparr>)\<rparr>" "p' = ArDone vu"
    | "r = None" "a' = a\<lparr>ar_gate := g\<rparr>" "p' = ArParked vu"
    | "r = Some True" "a' = a\<lparr>ar_gate := unpark g, ar_ran := ar_ran a + 1\<rparr>" "p' = ArRun vu"
    | "r = Some False" "a' = a\<lparr>ar_gate := unpark g\<rparr>" "p' = ArDone vu"
    using w ArParked r by (auto split: if_splits option.splits bool.splits)
  then show ?thesis using held drop pk ArParked
    by cases (simp_all add: works_def unpark_def subset_insertI subset_insertI2 Diff_subset)
next
  case (ArRun vu)
  then have "a' = a" "\<not> ar_is_parked p'" using w by (auto split: prod.splits bool.splits)
  then show ?thesis using okb q ArRun by (simp add: works_def subset_insertI)
next
  case (ArPaused vu)
  then have "a' = a" "\<not> ar_is_parked p'" using w by (auto split: if_splits option.splits bool.splits)
  then show ?thesis using okb q ArPaused by (simp add: works_def subset_insertI)
next
  case ArSpawned
  then have "a' = a" "\<not> ar_is_parked p'" using w by (auto simp: new_worker_def)
  then show ?thesis using okb q ArSpawned by (simp add: works_def subset_insertI)
next
  case (ArDone vu)
  then have "a' = a" "p' = p" using w by auto
  then show ?thesis using okb q ArDone by (simp add: works_def subset_insertI)
qed

definition arrival_inv ::
  "('s \<Rightarrow> bool) \<Rightarrow> ('s \<Rightarrow> nat) \<Rightarrow> ('s \<Rightarrow> nat set) \<Rightarrow> nat \<Rightarrow> ('s arrival, ar_phase_w) system \<Rightarrow> bool" where
  "arrival_inv ok held waiters limit x =
     (case x of (e, a, ws) \<Rightarrow>
        ok (budget (ar_gate a)) \<and>
        ar_published a = ar_ran a + ar_dropped a + held (budget (ar_gate a)) \<and>
        (\<forall>i \<in> waiters (budget (ar_gate a)). i < length ws \<and> ar_is_parked (ws ! i)) \<and>
        parked (ar_gate a) = live_count ar_is_parked ws \<and>
        ar_allocated a = length ws \<and> length ws \<le> limit \<and>
        (ar_phase a = Finished \<longrightarrow> held (budget (ar_gate a)) = 0 \<and> (\<forall>p \<in> set ws. ar_done p)))"

lemma arrival_inv_task:
  assumes laws: "sem_laws sem ok held avail waiters" and I: "arrival_inv ok held waiters limit (e, a, ws)"
    and i: "i < length ws" and w: "ar_worker sem i o' e a (ws ! i) = (e', a', p')"
  shows "arrival_inv ok held waiters limit (e', a', ws[i := p'])"
proof -
  have q: "i \<in> waiters (budget (ar_gate a)) \<longrightarrow> ar_is_parked (ws ! i)" using I by (auto simp: arrival_inv_def)
  have pk: "of_bool (ar_is_parked (ws ! i)) \<le> parked (ar_gate a)"
    using I live_count_pos [OF i, of ar_is_parked] by (auto simp: arrival_inv_def of_bool_def)
  have okb: "ok (budget (ar_gate a))" using I by (simp add: arrival_inv_def)
  note works = ar_worker_works [OF laws w okb q pk, unfolded works_def]
  have fin: "held (budget (ar_gate a')) = 0 \<and> (\<forall>p \<in> set (ws[i := p']). ar_done p)" if "ar_phase a' = Finished"
  proof -
    have "ar_done (ws ! i)" "held (budget (ar_gate a)) = 0" "\<forall>p \<in> set ws. ar_done p"
      using that works I i by (auto simp: arrival_inv_def)
    moreover from this(1) w have "a' = a" "p' = ws ! i" by (cases "ws ! i"; simp)+
    ultimately show ?thesis by (simp add: list_update_id)
  qed
  have wt: "\<forall>j \<in> waiters (budget (ar_gate a')). j < length (ws[i := p']) \<and> ar_is_parked (ws[i := p'] ! j)"
  proof
    fix j assume j: "j \<in> waiters (budget (ar_gate a'))"
    show "j < length (ws[i := p']) \<and> ar_is_parked (ws[i := p'] ! j)"
    proof (cases "j = i")
      case False
      with j works have "j \<in> waiters (budget (ar_gate a))" by auto
      with False I show ?thesis by (simp add: arrival_inv_def)
    qed (use works j i in auto)
  qed
  show ?thesis
    using I works fin wt live_count_update [OF i, of ar_is_parked p'] by (simp add: arrival_inv_def)
qed

lemma sweeps_inv:
  assumes "arrival_inv ok held waiters limit (e, a, ws)" "sweeps ok held waiters a a'" "ar_phase a' \<noteq> Finished"
  shows "arrival_inv ok held waiters limit (e', a', ws)"
  using assms by (simp add: arrival_inv_def sweeps_def)

lemma sweep_phase [simp]:
  "ar_phase (expire_and_drop sem now a) = ar_phase a" "ar_phase (drop_active_batch sem a) = ar_phase a"
  "ar_phase (close_and_drop sem a) = ar_phase a"
  by (auto simp: expire_and_drop_def drop_active_batch_def close_and_drop_def split: prod.splits)

lemma dispatch_body_phase:
  assumes "dispatch_body sem cfg e wl a = Some (grow, a')"
  shows "ar_phase a' = ar_phase a \<or> ar_phase a' = Draining"
proof -
  define a1 where "a1 = expire_and_drop sem (min (clock e) (dc_soft_deadline cfg)) a"
  have ph: "ar_phase a1 = ar_phase a" by (simp add: a1_def)
  have eoc: "ar_phase (end_or_continue d b) = ar_phase b \<or> ar_phase (end_or_continue d b) = Draining" for d b
    by simp
  show ?thesis
  proof (cases "paused e")
    case True
    then show ?thesis using assms eoc ph by (auto simp: dispatch_body_def Let_def a1_def [symmetric])
  next
    case False
    define emitted where "emitted rate = ar_emitted a1 + rate * as_secs_f64 (min (clock e) (dc_soft_deadline cfg) - ar_last a1)" for rate
    from False assms show ?thesis unfolding dispatch_body_def Let_def a1_def [symmetric] emitted_def [symmetric]
      by (auto simp del: minus_f64_def simp: ph split: if_splits option.splits)
  qed
qed

lemma sweep_allocated [simp]:
  "ar_allocated (expire_and_drop sem now a) = ar_allocated a" "ar_allocated (drop_active_batch sem a) = ar_allocated a"
  "ar_allocated (close_and_drop sem a) = ar_allocated a" "ar_allocated (final_sweep sem a) = ar_allocated a"
  by (auto simp: expire_and_drop_def drop_active_batch_def close_and_drop_def final_sweep_def split: prod.splits)

lemma dispatch_body_allocates:
  assumes "dispatch_body sem cfg e wl a = Some (grow, a')"
  shows "ar_allocated a' = ar_allocated a + grow \<and> (grow \<noteq> 0 \<longrightarrow> ar_allocated a' \<le> dc_max_vus cfg)"
proof -
  define a1 where "a1 = expire_and_drop sem (min (clock e) (dc_soft_deadline cfg)) a"
  have al: "ar_allocated a1 = ar_allocated a" by (simp add: a1_def)
  show ?thesis
  proof (cases "paused e")
    case True
    then show ?thesis using assms al by (auto simp: dispatch_body_def Let_def a1_def [symmetric])
  next
    case False
    define emitted where "emitted rate = ar_emitted a1 + rate * as_secs_f64 (min (clock e) (dc_soft_deadline cfg) - ar_last a1)" for rate
    from False assms show ?thesis unfolding dispatch_body_def Let_def a1_def [symmetric] emitted_def [symmetric]
      by (auto simp del: minus_f64_def simp: al split: if_splits option.splits)
  qed
qed

lemma arrival_inv_dispatcher:
  assumes laws: "sem_laws sem ok held avail waiters" and I: "arrival_inv ok held waiters limit (e, a, ws)"
    and "dc_max_vus cfg \<le> limit" and step: "dispatcher sem cfg (e, a, ws) (e', a', ws')"
  shows "arrival_inv ok held waiters limit (e', a', ws')"
  using step
proof cases
  case (body woke_late grow)
  have "ar_phase a' \<noteq> Finished" using body dispatch_body_phase by fastforce
  moreover have "dispatches ok held waiters (dc_max_vus cfg) grow a a'"
    using I body by (intro dispatch_body_dispatches [OF laws]) (auto simp: arrival_inv_def)
  ultimately show ?thesis using I assms(3) body
    by (auto simp: arrival_inv_def dispatches_def nth_append)
next
  case stop
  have "sweeps ok held waiters a a'" using close_and_drop_sweeps [OF laws, of a] stop by simp
  then show ?thesis using sweeps_inv [OF I] stop by simp
next
  case drain
  have "sweeps ok held waiters a a'" using drain_body_sweeps [OF laws, of a e] drain by simp
  then show ?thesis using sweeps_inv [OF I] drain by simp
next
  case (drained a'')
  have "sweeps ok held waiters a a'"
    using sweeps_trans [OF drain_body_sweeps [OF laws, of a e] close_and_drop_sweeps [OF laws]] drained by simp
  moreover have "ar_phase a' \<noteq> Finished" using drained by simp
  ultimately show ?thesis using sweeps_inv [OF I] drained by simp
next
  case joined
  obtain k g where g: "take_unclaimed sem (ar_gate a) = (k, g)" by (cases "take_unclaimed sem (ar_gate a)")
  have okb: "ok (budget (ar_gate a))" using I by (simp add: arrival_inv_def)
  have "waiters (budget (ar_gate a)) = {}"
  proof (rule equals0I)
    fix i assume "i \<in> waiters (budget (ar_gate a))"
    then have "i < length ws" "ar_is_parked (ws ! i)" using I by (auto simp: arrival_inv_def)
    moreover from this joined have "ar_done (ws ! i)" by auto
    ultimately show False by (cases "ws ! i") auto
  qed
  then have "avail (budget (ar_gate a)) = held (budget (ar_gate a))"
    using sem_lawsD(8) [OF laws, unfolded law_pool_def] okb by blast
  then show ?thesis using take_unclaimed_held [OF laws g okb] I joined
    by (simp add: arrival_inv_def final_sweep_def g)
qed

text \<open>
  C6: the open-model executor loses no arrival. For every semaphore with the documented behaviour
  of \<open>tokio\<close>'s, every rate schedule, and every interleaving of the dispatcher, the workers, pauses
  and stops: the arrivals published equal the iterations started plus the dropped iterations
  recorded plus the permits still held by the gate; the parked counter is the number of parked
  workers; the pool never exceeds the larger of the pre-allocated and the maximal VU count; and
  once the executor has finished, published equals started plus dropped exactly.
\<close>

theorem arrivals_conserved:
  assumes "sem_laws sem ok held avail waiters"
    and "run_arrival_rate sem e0 schedule tick pre_allocated max_vus = Some (cfg, x)"
    and "vu_run (ar_worker sem) (dispatcher sem cfg) graceful x (e, a, ws)"
  shows "ar_published a = ar_ran a + ar_dropped a + held (budget (ar_gate a)) \<and>
    parked (ar_gate a) = live_count ar_is_parked ws \<and>
    length ws \<le> max pre_allocated max_vus \<and>
    (ar_phase a = Finished \<longrightarrow> ar_published a = ar_ran a + ar_dropped a)"
proof -
  have cfg: "dc_max_vus cfg = max_vus" and init: "arrival_inv ok held waiters (max pre_allocated max_vus) x"
    using assms(2) sem_lawsD(1) [OF assms(1)]
    by (auto simp: run_arrival_rate_def arrival_inv_def gate_new_def law_new_def Let_def split: option.splits)
  have "arrival_inv ok held waiters (max pre_allocated max_vus) (e, a, ws)"
  proof (rule vu_run_invariant [OF assms(3), of "arrival_inv ok held waiters (max pre_allocated max_vus)"])
    show "arrival_inv ok held waiters (max pre_allocated max_vus) x" by (fact init)
  next
    fix e1 a1 ws1 e2 assume "arrival_inv ok held waiters (max pre_allocated max_vus) (e1, a1, ws1)"
    then show "arrival_inv ok held waiters (max pre_allocated max_vus) (e2, a1, ws1)" by (simp add: arrival_inv_def)
  next
    fix e1 a1 ws1 e2 a2 ws2
    assume "arrival_inv ok held waiters (max pre_allocated max_vus) (e1, a1, ws1)" "dispatcher sem cfg (e1, a1, ws1) (e2, a2, ws2)"
    then show "arrival_inv ok held waiters (max pre_allocated max_vus) (e2, a2, ws2)"
      using arrival_inv_dispatcher [OF assms(1), of "max pre_allocated max_vus" e1 a1 ws1 cfg e2 a2 ws2] cfg by simp
  qed (rule arrival_inv_task [OF assms(1)])
  then show ?thesis by (simp add: arrival_inv_def)
qed

section \<open>A semaphore with these laws\<close>

text \<open>
  A fair semaphore: a pool of permits and a queue of waiters, each with or without an assigned
  permit. It shows that the laws can be met, and makes the model executable.
\<close>

record fifo =
  f_permits :: nat
  f_queue :: "(nat \<times> bool) list"
  f_closed :: bool

definition assigned :: "(nat \<times> bool) list \<Rightarrow> nat" where
  "assigned q = length (filter snd q)"

fun fifo_assign :: "nat \<Rightarrow> (nat \<times> bool) list \<Rightarrow> nat \<times> (nat \<times> bool) list" where
  "fifo_assign n [] = (n, [])"
| "fifo_assign n ((w, b) # q) =
     (if b \<or> n = 0 then (case fifo_assign n q of (m, q') \<Rightarrow> (m, (w, b) # q'))
      else (case fifo_assign (n - 1) q of (m, q') \<Rightarrow> (m, (w, True) # q')))"

definition fifo_add :: "nat \<Rightarrow> fifo \<Rightarrow> fifo" where
  "fifo_add n s = (case fifo_assign n (f_queue s) of (m, q) \<Rightarrow> s\<lparr>f_permits := f_permits s + m, f_queue := q\<rparr>)"

definition fifo_remove :: "nat \<Rightarrow> fifo \<Rightarrow> nat \<times> fifo" where
  "fifo_remove w s =
     (assigned (filter (\<lambda>x. fst x = w) (f_queue s)), s\<lparr>f_queue := filter (\<lambda>x. fst x \<noteq> w) (f_queue s)\<rparr>)"

definition fifo_drop :: "nat \<Rightarrow> fifo \<Rightarrow> fifo" where
  "fifo_drop w s = (case fifo_remove w s of (k, s') \<Rightarrow> fifo_add k s')"

definition fifo_take :: "fifo \<Rightarrow> acquire_result \<times> fifo" where
  "fifo_take s =
     (if f_closed s then (SemClosed, s)
      else if f_permits s = 0 then (NoPermits, s)
      else (Acquired, s\<lparr>f_permits := f_permits s - 1\<rparr>))"

definition fifo_poll :: "nat \<Rightarrow> fifo \<Rightarrow> acquire_result \<times> fifo" where
  "fifo_poll w s =
     (if f_closed s then (SemClosed, fifo_drop w s)
      else case fifo_remove w s of
             (k, s') \<Rightarrow>
               if 0 < k then (Acquired, fifo_add (k - 1) s')
               else if w \<in> fst ` set (f_queue s) then (NoPermits, s)
               else (case fifo_take s of
                       (NoPermits, _) \<Rightarrow> (NoPermits, s\<lparr>f_queue := f_queue s @ [(w, False)]\<rparr>)
                     | r \<Rightarrow> r))"

definition fifo_held :: "fifo \<Rightarrow> nat" where
  "fifo_held s = f_permits s + assigned (f_queue s)"

definition fifo_waiters :: "fifo \<Rightarrow> nat set" where
  "fifo_waiters s = fst ` set (f_queue s)"

definition fifo_sem :: "fifo semaphore" where
  "fifo_sem =
     \<lparr>sem_new = \<lparr>f_permits = 0, f_queue = [], f_closed = False\<rparr>,
      sem_try_acquire = fifo_take,
      sem_poll = fifo_poll,
      sem_drop = fifo_drop,
      sem_add_permits = (\<lambda>n s. if fifo_held s + n \<le> MAX_PERMITS then Some (fifo_add n s) else None),
      sem_forget_permits = (\<lambda>n s. (min n (f_permits s), s\<lparr>f_permits := f_permits s - min n (f_permits s)\<rparr>)),
      sem_close = (\<lambda>s. s\<lparr>f_closed := True\<rparr>)\<rparr>"

lemma assigned_simps [simp]:
  "assigned [] = 0" "assigned ((w, b) # q) = of_bool b + assigned q" "assigned (p @ q) = assigned p + assigned q"
  by (auto simp: assigned_def)

lemma fifo_assign_props: "fifo_assign n q = (m, q') \<Longrightarrow> m + assigned q' = n + assigned q \<and> map fst q' = map fst q"
  by (induction n q arbitrary: m q' rule: fifo_assign.induct) (auto split: if_splits prod.splits)

lemma fifo_add_props: "fifo_held (fifo_add n s) = fifo_held s + n" "fifo_waiters (fifo_add n s) = fifo_waiters s"
proof -
  obtain m q where q: "fifo_assign n (f_queue s) = (m, q)" by (cases "fifo_assign n (f_queue s)")
  from fifo_assign_props [OF q] have "m + assigned q = n + assigned (f_queue s)" "fst ` set q = fst ` set (f_queue s)"
    by (auto simp flip: set_map)
  then show "fifo_held (fifo_add n s) = fifo_held s + n" "fifo_waiters (fifo_add n s) = fifo_waiters s"
    by (simp_all add: fifo_add_def fifo_held_def fifo_waiters_def q)
qed

lemma assigned_filter: "assigned (filter P q) + assigned (filter (\<lambda>x. \<not> P x) q) = assigned q"
  by (induction q) auto

lemma fifo_remove_props:
  assumes "fifo_remove w s = (k, s')"
  shows "fifo_held s = fifo_held s' + k" "fifo_waiters s' = fifo_waiters s - {w}"
  using assms assigned_filter [of "\<lambda>x. fst x = w" "f_queue s"]
  by (auto simp: fifo_remove_def fifo_held_def fifo_waiters_def)

lemma fifo_drop_props: "fifo_held (fifo_drop w s) = fifo_held s" "fifo_waiters (fifo_drop w s) = fifo_waiters s - {w}"
proof -
  obtain k t where k: "fifo_remove w s = (k, t)" by (cases "fifo_remove w s")
  then show "fifo_held (fifo_drop w s) = fifo_held s" "fifo_waiters (fifo_drop w s) = fifo_waiters s - {w}"
    using fifo_remove_props [OF k] by (simp_all add: fifo_drop_def fifo_add_props)
qed

lemma fifo_poll_props:
  assumes "fifo_poll w s = (r, s')"
  shows "fifo_held s = fifo_held s' + of_bool (r = Acquired) \<and>
    fifo_waiters s' = (if r = NoPermits then insert w (fifo_waiters s) else fifo_waiters s - {w})"
proof -
  obtain k t where k: "fifo_remove w s = (k, t)" by (cases "fifo_remove w s")
  note rm = fifo_remove_props [OF k]
  consider (closed) "f_closed s" | (assigned) "\<not> f_closed s" "0 < k"
    | (queued) "\<not> f_closed s" "k = 0" "w \<in> fifo_waiters s"
    | (empty) "\<not> f_closed s" "k = 0" "w \<notin> fifo_waiters s" "f_permits s = 0"
    | (free) "\<not> f_closed s" "k = 0" "w \<notin> fifo_waiters s" "f_permits s \<noteq> 0" by blast
  then show ?thesis
  proof cases
    case closed
    then have "r = SemClosed" "s' = fifo_drop w s" using assms by (simp_all add: fifo_poll_def)
    then show ?thesis by (simp add: fifo_drop_props)
  next
    case assigned
    then have "r = Acquired" "s' = fifo_add (k - 1) t" using assms k by (simp_all add: fifo_poll_def)
    then show ?thesis using rm assigned(2) by (simp add: fifo_add_props)
  next
    case queued
    then have "r = NoPermits" "s' = s" using assms k by (simp_all add: fifo_poll_def fifo_waiters_def)
    then show ?thesis using queued(3) by (simp add: insert_absorb)
  next
    case empty
    then have "r = NoPermits" "s' = s\<lparr>f_queue := f_queue s @ [(w, False)]\<rparr>"
      using assms k by (simp_all add: fifo_poll_def fifo_take_def fifo_waiters_def)
    then show ?thesis by (simp add: fifo_held_def fifo_waiters_def)
  next
    case free
    then have "r = Acquired" "s' = s\<lparr>f_permits := f_permits s - 1\<rparr>"
      using assms k by (simp_all add: fifo_poll_def fifo_take_def fifo_waiters_def)
    then show ?thesis using free(3,4) by (simp add: fifo_held_def fifo_waiters_def)
  qed
qed

lemma fifo_sem_laws: "sem_laws fifo_sem (\<lambda>s. fifo_held s \<le> MAX_PERMITS) fifo_held f_permits fifo_waiters"
proof -
  let ?ok = "\<lambda>s. fifo_held s \<le> MAX_PERMITS"
  have "law_new fifo_sem ?ok fifo_held fifo_waiters"
    by (simp add: law_new_def fifo_sem_def fifo_held_def fifo_waiters_def)
  moreover have "law_try fifo_sem ?ok fifo_held fifo_waiters"
    by (auto simp: law_try_def fifo_sem_def fifo_take_def fifo_held_def fifo_waiters_def split: if_splits)
  moreover have "law_poll fifo_sem ?ok fifo_held fifo_waiters"
    unfolding law_poll_def
  proof (intro allI impI, elim conjE)
    fix w s r s' assume "fifo_held s \<le> MAX_PERMITS" "sem_poll fifo_sem w s = (r, s')"
    then show "fifo_held s' \<le> MAX_PERMITS \<and> fifo_held s = fifo_held s' + of_bool (r = Acquired) \<and>
        fifo_waiters s' = (if r = NoPermits then insert w (fifo_waiters s) else fifo_waiters s - {w})"
      using fifo_poll_props [of w s r s'] by (simp add: fifo_sem_def)
  qed
  moreover have "law_drop fifo_sem ?ok fifo_held fifo_waiters"
    by (simp add: law_drop_def fifo_sem_def fifo_drop_props)
  moreover have "law_add fifo_sem ?ok fifo_held fifo_waiters"
    by (auto simp: law_add_def fifo_sem_def fifo_add_props split: if_splits)
  moreover have "law_forget fifo_sem ?ok fifo_held f_permits fifo_waiters"
    by (auto simp: law_forget_def fifo_sem_def fifo_held_def fifo_waiters_def)
  moreover have "law_close fifo_sem ?ok fifo_held fifo_waiters"
    by (simp add: law_close_def fifo_sem_def fifo_held_def fifo_waiters_def)
  moreover have "assigned (f_queue s) = 0" if "fifo_waiters s = {}" for s
    using that by (simp add: fifo_waiters_def)
  then have "law_pool ?ok fifo_held f_permits fifo_waiters"
    by (auto simp: law_pool_def fifo_held_def)
  ultimately show ?thesis by (simp add: sem_laws_def)
qed

text \<open>A run of the executor: one worker parks, two arrivals are published, the worker claims one.\<close>

definition example_arrival :: "fifo \<Rightarrow> nat \<Rightarrow> fifo arrival" where
  "example_arrival b pk =
     \<lparr>ar_gate = \<lparr>budget = b, parked = pk, gate_closed = False\<rparr>, ar_phase = Dispatching, ar_emitted = Fin 0, ar_last = 0,
      ar_expiry = None, ar_allocated = 1, ar_dropped = 0, ar_published = 0, ar_ran = 0\<rparr>"

definition example_published :: "fifo \<Rightarrow> nat \<Rightarrow> nat \<Rightarrow> fifo arrival" where
  "example_published b pk k =
     \<lparr>ar_gate = \<lparr>budget = b, parked = pk, gate_closed = False\<rparr>, ar_phase = Dispatching, ar_emitted = Fin 0,
      ar_last = 1000000000, ar_expiry = Some 1005000000, ar_allocated = 2, ar_dropped = 0, ar_published = 2, ar_ran = k\<rparr>"

abbreviation "example_waiting \<equiv> example_env\<lparr>vu_ids := 1, active_vus := 1, watchdog := WdWaiting (Some 2000000000)\<rparr>"
abbreviation "example_cfg \<equiv>
  \<lparr>dc_schedule = Constant (Fin 2) 2000000000, dc_max_vus = 2, dc_tick = 5000000, dc_soft_deadline = 2000000000, dc_started = 0\<rparr>"
abbreviation "fifo0 \<equiv> \<lparr>f_permits = 0, f_queue = [], f_closed = False\<rparr>"

lemma example_init:
  "run_arrival_rate fifo_sem example_env (Constant (Fin 2) 2000000000) 5000000 1 2 =
     Some (example_cfg, example_env\<lparr>watchdog := WdWaiting (Some 2000000000)\<rparr>, example_arrival fifo0 0, [ArSpawned])"
  by (simp add: run_arrival_rate_def total_duration_def example_env_def example_arrival_def gate_new_def fifo_sem_def
      arm_graceful_stop_def)

lemma example_park:
  "run_tasks (ar_worker fifo_sem) ([(0, Completed), (0, Completed), (0, Completed)])
     (example_env\<lparr>watchdog := WdWaiting (Some 2000000000)\<rparr>, example_arrival fifo0 0, [ArSpawned]) =
   (example_waiting, example_arrival \<lparr>f_permits = 0, f_queue = [(0, False)], f_closed = False\<rparr> 1, [ArParked 1])"
  by (simp add: example_env_def example_arrival_def new_worker_def active_add_def try_claim_def
      claim_parked_def park_def fifo_sem_def fifo_take_def fifo_poll_def fifo_remove_def)

lemma rnd_small: "rnd 1 = Fin 1" "rnd 2 = Fin 2"
  using rep_nat [of 1] rep_nat [of 2] by (simp_all add: rep_def)

lemma one_second: "as_secs_f64 1000000000 = Fin 1"
  using f64_of_nat_exact [of 1] f64_of_nat_exact [of 1000000000] f64_of_nat_exact [of 0]
  by (simp add: as_secs_f64_def NANOS_PER_SEC_def rnd_small)

lemma example_publish:
  "dispatch_body fifo_sem example_cfg (example_waiting\<lparr>clock := 1000000000\<rparr>) False
     (example_arrival \<lparr>f_permits = 0, f_queue = [(0, False)], f_closed = False\<rparr> 1) =
   Some (1, example_published \<lparr>f_permits = 1, f_queue = [(0, True)], f_closed = False\<rparr> 1 0)"
  using f64_of_nat_exact [of 2]
  by (simp add: dispatch_body_def expire_and_drop_def expire_due_def record_dropped_def example_arrival_def
      example_published_def example_env_def rate_at_def one_second rnd_small f64_to_u64_def publish_def fifo_sem_def
      fifo_held_def MAX_PERMITS_def fifo_add_def end_or_continue_def Let_def)

lemma example_claim:
  "run_tasks (ar_worker fifo_sem) [(0, Completed)]
     (example_waiting\<lparr>clock := 1000000000\<rparr>, example_published \<lparr>f_permits = 1, f_queue = [(0, True)], f_closed = False\<rparr> 1 0,
      [ArParked 1, ArSpawned]) =
   (example_waiting\<lparr>clock := 1000000000\<rparr>, example_published \<lparr>f_permits = 1, f_queue = [], f_closed = False\<rparr> 0 1,
      [ArRun 1, ArSpawned])"
  by (simp add: example_env_def example_published_def claim_parked_def fifo_sem_def fifo_poll_def fifo_remove_def
      fifo_add_def unpark_def)

lemma example_run:
  "vu_run (ar_worker fifo_sem) (dispatcher fifo_sem example_cfg) 0
     (example_env\<lparr>watchdog := WdWaiting (Some 2000000000)\<rparr>, example_arrival fifo0 0, [ArSpawned])
     (example_waiting\<lparr>clock := 1000000000\<rparr>, example_published \<lparr>f_permits = 1, f_queue = [], f_closed = False\<rparr> 0 1,
      [ArRun 1, ArSpawned])" (is "vu_run ?w ?c 0 ?x ?y")
proof -
  let ?b = "\<lparr>f_permits = 0, f_queue = [(0, False)], f_closed = False\<rparr>"
  have r1: "vu_run ?w ?c 0 ?x (example_waiting, example_arrival ?b 1, [ArParked 1])"
    using run_tasks_run [OF vu_run.refl, of ?w ?c 0 ?x "[(0, Completed), (0, Completed), (0, Completed)]"] by (simp only: example_park)
  have "env_step 0 example_waiting (example_waiting\<lparr>clock := clock example_waiting + 1000000000\<rparr>)" by (rule env_step.tick)
  then have "env_step 0 example_waiting (example_waiting\<lparr>clock := 1000000000\<rparr>)" by (simp add: example_env_def)
  then have r2: "vu_run ?w ?c 0 ?x (example_waiting\<lparr>clock := 1000000000\<rparr>, example_arrival ?b 1, [ArParked 1])"
    by (intro vu_run.step [OF r1] vu_step.environment)
  have "ar_phase (example_arrival ?b 1) = Dispatching" by (simp add: example_arrival_def)
  from vu_run.step [OF r2 vu_step.steer, OF dispatcher.body [OF this example_publish]]
  have "vu_run ?w ?c 0 ?x (example_waiting\<lparr>clock := 1000000000\<rparr>,
      example_published \<lparr>f_permits = 1, f_queue = [(0, True)], f_closed = False\<rparr> 1 0, [ArParked 1, ArSpawned])"
    by simp
  from run_tasks_run [OF this, of "[(0, Completed)]"] show ?thesis by (simp only: example_claim)
qed

theorem arrivals_conserved_witness:
  "ar_published (example_published \<lparr>f_permits = 1, f_queue = [], f_closed = False\<rparr> 0 1) = 1 + 0 + 1 \<and>
   length [ArRun 1, ArSpawned] \<le> max 1 2"
  using arrivals_conserved [OF fifo_sem_laws example_init example_run]
  by (simp add: example_published_def fifo_held_def)

end
