(* ===== verification/Scenario_Run.thy ===== *)
theory Scenario_Run
  imports Executors Arrival
begin

text \<open>
  \<open>run_scenario\<close>: the choice of the executor from a scenario's specification, and the bound that
  placement relies on, over all executors.
\<close>

fun executor_name :: "exec_spec \<Rightarrow> string" where
  "executor_name (ConstantVus _ _) = ''constant-vus''"
| "executor_name (RampingVus _ _) = ''ramping-vus''"
| "executor_name (ConstantArrivalRate _ _ _ _) = ''constant-arrival-rate''"
| "executor_name (RampingArrivalRate _ _ _ _) = ''ramping-arrival-rate''"
| "executor_name (PerVuIterations _ _ _) = ''per-vu-iterations''"
| "executor_name (SharedIterations _ _ _) = ''shared-iterations''"
| "executor_name (ExternallyControlled _ _) = ''externally-controlled''"

text \<open>The tasks of a running scenario with what the executor fixed when it started.\<close>

datatype 's scenario_run =
    RunConstant nat "(unit, cv_phase) system"
  | RunIterations nat iteration_budget "(it_shared, it_phase) system"
  | RunRamping nat duration u64 "(duration \<times> u64) list" nat "(pool_shared, pool_phase) system"
  | RunExternal "nat option" "(pool_shared, pool_phase) system"
  | RunArrival dispatch_config "('s arrival, ar_phase_w) system"

text \<open>
  \<open>start_time\<close> passes first, unless a hard stop ends the scenario before it begins
  (\<open>Some None\<close>). The outer \<open>None\<close> is a panic.
\<close>

definition start_scenario ::
  "'s semaphore \<Rightarrow> duration \<Rightarrow> nat option \<Rightarrow> env \<Rightarrow> exec_spec \<Rightarrow> 's scenario_run panicky" where
  "start_scenario sem tick external_target e spec =
     (case spec of
        ConstantVus vus duration \<Rightarrow>
          (case run_constant_vus e (unat vus) duration of (d, x) \<Rightarrow> Some (RunConstant d x))
      | RampingVus start_vus stages \<Rightarrow>
          (case run_ramping_vus e start_vus stages of
             None \<Rightarrow> None
           | Some (d, whole, x) \<Rightarrow> Some (RunRamping d whole start_vus stages (clock e) x))
      | PerVuIterations vus iterations max_duration \<Rightarrow>
          (case run_iterations e (unat vus) (PerVu (unat iterations)) 0 max_duration of
             (d, x) \<Rightarrow> Some (RunIterations d (PerVu (unat iterations)) x))
      | SharedIterations vus iterations max_duration \<Rightarrow>
          (case run_iterations e (unat vus) Shared (unat iterations) max_duration of
             (d, x) \<Rightarrow> Some (RunIterations d Shared x))
      | ConstantArrivalRate rate duration pre max_vus \<Rightarrow>
          (case run_arrival_rate sem e (Constant rate duration) tick (unat pre) (unat max_vus) of
             None \<Rightarrow> None
           | Some (cfg, x) \<Rightarrow> Some (RunArrival cfg x))
      | RampingArrivalRate start_rate stages pre max_vus \<Rightarrow>
          (case run_arrival_rate sem e (Ramping start_rate stages) tick (unat pre) (unat max_vus) of
             None \<Rightarrow> None
           | Some (cfg, x) \<Rightarrow> Some (RunArrival cfg x))
      | ExternallyControlled max_vus duration \<Rightarrow>
          (case run_externally_controlled e (unat max_vus) duration external_target of
             (d, x) \<Rightarrow> Some (RunExternal d x)))"

definition run_scenario ::
  "'s semaphore \<Rightarrow> duration \<Rightarrow> nat option \<Rightarrow> env \<Rightarrow> duration \<Rightarrow> exec_spec \<Rightarrow> 's scenario_run option panicky" where
  "run_scenario sem tick external_target e start_time spec =
     (if start_time \<noteq> 0 \<and> hard_stop e then Some None
      else map_option Some
        (start_scenario sem tick external_target (e\<lparr>clock := clock e + start_time\<rparr>) spec))"

text \<open>What a running scenario may become, and how many tasks, hence VU ids, it has.\<close>

fun scenario_step :: "'s semaphore \<Rightarrow> duration \<Rightarrow> duration \<Rightarrow> 's scenario_run \<Rightarrow> 's scenario_run \<Rightarrow> bool" where
  "scenario_step sem graceful grace (RunConstant d x) (RunConstant d' y) \<longleftrightarrow>
     d' = d \<and> vu_run (cv_worker d) (join_tasks cv_done) graceful x y"
| "scenario_step sem graceful grace (RunIterations d b x) (RunIterations d' b' y) \<longleftrightarrow>
     d' = d \<and> b' = b \<and> vu_run (it_worker d b) (join_tasks it_done) graceful x y"
| "scenario_step sem graceful grace (RunRamping d whole v st t x) (RunRamping d' whole' v' st' t' y) \<longleftrightarrow>
     d' = d \<and> whole' = whole \<and> v' = v \<and> st' = st \<and> t' = t \<and>
     vu_run (pool_worker (Some d) grace) (ramp_control v st t whole) graceful x y"
| "scenario_step sem graceful grace (RunExternal d x) (RunExternal d' y) \<longleftrightarrow>
     d' = d \<and> vu_run (pool_worker d grace) scale_control graceful x y"
| "scenario_step sem graceful grace (RunArrival cfg x) (RunArrival cfg' y) \<longleftrightarrow>
     cfg' = cfg \<and> vu_run (ar_worker sem) (dispatcher sem cfg) graceful x y"
| "scenario_step sem graceful grace _ _ \<longleftrightarrow> False"

fun scenario_tasks :: "'s scenario_run \<Rightarrow> nat" where
  "scenario_tasks (RunConstant _ (e, s, ws)) = length ws"
| "scenario_tasks (RunIterations _ _ (e, s, ws)) = length ws"
| "scenario_tasks (RunRamping _ _ _ _ _ (e, s, ws)) = length ws"
| "scenario_tasks (RunExternal _ (e, s, ws)) = length ws"
| "scenario_tasks (RunArrival _ (e, a, ws)) = length ws"

lemma fixed_pool:
  assumes "vu_run worker control graceful (e, s, ws) (e', s', ws')"
    and "\<And>e s ws e' s' ws'. control (e, s, ws) (e', s', ws') \<Longrightarrow> length ws' = length ws"
  shows "length ws' = length ws"
  using vu_run_invariant [OF assms(1), of "\<lambda>y. length (snd (snd y)) = length ws"] assms(2) by auto

lemma join_tasks_length: "join_tasks ended (e, s, ws) (e', s', ws') \<Longrightarrow> length ws' = length ws"
  by (auto elim: join_tasksE)

lemma ramp_control_length: "ramp_control v st t whole (e, s, ws) (e', s', ws') \<Longrightarrow> length ws' = length ws"
  by (auto elim!: ramp_controlE join_tasksE)

lemma scale_control_length: "scale_control (e, s, ws) (e', s', ws') \<Longrightarrow> length ws' = length ws"
  by (auto elim!: scale_controlE join_tasksE)

lemma arrival_tasks:
  assumes "vu_run (ar_worker sem) (dispatcher sem cfg) graceful x (e, a, ws)"
    and "run_arrival_rate sem e0 schedule tick pre max_vus = Some (cfg, x)"
  shows "length ws \<le> max pre max_vus"
proof -
  let ?I = "\<lambda>y. length (snd (snd y)) = ar_allocated (fst (snd y)) \<and> length (snd (snd y)) \<le> max pre max_vus"
  have cfg: "dc_max_vus cfg = max_vus" and init: "?I x"
    using assms(2) by (auto simp: run_arrival_rate_def Let_def split: option.splits)
  have "?I (e, a, ws)"
  proof (rule vu_run_invariant [OF assms(1), of ?I])
    fix i inp e1 a1 ws1 e2 a2 p
    assume I: "?I (e1, a1, ws1)" and w: "ar_worker sem i inp e1 a1 (ws1 ! i) = (e2, a2, p)"
    have "ar_allocated a2 = ar_allocated a1"
      using w by (cases "ws1 ! i")
        (auto simp: new_worker_def split: prod.splits bool.splits if_splits option.splits claim.splits)
    with I show "?I (e2, a2, ws1[i := p])" by simp
  next
    fix e1 a1 ws1 e2 a2 ws2 assume I: "?I (e1, a1, ws1)" and d: "dispatcher sem cfg (e1, a1, ws1) (e2, a2, ws2)"
    from d show "?I (e2, a2, ws2)"
    proof cases
      case (body woke_late grow)
      then show ?thesis using I cfg dispatch_body_allocates [OF body(4)] by auto
    qed (use I in \<open>auto simp: drain_body_def split: if_splits\<close>)
  qed (use init in auto)
  then show ?thesis by simp
qed

lemma start_scenario_tasks:
  assumes "start_scenario sem tick ext e0 spec = Some r" "scenario_step sem graceful grace r r'"
  shows "scenario_tasks r' \<le> unat (vu_capacity spec)"
proof (cases spec)
  case (ConstantVus vus d)
  then obtain d e s where r: "r = RunConstant d (e, s, replicate (unat vus) CvSpawned)"
    using assms(1) by (auto simp: start_scenario_def run_constant_vus_def Let_def)
  then obtain e' s' ws where "r' = RunConstant d (e', s', ws)" using assms(2) by (cases r') auto
  then show ?thesis using assms(2) r ConstantVus
    by (auto simp: vu_capacity_def dest!: fixed_pool [OF _ join_tasks_length])
next
  case (PerVuIterations vus n d)
  then obtain d b e s where r: "r = RunIterations d b (e, s, replicate (unat vus) ItSpawned)"
    using assms(1) by (auto simp: start_scenario_def run_iterations_def Let_def)
  then obtain e' s' ws where "r' = RunIterations d b (e', s', ws)" using assms(2) by (cases r') auto
  then show ?thesis using assms(2) r PerVuIterations
    by (auto simp: vu_capacity_def dest!: fixed_pool [OF _ join_tasks_length])
next
  case (SharedIterations vus n d)
  then obtain d b e s where r: "r = RunIterations d b (e, s, replicate (unat vus) ItSpawned)"
    using assms(1) by (auto simp: start_scenario_def run_iterations_def Let_def)
  then obtain e' s' ws where "r' = RunIterations d b (e', s', ws)" using assms(2) by (cases r') auto
  then show ?thesis using assms(2) r SharedIterations
    by (auto simp: vu_capacity_def dest!: fixed_pool [OF _ join_tasks_length])
next
  case (RampingVus v st)
  have peak: "(case map snd st @ [v] of [] \<Rightarrow> 0 | t # ts \<Rightarrow> foldl max t ts) = vu_capacity spec"
    using peak_vus_ramping [of v st] RampingVus by (simp add: peak_vus_def)
  from RampingVus obtain d whole t e s where
    r: "r = RunRamping d whole v st t (e, s, replicate (unat (vu_capacity spec)) (PlTop None False))"
    using assms(1) peak by (auto simp: start_scenario_def run_ramping_vus_def run_allocated_pool_def Let_def split: option.splits)
  then obtain e' s' ws where "r' = RunRamping d whole v st t (e', s', ws)" using assms(2) by (cases r') auto
  then show ?thesis using assms(2) r by (auto dest!: fixed_pool [OF _ ramp_control_length])
next
  case (ExternallyControlled m d)
  then obtain d e s where r: "r = RunExternal d (e, s, replicate (unat m) (PlTop None False))"
    using assms(1) by (auto simp: start_scenario_def run_externally_controlled_def run_allocated_pool_def Let_def)
  then obtain e' s' ws where "r' = RunExternal d (e', s', ws)" using assms(2) by (cases r') auto
  then show ?thesis using assms(2) r ExternallyControlled
    by (auto simp: vu_capacity_def dest!: fixed_pool [OF _ scale_control_length])
next
  case (ConstantArrivalRate rate d pre m)
  then obtain cfg x where r: "r = RunArrival cfg x"
      "run_arrival_rate sem e0 (Constant rate d) tick (unat pre) (unat m) = Some (cfg, x)"
    using assms(1) by (auto simp: start_scenario_def split: option.splits)
  then obtain e' a' ws where "r' = RunArrival cfg (e', a', ws)" using assms(2) by (cases r') auto
  then show ?thesis using assms(2) r arrival_tasks [OF _ r(2)] ConstantArrivalRate
    by (auto simp: vu_capacity_def unat_max)
next
  case (RampingArrivalRate rate st pre m)
  then obtain cfg x where r: "r = RunArrival cfg x"
      "run_arrival_rate sem e0 (Ramping rate st) tick (unat pre) (unat m) = Some (cfg, x)"
    using assms(1) by (auto simp: start_scenario_def split: option.splits)
  then obtain e' a' ws where "r' = RunArrival cfg (e', a', ws)" using assms(2) by (cases r') auto
  then show ?thesis using assms(2) r arrival_tasks [OF _ r(2)] RampingArrivalRate
    by (auto simp: vu_capacity_def unat_max)
qed

text \<open>
  C25: whatever its executor, its schedule and the interleaving of its tasks, a scenario never has
  more VU tasks, and so never takes more VU ids, than the \<open>vu_capacity\<close> by which placement numbers
  the VUs of a distributed run.
\<close>

theorem scenario_within_capacity:
  assumes "run_scenario sem tick external_target e0 start_time spec = Some (Some r)"
    and "scenario_step sem graceful grace r r'"
  shows "scenario_tasks r' \<le> unat (vu_capacity spec)"
  using assms start_scenario_tasks by (fastforce simp: run_scenario_def split: if_splits)

theorem scenario_within_capacity_witness:
  "scenario_tasks (RunArrival example_cfg
      (example_waiting\<lparr>clock := 1000000000\<rparr>, example_published \<lparr>f_permits = 1, f_queue = [], f_closed = False\<rparr> 0 1,
       [ArRun 1, ArSpawned])) \<le> unat (vu_capacity (ConstantArrivalRate (Fin 2) 2000000000 1 2))"
proof -
  have "run_scenario fifo_sem 5000000 None example_env 0 (ConstantArrivalRate (Fin 2) 2000000000 1 2) =
      Some (Some (RunArrival example_cfg
        (example_env\<lparr>watchdog := WdWaiting (Some 2000000000)\<rparr>, example_arrival fifo0 0, [ArSpawned])))"
    using example_init by (simp add: run_scenario_def start_scenario_def)
  then show ?thesis
    using example_run by (intro scenario_within_capacity [where graceful = 0 and grace = 0]) auto
qed

end
