(* ===== verification/Metrics.thy ===== *)
theory Metrics
  imports F64 "HOL-Library.List_Lexorder" "HOL-Library.Char_ord" "HOL-Library.Product_Lexorder" "HOL-Library.Sublist"
begin

text \<open>
  Metric kinds, the registry of metrics and tag sets, and the sample type
  (\<open>loadr-core/src/metrics.rs\<close>). A tag set is a \<open>BTreeMap\<close>: an association list sorted by key. The
  order on strings is the byte order of Rust, on tag sets the lexicographic order of their entries.
\<close>

type_synonym tags = "(string \<times> string) list"

definition tag_get :: "string \<Rightarrow> tags \<Rightarrow> string option" where
  "tag_get k ts = map_of ts k"

fun tag_insert :: "string \<Rightarrow> string \<Rightarrow> tags \<Rightarrow> tags" where
  "tag_insert k v [] = [(k, v)]"
| "tag_insert k v ((k', v') # ts) =
     (if k < k' then (k, v) # (k', v') # ts
      else if k = k' then (k, v) # ts
      else (k', v') # tag_insert k v ts)"

definition wf_tags :: "tags \<Rightarrow> bool" where
  "wf_tags ts \<longleftrightarrow> sorted_wrt (<) (map fst ts)"

lemma tag_get_insert [simp]: "tag_get k (tag_insert k' v ts) = (if k = k' then Some v else tag_get k ts)"
  by (induction ts) (auto simp: tag_get_def)

lemma tag_insert_keys: "set (map fst (tag_insert k v ts)) = insert k (set (map fst ts))"
proof (induction ts)
  case (Cons a ts)
  then show ?case by (cases a) (simp add: insert_commute)
qed simp

lemma wf_tag_insert: "wf_tags ts \<Longrightarrow> wf_tags (tag_insert k v ts)"
proof (induction ts)
  case (Cons a ts)
  obtain k' v' where a: "a = (k', v')" by (cases a)
  have IH: "wf_tags (tag_insert k v ts)" using Cons by (simp add: wf_tags_def)
  have rest: "\<forall>x \<in> fst ` set ts. k' < x" using Cons.prems by (auto simp: wf_tags_def a)
  consider "k < k'" | "k = k'" | "k' < k" by (rule linorder_cases)
  then show ?case
  proof cases
    case 1
    then show ?thesis using Cons.prems rest by (auto simp: wf_tags_def a intro: less_trans)
  next
    case 2
    then show ?thesis using Cons.prems by (simp add: wf_tags_def a)
  next
    case 3
    moreover have "\<forall>x \<in> set (map fst (tag_insert k v ts)). k' < x"
      using rest 3 by (simp only: tag_insert_keys) auto
    ultimately show ?thesis using IH by (auto simp: wf_tags_def a)
  qed
qed (simp add: wf_tags_def)

datatype metric_kind = Counter | Gauge | Rate | Trend

fun kind_as_str :: "metric_kind \<Rightarrow> string" where
  "kind_as_str Counter = ''counter''"
| "kind_as_str Gauge = ''gauge''"
| "kind_as_str Rate = ''rate''"
| "kind_as_str Trend = ''trend''"

definition is_request_counter_metric :: "string \<Rightarrow> bool" where
  "is_request_counter_metric metric \<longleftrightarrow>
     suffix ''_reqs'' metric \<and> metric \<notin> {''graphql_reqs'', ''request_reqs''}"

definition is_request_duration_metric :: "string \<Rightarrow> bool" where
  "is_request_duration_metric metric \<longleftrightarrow>
     suffix ''_req_duration'' metric \<and> metric \<notin> {''graphql_req_duration'', ''request_duration''}"

definition is_additive_gauge :: "string \<Rightarrow> bool" where
  "is_additive_gauge metric \<longleftrightarrow> metric \<in> {''vus'', ''vus_max''}"

definition LIVE_GAUGES :: "string list" where
  "LIVE_GAUGES = [''vus'']"

record sample =
  sm_metric :: string
  sm_kind :: metric_kind
  sm_value :: f64
  sm_tags :: tags
  sm_timestamp :: nat

section \<open>The registry\<close>

record metric_def =
  md_name :: string
  md_kind :: metric_kind
  md_time :: bool
  md_description :: "string option"

definition BUILTIN_METRIC_DEFS :: "(string \<times> metric_kind \<times> bool) list" where
  "BUILTIN_METRIC_DEFS =
     [(''http_reqs'', Counter, False), (''http_req_duration'', Trend, True),
      (''http_req_blocked'', Trend, True), (''http_req_connecting'', Trend, True),
      (''http_req_tls_handshaking'', Trend, True), (''http_req_sending'', Trend, True),
      (''http_req_waiting'', Trend, True), (''http_req_receiving'', Trend, True),
      (''http_req_failed'', Rate, False), (''iterations'', Counter, False),
      (''iteration_duration'', Trend, True), (''dropped_iterations'', Counter, False),
      (''vus'', Gauge, False), (''vus_max'', Gauge, False), (''requests_in_flight'', Gauge, False),
      (''checks'', Rate, False), (''vu_exceptions'', Counter, False), (''faults_injected'', Counter, False),
      (''data_sent'', Counter, False), (''data_received'', Counter, False),
      (''ws_connecting'', Trend, True), (''ws_session_duration'', Trend, True),
      (''ws_msgs_sent'', Counter, False), (''ws_msgs_received'', Counter, False),
      (''grpc_reqs'', Counter, False), (''grpc_req_duration'', Trend, True),
      (''tcp_reqs'', Counter, False), (''tcp_req_duration'', Trend, True),
      (''udp_reqs'', Counter, False), (''udp_req_duration'', Trend, True),
      (''noop_reqs'', Counter, False), (''noop_req_duration'', Trend, True),
      (''graphql_reqs'', Counter, False), (''graphql_req_duration'', Trend, True)]"

definition TAG_INTERN_CAP :: nat where
  "TAG_INTERN_CAP = 4096"

record registry =
  reg_defs :: "(string, metric_def) hashmap"
  reg_tag_sets :: "(tags, nat) hashmap"

definition with_builtins :: registry where
  "with_builtins =
     \<lparr>reg_defs = map (\<lambda>(name, kind, time). (name, \<lparr>md_name = name, md_kind = kind, md_time = time, md_description = None\<rparr>))
        BUILTIN_METRIC_DEFS,
      reg_tag_sets = []\<rparr>"

text \<open>
  \<open>intern_tags\<close> returns the tags with their hash; \<open>hash_tags\<close> is the hash \<open>CachedTags::new\<close> computes.
  The map is read and, on a miss, looked up again under the write lock.
\<close>

definition intern_tags :: "(tags \<Rightarrow> nat) \<Rightarrow> tags \<Rightarrow> registry \<Rightarrow> (tags \<times> nat) \<times> registry" where
  "intern_tags hash_tags ts reg =
     (case map_of (reg_tag_sets reg) ts of
        Some h \<Rightarrow> ((ts, h), reg)
      | None \<Rightarrow>
          ((ts, hash_tags ts),
           if length (reg_tag_sets reg) < TAG_INTERN_CAP
           then reg\<lparr>reg_tag_sets := (ts, hash_tags ts) # reg_tag_sets reg\<rparr> else reg))"

datatype register_error = KindConflict string metric_kind metric_kind

definition register ::
  "string \<Rightarrow> metric_kind \<Rightarrow> bool \<Rightarrow> string option \<Rightarrow> registry \<Rightarrow> (register_error, string) result \<times> registry" where
  "register name kind time description reg =
     (case map_of (reg_defs reg) name of
        Some existing \<Rightarrow>
          if md_kind existing \<noteq> kind then (Inl (KindConflict name (md_kind existing) kind), reg)
          else (Inr (md_name existing), reg)
      | None \<Rightarrow>
          (Inr name,
           reg\<lparr>reg_defs := (name, \<lparr>md_name = name, md_kind = kind, md_time = time, md_description = description\<rparr>) # reg_defs reg\<rparr>))"

text \<open>Entries are stored under their own name, and the table of tag sets caches true hashes within its cap.\<close>

definition registry_inv :: "(tags \<Rightarrow> nat) \<Rightarrow> registry \<Rightarrow> bool" where
  "registry_inv hash_tags reg \<longleftrightarrow>
     wf_map (reg_defs reg) \<and> (\<forall>(k, d) \<in> set (reg_defs reg). md_name d = k) \<and>
     wf_map (reg_tag_sets reg) \<and> (\<forall>(ts, h) \<in> set (reg_tag_sets reg). h = hash_tags ts) \<and>
     length (reg_tag_sets reg) \<le> TAG_INTERN_CAP"

lemma with_builtins_inv: "registry_inv hash_tags with_builtins"
proof -
  have "distinct (map fst BUILTIN_METRIC_DEFS)" by (simp add: BUILTIN_METRIC_DEFS_def)
  then show ?thesis
    by (auto simp: registry_inv_def with_builtins_def wf_map_def comp_def case_prod_beta TAG_INTERN_CAP_def)
qed

lemma intern_tags_inv: "registry_inv hash_tags reg \<Longrightarrow> registry_inv hash_tags (snd (intern_tags hash_tags ts reg))"
  by (auto simp: registry_inv_def intern_tags_def wf_map_def map_of_eq_None_iff Suc_le_eq split: option.splits)

lemma register_inv: "registry_inv hash_tags reg \<Longrightarrow> registry_inv hash_tags (snd (register name kind time d reg))"
  by (auto simp: registry_inv_def register_def wf_map_def map_of_eq_None_iff split: option.splits)

text \<open>
  Registering a metric is idempotent and never changes the kind of a known one. In every
  registry reached from the built-ins by registrations and tag interning: a registration either
  fails because the name exists with another kind, or returns the name and leaves it registered
  with the requested kind; in both cases every other definition is kept. Interning returns the
  given tags with their own hash, and the table never exceeds its cap.
\<close>

theorem registry_sound:
  assumes "registry_inv hash_tags reg" "register name kind time d reg = (r, reg')"
    and "intern_tags hash_tags ts reg' = ((ts', h), reg'')"
  shows "(case r of
      Inl (KindConflict n k k') \<Rightarrow> n = name \<and> k' = kind \<and> k \<noteq> kind \<and> reg' = reg \<and>
        map_option md_kind (map_of (reg_defs reg) name) = Some k
    | Inr n \<Rightarrow> n = name \<and> map_option md_kind (map_of (reg_defs reg') name) = Some kind \<and>
        register name kind time d reg' = (Inr name, reg')) \<and>
    (\<forall>m df. map_of (reg_defs reg) m = Some df \<longrightarrow> map_of (reg_defs reg'') m = Some df) \<and>
    ts' = ts \<and> h = hash_tags ts \<and> length (reg_tag_sets reg'') \<le> TAG_INTERN_CAP"
proof -
  have inv': "registry_inv hash_tags reg'" using register_inv [OF assms(1), of name kind time d] assms(2) by simp
  then have inv2: "registry_inv hash_tags reg''" using intern_tags_inv [of hash_tags reg' ts] assms(3) by simp
  have name: "md_name df = m" if "map_of (reg_defs reg) m = Some df" for m df
    using assms(1) map_of_SomeD [OF that] by (auto simp: registry_inv_def)
  have "ts' = ts \<and> h = hash_tags ts" using assms(3) inv' map_of_SomeD [of "reg_tag_sets reg'" ts]
    by (auto simp: intern_tags_def registry_inv_def split: option.splits)
  moreover have "length (reg_tag_sets reg'') \<le> TAG_INTERN_CAP" using inv2 by (simp add: registry_inv_def)
  moreover have "reg_defs reg'' = reg_defs reg'" using assms(3) by (auto simp: intern_tags_def split: option.splits if_splits)
  ultimately show ?thesis using assms(2) name
    by (auto simp: register_def split: option.splits if_splits)
qed

theorem registry_sound_witness:
  "length (reg_tag_sets (snd (intern_tags (\<lambda>_. 7) [(''a'', ''b'')] (snd (register ''my'' Counter False None with_builtins))))) \<le> TAG_INTERN_CAP"
proof -
  obtain r reg' where 1: "register ''my'' Counter False None with_builtins = (r, reg')" by (metis surj_pair)
  obtain ts' h reg2 where 2: "intern_tags (\<lambda>_. 7) [(''a'', ''b'')] reg' = ((ts', h), reg2)" by (metis surj_pair)
  from registry_sound [OF with_builtins_inv 1 2] show ?thesis by (simp add: 1 2)
qed

end
