(* ===== verification/Aggregate.thy ===== *)
theory Aggregate
  imports Metrics Durations
begin

text \<open>
  The aggregator (\<open>loadr-core/src/aggregate.rs\<close>): series of samples, snapshots and selector
  aggregates, and the mergeable deltas of distributed runs. The HDR histogram is a library outside
  the repository: it is the argument \<open>hdr\<close>, and \<open>hdr_laws\<close> states the documented behaviour the
  aggregator relies on. \<open>now\<close> arguments are what \<open>Instant::now()\<close> and \<open>SystemTime::now()\<close> read.
\<close>

section \<open>Histograms\<close>

record 'h hdr =
  h_new :: 'h
  h_record :: "nat \<Rightarrow> 'h \<Rightarrow> 'h"
  h_add :: "'h \<Rightarrow> 'h \<Rightarrow> 'h"
  h_len :: "'h \<Rightarrow> nat"
  h_mean :: "'h \<Rightarrow> f64"
  h_quantile :: "f64 \<Rightarrow> 'h \<Rightarrow> nat"
  h_encode :: "'h \<Rightarrow> string option"
  h_decode :: "string \<Rightarrow> 'h option"

text \<open>
  A histogram stands for the multiset of its recorded values at bucket precision: recording adds
  the value's bucket, adding a histogram adds its contents, the length is the number of recorded
  values, quantiles are a function of the contents, and an encoded histogram decodes to one with
  the same contents.
\<close>

definition hdr_laws :: "'h hdr \<Rightarrow> (nat \<Rightarrow> nat) \<Rightarrow> ('h \<Rightarrow> nat multiset) \<Rightarrow> (f64 \<Rightarrow> nat multiset \<Rightarrow> nat) \<Rightarrow> bool" where
  "hdr_laws hdr bucket contents quant \<longleftrightarrow>
     contents (h_new hdr) = {#} \<and>
     (\<forall>v h. contents (h_record hdr v h) = contents h + {#bucket v#}) \<and>
     (\<forall>g h. contents (h_add hdr g h) = contents g + contents h) \<and>
     (\<forall>h. h_len hdr h = size (contents h)) \<and>
     (\<forall>q h. h_quantile hdr q h = quant q (contents h)) \<and>
     (\<forall>h. \<exists>s h'. h_encode hdr h = Some s \<and> h_decode hdr s = Some h' \<and> contents h' = contents h)"

lemma hdr_lawsD:
  assumes "hdr_laws hdr bucket contents quant"
  shows "contents (h_new hdr) = {#}" "contents (h_record hdr v h) = contents h + {#bucket v#}"
    "contents (h_add hdr g h) = contents g + contents h" "h_len hdr h = size (contents h)"
    "h_quantile hdr q h = quant q (contents h)"
    "h_encode hdr h = Some s \<Longrightarrow> \<exists>h'. h_decode hdr s = Some h' \<and> contents h' = contents h"
    "h_encode hdr h \<noteq> None"
  using assms unfolding hdr_laws_def by (blast, blast, blast, blast, blast, metis option.sel, metis option.distinct(1))

section \<open>Series\<close>

definition TREND_SCALE :: f64 where
  "TREND_SCALE = Fin 1000"

type_synonym series_key = "string \<times> tags"

datatype 'h series_data =
    SCounter f64 f64
  | SGauge f64 f64 f64 nat
  | SRate nat nat nat nat
  | STrend 'h 'h f64 nat f64 f64

record 'h series =
  s_kind :: metric_kind
  s_data :: "'h series_data"
  snap_counter :: f64
  snap_count :: nat

fun data_new :: "'h hdr \<Rightarrow> metric_kind \<Rightarrow> 'h series_data" where
  "data_new hdr Counter = SCounter (Fin 0) (Fin 0)"
| "data_new hdr Gauge = SGauge (Fin 0) PInf NInf 0"
| "data_new hdr Rate = SRate 0 0 0 0"
| "data_new hdr Trend = STrend (h_new hdr) (h_new hdr) (Fin 0) 0 PInf NInf"

definition series_new :: "'h hdr \<Rightarrow> metric_kind \<Rightarrow> 'h series" where
  "series_new hdr kind = \<lparr>s_kind = kind, s_data = data_new hdr kind, snap_counter = Fin 0, snap_count = 0\<rparr>"

definition trend_scaled :: "f64 \<Rightarrow> nat" where
  "trend_scaled value = f64_to_u64 (f64_max (f64_round (value * TREND_SCALE)) (Fin 0))"

fun data_record :: "'h hdr \<Rightarrow> f64 \<Rightarrow> nat \<Rightarrow> 'h series_data \<Rightarrow> 'h series_data" where
  "data_record hdr value seq (SCounter tot flushed) = SCounter (tot + value) flushed"
| "data_record hdr value seq (SGauge lst mn mx gseq) = SGauge value (f64_min mn value) (f64_max mx value) seq"
| "data_record hdr value seq (SRate passes tot fp ft) =
     SRate (if f64_eq value (Fin 0) then passes else passes + 1) (tot + 1) fp ft"
| "data_record hdr value seq (STrend hist delta_hist sm cnt mn mx) =
     (let scaled = trend_scaled value
      in STrend (h_record hdr scaled hist) (h_record hdr scaled delta_hist) (sm + value) (cnt + 1)
           (f64_min mn value) (f64_max mx value))"

definition series_record :: "'h hdr \<Rightarrow> f64 \<Rightarrow> nat \<Rightarrow> 'h series \<Rightarrow> 'h series" where
  "series_record hdr value seq s = s\<lparr>s_data := data_record hdr value seq (s_data s)\<rparr>"

section \<open>The aggregator\<close>

record 'h aggregator =
  ag_series :: "(series_key, 'h series) hashmap"
  ag_start :: nat
  ag_last_snapshot :: nat
  ag_seq :: nat

definition agg_new :: "nat \<Rightarrow> 'h aggregator" where
  "agg_new now = \<lparr>ag_series = [], ag_start = now, ag_last_snapshot = now, ag_seq = 0\<rparr>"

text \<open>\<open>HashMap::entry(key).or_insert_with(default)\<close> followed by an update of the entry.\<close>

definition upsert :: "'k \<Rightarrow> 'v \<Rightarrow> ('v \<Rightarrow> 'v) \<Rightarrow> ('k, 'v) hashmap \<Rightarrow> ('k, 'v) hashmap" where
  "upsert k dflt f m = AList.update k (f (case map_of m k of None \<Rightarrow> dflt | Some v \<Rightarrow> v)) m"

definition record_cached ::
  "'h hdr \<Rightarrow> string \<Rightarrow> metric_kind \<Rightarrow> f64 \<Rightarrow> tags \<Rightarrow> 'h aggregator \<Rightarrow> 'h aggregator" where
  "record_cached hdr metric kind value ts a =
     (let seq = ag_seq a + 1
      in a\<lparr>ag_seq := seq,
           ag_series := upsert (metric, ts) (series_new hdr kind) (series_record hdr value seq) (ag_series a)\<rparr>)"

definition agg_record :: "'h hdr \<Rightarrow> sample \<Rightarrow> 'h aggregator \<Rightarrow> 'h aggregator" where
  "agg_record hdr sm a = record_cached hdr (sm_metric sm) (sm_kind sm) (sm_value sm) (sm_tags sm) a"

section \<open>Aggregated values\<close>

record agg_values =
  av_count :: nat
  av_sum :: f64
  av_avg :: "f64 option"
  av_min :: "f64 option"
  av_max :: "f64 option"
  av_med :: "f64 option"
  av_p90 :: "f64 option"
  av_p95 :: "f64 option"
  av_p99 :: "f64 option"
  av_p999 :: "f64 option"
  av_rate :: "f64 option"
  av_last :: "f64 option"
  av_per_second :: "f64 option"

definition agg_default :: agg_values where
  "agg_default =
     \<lparr>av_count = 0, av_sum = Fin 0, av_avg = None, av_min = None, av_max = None, av_med = None, av_p90 = None,
      av_p95 = None, av_p99 = None, av_p999 = None, av_rate = None, av_last = None, av_per_second = None\<rparr>"

definition if_finite :: "f64 \<Rightarrow> f64 option" where
  "if_finite x = (if is_finite x then Some x else None)"

definition per_sec :: "f64 \<Rightarrow> f64 \<Rightarrow> f64 option" where
  "per_sec elapsed x = (if Fin 0 < elapsed then Some (x / elapsed) else None)"

definition trend_quantile :: "'h hdr \<Rightarrow> f64 \<Rightarrow> 'h \<Rightarrow> f64" where
  "trend_quantile hdr q h = f64_of_nat (h_quantile hdr q h) / TREND_SCALE"

fun agg_values_of :: "'h hdr \<Rightarrow> f64 \<Rightarrow> 'h series_data \<Rightarrow> agg_values" where
  "agg_values_of hdr elapsed (SCounter tot flushed) =
     agg_default\<lparr>av_sum := tot, av_count := f64_to_u64 tot, av_per_second := per_sec elapsed tot\<rparr>"
| "agg_values_of hdr elapsed (SGauge lst mn mx gseq) =
     agg_default\<lparr>av_last := Some lst, av_min := if_finite mn, av_max := if_finite mx, av_count := 1\<rparr>"
| "agg_values_of hdr elapsed (SRate passes tot fp ft) =
     agg_default\<lparr>av_count := tot, av_sum := f64_of_nat passes,
       av_rate := (if 0 < tot then Some (f64_of_nat passes / f64_of_nat tot) else None),
       av_per_second := per_sec elapsed (f64_of_nat tot)\<rparr>"
| "agg_values_of hdr elapsed (STrend hist delta_hist sm cnt mn mx) =
     (let out = agg_default\<lparr>av_count := cnt, av_sum := sm, av_per_second := per_sec elapsed (f64_of_nat cnt)\<rparr>
      in if 0 < cnt
         then out\<lparr>av_avg := Some (sm / f64_of_nat cnt), av_min := Some mn, av_max := Some mx,
                av_med := Some (trend_quantile hdr (Fin (1/2)) hist),
                av_p90 := Some (trend_quantile hdr (rnd (90/100)) hist),
                av_p95 := Some (trend_quantile hdr (rnd (95/100)) hist),
                av_p99 := Some (trend_quantile hdr (rnd (99/100)) hist),
                av_p999 := Some (trend_quantile hdr (rnd (999/1000)) hist)\<rparr>
         else out)"

text \<open>The loop of \<open>additive_gauge_values\<close>: the sums and whether they have a value.\<close>

fun additive_loop :: "'h series list \<Rightarrow> f64 option \<times> f64 option \<times> f64 option \<Rightarrow> f64 option \<times> f64 option \<times> f64 option" where
  "additive_loop [] acc = acc"
| "additive_loop (s # ss) (lst, mn, mx) =
     (case s_data s of
        SGauge l m x _ \<Rightarrow>
          additive_loop ss
            (Some ((case lst of None \<Rightarrow> Fin 0 | Some v \<Rightarrow> v) + l),
             if is_finite m then Some ((case mn of None \<Rightarrow> Fin 0 | Some v \<Rightarrow> v) + m) else mn,
             if is_finite x then Some ((case mx of None \<Rightarrow> Fin 0 | Some v \<Rightarrow> v) + x) else mx)
      | _ \<Rightarrow> additive_loop ss (lst, mn, mx))"

definition additive_gauge_values :: "'h series list \<Rightarrow> agg_values" where
  "additive_gauge_values ss =
     (case additive_loop ss (None, None, None) of
        (lst, mn, mx) \<Rightarrow> agg_default\<lparr>av_count := 1, av_last := lst, av_min := mn, av_max := mx\<rparr>)"

text \<open>\<open>merge_series\<close>: fold a series into the one being merged; kinds that differ are skipped.\<close>

fun merge_data :: "'h hdr \<Rightarrow> string \<Rightarrow> 'h series_data \<Rightarrow> 'h series_data \<Rightarrow> 'h series_data" where
  "merge_data hdr metric (SCounter tot fl) (SCounter other _) = SCounter (tot + other) fl"
| "merge_data hdr metric (SGauge lst mn mx seq) (SGauge olast omn omx oseq) =
     (if is_additive_gauge metric
      then SGauge (lst + olast) (f64_min mn omn) (f64_max mx omx) (max seq oseq)
      else if seq \<le> oseq then SGauge olast (f64_min mn omn) (f64_max mx omx) oseq
      else SGauge lst (f64_min mn omn) (f64_max mx omx) seq)"
| "merge_data hdr metric (SRate passes tot fp ft) (SRate opasses otot _ _) = SRate (passes + opasses) (tot + otot) fp ft"
| "merge_data hdr metric (STrend hist dh sm cnt mn mx) (STrend ohist _ osm ocnt omn omx) =
     STrend (h_add hdr hist ohist) dh (sm + osm) (cnt + ocnt) (f64_min mn omn) (f64_max mx omx)"
| "merge_data hdr metric merged _ = merged"

definition merge_series :: "'h hdr \<Rightarrow> string \<Rightarrow> 'h series \<Rightarrow> 'h series \<Rightarrow> 'h series" where
  "merge_series hdr metric merged source = merged\<lparr>s_data := merge_data hdr metric (s_data merged) (s_data source)\<rparr>"

definition merged_agg :: "'h hdr \<Rightarrow> string \<Rightarrow> 'h series list \<Rightarrow> f64 \<Rightarrow> (metric_kind \<times> agg_values) option" where
  "merged_agg hdr metric matched elapsed =
     (case matched of
        [] \<Rightarrow> None
      | first # _ \<Rightarrow>
          (let kind = s_kind first
           in if kind = Gauge \<and> is_additive_gauge metric then Some (kind, additive_gauge_values matched)
              else if length matched = 1 then Some (kind, agg_values_of hdr elapsed (s_data first))
              else Some (kind, agg_values_of hdr elapsed
                     (s_data (foldl (merge_series hdr metric) (series_new hdr kind) matched)))))"

definition tags_match :: "(string \<times> string) list \<Rightarrow> tags \<Rightarrow> bool" where
  "tags_match tag_filter ts \<longleftrightarrow> list_all (\<lambda>(k, v). tag_get k ts = Some v) tag_filter"

definition agg_elapsed :: "nat \<Rightarrow> 'h aggregator \<Rightarrow> duration" where
  "agg_elapsed now a = now - ag_start a"

definition aggregate_selector ::
  "'h hdr \<Rightarrow> nat \<Rightarrow> string \<Rightarrow> (string \<times> string) list \<Rightarrow> 'h aggregator \<Rightarrow> (metric_kind \<times> agg_values) option" where
  "aggregate_selector hdr now metric tag_filter a =
     merged_agg hdr metric
       (map snd (filter (\<lambda>((m, ts), _). m = metric \<and> tags_match tag_filter ts) (ag_series a)))
       (as_secs_f64 (agg_elapsed now a))"

definition metric_names :: "'h aggregator \<Rightarrow> string list" where
  "metric_names a = remdups_adj (sort (map (fst \<circ> fst) (ag_series a)))"

text \<open>\<open>aggregate_all\<close> groups the series by metric in a \<open>BTreeMap\<close>, each group in iteration order.\<close>

definition aggregate_all :: "'h hdr \<Rightarrow> nat \<Rightarrow> 'h aggregator \<Rightarrow> (string \<times> metric_kind \<times> agg_values) list" where
  "aggregate_all hdr now a =
     List.map_filter
       (\<lambda>metric. map_option (\<lambda>(kind, v). (metric, kind, v))
          (merged_agg hdr metric (map snd (filter (\<lambda>((m, _), _). m = metric) (ag_series a)))
             (as_secs_f64 (agg_elapsed now a))))
       (sorted_list_of_set (set (map (fst \<circ> fst) (ag_series a))))"

definition aggregate_matching ::
  "'h hdr \<Rightarrow> nat \<Rightarrow> tags \<Rightarrow> (string \<Rightarrow> bool) \<Rightarrow> 'h aggregator \<Rightarrow> (metric_kind \<times> agg_values) option" where
  "aggregate_matching hdr now tag_filter matches_metric a =
     (case map snd (filter (\<lambda>((m, ts), _). matches_metric m \<and> tags_match tag_filter ts) (ag_series a)) of
        [] \<Rightarrow> None
      | first # rest \<Rightarrow>
          Some (s_kind first,
            agg_values_of hdr (as_secs_f64 (agg_elapsed now a))
              (s_data (foldl (merge_series hdr ''request_rollup'') (series_new hdr (s_kind first)) (first # rest)))))"

fun percentile_loop :: "'h hdr \<Rightarrow> 'h series list \<Rightarrow> 'h option \<Rightarrow> 'h option" where
  "percentile_loop hdr [] merged = merged"
| "percentile_loop hdr (s # ss) merged =
     (case s_data s of
        STrend hist _ _ _ _ _ \<Rightarrow>
          percentile_loop hdr ss (Some (case merged of None \<Rightarrow> hist | Some m \<Rightarrow> h_add hdr m hist))
      | _ \<Rightarrow> percentile_loop hdr ss merged)"

definition aggregate_selector_percentile ::
  "'h hdr \<Rightarrow> string \<Rightarrow> (string \<times> string) list \<Rightarrow> f64 \<Rightarrow> 'h aggregator \<Rightarrow> f64 option" where
  "aggregate_selector_percentile hdr metric tag_filter percentile a =
     map_option (trend_quantile hdr (percentile / Fin 100))
       (percentile_loop hdr
          (map snd (filter (\<lambda>((m, ts), _). m = metric \<and> tags_match tag_filter ts) (ag_series a))) None)"

section \<open>Snapshots\<close>

record series_snapshot =
  ss_metric :: string
  ss_kind :: metric_kind
  ss_tags :: tags
  ss_agg :: agg_values
  ss_interval_count :: nat
  ss_interval_sum :: f64

record snapshot =
  sn_timestamp :: nat
  sn_elapsed_secs :: f64
  sn_interval_secs :: f64
  sn_series :: "series_snapshot list"

definition sort_series :: "series_snapshot list \<Rightarrow> series_snapshot list" where
  "sort_series xs = sort_key (\<lambda>s. (ss_metric s, ss_tags s)) xs"

text \<open>What a snapshot reports for a series since the previous one, and the series with its window rolled.\<close>

definition roll_series :: "'h series \<Rightarrow> (nat \<times> f64) \<times> 'h series" where
  "roll_series s =
     (case s_data s of
        SCounter tot _ \<Rightarrow>
          (let d = tot - snap_counter s in ((f64_to_u64 (f64_max d (Fin 0)), d), s\<lparr>snap_counter := tot\<rparr>))
      | SRate passes tot _ _ \<Rightarrow>
          ((tot - snap_count s, f64_max (f64_of_nat passes - snap_counter s) (Fin 0)),
           s\<lparr>snap_count := tot, snap_counter := f64_of_nat passes\<rparr>)
      | STrend _ _ _ cnt _ _ \<Rightarrow>
          (let d = cnt - snap_count s in ((d, f64_of_nat d), s\<lparr>snap_count := cnt\<rparr>))
      | SGauge _ _ _ _ \<Rightarrow> ((0, Fin 0), s))"

definition snapshot_of :: "'h hdr \<Rightarrow> f64 \<Rightarrow> series_key \<Rightarrow> 'h series \<Rightarrow> nat \<times> f64 \<Rightarrow> series_snapshot" where
  "snapshot_of hdr elapsed key s interval =
     \<lparr>ss_metric = fst key, ss_kind = s_kind s, ss_tags = snd key, ss_agg = agg_values_of hdr elapsed (s_data s),
      ss_interval_count = fst interval, ss_interval_sum = snd interval\<rparr>"

definition build_snapshot :: "'h hdr \<Rightarrow> nat \<Rightarrow> bool \<Rightarrow> 'h aggregator \<Rightarrow> snapshot \<times> 'h aggregator" where
  "build_snapshot hdr now roll_interval a =
     (let elapsed = as_secs_f64 (agg_elapsed now a);
          interval = (if roll_interval then as_secs_f64 (now - ag_last_snapshot a) else Fin 0);
          out = map (\<lambda>(key, s). snapshot_of hdr elapsed key s (if roll_interval then fst (roll_series s) else (0, Fin 0)))
            (ag_series a);
          a' = (if roll_interval
                then a\<lparr>ag_last_snapshot := now, ag_series := map (\<lambda>(key, s). (key, snd (roll_series s))) (ag_series a)\<rparr>
                else a)
      in (\<lparr>sn_timestamp = now, sn_elapsed_secs = elapsed, sn_interval_secs = interval, sn_series = sort_series out\<rparr>, a'))"

fun retained_tags :: "tags \<Rightarrow> string list \<Rightarrow> tags \<Rightarrow> tags option" where
  "retained_tags ts [] retained = Some retained"
| "retained_tags ts (tag # grouping) retained =
     (case tag_get tag ts of
        None \<Rightarrow> None
      | Some v \<Rightarrow> retained_tags ts grouping (tag_insert tag v retained))"

definition rollup_metric :: "string \<Rightarrow> bool" where
  "rollup_metric m \<longleftrightarrow> m \<in> {''request_reqs'', ''request_duration''}"

definition aggregate_snapshot :: "'h hdr \<Rightarrow> nat \<Rightarrow> string list list \<Rightarrow> 'h aggregator \<Rightarrow> snapshot" where
  "aggregate_snapshot hdr now groupings a =
     (let keys = map fst (ag_series a);
          tag_sets = (\<lambda>key. List.map_filter (\<lambda>g. retained_tags (snd key) g []) groupings);
          selectors = sorted_list_of_set (set (concat (map (\<lambda>key.
            if rollup_metric (fst key) then [] else (fst key, []) # map (Pair (fst key)) (tag_sets key)) keys)));
          request_filters = sorted_list_of_set (set ([] # concat (map (\<lambda>key.
            if is_request_counter_metric (fst key) \<or> is_request_duration_metric (fst key) then tag_sets key else []) keys)));
          row = (\<lambda>metric ts r. map_option (\<lambda>(kind, v). \<lparr>ss_metric = metric, ss_kind = kind, ss_tags = ts, ss_agg = v,
            ss_interval_count = 0, ss_interval_sum = Fin 0\<rparr>) r)
      in \<lparr>sn_timestamp = now, sn_elapsed_secs = as_secs_f64 (agg_elapsed now a), sn_interval_secs = Fin 0,
          sn_series = sort_series
            (List.map_filter (\<lambda>(metric, ts). row metric ts (aggregate_selector hdr now metric ts a)) selectors @
             concat (map (\<lambda>ts. List.map_filter id
               [row ''request_reqs'' ts (aggregate_matching hdr now ts is_request_counter_metric a),
                row ''request_duration'' ts (aggregate_matching hdr now ts is_request_duration_metric a)]) request_filters))\<rparr>)"

definition interval_count :: "string \<Rightarrow> snapshot \<Rightarrow> nat" where
  "interval_count metric sn = sum_list (map ss_interval_count (filter (\<lambda>s. ss_metric s = metric) (sn_series sn)))"

definition interval_request_count :: "snapshot \<Rightarrow> nat" where
  "interval_request_count sn =
     sum_list (map ss_interval_count (filter (\<lambda>s. is_request_counter_metric (ss_metric s)) (sn_series sn)))"

section \<open>Deltas\<close>

datatype delta_data =
    DCounter f64
  | DGauge f64 f64 f64
  | DRate nat nat
  | DTrend string f64 nat f64 f64

record series_delta =
  sd_metric :: string
  sd_kind :: metric_kind
  sd_tags :: tags
  sd_data :: delta_data

type_synonym metrics_delta = "series_delta list"

text \<open>What \<open>take_delta\<close> drains from one series; a histogram that fails to encode is kept.\<close>

fun take_data :: "'h hdr \<Rightarrow> 'h series_data \<Rightarrow> delta_data option \<times> 'h series_data" where
  "take_data hdr (SCounter tot flushed) =
     (let delta = tot - flushed
      in if f64_eq delta (Fin 0) then (None, SCounter tot flushed) else (Some (DCounter delta), SCounter tot tot))"
| "take_data hdr (SGauge lst mn mx seq) = (Some (DGauge lst mn mx), SGauge lst mn mx seq)"
| "take_data hdr (SRate passes tot fp ft) =
     (let dp = passes - fp; dt = tot - ft
      in if dt = 0 then (None, SRate passes tot fp ft) else (Some (DRate dp dt), SRate passes tot passes tot))"
| "take_data hdr (STrend hist delta_hist sm cnt mn mx) =
     (if h_len hdr delta_hist = 0 then (None, STrend hist delta_hist sm cnt mn mx)
      else case h_encode hdr delta_hist of
             None \<Rightarrow> (None, STrend hist delta_hist sm cnt mn mx)
           | Some buf \<Rightarrow> (Some (DTrend buf sm (h_len hdr delta_hist) mn mx), STrend hist (h_new hdr) sm cnt mn mx))"

definition take_delta :: "'h hdr \<Rightarrow> 'h aggregator \<Rightarrow> metrics_delta \<times> 'h aggregator" where
  "take_delta hdr a =
     (List.map_filter (\<lambda>((metric, ts), s).
        map_option (\<lambda>d. \<lparr>sd_metric = metric, sd_kind = s_kind s, sd_tags = ts, sd_data = d\<rparr>) (fst (take_data hdr (s_data s))))
        (ag_series a),
      a\<lparr>ag_series := map (\<lambda>(key, s). (key, s\<lparr>s_data := snd (take_data hdr (s_data s))\<rparr>)) (ag_series a)\<rparr>)"

fun restore_data :: "'h hdr \<Rightarrow> delta_data \<Rightarrow> 'h series_data \<Rightarrow> 'h series_data" where
  "restore_data hdr (DCounter delta) (SCounter tot flushed) = SCounter tot (flushed - delta)"
| "restore_data hdr (DRate p t) (SRate passes tot fp ft) = SRate passes tot (fp - p) (ft - t)"
| "restore_data hdr (DTrend buf _ _ _ _) (STrend hist delta_hist sm cnt mn mx) =
     (case h_decode hdr buf of
        None \<Rightarrow> STrend hist delta_hist sm cnt mn mx
      | Some h \<Rightarrow> STrend hist (h_add hdr delta_hist h) sm cnt mn mx)"
| "restore_data hdr _ d = d"

definition restore_one :: "'h hdr \<Rightarrow> series_delta \<Rightarrow> 'h aggregator \<Rightarrow> 'h aggregator" where
  "restore_one hdr sd a =
     (case map_of (ag_series a) (sd_metric sd, sd_tags sd) of
        None \<Rightarrow> a
      | Some s \<Rightarrow>
          a\<lparr>ag_series := AList.update (sd_metric sd, sd_tags sd) (s\<lparr>s_data := restore_data hdr (sd_data sd) (s_data s)\<rparr>) (ag_series a)\<rparr>)"

definition restore_delta :: "'h hdr \<Rightarrow> metrics_delta \<Rightarrow> 'h aggregator \<Rightarrow> 'h aggregator" where
  "restore_delta hdr delta a = fold (restore_one hdr) delta a"

definition set_gauge :: "f64 \<Rightarrow> nat \<Rightarrow> 'h series \<Rightarrow> 'h series" where
  "set_gauge v seq s =
     (case s_data s of
        SGauge lst mn mx _ \<Rightarrow> s\<lparr>s_data := SGauge v (f64_min mn v) (f64_max mx v) seq\<rparr>
      | _ \<Rightarrow> s)"

definition set_gauge_by_tag :: "string \<Rightarrow> string \<Rightarrow> string \<Rightarrow> f64 \<Rightarrow> 'h aggregator \<Rightarrow> 'h aggregator" where
  "set_gauge_by_tag metric tag value gauge_value a =
     (let seq = ag_seq a + 1
      in a\<lparr>ag_seq := seq,
           ag_series := map (\<lambda>((m, ts), s).
             ((m, ts), if m = metric \<and> tag_get tag ts = Some value then set_gauge gauge_value seq s else s)) (ag_series a)\<rparr>)"

fun merge_delta_data :: "'h hdr \<Rightarrow> nat \<Rightarrow> delta_data \<Rightarrow> 'h series_data \<Rightarrow> 'h series_data" where
  "merge_delta_data hdr seq (DCounter delta) (SCounter tot flushed) = SCounter (tot + delta) flushed"
| "merge_delta_data hdr seq (DGauge l m x) (SGauge lst mn mx gseq) = SGauge l (f64_min mn m) (f64_max mx x) seq"
| "merge_delta_data hdr seq (DRate p t) (SRate passes tot fp ft) = SRate (passes + p) (tot + t) fp ft"
| "merge_delta_data hdr seq (DTrend buf _ _ m x) (STrend hist delta_hist sm cnt mn mx) =
     (case h_decode hdr buf of
        None \<Rightarrow> STrend hist delta_hist sm cnt mn mx
      | Some h \<Rightarrow>
          (let added = h_len hdr h; mean = h_mean hdr h / TREND_SCALE
           in STrend (h_add hdr hist h) (h_add hdr delta_hist h) (sm + mean * f64_of_nat added) (cnt + added)
                (f64_min mn m) (f64_max mx x)))"
| "merge_delta_data hdr seq _ d = d"

definition merge_one :: "'h hdr \<Rightarrow> nat \<Rightarrow> series_delta \<Rightarrow> (series_key, 'h series) hashmap \<Rightarrow> (series_key, 'h series) hashmap" where
  "merge_one hdr seq sd m =
     upsert (sd_metric sd, sd_tags sd) (series_new hdr (sd_kind sd))
       (\<lambda>s. s\<lparr>s_data := merge_delta_data hdr seq (sd_data sd) (s_data s)\<rparr>) m"

definition merge_delta :: "'h hdr \<Rightarrow> metrics_delta \<Rightarrow> 'h aggregator \<Rightarrow> 'h aggregator" where
  "merge_delta hdr delta a =
     (let seq = ag_seq a + 1 in a\<lparr>ag_seq := seq, ag_series := fold (merge_one hdr seq) delta (ag_series a)\<rparr>)"

section \<open>Shards\<close>

type_synonym 'h shards = "'h aggregator list"

definition shards_new :: "nat \<Rightarrow> nat \<Rightarrow> 'h shards" where
  "shards_new now n = replicate (max n 1) (agg_new now)"

definition shards_record :: "'h hdr \<Rightarrow> nat \<Rightarrow> sample \<Rightarrow> 'h shards \<Rightarrow> 'h shards" where
  "shards_record hdr idx sm sh = (let i = idx mod length sh in sh[i := agg_record hdr sm (sh ! i)])"

definition shards_record_values ::
  "'h hdr \<Rightarrow> nat \<Rightarrow> (string \<times> metric_kind \<times> f64) list \<Rightarrow> tags \<Rightarrow> 'h shards \<Rightarrow> 'h shards" where
  "shards_record_values hdr idx vals ts sh =
     (let i = idx mod length sh
      in sh[i := fold (\<lambda>(metric, kind, value). record_cached hdr metric kind value ts) vals (sh ! i)])"

fun drain_into :: "'h hdr \<Rightarrow> 'h shards \<Rightarrow> 'h aggregator \<Rightarrow> 'h shards \<times> 'h aggregator" where
  "drain_into hdr [] target = ([], target)"
| "drain_into hdr (shard # sh) target =
     (case take_delta hdr shard of
        (delta, shard') \<Rightarrow>
          (case drain_into hdr sh (merge_delta hdr delta target) of (sh', target') \<Rightarrow> (shard' # sh', target')))"

section \<open>The metrics bus\<close>

text \<open>
  Where a handle of \<open>MetricsBus\<close> sends samples: into the engine's channel, or straight into one shard.
  \<open>bus\<close> is what the handles share: the channel with its receiver, the shards and the counter of
  requests in flight.
\<close>

datatype sink = Tx | ShardSink nat

record 'h bus =
  bus_channel :: "sample list"
  bus_open :: bool
  bus_shards :: "'h shards"
  bus_in_flight :: u64

definition for_vu :: "'h bus \<Rightarrow> sink \<Rightarrow> u64 \<Rightarrow> sink" where
  "for_vu b snk vu_id =
     (case snk of
        Tx \<Rightarrow> Tx
      | ShardSink _ \<Rightarrow> ShardSink (unat vu_id mod length (bus_shards b)))"

definition emit :: "'h hdr \<Rightarrow> sink \<Rightarrow> sample \<Rightarrow> 'h bus \<Rightarrow> 'h bus" where
  "emit hdr snk sm b =
     (case snk of
        Tx \<Rightarrow> if bus_open b then b\<lparr>bus_channel := bus_channel b @ [sm]\<rparr> else b
      | ShardSink idx \<Rightarrow> b\<lparr>bus_shards := shards_record hdr idx sm (bus_shards b)\<rparr>)"

definition emit_value ::
  "'h hdr \<Rightarrow> nat \<Rightarrow> sink \<Rightarrow> string \<Rightarrow> metric_kind \<Rightarrow> f64 \<Rightarrow> tags \<Rightarrow> 'h bus \<Rightarrow> 'h bus" where
  "emit_value hdr now snk metric kind value ts b =
     emit hdr snk
       \<lparr>sm_metric = metric, sm_kind = kind, sm_value = value, sm_tags = ts,
        sm_timestamp = (case snk of Tx \<Rightarrow> now | ShardSink _ \<Rightarrow> 0)\<rparr> b"

definition emit_cached_values ::
  "'h hdr \<Rightarrow> nat \<Rightarrow> sink \<Rightarrow> (string \<times> metric_kind \<times> f64) list \<Rightarrow> tags \<Rightarrow> 'h bus \<Rightarrow> 'h bus" where
  "emit_cached_values hdr now snk vals ts b =
     (case snk of
        Tx \<Rightarrow> fold (\<lambda>(metric, kind, value). emit_value hdr now snk metric kind value ts) vals b
      | ShardSink idx \<Rightarrow> b\<lparr>bus_shards := shards_record_values hdr idx vals ts (bus_shards b)\<rparr>)"

definition begin_request :: "'h bus \<Rightarrow> 'h bus" where
  "begin_request b = b\<lparr>bus_in_flight := bus_in_flight b + 1\<rparr>"

definition end_request :: "'h bus \<Rightarrow> 'h bus" where
  "end_request b = b\<lparr>bus_in_flight := bus_in_flight b - 1\<rparr>"

section \<open>Rollups\<close>

text \<open>
  The one-pass rollup \<open>aggregate_all\<close> gives, for every metric name in sorted order, what
  \<open>aggregate_selector\<close> gives for that metric with no filter.
\<close>

lemma aggregate_all_selectors:
  "aggregate_all hdr now a =
     List.map_filter (\<lambda>m. map_option (\<lambda>(kind, v). (m, kind, v)) (aggregate_selector hdr now m [] a)) (metric_names a)"
proof -
  have "sorted_list_of_set (set (map (fst \<circ> fst) (ag_series a))) = metric_names a"
    unfolding metric_names_def
    by (rule sorted_distinct_set_unique) (simp_all add: distinct_remdups_adj_sorted)
  then show ?thesis by (simp add: aggregate_all_def aggregate_selector_def tags_match_def case_prod_unfold)
qed

section \<open>Interval windows\<close>

fun count_of :: "'h series_data \<Rightarrow> nat" where
  "count_of (SRate _ t _ _) = t"
| "count_of (STrend _ _ _ c _ _) = c"
| "count_of _ = 0"

definition series_count :: "'h series \<Rightarrow> nat" where
  "series_count s = count_of (s_data s)"

definition metric_sum :: "string \<Rightarrow> ('h series \<Rightarrow> nat) \<Rightarrow> (series_key, 'h series) hashmap \<Rightarrow> nat" where
  "metric_sum m f xs = sum_list (map (\<lambda>(k, s). if fst k = m then f s else 0) xs)"

fun counted :: "'h series_data \<Rightarrow> bool" where
  "counted (SRate _ _ _ _) = True"
| "counted (STrend _ _ _ _ _ _) = True"
| "counted _ = False"

definition windows_inv :: "string \<Rightarrow> 'h aggregator \<Rightarrow> bool" where
  "windows_inv m a \<longleftrightarrow>
     wf_map (ag_series a) \<and>
     (\<forall>(k, s) \<in> set (ag_series a). fst k = m \<longrightarrow> counted (s_data s) \<and> snap_count s \<le> count_of (s_data s))"

lemma metric_sum_update:
  "wf_map xs \<Longrightarrow>
   metric_sum m f (AList.update k v xs) + (case map_of xs k of None \<Rightarrow> 0 | Some w \<Rightarrow> if fst k = m then f w else 0) =
   metric_sum m f xs + (if fst k = m then f v else 0)"
proof (induction xs)
  case (Cons e xs)
  moreover have "map_of xs k = None" if "wf_map (e # xs)" "fst e = k"
    using that by (auto simp: wf_map_def map_of_eq_None_iff)
  ultimately show ?case
    by (cases e) (auto simp: metric_sum_def wf_map_def split: option.splits)
qed (simp add: metric_sum_def)

lemma windows_record:
  assumes "windows_inv m a" "sm_metric sm = m \<longrightarrow> sm_kind sm \<in> {Rate, Trend}"
  shows "windows_inv m (agg_record hdr sm a)"
    "metric_sum m series_count (ag_series (agg_record hdr sm a)) =
       metric_sum m series_count (ag_series a) + (if sm_metric sm = m then 1 else 0)"
    "metric_sum m snap_count (ag_series (agg_record hdr sm a)) = metric_sum m snap_count (ag_series a)"
proof -
  let ?key = "(sm_metric sm, sm_tags sm)" and ?xs = "ag_series a"
  define s where "s = (case map_of ?xs ?key of None \<Rightarrow> series_new hdr (sm_kind sm) | Some v \<Rightarrow> v)"
  define v where "v = series_record hdr (sm_value sm) (ag_seq a + 1) s"
  have wf: "wf_map ?xs" using assms(1) by (simp add: windows_inv_def)
  have r: "ag_series (agg_record hdr sm a) = AList.update ?key v ?xs"
    by (simp add: agg_record_def record_cached_def upsert_def Let_def v_def s_def)
  have s: "counted (s_data s) \<and> snap_count s \<le> count_of (s_data s)" if "sm_metric sm = m"
  proof (cases "map_of ?xs ?key")
    case None
    then show ?thesis using assms(2) that by (auto simp: s_def series_new_def)
  next
    case (Some w)
    then show ?thesis using assms(1) that map_of_SomeD [OF Some] by (auto simp: s_def windows_inv_def)
  qed
  have v: "counted (s_data v) = counted (s_data s)" "snap_count v = snap_count s"
    "counted (s_data s) \<Longrightarrow> count_of (s_data v) = count_of (s_data s) + 1"
    by (cases "s_data s"; simp add: v_def series_record_def Let_def)+
  have z: "count_of (s_data (series_new hdr knd)) = 0" "snap_count (series_new hdr knd) = 0" for knd
    by (cases knd; simp add: series_new_def)+
  show "windows_inv m (agg_record hdr sm a)"
    using assms(1) wf s v set_update_mem [of _ _ ?key v ?xs] unfolding windows_inv_def r by fastforce
  show "metric_sum m series_count (ag_series (agg_record hdr sm a)) =
       metric_sum m series_count (ag_series a) + (if sm_metric sm = m then 1 else 0)"
    using metric_sum_update [OF wf, of m series_count ?key v] s v z [of "sm_kind sm"]
    unfolding r by (auto simp: s_def series_count_def split: option.splits if_splits)
  show "metric_sum m snap_count (ag_series (agg_record hdr sm a)) = metric_sum m snap_count (ag_series a)"
    using metric_sum_update [OF wf, of m snap_count ?key v] s v z [of "sm_kind sm"]
    unfolding r by (auto simp: s_def series_count_def split: option.splits if_splits)
qed

lemma windows_snapshot:
  assumes "windows_inv m a" "build_snapshot hdr now True a = (sn, a')"
  shows "windows_inv m a'" "interval_count m sn + metric_sum m snap_count (ag_series a) = metric_sum m series_count (ag_series a)"
    "metric_sum m snap_count (ag_series a') = metric_sum m series_count (ag_series a)"
    "metric_sum m series_count (ag_series a') = metric_sum m series_count (ag_series a)"
proof -
  let ?xs = "ag_series a" and ?el = "as_secs_f64 (agg_elapsed now a)"
  have a': "ag_series a' = map (\<lambda>(key, s). (key, snd (roll_series s))) ?xs" using assms(2) by (auto simp: build_snapshot_def Let_def)
  have sn: "sn_series sn = sort_series (map (\<lambda>(key, s). snapshot_of hdr ?el key s (fst (roll_series s))) ?xs)"
    using assms(2) by (auto simp: build_snapshot_def Let_def)
  have each: "counted (s_data s) \<and> snap_count s \<le> count_of (s_data s)" if "(k, s) \<in> set ?xs" "fst k = m" for k s
    using assms(1) that by (auto simp: windows_inv_def)
  have roll: "s_data (snd (roll_series s)) = s_data s" "counted (s_data s) \<Longrightarrow> snap_count (snd (roll_series s)) = count_of (s_data s)"
    "counted (s_data s) \<Longrightarrow> fst (fst (roll_series s)) = count_of (s_data s) - snap_count s" for s :: "'a series"
    by (cases "s_data s"; simp add: roll_series_def Let_def)+
  show "windows_inv m a'"
    using assms(1) roll unfolding windows_inv_def a' by (auto simp: wf_map_map_snd)
  show "metric_sum m series_count (ag_series a') = metric_sum m series_count ?xs"
    unfolding metric_sum_def a' by (auto simp: case_prod_unfold roll series_count_def intro!: arg_cong [of _ _ sum_list])
  show "metric_sum m snap_count (ag_series a') = metric_sum m series_count ?xs"
    unfolding metric_sum_def a' using each roll(2) by (auto simp: series_count_def case_prod_unfold intro!: arg_cong [of _ _ sum_list])
  have perm: "sum_list (map ss_interval_count (filter P (sort_series ys))) = sum_list (map ss_interval_count (filter P ys))" for P ys
    unfolding sort_series_def by (simp flip: sum_mset_sum_list)
  have "sum_list (map ss_interval_count (filter (\<lambda>s. ss_metric s = m)
      (map (\<lambda>(key, s). snapshot_of hdr ?el key s (fst (roll_series s))) xs))) + metric_sum m snap_count xs = metric_sum m series_count xs"
    if "\<And>k s. (k, s) \<in> set xs \<Longrightarrow> fst k = m \<Longrightarrow> counted (s_data s) \<and> snap_count s \<le> count_of (s_data s)" for xs
    using that
  proof (induction xs)
    case (Cons e xs)
    obtain k s where e: "e = (k, s)" by (cases e)
    have IH: "sum_list (map ss_interval_count (filter (\<lambda>s. ss_metric s = m)
      (map (\<lambda>(key, s). snapshot_of hdr ?el key s (fst (roll_series s))) xs))) + metric_sum m snap_count xs = metric_sum m series_count xs"
      by (rule Cons.IH) (use Cons.prems in auto)
    show ?case using IH Cons.prems [of k s] roll(3) [of s] by (auto simp: e metric_sum_def snapshot_of_def series_count_def [of s])
  qed (simp add: metric_sum_def)
  from this [OF each] show "interval_count m sn + metric_sum m snap_count ?xs = metric_sum m series_count ?xs"
    unfolding interval_count_def sn perm .
qed

text \<open>A round of the engine's ticker: samples are recorded, then a snapshot is taken.\<close>

fun ticks :: "'h hdr \<Rightarrow> string \<Rightarrow> (sample list \<times> nat) list \<Rightarrow> 'h aggregator \<Rightarrow> nat list \<times> 'h aggregator" where
  "ticks hdr m [] a = ([], a)"
| "ticks hdr m ((sms, now) # rounds) a =
     (case build_snapshot hdr now True (fold (agg_record hdr) sms a) of
        (sn, a') \<Rightarrow> (case ticks hdr m rounds a' of (counts, a'') \<Rightarrow> (interval_count m sn # counts, a'')))"

lemma windows_record_all:
  "windows_inv m a \<Longrightarrow> \<forall>sm \<in> set sms. sm_metric sm = m \<longrightarrow> sm_kind sm \<in> {Rate, Trend} \<Longrightarrow>
   windows_inv m (fold (agg_record hdr) sms a) \<and>
   metric_sum m series_count (ag_series (fold (agg_record hdr) sms a)) =
     metric_sum m series_count (ag_series a) + length (filter (\<lambda>sm. sm_metric sm = m) sms) \<and>
   metric_sum m snap_count (ag_series (fold (agg_record hdr) sms a)) = metric_sum m snap_count (ag_series a)"
proof (induction sms arbitrary: a)
  case (Cons sm sms)
  have "sm_metric sm = m \<longrightarrow> sm_kind sm \<in> {Rate, Trend}" using Cons.prems(2) by simp
  note r = windows_record [OF Cons.prems(1) this, of hdr]
  show ?case using Cons.IH [OF r(1)] Cons.prems(2) r(2,3) by auto
qed simp

lemma ticks_books:
  "windows_inv m a \<Longrightarrow> \<forall>(sms, now) \<in> set rounds. \<forall>sm \<in> set sms. sm_metric sm = m \<longrightarrow> sm_kind sm \<in> {Rate, Trend} \<Longrightarrow>
   ticks hdr m rounds a = (counts, a') \<Longrightarrow>
   sum_list counts + metric_sum m snap_count (ag_series a) = metric_sum m snap_count (ag_series a') \<and>
   (rounds \<noteq> [] \<longrightarrow> metric_sum m snap_count (ag_series a') = metric_sum m series_count (ag_series a')) \<and>
   metric_sum m series_count (ag_series a') =
     metric_sum m series_count (ag_series a) + length (filter (\<lambda>sm. sm_metric sm = m) (concat (map fst rounds)))"
proof (induction rounds arbitrary: a counts)
  case (Cons r rounds)
  obtain sms now where r: "r = (sms, now)" by (cases r)
  define b where "b = fold (agg_record hdr) sms a"
  obtain sn c where sn: "build_snapshot hdr now True b = (sn, c)" by (metis surj_pair)
  obtain cs where cs: "ticks hdr m rounds c = (cs, a')" "counts = interval_count m sn # cs"
    using Cons.prems(3) by (auto simp: r b_def [symmetric] sn split: prod.splits)
  have rec: "windows_inv m b"
    "metric_sum m series_count (ag_series b) =
       metric_sum m series_count (ag_series a) + length (filter (\<lambda>sm. sm_metric sm = m) sms)"
    "metric_sum m snap_count (ag_series b) = metric_sum m snap_count (ag_series a)"
    using windows_record_all [OF Cons.prems(1), of sms hdr] Cons.prems(2) by (simp_all add: r b_def)
  note w = windows_snapshot [OF rec(1) sn]
  have "\<forall>(sms, now) \<in> set rounds. \<forall>sm \<in> set sms. sm_metric sm = m \<longrightarrow> sm_kind sm \<in> {Rate, Trend}" using Cons.prems(2) by simp
  note IH = Cons.IH [OF w(1) this cs(1)]
  show ?case
  proof (cases "rounds = []")
    case True
    then show ?thesis using cs w rec by (simp add: r)
  next
    case False
    then show ?thesis using IH cs(2) w(2-4) rec(2,3) by (simp add: r)
  qed
qed simp

text \<open>
  The live interval windows partition the samples. Over any rounds of recording and snapshots,
  the interval counts the snapshots report for a rate or trend metric, over all its tag sets, add up
  to the number of its samples: each sample is shown in exactly one interval.
\<close>

theorem intervals_partition_samples:
  assumes "rounds \<noteq> []" "\<forall>(sms, now) \<in> set rounds. \<forall>sm \<in> set sms. sm_metric sm = m \<longrightarrow> sm_kind sm \<in> {Rate, Trend}"
  shows "sum_list (fst (ticks hdr m rounds (agg_new start))) = length (filter (\<lambda>sm. sm_metric sm = m) (concat (map fst rounds)))"
proof -
  obtain counts a' where t: "ticks hdr m rounds (agg_new start) = (counts, a')" by (metis surj_pair)
  have "windows_inv m (agg_new start)" by (simp add: windows_inv_def agg_new_def)
  note books = ticks_books [OF this assms(2) t]
  have "metric_sum m f (ag_series (agg_new start)) = 0" for f :: "'a series \<Rightarrow> nat" by (simp add: metric_sum_def agg_new_def)
  then show ?thesis using books assms(1) by (simp add: t)
qed

text \<open>A histogram that only counts its values.\<close>

definition unit_hdr :: "nat hdr" where
  "unit_hdr = \<lparr>h_new = 0, h_record = (\<lambda>_ h. h + 1), h_add = (+), h_len = id, h_mean = (\<lambda>_. Fin 0),
     h_quantile = (\<lambda>_ _. 0), h_encode = (\<lambda>h. Some (replicate h CHR ''.'')), h_decode = (\<lambda>s. Some (length s))\<rparr>"

theorem intervals_partition_samples_witness:
  "sum_list (fst (ticks unit_hdr ''checks''
     [([\<lparr>sm_metric = ''checks'', sm_kind = Rate, sm_value = Fin 1, sm_tags = [], sm_timestamp = 0\<rparr>], 1),
      ([\<lparr>sm_metric = ''checks'', sm_kind = Rate, sm_value = Fin 0, sm_tags = [], sm_timestamp = 0\<rparr>,
        \<lparr>sm_metric = ''iterations'', sm_kind = Counter, sm_value = Fin 1, sm_tags = [], sm_timestamp = 0\<rparr>], 2)] (agg_new 0))) = 2"
  by (subst intervals_partition_samples) simp_all

end
