(* ===== verification/Federation.thy ===== *)
theory Federation
  imports Aggregate
begin

text \<open>
  What the deltas of \<open>aggregate.rs\<close> preserve. The contents of a series is read as a multiset of
  \<^emph>\<open>marks\<close>: one per counted unit, per pass and per trial of a rate, per recorded bucket of a trend.
  Recording adds marks, \<open>take_delta\<close> moves the unflushed ones into the delta, \<open>restore_delta\<close> moves
  them back and \<open>merge_delta\<close> adds them to the target, so sources, deltas in flight and target
  account for every sample exactly once, in whatever order the operations run.
\<close>

section \<open>Marks\<close>

datatype mark = MUnit | MPass | MTotal | MBucket nat

fun cumulative :: "('h \<Rightarrow> nat multiset) \<Rightarrow> 'h series_data \<Rightarrow> mark multiset" where
  "cumulative contents (SCounter tot fl) = replicate_mset (f64_to_u64 tot) MUnit"
| "cumulative contents (SGauge _ _ _ _) = {#}"
| "cumulative contents (SRate p t _ _) = replicate_mset p MPass + replicate_mset t MTotal"
| "cumulative contents (STrend h _ _ _ _ _) = image_mset MBucket (contents h)"

fun unflushed :: "('h \<Rightarrow> nat multiset) \<Rightarrow> 'h series_data \<Rightarrow> mark multiset" where
  "unflushed contents (SCounter tot fl) = replicate_mset (f64_to_u64 tot - f64_to_u64 fl) MUnit"
| "unflushed contents (SGauge _ _ _ _) = {#}"
| "unflushed contents (SRate p t fp ft) = replicate_mset (p - fp) MPass + replicate_mset (t - ft) MTotal"
| "unflushed contents (STrend _ d _ _ _ _) = image_mset MBucket (contents d)"

fun carried :: "'h hdr \<Rightarrow> ('h \<Rightarrow> nat multiset) \<Rightarrow> delta_data \<Rightarrow> mark multiset" where
  "carried hdr contents (DCounter d) = replicate_mset (f64_to_u64 d) MUnit"
| "carried hdr contents (DGauge _ _ _) = {#}"
| "carried hdr contents (DRate p t) = replicate_mset p MPass + replicate_mset t MTotal"
| "carried hdr contents (DTrend buf _ _ _ _) =
     (case h_decode hdr buf of None \<Rightarrow> {#} | Some h \<Rightarrow> image_mset MBucket (contents h))"

definition sample_marks :: "(nat \<Rightarrow> nat) \<Rightarrow> sample \<Rightarrow> mark multiset" where
  "sample_marks bucket sm =
     (case sm_kind sm of
        Counter \<Rightarrow> replicate_mset (f64_to_u64 (sm_value sm)) MUnit
      | Gauge \<Rightarrow> {#}
      | Rate \<Rightarrow> {#MTotal#} + (if f64_eq (sm_value sm) (Fin 0) then {#} else {#MPass#})
      | Trend \<Rightarrow> {#MBucket (bucket (trend_scaled (sm_value sm)))#})"

lemma replicate_mset_add: "replicate_mset (m + n) x = replicate_mset m x + replicate_mset n x"
  by (induction m) simp_all

lemma replicate_mset_mono: "m \<le> n \<Longrightarrow> replicate_mset m x \<subseteq># replicate_mset n x"
  by (simp add: subseteq_mset_def)

lemma image_bucket_id: "image_mset (\<lambda>m. case m of MBucket b \<Rightarrow> b | _ \<Rightarrow> 0) (image_mset MBucket A) = A"
  by (simp add: multiset.map_comp comp_def)

lemma bucket_sub: "image_mset MBucket A \<subseteq># image_mset MBucket B \<longleftrightarrow> A \<subseteq># B"
  by (metis image_bucket_id image_mset_subseteq_mono)

lemma bucket_eq: "image_mset MBucket A = image_mset MBucket B \<longleftrightarrow> A = B"
  by (metis image_bucket_id)

section \<open>Whole counters\<close>

text \<open>A counter that only counts whole units stays exact up to $2^{53}$.\<close>

definition whole :: "f64 \<Rightarrow> bool" where
  "whole x \<longleftrightarrow> (\<exists>n \<le> 2 ^ 53. x = Fin (of_nat n))"

lemma f64_to_u64_nat [simp]: "n \<le> 2 ^ 53 \<Longrightarrow> f64_to_u64 (Fin (of_nat n)) = n"
  by (simp add: f64_to_u64_def)

lemma whole_add: "m + n \<le> 2 ^ 53 \<Longrightarrow> Fin (of_nat m) + Fin (of_nat n) = Fin (of_nat (m + n))"
  using rep_nat [of "m + n"] by (simp add: rep_def)

lemma whole_sub: "m \<le> n \<Longrightarrow> n \<le> 2 ^ 53 \<Longrightarrow> Fin (of_nat n) - Fin (of_nat m) = Fin (of_nat (n - m))"
  using rep_nat [of "n - m"] by (simp add: rep_def of_nat_diff)

lemma wholeE:
  assumes "whole x" obtains n where "n \<le> 2 ^ 53" "x = Fin (of_nat n)" "f64_to_u64 x = n"
  using assms by (auto simp: whole_def)

lemma wholeI: "n \<le> 2 ^ 53 \<Longrightarrow> whole (Fin (of_nat n))"
  by (auto simp: whole_def)

section \<open>Well-formed series and deltas\<close>

fun data_ok :: "('h \<Rightarrow> nat multiset) \<Rightarrow> metric_kind \<Rightarrow> 'h series_data \<Rightarrow> bool" where
  "data_ok contents kind (SCounter tot fl) \<longleftrightarrow> kind = Counter \<and> whole tot \<and> whole fl \<and> f64_to_u64 fl \<le> f64_to_u64 tot"
| "data_ok contents kind (SGauge _ _ _ _) \<longleftrightarrow> kind = Gauge"
| "data_ok contents kind (SRate p t fp ft) \<longleftrightarrow> kind = Rate \<and> fp \<le> p \<and> ft \<le> t \<and> p \<le> t \<and> p - fp \<le> t - ft"
| "data_ok contents kind (STrend h d _ cnt _ _) \<longleftrightarrow> kind = Trend \<and> cnt = size (contents h) \<and> contents d \<subseteq># contents h"

lemma counter_okE:
  assumes "data_ok contents kind (SCounter tot fl)"
  obtains m f where "m \<le> 2 ^ 53" "f \<le> m" "tot = Fin (of_nat m)" "fl = Fin (of_nat f)"
    "f64_to_u64 tot = m" "f64_to_u64 fl = f" "whole tot" "whole fl" "kind = Counter"
proof -
  have a: "kind = Counter" "whole tot" "whole fl" "f64_to_u64 fl \<le> f64_to_u64 tot" using assms by simp_all
  obtain m where m: "m \<le> 2 ^ 53" "tot = Fin (of_nat m)" "f64_to_u64 tot = m" using a(2) by (rule wholeE)
  obtain f where f: "f \<le> 2 ^ 53" "fl = Fin (of_nat f)" "f64_to_u64 fl = f" using a(3) by (rule wholeE)
  show thesis using a(4) m f by (intro that [of m f] a) simp_all
qed

fun delta_ok :: "metric_kind \<Rightarrow> delta_data \<Rightarrow> bool" where
  "delta_ok kind (DCounter d) \<longleftrightarrow> kind = Counter \<and> whole d"
| "delta_ok kind (DGauge _ _ _) \<longleftrightarrow> kind = Gauge"
| "delta_ok kind (DRate p t) \<longleftrightarrow> kind = Rate \<and> p \<le> t"
| "delta_ok kind (DTrend _ _ _ _ _) \<longleftrightarrow> kind = Trend"

definition agg_ok :: "('h \<Rightarrow> nat multiset) \<Rightarrow> (string \<Rightarrow> metric_kind) \<Rightarrow> 'h aggregator \<Rightarrow> bool" where
  "agg_ok contents kinds a \<longleftrightarrow>
     wf_map (ag_series a) \<and>
     (\<forall>k s. map_of (ag_series a) k = Some s \<longrightarrow>
        s_kind s = kinds (fst k) \<and> data_ok contents (kinds (fst k)) (s_data s))"

definition deltas_ok :: "(string \<Rightarrow> metric_kind) \<Rightarrow> metrics_delta \<Rightarrow> bool" where
  "deltas_ok kinds ds \<longleftrightarrow> (\<forall>sd \<in> set ds. sd_kind sd = kinds (sd_metric sd) \<and> delta_ok (kinds (sd_metric sd)) (sd_data sd))"

lemma agg_okD: "agg_ok contents kinds a \<Longrightarrow> map_of (ag_series a) k = Some s \<Longrightarrow> data_ok contents (kinds (fst k)) (s_data s)"
  unfolding agg_ok_def by blast

lemma agg_ok_new [simp]: "agg_ok contents kinds (agg_new now)"
  by (simp add: agg_ok_def agg_new_def)

definition cum :: "('h \<Rightarrow> nat multiset) \<Rightarrow> 'h aggregator \<Rightarrow> series_key \<Rightarrow> mark multiset" where
  "cum contents a k = (case map_of (ag_series a) k of None \<Rightarrow> {#} | Some s \<Rightarrow> cumulative contents (s_data s))"

definition unf :: "('h \<Rightarrow> nat multiset) \<Rightarrow> 'h aggregator \<Rightarrow> series_key \<Rightarrow> mark multiset" where
  "unf contents a k = (case map_of (ag_series a) k of None \<Rightarrow> {#} | Some s \<Rightarrow> unflushed contents (s_data s))"

definition sd_key :: "series_delta \<Rightarrow> series_key" where
  "sd_key sd = (sd_metric sd, sd_tags sd)"

definition car :: "'h hdr \<Rightarrow> ('h \<Rightarrow> nat multiset) \<Rightarrow> metrics_delta \<Rightarrow> series_key \<Rightarrow> mark multiset" where
  "car hdr contents ds k = sum_list (map (\<lambda>sd. if sd_key sd = k then carried hdr contents (sd_data sd) else {#}) ds)"

lemma car_simps [simp]:
  "car hdr contents [] k = {#}"
  "car hdr contents (sd # ds) k = (if sd_key sd = k then carried hdr contents (sd_data sd) else {#}) + car hdr contents ds k"
  by (simp_all add: car_def)

lemma cum_unf_new [simp]: "cum contents (agg_new now) k = {#}" "unf contents (agg_new now) k = {#}"
  by (simp_all add: cum_def unf_def agg_new_def)

lemma unflushed_sub: "data_ok contents kind d \<Longrightarrow> unflushed contents d \<subseteq># cumulative contents d"
  by (cases d) (auto simp: mset_subset_eq_mono_add replicate_mset_mono image_mset_subseteq_mono)

section \<open>One series\<close>

lemma data_new_ok:
  assumes "hdr_laws hdr bucket contents quant"
  shows "data_ok contents kind (data_new hdr kind)" "cumulative contents (data_new hdr kind) = {#}"
    "unflushed contents (data_new hdr kind) = {#}"
proof -
  have w: "whole (Fin 0)" "f64_to_u64 (Fin 0) = 0" using wholeI [of 0] f64_to_u64_nat [of 0] by simp_all
  show "data_ok contents kind (data_new hdr kind)" "cumulative contents (data_new hdr kind) = {#}"
    "unflushed contents (data_new hdr kind) = {#}"
    using w hdr_lawsD(1) [OF assms] by (cases kind; simp)+
qed

definition counter_fits :: "mark multiset \<Rightarrow> bool" where
  "counter_fits M \<longleftrightarrow> count M MUnit \<le> 2 ^ 53"

lemma counter_fits_mono: "counter_fits N \<Longrightarrow> M \<subseteq># N \<Longrightarrow> counter_fits M"
  using mset_subset_eq_count [of M N MUnit] by (simp add: counter_fits_def)

lemma data_record_ok:
  assumes "hdr_laws hdr bucket contents quant" "data_ok contents (sm_kind sm) d"
    "sm_kind sm = Counter \<Longrightarrow> whole (sm_value sm)" "counter_fits (cumulative contents d + sample_marks bucket sm)"
  shows "data_ok contents (sm_kind sm) (data_record hdr (sm_value sm) seq d)"
    "cumulative contents (data_record hdr (sm_value sm) seq d) = cumulative contents d + sample_marks bucket sm"
    "unflushed contents (data_record hdr (sm_value sm) seq d) = unflushed contents d + sample_marks bucket sm"
proof -
  have "data_ok contents (sm_kind sm) (data_record hdr (sm_value sm) seq d) \<and>
    cumulative contents (data_record hdr (sm_value sm) seq d) = cumulative contents d + sample_marks bucket sm \<and>
    unflushed contents (data_record hdr (sm_value sm) seq d) = unflushed contents d + sample_marks bucket sm"
  proof (cases d)
    case (SCounter tot fl)
    then obtain m n f where n: "m \<le> 2 ^ 53" "n \<le> 2 ^ 53" "f \<le> m" "tot = Fin (of_nat m)" "fl = Fin (of_nat f)"
      "sm_value sm = Fin (of_nat n)" "f64_to_u64 tot = m" "f64_to_u64 fl = f" "f64_to_u64 (sm_value sm) = n" "sm_kind sm = Counter"
      using assms(2,3) by (auto elim!: wholeE)
    then have "m + n \<le> 2 ^ 53" using assms(4) SCounter by (simp add: counter_fits_def sample_marks_def)
    moreover have "f \<le> 2 ^ 53" using n(1,3) by simp
    moreover have "replicate_mset (m + n - f) MUnit = replicate_mset (m - f) MUnit + replicate_mset n MUnit"
      using n(3) by (simp flip: replicate_mset_add)
    ultimately show ?thesis using n SCounter whole_add [of m n] wholeI [of "m + n"] wholeI [of f]
      by (simp add: sample_marks_def replicate_mset_add del: plus_f64_def of_nat_add)
  next
    case (SRate p t fp ft)
    then show ?thesis using assms(2) by (auto simp: sample_marks_def Suc_diff_le)
  next
    case (STrend h dh sm' cnt mn mx)
    then show ?thesis using assms(2) hdr_lawsD [OF assms(1)] by (auto simp: sample_marks_def Let_def)
  qed (use assms(2) in \<open>auto simp: sample_marks_def\<close>)
  then show "data_ok contents (sm_kind sm) (data_record hdr (sm_value sm) seq d)"
    "cumulative contents (data_record hdr (sm_value sm) seq d) = cumulative contents d + sample_marks bucket sm"
    "unflushed contents (data_record hdr (sm_value sm) seq d) = unflushed contents d + sample_marks bucket sm" by blast+
qed

lemma take_data_ok:
  assumes "hdr_laws hdr bucket contents quant" "data_ok contents kind d" "take_data hdr d = (r, d')"
  shows "data_ok contents kind d'" "cumulative contents d' = cumulative contents d"
    "unflushed contents d' = {#}"
    "(case r of None \<Rightarrow> {#} | Some x \<Rightarrow> carried hdr contents x) = unflushed contents d"
    "\<And>x. r = Some x \<Longrightarrow> delta_ok kind x"
proof -
  have "data_ok contents kind d' \<and> cumulative contents d' = cumulative contents d \<and> unflushed contents d' = {#} \<and>
    (case r of None \<Rightarrow> {#} | Some x \<Rightarrow> carried hdr contents x) = unflushed contents d \<and> (\<forall>x. r = Some x \<longrightarrow> delta_ok kind x)"
  proof (cases d)
    case (SCounter tot fl)
    obtain m f where n: "m \<le> 2 ^ 53" "f \<le> m" "tot = Fin (of_nat m)" "fl = Fin (of_nat f)"
      "f64_to_u64 tot = m" "f64_to_u64 fl = f" "whole tot" "whole fl" "kind = Counter"
      by (rule counter_okE [OF assms(2) [unfolded SCounter]])
    have d: "tot - fl = Fin (of_nat (m - f))" using n whole_sub [of f m] by simp
    have z: "f64_eq (tot - fl) (Fin 0) \<longleftrightarrow> m = f" unfolding d using n(2) by (simp add: f64_eq_def del: of_nat_diff)
    have w: "whole (tot - fl)" "f64_to_u64 (tot - fl) = m - f" unfolding d using n(1) wholeI [of "m - f"] by simp_all
    show ?thesis using assms(3) n z w SCounter by (auto simp: Let_def simp del: minus_f64_def)
  next
    case (SRate p t fp ft)
    then show ?thesis using assms(2,3) by (auto simp: Let_def split: if_splits)
  next
    case (STrend h dh sm' cnt mn mx)
    note laws = hdr_lawsD [OF assms(1)]
    obtain s h' where s: "h_encode hdr dh = Some s" "h_decode hdr s = Some h'" "contents h' = contents dh"
      using laws(6) [of dh] laws(7) [of dh] by (cases "h_encode hdr dh") auto
    show ?thesis using assms(2,3) STrend s laws(1,4) by (auto split: if_splits)
  qed (use assms in auto)
  then show "data_ok contents kind d'" "cumulative contents d' = cumulative contents d"
    "unflushed contents d' = {#}" "(case r of None \<Rightarrow> {#} | Some x \<Rightarrow> carried hdr contents x) = unflushed contents d"
    "\<And>x. r = Some x \<Longrightarrow> delta_ok kind x" by blast+
qed

lemma restore_data_ok:
  assumes "hdr_laws hdr bucket contents quant" "data_ok contents kind d" "delta_ok kind x"
    "unflushed contents d + carried hdr contents x \<subseteq># cumulative contents d"
  shows "data_ok contents kind (restore_data hdr x d)" "cumulative contents (restore_data hdr x d) = cumulative contents d"
    "unflushed contents (restore_data hdr x d) = unflushed contents d + carried hdr contents x"
proof -
  have "data_ok contents kind (restore_data hdr x d) \<and> cumulative contents (restore_data hdr x d) = cumulative contents d \<and>
    unflushed contents (restore_data hdr x d) = unflushed contents d + carried hdr contents x"
  proof (cases d)
    case (SCounter tot fl)
    obtain m f where n: "m \<le> 2 ^ 53" "f \<le> m" "tot = Fin (of_nat m)" "fl = Fin (of_nat f)"
      "f64_to_u64 tot = m" "f64_to_u64 fl = f" "whole tot" "whole fl" "kind = Counter"
      by (rule counter_okE [OF assms(2) [unfolded SCounter]])
    obtain w where x: "x = DCounter w" "whole w" using assms(3) n(9) by (cases x) auto
    then obtain v where v: "w = Fin (of_nat v)" "f64_to_u64 w = v" by (auto elim!: wholeE)
    have "v \<le> f"
      using mset_subset_eq_count [OF assms(4), of MUnit] SCounter n x v by simp
    moreover have "f \<le> 2 ^ 53" using n by simp
    moreover have "replicate_mset (m - (f - v)) MUnit = replicate_mset (m - f) MUnit + replicate_mset v MUnit"
      using n(2) \<open>v \<le> f\<close> by (simp flip: replicate_mset_add)
    ultimately show ?thesis using n x v SCounter whole_sub [of v f] wholeI [of "f - v"]
      by (simp del: minus_f64_def of_nat_diff)
  next
    case (SRate p t fp ft)
    then obtain dp dt where x: "x = DRate dp dt" "dp \<le> dt" using assms(2,3) by (cases x) auto
    have "dp \<le> fp" "dt \<le> ft"
      using mset_subset_eq_count [OF assms(4), of MPass] mset_subset_eq_count [OF assms(4), of MTotal] SRate x assms(2)
      by simp_all
    moreover from this have "replicate_mset (p - (fp - dp)) MPass = replicate_mset (p - fp) MPass + replicate_mset dp MPass"
      "replicate_mset (t - (ft - dt)) MTotal = replicate_mset (t - ft) MTotal + replicate_mset dt MTotal"
      using assms(2) SRate by (simp_all flip: replicate_mset_add)
    ultimately show ?thesis using assms(2) SRate x by auto
  next
    case (STrend h dh sm' cnt mn mx)
    then obtain buf a b e g where x: "x = DTrend buf a b e g" using assms(2,3) by (cases x) auto
    show ?thesis using assms(2,4) STrend x hdr_lawsD(3) [OF assms(1)]
      by (auto split: option.splits simp: bucket_sub simp flip: image_mset_union)
  qed (use assms in \<open>cases x; auto\<close>)
  then show "data_ok contents kind (restore_data hdr x d)" "cumulative contents (restore_data hdr x d) = cumulative contents d"
    "unflushed contents (restore_data hdr x d) = unflushed contents d + carried hdr contents x" by blast+
qed

lemma merge_delta_data_ok:
  assumes "hdr_laws hdr bucket contents quant" "data_ok contents kind d" "delta_ok kind x"
    "counter_fits (cumulative contents d + carried hdr contents x)"
  shows "data_ok contents kind (merge_delta_data hdr seq x d)"
    "cumulative contents (merge_delta_data hdr seq x d) = cumulative contents d + carried hdr contents x"
proof -
  have "data_ok contents kind (merge_delta_data hdr seq x d) \<and>
    cumulative contents (merge_delta_data hdr seq x d) = cumulative contents d + carried hdr contents x"
  proof (cases d)
    case (SCounter tot fl)
    obtain m f where n: "m \<le> 2 ^ 53" "f \<le> m" "tot = Fin (of_nat m)" "fl = Fin (of_nat f)"
      "f64_to_u64 tot = m" "f64_to_u64 fl = f" "whole tot" "whole fl" "kind = Counter"
      by (rule counter_okE [OF assms(2) [unfolded SCounter]])
    obtain w where x: "x = DCounter w" "whole w" using assms(3) n(9) by (cases x) auto
    then obtain v where v: "w = Fin (of_nat v)" "f64_to_u64 w = v" by (auto elim!: wholeE)
    have "m + v \<le> 2 ^ 53" using assms(4) SCounter n x v by (simp add: counter_fits_def)
    then show ?thesis using n x v SCounter whole_add [of m v] wholeI [of "m + v"]
      by (simp add: replicate_mset_add del: plus_f64_def of_nat_add)
  next
    case (SRate p t fp ft)
    then obtain dp dt where "x = DRate dp dt" "dp \<le> dt" using assms(2,3) by (cases x) auto
    then show ?thesis using assms(2) SRate by (auto simp: replicate_mset_add)
  next
    case (STrend h dh sm' cnt mn mx)
    then obtain buf a b e g where x: "x = DTrend buf a b e g" using assms(2,3) by (cases x) auto
    show ?thesis using assms(2) STrend x hdr_lawsD(3,4) [OF assms(1)]
      by (auto split: option.splits simp: Let_def intro: subset_mset.add_mono)
  qed (use assms in \<open>cases x; auto\<close>)
  then show "data_ok contents kind (merge_delta_data hdr seq x d)"
    "cumulative contents (merge_delta_data hdr seq x d) = cumulative contents d + carried hdr contents x" by blast+
qed

section \<open>One aggregator\<close>

lemma map_of_upsert [simp]:
  "map_of (upsert k dflt f m) k' =
     (if k' = k then Some (f (case map_of m k of None \<Rightarrow> dflt | Some v \<Rightarrow> v)) else map_of m k')"
  by (simp add: upsert_def)

lemma wf_map_upsert [simp]: "wf_map m \<Longrightarrow> wf_map (upsert k dflt f m)"
  by (simp add: upsert_def)

definition sample_at :: "(nat \<Rightarrow> nat) \<Rightarrow> sample \<Rightarrow> series_key \<Rightarrow> mark multiset" where
  "sample_at bucket sm k = (if (sm_metric sm, sm_tags sm) = k then sample_marks bucket sm else {#})"

definition sample_ok :: "(string \<Rightarrow> metric_kind) \<Rightarrow> sample \<Rightarrow> bool" where
  "sample_ok kinds sm \<longleftrightarrow> sm_kind sm = kinds (sm_metric sm) \<and> (sm_kind sm = Counter \<longrightarrow> whole (sm_value sm))"

lemma agg_record_ok:
  assumes laws: "hdr_laws hdr bucket contents quant" and ok: "agg_ok contents kinds a" and sm: "sample_ok kinds sm"
    and fits: "\<And>k. counter_fits (cum contents a k + sample_at bucket sm k)"
  shows "agg_ok contents kinds (agg_record hdr sm a)"
    "cum contents (agg_record hdr sm a) k = cum contents a k + sample_at bucket sm k"
    "unf contents (agg_record hdr sm a) k = unf contents a k + sample_at bucket sm k"
proof -
  let ?key = "(sm_metric sm, sm_tags sm)"
  define s where "s = (case map_of (ag_series a) ?key of None \<Rightarrow> series_new hdr (sm_kind sm) | Some v \<Rightarrow> v)"
  have s: "data_ok contents (sm_kind sm) (s_data s)" "cumulative contents (s_data s) = cum contents a ?key"
    "unflushed contents (s_data s) = unf contents a ?key" "s_kind s = sm_kind sm"
    using ok sm data_new_ok [OF laws, of "sm_kind sm"]
    by (auto simp: s_def series_new_def cum_def unf_def agg_ok_def sample_ok_def split: option.split)
  note r = data_record_ok [OF laws s(1), of "ag_seq a + 1"]
  have f: "counter_fits (cumulative contents (s_data s) + sample_marks bucket sm)"
    using fits [of ?key] by (simp add: s sample_at_def)
  have w: "sm_kind sm = Counter \<Longrightarrow> whole (sm_value sm)" using sm by (simp add: sample_ok_def)
  have m: "map_of (ag_series (agg_record hdr sm a)) =
    (map_of (ag_series a))(?key \<mapsto> s\<lparr>s_data := data_record hdr (sm_value sm) (ag_seq a + 1) (s_data s)\<rparr>)"
    by (rule ext) (simp add: agg_record_def record_cached_def Let_def s_def series_record_def)
  show "agg_ok contents kinds (agg_record hdr sm a)"
    using ok sm r(1) [OF w f] s(4) unfolding agg_ok_def m
    by (auto simp: agg_record_def record_cached_def Let_def sample_ok_def)
  show "cum contents (agg_record hdr sm a) k = cum contents a k + sample_at bucket sm k"
    using r(2) [OF w f] s(2) unfolding cum_def m by (simp add: sample_at_def)
  show "unf contents (agg_record hdr sm a) k = unf contents a k + sample_at bucket sm k"
    using r(3) [OF w f] s(3) unfolding unf_def m by (simp add: sample_at_def)
qed

definition taken :: "'h hdr \<Rightarrow> (series_key, 'h series) hashmap \<Rightarrow> metrics_delta" where
  "taken hdr m = List.map_filter (\<lambda>((metric, ts), s).
     map_option (\<lambda>d. \<lparr>sd_metric = metric, sd_kind = s_kind s, sd_tags = ts, sd_data = d\<rparr>) (fst (take_data hdr (s_data s)))) m"

lemma car_taken_absent: "k \<notin> fst ` set m \<Longrightarrow> car hdr contents (taken hdr m) k = {#}"
  by (induction m) (auto simp: taken_def List.map_filter_simps sd_key_def split: option.split prod.split)

lemma car_taken:
  assumes "hdr_laws hdr bucket contents quant"
  shows "distinct (map fst m) \<Longrightarrow> (\<And>k s. (k, s) \<in> set m \<Longrightarrow> data_ok contents (kinds (fst k)) (s_data s)) \<Longrightarrow>
    car hdr contents (taken hdr m) k = (case map_of m k of None \<Rightarrow> {#} | Some s \<Rightarrow> unflushed contents (s_data s))"
proof (induction m)
  case (Cons e m)
  obtain metric ts s where e: "e = ((metric, ts), s)" by (metis surj_pair)
  obtain r d' where t: "take_data hdr (s_data s) = (r, d')" by (metis surj_pair)
  have "data_ok contents (kinds metric) (s_data s)" using Cons.prems(2) [of "(metric, ts)" s] by (simp add: e)
  note step = take_data_ok(4) [OF assms this t]
  have "car hdr contents (taken hdr (e # m)) k =
    (if (metric, ts) = k then unflushed contents (s_data s) else {#}) + car hdr contents (taken hdr m) k"
    unfolding step [symmetric] by (cases r) (simp_all add: taken_def List.map_filter_simps e t sd_key_def)
  then show ?case using Cons car_taken_absent [of k m hdr contents] by (auto simp: e)
qed (simp add: taken_def List.map_filter_simps)

lemma take_delta_ok:
  assumes laws: "hdr_laws hdr bucket contents quant" and ok: "agg_ok contents kinds a" and t: "take_delta hdr a = (ds, a')"
  shows "agg_ok contents kinds a'" "cum contents a' k = cum contents a k" "unf contents a' k = {#}"
    "car hdr contents ds k = unf contents a k" "deltas_ok kinds ds"
proof -
  have ds: "ds = taken hdr (ag_series a)"
    and a': "a' = a\<lparr>ag_series := map (\<lambda>(key, s). (key, s\<lparr>s_data := snd (take_data hdr (s_data s))\<rparr>)) (ag_series a)\<rparr>"
    using t by (simp_all add: take_delta_def taken_def)
  have each: "data_ok contents (kinds (fst k)) (snd (take_data hdr (s_data s)))"
    "cumulative contents (snd (take_data hdr (s_data s))) = cumulative contents (s_data s)"
    "unflushed contents (snd (take_data hdr (s_data s))) = {#}"
    if "map_of (ag_series a) k = Some s" for k s
    using take_data_ok [OF laws agg_okD [OF ok that], of "fst (take_data hdr (s_data s))" "snd (take_data hdr (s_data s))"] by simp_all
  show "agg_ok contents kinds a'"
    using ok each unfolding agg_ok_def a' by (auto simp: map_of_map_snd wf_map_map_snd)
  show "cum contents a' k = cum contents a k" "unf contents a' k = {#}"
    using each by (auto simp: cum_def unf_def a' map_of_map_snd split: option.split)
  have d: "distinct (map fst (ag_series a))" using ok by (simp add: agg_ok_def wf_map_def)
  then have mem: "map_of (ag_series a) k = Some s" if "(k, s) \<in> set (ag_series a)" for k s using that by simp
  show "car hdr contents ds k = unf contents a k"
    unfolding ds unf_def using d mem agg_okD [OF ok] by (intro car_taken [OF laws]) auto
  show "deltas_ok kinds ds"
    unfolding deltas_ok_def
  proof
    fix sd assume "sd \<in> set ds"
    then obtain s where s: "((sd_metric sd, sd_tags sd), s) \<in> set (ag_series a)" "sd_kind sd = s_kind s"
      "fst (take_data hdr (s_data s)) = Some (sd_data sd)" by (auto simp: ds taken_def List.map_filter_def)
    note m = mem [OF s(1)]
    show "sd_kind sd = kinds (sd_metric sd) \<and> delta_ok (kinds (sd_metric sd)) (sd_data sd)"
      using take_data_ok(5) [OF laws agg_okD [OF ok m] prod.collapse [symmetric] s(3)] ok m s(2)
      unfolding agg_ok_def by fastforce
  qed
qed

lemma restore_one_ok:
  assumes laws: "hdr_laws hdr bucket contents quant" and ok: "agg_ok contents kinds a"
    and sd: "delta_ok (kinds (sd_metric sd)) (sd_data sd)"
    and sub: "unf contents a (sd_key sd) + carried hdr contents (sd_data sd) \<subseteq># cum contents a (sd_key sd)"
  shows "agg_ok contents kinds (restore_one hdr sd a)" "cum contents (restore_one hdr sd a) k = cum contents a k"
    "unf contents (restore_one hdr sd a) k = unf contents a k + (if sd_key sd = k then carried hdr contents (sd_data sd) else {#})"
proof -
  have "agg_ok contents kinds (restore_one hdr sd a) \<and> cum contents (restore_one hdr sd a) k = cum contents a k \<and>
    unf contents (restore_one hdr sd a) k = unf contents a k + (if sd_key sd = k then carried hdr contents (sd_data sd) else {#})"
  proof (cases "map_of (ag_series a) (sd_key sd)")
    case None
    then show ?thesis using ok sub by (simp add: restore_one_def sd_key_def cum_def unf_def)
  next
    case (Some s)
    have r: "restore_one hdr sd a =
      a\<lparr>ag_series := AList.update (sd_key sd) (s\<lparr>s_data := restore_data hdr (sd_data sd) (s_data s)\<rparr>) (ag_series a)\<rparr>"
      using Some by (simp add: restore_one_def sd_key_def)
    have sub': "unflushed contents (s_data s) + carried hdr contents (sd_data sd) \<subseteq># cumulative contents (s_data s)"
      using sub Some by (simp add: cum_def unf_def)
    have d: "data_ok contents (kinds (sd_metric sd)) (s_data s)" using agg_okD [OF ok Some] by (simp add: sd_key_def)
    note l = restore_data_ok [OF laws d sd sub']
    have "agg_ok contents kinds (restore_one hdr sd a)"
      using ok l(1) Some unfolding agg_ok_def r by (auto simp: sd_key_def)
    then show ?thesis using l(2,3) Some by (auto simp: cum_def unf_def r)
  qed
  then show "agg_ok contents kinds (restore_one hdr sd a)" "cum contents (restore_one hdr sd a) k = cum contents a k"
    "unf contents (restore_one hdr sd a) k = unf contents a k + (if sd_key sd = k then carried hdr contents (sd_data sd) else {#})"
    by blast+
qed

lemma restore_delta_ok:
  assumes laws: "hdr_laws hdr bucket contents quant"
  shows "agg_ok contents kinds a \<Longrightarrow> deltas_ok kinds ds \<Longrightarrow> (\<And>k. unf contents a k + car hdr contents ds k \<subseteq># cum contents a k) \<Longrightarrow>
    agg_ok contents kinds (restore_delta hdr ds a) \<and>
    (\<forall>k. cum contents (restore_delta hdr ds a) k = cum contents a k \<and>
         unf contents (restore_delta hdr ds a) k = unf contents a k + car hdr contents ds k)"
proof (induction ds arbitrary: a)
  case (Cons sd ds)
  have sd: "delta_ok (kinds (sd_metric sd)) (sd_data sd)" and ds: "deltas_ok kinds ds"
    using Cons.prems(2) by (auto simp: deltas_ok_def)
  have "unf contents a (sd_key sd) + carried hdr contents (sd_data sd) \<subseteq># cum contents a (sd_key sd)"
    using Cons.prems(3) [of "sd_key sd"] by (rule subset_mset.order_trans [rotated]) (simp add: add.assoc [symmetric])
  note one = restore_one_ok [OF laws Cons.prems(1) sd this]
  have "unf contents (restore_one hdr sd a) k + car hdr contents ds k \<subseteq># cum contents (restore_one hdr sd a) k" for k
    using Cons.prems(3) [of k] by (simp add: one add.assoc)
  from Cons.IH [OF one(1) ds this] show ?case by (simp add: restore_delta_def one add.assoc)
qed (simp add: restore_delta_def)

lemma merge_one_ok:
  assumes laws: "hdr_laws hdr bucket contents quant" and ok: "agg_ok contents kinds (a\<lparr>ag_series := m\<rparr>)"
    and sd: "sd_kind sd = kinds (sd_metric sd)" "delta_ok (kinds (sd_metric sd)) (sd_data sd)"
    and fits: "counter_fits (cum contents (a\<lparr>ag_series := m\<rparr>) (sd_key sd) + carried hdr contents (sd_data sd))"
  shows "agg_ok contents kinds (a\<lparr>ag_series := merge_one hdr seq sd m\<rparr>)"
    "cum contents (a\<lparr>ag_series := merge_one hdr seq sd m\<rparr>) k =
       cum contents (a\<lparr>ag_series := m\<rparr>) k + (if sd_key sd = k then carried hdr contents (sd_data sd) else {#})"
proof -
  define s where "s = (case map_of m (sd_key sd) of None \<Rightarrow> series_new hdr (sd_kind sd) | Some v \<Rightarrow> v)"
  have s: "data_ok contents (kinds (sd_metric sd)) (s_data s)" "s_kind s = kinds (sd_metric sd)"
    "cumulative contents (s_data s) = cum contents (a\<lparr>ag_series := m\<rparr>) (sd_key sd)"
    using ok sd(1) data_new_ok [OF laws, of "kinds (sd_metric sd)"]
    by (auto simp: s_def series_new_def cum_def agg_ok_def sd_key_def split: option.split)
  have e: "map_of (merge_one hdr seq sd m) =
    (map_of m)(sd_key sd \<mapsto> s\<lparr>s_data := merge_delta_data hdr seq (sd_data sd) (s_data s)\<rparr>)"
    by (rule ext) (simp add: merge_one_def s_def sd_key_def)
  note l = merge_delta_data_ok [OF laws s(1) sd(2), of seq, unfolded s(3), OF fits]
  show "agg_ok contents kinds (a\<lparr>ag_series := merge_one hdr seq sd m\<rparr>)"
    using ok l(1) s(2) unfolding agg_ok_def by (auto simp: e sd_key_def) (simp add: merge_one_def)
  show "cum contents (a\<lparr>ag_series := merge_one hdr seq sd m\<rparr>) k =
       cum contents (a\<lparr>ag_series := m\<rparr>) k + (if sd_key sd = k then carried hdr contents (sd_data sd) else {#})"
    using l(2) unfolding cum_def by (simp add: e)
qed

lemma merge_fold_ok:
  assumes laws: "hdr_laws hdr bucket contents quant"
  shows "agg_ok contents kinds (a\<lparr>ag_series := m\<rparr>) \<Longrightarrow> deltas_ok kinds ds \<Longrightarrow>
    (\<And>k. counter_fits (cum contents (a\<lparr>ag_series := m\<rparr>) k + car hdr contents ds k)) \<Longrightarrow>
    agg_ok contents kinds (a\<lparr>ag_series := fold (merge_one hdr seq) ds m\<rparr>) \<and>
    (\<forall>k. cum contents (a\<lparr>ag_series := fold (merge_one hdr seq) ds m\<rparr>) k =
       cum contents (a\<lparr>ag_series := m\<rparr>) k + car hdr contents ds k)"
proof (induction ds arbitrary: m)
  case (Cons sd ds)
  have sd: "sd_kind sd = kinds (sd_metric sd)" "delta_ok (kinds (sd_metric sd)) (sd_data sd)" and ds: "deltas_ok kinds ds"
    using Cons.prems(2) by (auto simp: deltas_ok_def)
  have "counter_fits (cum contents (a\<lparr>ag_series := m\<rparr>) (sd_key sd) + carried hdr contents (sd_data sd))"
    using Cons.prems(3) [of "sd_key sd"] by (rule counter_fits_mono) (simp add: add.assoc [symmetric])
  note one = merge_one_ok [OF laws Cons.prems(1) sd this, of seq]
  have "counter_fits (cum contents (a\<lparr>ag_series := merge_one hdr seq sd m\<rparr>) k + car hdr contents ds k)" for k
    using Cons.prems(3) [of k] by (simp add: one add.assoc)
  from Cons.IH [OF one(1) ds this] show ?case by (simp add: one add.assoc)
qed simp

lemma merge_delta_ok:
  assumes laws: "hdr_laws hdr bucket contents quant" and ok: "agg_ok contents kinds a" and ds: "deltas_ok kinds ds"
    and fits: "\<And>k. counter_fits (cum contents a k + car hdr contents ds k)"
  shows "agg_ok contents kinds (merge_delta hdr ds a)"
    "cum contents (merge_delta hdr ds a) k = cum contents a k + car hdr contents ds k"
proof -
  let ?a = "a\<lparr>ag_seq := ag_seq a + 1\<rparr>"
  have e: "?a\<lparr>ag_series := ag_series a\<rparr> = ?a" by simp
  have ok': "agg_ok contents kinds (?a\<lparr>ag_series := ag_series a\<rparr>)" using ok by (simp add: agg_ok_def)
  have c: "cum contents (?a\<lparr>ag_series := ag_series a\<rparr>) k = cum contents a k" for k by (simp add: cum_def)
  note l = merge_fold_ok [OF laws ok' ds, of "ag_seq a + 1", unfolded c, OF fits]
  show "agg_ok contents kinds (merge_delta hdr ds a)" "cum contents (merge_delta hdr ds a) k = cum contents a k + car hdr contents ds k"
    using l [THEN conjunct1] l [THEN conjunct2, THEN spec, of k] by (simp_all add: merge_delta_def Let_def)
qed

section \<open>Sources and a target\<close>

text \<open>
  Any number of sources (agents or shards) and the aggregator they report to. A source records
  samples, takes a delta onto its queue, takes the newest delta back when it could not be handed on,
  and its oldest delta is merged into the target.
\<close>

record 'h fed =
  fd_sources :: "('h aggregator \<times> metrics_delta list) list"
  fd_target :: "'h aggregator"

datatype fed_op = FRecord nat sample | FFlush nat | FUndo nat | FDeliver nat

fun op_source :: "fed_op \<Rightarrow> nat" where
  "op_source (FRecord i _) = i"
| "op_source (FFlush i) = i"
| "op_source (FUndo i) = i"
| "op_source (FDeliver i) = i"

fun source_step :: "'h hdr \<Rightarrow> fed_op \<Rightarrow> 'h aggregator \<times> metrics_delta list \<Rightarrow> 'h aggregator \<times> metrics_delta list" where
  "source_step hdr (FRecord _ sm) (a, q) = (agg_record hdr sm a, q)"
| "source_step hdr (FFlush _) (a, q) = (case take_delta hdr a of (ds, a') \<Rightarrow> (a', q @ [ds]))"
| "source_step hdr (FUndo _) (a, q) = (if q = [] then (a, q) else (restore_delta hdr (last q) a, butlast q))"
| "source_step hdr (FDeliver _) (a, q) = (a, tl q)"

fun target_step :: "'h hdr \<Rightarrow> fed_op \<Rightarrow> metrics_delta list \<Rightarrow> 'h aggregator \<Rightarrow> 'h aggregator" where
  "target_step hdr (FDeliver _) (ds # q) t = merge_delta hdr ds t"
| "target_step hdr _ _ t = t"

definition fed_step :: "'h hdr \<Rightarrow> fed_op \<Rightarrow> 'h fed \<Rightarrow> 'h fed" where
  "fed_step hdr op fd =
     (let i = op_source op
      in if i < length (fd_sources fd)
         then \<lparr>fd_sources = (fd_sources fd)[i := source_step hdr op (fd_sources fd ! i)],
               fd_target = target_step hdr op (snd (fd_sources fd ! i)) (fd_target fd)\<rparr>
         else fd)"

definition fed_run :: "'h hdr \<Rightarrow> fed_op list \<Rightarrow> 'h fed \<Rightarrow> 'h fed" where
  "fed_run hdr ops fd = fold (fed_step hdr) ops fd"

definition fed_init :: "nat \<Rightarrow> nat \<Rightarrow> 'h fed" where
  "fed_init now n = \<lparr>fd_sources = replicate n (agg_new now, []), fd_target = agg_new now\<rparr>"

definition op_marks :: "(nat \<Rightarrow> nat) \<Rightarrow> fed_op \<Rightarrow> series_key \<Rightarrow> mark multiset" where
  "op_marks bucket op k = (case op of FRecord _ sm \<Rightarrow> sample_at bucket sm k | _ \<Rightarrow> {#})"

definition recorded :: "(nat \<Rightarrow> nat) \<Rightarrow> nat \<Rightarrow> fed_op list \<Rightarrow> series_key \<Rightarrow> mark multiset" where
  "recorded bucket n ops k = sum_list (map (\<lambda>op. if op_source op < n then op_marks bucket op k else {#}) ops)"

definition pending :: "'h hdr \<Rightarrow> ('h \<Rightarrow> nat multiset) \<Rightarrow> 'h aggregator \<times> metrics_delta list \<Rightarrow> series_key \<Rightarrow> mark multiset" where
  "pending hdr contents src k = unf contents (fst src) k + sum_list (map (\<lambda>ds. car hdr contents ds k) (snd src))"

definition source_ok :: "'h hdr \<Rightarrow> ('h \<Rightarrow> nat multiset) \<Rightarrow> (string \<Rightarrow> metric_kind) \<Rightarrow> (series_key \<Rightarrow> mark multiset) \<Rightarrow>
    'h aggregator \<times> metrics_delta list \<Rightarrow> bool" where
  "source_ok hdr contents kinds R src \<longleftrightarrow>
     agg_ok contents kinds (fst src) \<and> (\<forall>ds \<in> set (snd src). deltas_ok kinds ds) \<and>
     (\<forall>k. pending hdr contents src k \<subseteq># cum contents (fst src) k \<and> cum contents (fst src) k \<subseteq># R k)"

definition fed_inv :: "'h hdr \<Rightarrow> ('h \<Rightarrow> nat multiset) \<Rightarrow> (string \<Rightarrow> metric_kind) \<Rightarrow> (series_key \<Rightarrow> mark multiset) \<Rightarrow> 'h fed \<Rightarrow> bool" where
  "fed_inv hdr contents kinds R fd \<longleftrightarrow>
     agg_ok contents kinds (fd_target fd) \<and> (\<forall>src \<in> set (fd_sources fd). source_ok hdr contents kinds R src) \<and>
     (\<forall>k. cum contents (fd_target fd) k + sum_list (map (\<lambda>src. pending hdr contents src k) (fd_sources fd)) = R k)"

lemma source_ok_mono: "source_ok hdr contents kinds R src \<Longrightarrow> (\<And>k. R k \<subseteq># R' k) \<Longrightarrow> source_ok hdr contents kinds R' src"
  unfolding source_ok_def by (meson subset_mset.order_trans)

lemma source_step_ok:
  assumes laws: "hdr_laws hdr bucket contents quant" and ok: "source_ok hdr contents kinds R src"
    and sm: "\<And>i sm. op = FRecord i sm \<Longrightarrow> sample_ok kinds sm" and fits: "\<And>k. counter_fits (R k + op_marks bucket op k)"
  shows "source_ok hdr contents kinds (\<lambda>k. R k + op_marks bucket op k) (source_step hdr op src)"
    "pending hdr contents (source_step hdr op src) k + (case op of FDeliver _ \<Rightarrow> (case snd src of [] \<Rightarrow> {#} | ds # _ \<Rightarrow> car hdr contents ds k) | _ \<Rightarrow> {#}) =
       pending hdr contents src k + op_marks bucket op k"
proof -
  obtain a q where src: "src = (a, q)" by (cases src)
  have a: "agg_ok contents kinds a" and q: "\<And>ds. ds \<in> set q \<Longrightarrow> deltas_ok kinds ds"
    and p: "\<And>k. pending hdr contents (a, q) k \<subseteq># cum contents a k" and c: "\<And>k. cum contents a k \<subseteq># R k"
    using ok by (auto simp: source_ok_def src)
  have "source_ok hdr contents kinds (\<lambda>k. R k + op_marks bucket op k) (source_step hdr op src) \<and>
    pending hdr contents (source_step hdr op src) k + (case op of FDeliver _ \<Rightarrow> (case snd src of [] \<Rightarrow> {#} | ds # _ \<Rightarrow> car hdr contents ds k) | _ \<Rightarrow> {#}) =
       pending hdr contents src k + op_marks bucket op k"
  proof (cases op)
    case (FRecord i sm')
    have "counter_fits (cum contents a k + sample_at bucket sm' k)" for k
      using fits [of k] c [of k] by (auto intro: counter_fits_mono simp: FRecord op_marks_def)
    note r = agg_record_ok [OF laws a sm [OF FRecord] this]
    show ?thesis using q p c r by (auto simp: FRecord src source_ok_def pending_def op_marks_def ac_simps)
  next
    case (FFlush i)
    obtain ds a' where t: "take_delta hdr a = (ds, a')" by (metis surj_pair)
    note r = take_delta_ok [OF laws a t]
    show ?thesis using q p c r by (auto simp: FFlush src t source_ok_def pending_def op_marks_def ac_simps)
  next
    case (FUndo i)
    show ?thesis
    proof (cases q rule: rev_cases)
      case Nil
      then show ?thesis using ok by (simp add: FUndo src op_marks_def)
    next
      case (snoc q' ds)
      have "unf contents a k + car hdr contents ds k \<subseteq># cum contents a k" for k
        using p [of k] by (rule subset_mset.order_trans [rotated]) (simp add: pending_def snoc)
      from restore_delta_ok [OF laws a q [of ds] this]
      have r: "agg_ok contents kinds (restore_delta hdr ds a)" "\<And>k. cum contents (restore_delta hdr ds a) k = cum contents a k"
        "\<And>k. unf contents (restore_delta hdr ds a) k = unf contents a k + car hdr contents ds k" using snoc by auto
      show ?thesis using q p c r by (auto simp: FUndo src snoc source_ok_def pending_def op_marks_def ac_simps)
    qed
  next
    case (FDeliver i)
    have "pending hdr contents (a, tl q) k \<subseteq># cum contents a k" for k
      using p [of k] by (cases q) (auto simp: pending_def intro: subset_mset.order_trans [rotated])
    then show ?thesis using a q c by (cases q) (auto simp: FDeliver src source_ok_def pending_def op_marks_def ac_simps)
  qed
  then show "source_ok hdr contents kinds (\<lambda>k. R k + op_marks bucket op k) (source_step hdr op src)"
    "pending hdr contents (source_step hdr op src) k + (case op of FDeliver _ \<Rightarrow> (case snd src of [] \<Rightarrow> {#} | ds # _ \<Rightarrow> car hdr contents ds k) | _ \<Rightarrow> {#}) =
       pending hdr contents src k + op_marks bucket op k" by blast+
qed

lemma sum_list_update_mset:
  "i < length xs \<Longrightarrow> sum_list (map f (xs[i := x])) + f (xs ! i) = sum_list (map f xs) + (f x :: 'b multiset)"
  by (induction xs arbitrary: i) (auto simp: nth_Cons ac_simps split: nat.splits)

lemma sum_list_member_mset: "x \<in> set xs \<Longrightarrow> f x \<subseteq># sum_list (map f xs :: 'b multiset list)"
  by (induction xs) (auto intro: subset_mset.order_trans)

lemma fed_step_inv:
  assumes laws: "hdr_laws hdr bucket contents quant" and fd: "fed_inv hdr contents kinds R fd"
    and sm: "\<And>i sm. op = FRecord i sm \<Longrightarrow> sample_ok kinds sm" and fits: "\<And>k. counter_fits (R k + op_marks bucket op k)"
    and i: "op_source op < length (fd_sources fd)"
  shows "fed_inv hdr contents kinds (\<lambda>k. R k + op_marks bucket op k) (fed_step hdr op fd)"
proof -
  define src where "src = fd_sources fd ! op_source op"
  define dlv where "dlv = (\<lambda>k. case op of FDeliver _ \<Rightarrow> (case snd src of [] \<Rightarrow> {#} | ds # _ \<Rightarrow> car hdr contents ds k) | _ \<Rightarrow> {#})"
  let ?R = "\<lambda>k. R k + op_marks bucket op k" and ?T = "target_step hdr op (snd src) (fd_target fd)"
  let ?P = "\<lambda>src k. pending hdr contents src k"
  have mem: "src \<in> set (fd_sources fd)" using i by (simp add: src_def)
  then have ok: "source_ok hdr contents kinds R src" using fd by (simp add: fed_inv_def)
  have step1: "source_ok hdr contents kinds ?R (source_step hdr op src)"
    by (rule source_step_ok(1) [OF laws ok sm fits])
  have step2: "?P (source_step hdr op src) k + dlv k = ?P src k + op_marks bucket op k" for k
    unfolding dlv_def by (rule source_step_ok(2) [OF laws ok sm fits])
  have T: "agg_ok contents kinds (fd_target fd)"
    and books: "\<And>k. cum contents (fd_target fd) k + sum_list (map (\<lambda>s. ?P s k) (fd_sources fd)) = R k"
    using fd by (auto simp: fed_inv_def)
  have dsub: "dlv k \<subseteq># ?P src k" for k
    by (auto simp: dlv_def pending_def split: fed_op.splits list.splits)
  have tfit: "counter_fits (cum contents (fd_target fd) k + dlv k)" for k
  proof (rule counter_fits_mono [OF fits])
    have "cum contents (fd_target fd) k + dlv k \<subseteq># R k"
      unfolding books [of k, symmetric]
      using subset_mset.order_trans [OF dsub sum_list_member_mset [OF mem, of "\<lambda>s. ?P s k"]] by simp
    then show "cum contents (fd_target fd) k + dlv k \<subseteq># ?R k" by (simp add: subset_mset.add_increasing2)
  qed
  have t: "agg_ok contents kinds ?T \<and> (\<forall>k. cum contents ?T k = cum contents (fd_target fd) k + dlv k)"
  proof (cases "\<exists>i ds q. op = FDeliver i \<and> snd src = ds # q")
    case True
    then obtain i ds q where o: "op = FDeliver i" "snd src = ds # q" by blast
    have "deltas_ok kinds ds" using ok o(2) by (simp add: source_ok_def)
    from merge_delta_ok [OF laws T this] tfit show ?thesis by (simp add: o dlv_def del: split_paired_All)
  next
    case False
    then have "?T = fd_target fd \<and> dlv = (\<lambda>_. {#})"
      by (cases op; cases "snd src") (auto simp: dlv_def)
    then show ?thesis using T by simp
  qed
  have fs: "fed_step hdr op fd = \<lparr>fd_sources = (fd_sources fd)[op_source op := source_step hdr op src], fd_target = ?T\<rparr>"
    using i by (simp add: fed_step_def src_def Let_def)
  have mono: "source_ok hdr contents kinds R s \<Longrightarrow> source_ok hdr contents kinds ?R s" for s
    by (rule source_ok_mono [OF _ mset_subset_eq_add_left])
  have "source_ok hdr contents kinds ?R s" if "s \<in> set ((fd_sources fd)[op_source op := source_step hdr op src])" for s
    using that set_update_subset_insert [of "fd_sources fd" "op_source op" "source_step hdr op src"] step1 mono fd
    unfolding fed_inv_def by blast
  moreover have "cum contents ?T k + sum_list (map (\<lambda>s. ?P s k) ((fd_sources fd)[op_source op := source_step hdr op src])) = ?R k" for k
  proof -
    have "sum_list (map (\<lambda>s. ?P s k) ((fd_sources fd)[op_source op := source_step hdr op src])) + ?P src k =
      sum_list (map (\<lambda>s. ?P s k) (fd_sources fd)) + ?P (source_step hdr op src) k"
      using sum_list_update_mset [OF i, of "\<lambda>s. ?P s k"] by (simp add: src_def)
    then have "(cum contents ?T k + sum_list (map (\<lambda>s. ?P s k) ((fd_sources fd)[op_source op := source_step hdr op src]))) + ?P src k =
      (cum contents (fd_target fd) k + sum_list (map (\<lambda>s. ?P s k) (fd_sources fd))) + (?P (source_step hdr op src) k + dlv k)"
      unfolding add.assoc using t [THEN conjunct2, THEN spec, of k] by (simp add: ac_simps)
    also have "\<dots> = ?R k + ?P src k" unfolding books step2 by (simp add: ac_simps)
    finally show ?thesis by simp
  qed
  ultimately show ?thesis using t by (simp add: fed_inv_def fs)
qed

lemma recorded_simps [simp]:
  "recorded bucket n [] k = {#}"
  "recorded bucket n (op # ops) k = (if op_source op < n then op_marks bucket op k else {#}) + recorded bucket n ops k"
  by (simp_all add: recorded_def)

lemma fed_run_inv:
  assumes laws: "hdr_laws hdr bucket contents quant"
  shows "fed_inv hdr contents kinds R fd \<Longrightarrow> length (fd_sources fd) = n \<Longrightarrow>
    (\<And>i sm. FRecord i sm \<in> set ops \<Longrightarrow> sample_ok kinds sm) \<Longrightarrow> (\<And>k. counter_fits (R k + recorded bucket n ops k)) \<Longrightarrow>
    fed_inv hdr contents kinds (\<lambda>k. R k + recorded bucket n ops k) (fed_run hdr ops fd)"
proof (induction ops arbitrary: R fd)
  case (Cons op ops)
  show ?case
  proof (cases "op_source op < n")
    case True
    have "counter_fits (R k + op_marks bucket op k)" for k
      using Cons.prems(4) [of k] by (rule counter_fits_mono) (simp add: True)
    moreover have "sample_ok kinds sm" if "op = FRecord i sm" for i sm using Cons.prems(3) [of i sm] that by simp
    ultimately have "fed_inv hdr contents kinds (\<lambda>k. R k + op_marks bucket op k) (fed_step hdr op fd)"
      using Cons.prems(1,2) True by (intro fed_step_inv [OF laws]) simp_all
    moreover have "length (fd_sources (fed_step hdr op fd)) = n" using Cons.prems(2) by (simp add: fed_step_def Let_def)
    moreover have "sample_ok kinds sm" if "FRecord i sm \<in> set ops" for i sm using Cons.prems(3) [of i sm] that by simp
    moreover have "counter_fits (R k + op_marks bucket op k + recorded bucket n ops k)" for k
      using Cons.prems(4) [of k] True by (simp add: add.assoc)
    ultimately have "fed_inv hdr contents kinds (\<lambda>k. R k + op_marks bucket op k + recorded bucket n ops k)
      (fed_run hdr ops (fed_step hdr op fd))" by (rule Cons.IH)
    then show ?thesis using True by (simp add: fed_run_def add.assoc)
  next
    case False
    have "fed_inv hdr contents kinds (\<lambda>k. R k + recorded bucket n ops k) (fed_run hdr ops fd)"
      using Cons.prems(1,2) by (rule Cons.IH) (use Cons.prems(3,4) False in auto)
    then show ?thesis using False Cons.prems(2) by (simp add: fed_run_def fed_step_def Let_def)
  qed
qed (simp add: fed_run_def)

lemma sum_list_replicate_empty [simp]: "sum_list (replicate n {#}) = {#}"
  by (induction n) simp_all

lemma fed_init_inv: "fed_inv hdr contents kinds (\<lambda>k. {#}) (fed_init now n)"
  by (induction n) (auto simp: fed_inv_def fed_init_def source_ok_def pending_def)

section \<open>Conservation\<close>

text \<open>
  C4: distributed metrics conserve samples. Whatever sequence of records, flushes, restored flushes
  and deliveries runs between any number of agents and the controller's aggregator, for every series
  the units, passes, trials and histogram entries in the target, in the deltas in flight and not yet
  flushed at the agents add up to exactly what was recorded: nothing is lost, and nothing is counted
  twice. Counters are whole and stay within $2^{53}$, and a metric has one kind.
\<close>

theorem federation_conserves:
  assumes "hdr_laws hdr bucket contents quant" "\<And>i sm. FRecord i sm \<in> set ops \<Longrightarrow> sample_ok kinds sm"
    "\<And>k. counter_fits (recorded bucket n ops k)"
  shows "cum contents (fd_target (fed_run hdr ops (fed_init now n))) k +
    sum_list (map (\<lambda>src. pending hdr contents src k) (fd_sources (fed_run hdr ops (fed_init now n)))) = recorded bucket n ops k"
proof -
  have "fed_inv hdr contents kinds (\<lambda>k. {#} + recorded bucket n ops k) (fed_run hdr ops (fed_init now n))"
    using assms by (intro fed_run_inv [OF assms(1) fed_init_inv]) (simp_all add: fed_init_def)
  then show ?thesis unfolding fed_inv_def by (simp del: split_paired_All)
qed

text \<open>
  A histogram of 256 buckets, the last one for everything above, kept as the string of its entries.
\<close>

definition char_bucket :: "nat \<Rightarrow> nat" where
  "char_bucket v = min v 255"

definition char_contents :: "string \<Rightarrow> nat multiset" where
  "char_contents h = mset (map of_char h)"

definition rank_quantile :: "f64 \<Rightarrow> nat multiset \<Rightarrow> nat" where
  "rank_quantile q M =
     (case q of
        Fin r \<Rightarrow> if M = {#} then 0 else sorted_list_of_multiset M ! min (size M - 1) (nat (\<lceil>r * of_nat (size M)\<rceil>) - 1)
      | _ \<Rightarrow> 0)"

definition char_hdr :: "string hdr" where
  "char_hdr =
     \<lparr>h_new = [], h_record = (\<lambda>v h. char_of (char_bucket v) # h), h_add = (\<lambda>g h. g @ h), h_len = length,
      h_mean = (\<lambda>h. f64_of_nat (sum_list (map of_char h)) / f64_of_nat (length h)),
      h_quantile = (\<lambda>q h. rank_quantile q (char_contents h)), h_encode = Some, h_decode = Some\<rparr>"

lemma char_hdr_laws: "hdr_laws char_hdr char_bucket char_contents rank_quantile"
  by (simp add: hdr_laws_def char_hdr_def char_contents_def char_bucket_def)

definition check_sample :: sample where
  "check_sample = \<lparr>sm_metric = ''checks'', sm_kind = Rate, sm_value = Fin 1, sm_tags = [], sm_timestamp = 0\<rparr>"

theorem federation_conserves_witness:
  "cum char_contents (fd_target (fed_run char_hdr
       [FRecord 0 check_sample, FFlush 0, FUndo 0, FRecord 1 check_sample, FFlush 0, FFlush 1, FDeliver 1] (fed_init 0 2))) (''checks'', []) +
     sum_list (map (\<lambda>src. pending char_hdr char_contents src (''checks'', [])) (fd_sources (fed_run char_hdr
       [FRecord 0 check_sample, FFlush 0, FUndo 0, FRecord 1 check_sample, FFlush 0, FFlush 1, FDeliver 1] (fed_init 0 2)))) =
   {#MPass, MPass, MTotal, MTotal#}"
proof -
  let ?ops = "[FRecord 0 check_sample, FFlush 0, FUndo 0, FRecord 1 check_sample, FFlush 0, FFlush 1, FDeliver 1]"
  have m: "recorded char_bucket 2 ?ops k = (if k = (''checks'', []) then {#MPass, MPass, MTotal, MTotal#} else {#})" for k
    by (simp add: op_marks_def sample_at_def sample_marks_def check_sample_def f64_eq_def add_mset_commute)
  have f: "counter_fits (recorded char_bucket 2 ?ops k)" for k unfolding m by (simp add: counter_fits_def)
  have ok: "sample_ok (\<lambda>_. Rate) sm" if "FRecord i sm \<in> set ?ops" for i sm
    using that by (auto simp: sample_ok_def check_sample_def)
  show ?thesis using federation_conserves [OF char_hdr_laws ok f, where now = 0 and k = "(''checks'', [])"] unfolding m by simp
qed

section \<open>Shards\<close>

text \<open>The values of a series that are exact: what a counter, a rate and the buckets of a trend report.\<close>

datatype exact = VCounter f64 | VGauge | VRate nat nat | VTrend nat "f64 \<Rightarrow> nat"

fun view :: "'h hdr \<Rightarrow> 'h series_data \<Rightarrow> exact" where
  "view hdr (SCounter tot _) = VCounter tot"
| "view hdr (SGauge _ _ _ _) = VGauge"
| "view hdr (SRate p t _ _) = VRate p t"
| "view hdr (STrend h _ _ cnt _ _) = VTrend cnt (\<lambda>q. h_quantile hdr q h)"

lemma view_determined:
  assumes "hdr_laws hdr bucket contents quant" "data_ok contents kind d" "data_ok contents kind e"
    "cumulative contents d = cumulative contents e"
  shows "view hdr d = view hdr e"
proof (cases d)
  case (SCounter tot fl)
  then obtain tot' fl' where e: "e = SCounter tot' fl'" using assms(2,3) by (cases e) auto
  have "f64_to_u64 tot = f64_to_u64 tot'"
    using arg_cong [OF assms(4), of size] by (simp add: SCounter e)
  moreover have "whole tot" "whole tot'" using assms(2,3) by (auto simp: SCounter e)
  ultimately show ?thesis by (auto simp: SCounter e elim!: wholeE)
next
  case (SRate p t fp ft)
  then obtain p' t' fp' ft' where e: "e = SRate p' t' fp' ft'" using assms(2,3) by (cases e) auto
  show ?thesis using arg_cong [OF assms(4), of "\<lambda>M. count M MPass"] arg_cong [OF assms(4), of "\<lambda>M. count M MTotal"]
    by (simp add: SRate e)
next
  case (STrend h dh sm cnt mn mx)
  then obtain h' dh' sm' cnt' mn' mx' where e: "e = STrend h' dh' sm' cnt' mn' mx'" using assms(2,3) by (cases e) auto
  then have "contents h = contents h'" using assms(4) STrend by (simp add: bucket_eq)
  then show ?thesis using assms(2,3) STrend e hdr_lawsD(5) [OF assms(1)] by simp
qed (use assms in \<open>cases e; auto\<close>)

datatype shard_op = ShRecord nat sample | ShDrain

fun shard_step :: "'h hdr \<Rightarrow> shard_op \<Rightarrow> 'h shards \<times> 'h aggregator \<Rightarrow> 'h shards \<times> 'h aggregator" where
  "shard_step hdr (ShRecord idx sm) (sh, t) = (shards_record hdr idx sm sh, t)"
| "shard_step hdr ShDrain (sh, t) = drain_into hdr sh t"

fun shard_samples :: "shard_op list \<Rightarrow> sample list" where
  "shard_samples [] = []"
| "shard_samples (ShRecord _ sm # ops) = sm # shard_samples ops"
| "shard_samples (ShDrain # ops) = shard_samples ops"

lemma drain_into_ok:
  assumes laws: "hdr_laws hdr bucket contents quant"
  shows "agg_ok contents kinds t \<Longrightarrow> (\<And>a. a \<in> set sh \<Longrightarrow> agg_ok contents kinds a) \<Longrightarrow>
    (\<And>k. counter_fits (cum contents t k + sum_list (map (\<lambda>a. unf contents a k) sh))) \<Longrightarrow> drain_into hdr sh t = (sh', t') \<Longrightarrow>
    agg_ok contents kinds t' \<and> length sh' = length sh \<and>
    (\<forall>a' \<in> set sh'. agg_ok contents kinds a' \<and> (\<forall>k. unf contents a' k = {#}) \<and>
       (\<exists>a \<in> set sh. \<forall>k. cum contents a' k = cum contents a k)) \<and>
    (\<forall>k. cum contents t' k = cum contents t k + sum_list (map (\<lambda>a. unf contents a k) sh))"
proof (induction sh arbitrary: t sh' t')
  case (Cons a sh)
  obtain ds a' where td: "take_delta hdr a = (ds, a')" by (metis surj_pair)
  obtain sh'' t'' where dr: "drain_into hdr sh (merge_delta hdr ds t) = (sh'', t'')" by (metis surj_pair)
  have out: "sh' = a' # sh''" "t' = t''" using Cons.prems(4) by (simp_all add: td dr)
  have a: "agg_ok contents kinds a" using Cons.prems(2) by simp
  note tk = take_delta_ok [OF laws a td]
  have "counter_fits (cum contents t k + car hdr contents ds k)" for k
    using Cons.prems(3) [of k] by (rule counter_fits_mono) (simp add: tk(4))
  note mg = merge_delta_ok [OF laws Cons.prems(1) tk(5) this]
  have "counter_fits (cum contents (merge_delta hdr ds t) k + sum_list (map (\<lambda>a. unf contents a k) sh))" for k
    using Cons.prems(3) [of k] by (simp add: mg tk(4) add.assoc)
  from Cons.IH [OF mg(1) _ this dr] Cons.prems(2)
  have IH: "agg_ok contents kinds t''" "length sh'' = length sh"
    "\<forall>a' \<in> set sh''. agg_ok contents kinds a' \<and> (\<forall>k. unf contents a' k = {#}) \<and>
       (\<exists>a \<in> set sh. \<forall>k. cum contents a' k = cum contents a k)"
    "\<And>k. cum contents t'' k = cum contents (merge_delta hdr ds t) k + sum_list (map (\<lambda>a. unf contents a k) sh)"
    by (simp_all del: split_paired_All)
  then show ?case using tk mg unfolding out by (auto simp: add.assoc simp del: split_paired_All)
qed simp

definition shards_inv :: "('h \<Rightarrow> nat multiset) \<Rightarrow> (string \<Rightarrow> metric_kind) \<Rightarrow> (series_key \<Rightarrow> mark multiset) \<Rightarrow> 'h shards \<times> 'h aggregator \<Rightarrow> bool" where
  "shards_inv contents kinds R st \<longleftrightarrow>
     fst st \<noteq> [] \<and> agg_ok contents kinds (snd st) \<and>
     (\<forall>a \<in> set (fst st). agg_ok contents kinds a \<and> (\<forall>k. cum contents a k \<subseteq># R k)) \<and>
     (\<forall>k. cum contents (snd st) k + sum_list (map (\<lambda>a. unf contents a k) (fst st)) = R k)"

fun shard_op_marks :: "(nat \<Rightarrow> nat) \<Rightarrow> shard_op \<Rightarrow> series_key \<Rightarrow> mark multiset" where
  "shard_op_marks bucket (ShRecord _ sm) k = sample_at bucket sm k"
| "shard_op_marks bucket ShDrain k = {#}"

lemma shard_step_inv:
  assumes laws: "hdr_laws hdr bucket contents quant" and st: "shards_inv contents kinds R st"
    and sm: "\<And>i sm. op = ShRecord i sm \<Longrightarrow> sample_ok kinds sm" and fits: "\<And>k. counter_fits (R k + shard_op_marks bucket op k)"
  shows "shards_inv contents kinds (\<lambda>k. R k + shard_op_marks bucket op k) (shard_step hdr op st)"
proof (cases op)
  case (ShRecord idx sm')
  obtain sh t where [simp]: "st = (sh, t)" by (cases st)
  define i where "i = idx mod length sh"
  have ne: "sh \<noteq> []" and t: "agg_ok contents kinds t"
    and each: "\<And>a k. a \<in> set sh \<Longrightarrow> agg_ok contents kinds a \<and> cum contents a k \<subseteq># R k"
    and books: "\<And>k. cum contents t k + sum_list (map (\<lambda>a. unf contents a k) sh) = R k"
    using st by (auto simp: shards_inv_def)
  have i: "i < length sh" using ne by (simp add: i_def)
  have "counter_fits (cum contents (sh ! i) k + sample_at bucket sm' k)" for k
    using fits [of k] each [of "sh ! i" k] i by (auto intro: counter_fits_mono simp: ShRecord)
  note r = agg_record_ok [OF laws _ sm [OF ShRecord] this]
  have ri: "agg_ok contents kinds (sh ! i)" using each i by simp
  let ?sh = "sh[i := agg_record hdr sm' (sh ! i)]"
  have "agg_ok contents kinds a \<and> (\<forall>k. cum contents a k \<subseteq># R k + sample_at bucket sm' k)" if "a \<in> set ?sh" for a
  proof (cases "a \<in> set sh")
    case True
    then show ?thesis using each [of a] by (blast intro: subset_mset.order_trans [OF _ mset_subset_eq_add_left])
  next
    case False
    then have "a = agg_record hdr sm' (sh ! i)" using set_update_subset_insert [of sh i "agg_record hdr sm' (sh ! i)"] that by blast
    then show ?thesis using r(1,2) [OF ri] each [OF nth_mem [OF i]] by simp
  qed
  moreover have "cum contents t k + sum_list (map (\<lambda>a. unf contents a k) ?sh) = R k + sample_at bucket sm' k" for k
    using sum_list_update_mset [OF i, of "\<lambda>a. unf contents a k" "agg_record hdr sm' (sh ! i)"] r(3) [OF ri, of k]
    by (simp flip: books add: ac_simps)
  ultimately show ?thesis using ne t
    by (auto simp: ShRecord shards_inv_def shards_record_def Let_def i_def [symmetric] simp del: split_paired_All)
next
  case ShDrain
  obtain sh t where s: "st = (sh, t)" by (cases st)
  obtain sh' t' where d: "drain_into hdr sh t = (sh', t')" by (metis surj_pair)
  have books: "\<And>k. cum contents t k + sum_list (map (\<lambda>a. unf contents a k) sh) = R k"
    using st by (simp add: shards_inv_def s del: split_paired_All)
  have z: "sum_list (map (\<lambda>a. unf contents a k) sh') = {#}" if "\<forall>a \<in> set sh'. unf contents a k = {#}" for k
    using that by (induction sh') auto
  have "counter_fits (cum contents t k + sum_list (map (\<lambda>a. unf contents a k) sh))" for k
    using fits [of k] by (simp add: books ShDrain)
  from drain_into_ok [OF laws _ _ this d, of kinds] st show ?thesis
    unfolding shards_inv_def s ShDrain by (auto simp: d z simp del: split_paired_All) (metis+)?
qed

lemma shard_run_inv:
  assumes laws: "hdr_laws hdr bucket contents quant"
  shows "shards_inv contents kinds R st \<Longrightarrow> (\<And>sm. sm \<in> set (shard_samples ops) \<Longrightarrow> sample_ok kinds sm) \<Longrightarrow>
    (\<And>k. counter_fits (R k + sum_list (map (\<lambda>sm. sample_at bucket sm k) (shard_samples ops)))) \<Longrightarrow>
    shards_inv contents kinds (\<lambda>k. R k + sum_list (map (\<lambda>sm. sample_at bucket sm k) (shard_samples ops)))
      (fold (shard_step hdr) ops st)"
proof (induction ops arbitrary: R st)
  case (Cons op ops)
  have ss: "sum_list (map (\<lambda>sm. sample_at bucket sm k) (shard_samples (op # ops))) =
    shard_op_marks bucket op k + sum_list (map (\<lambda>sm. sample_at bucket sm k) (shard_samples ops))" for k
    by (cases op) simp_all
  have "counter_fits (R k + shard_op_marks bucket op k)" for k
    using Cons.prems(3) [of k] by (rule counter_fits_mono) (simp add: ss)
  moreover have "sample_ok kinds sm" if "op = ShRecord i sm" for i sm using Cons.prems(2) [of sm] that by simp
  ultimately have "shards_inv contents kinds (\<lambda>k. R k + shard_op_marks bucket op k) (shard_step hdr op st)"
    using Cons.prems(1) by (intro shard_step_inv [OF laws])
  moreover have "sample_ok kinds sm" if "sm \<in> set (shard_samples ops)" for sm
    using Cons.prems(2) [of sm] that by (cases op) simp_all
  moreover have "counter_fits (R k + shard_op_marks bucket op k + sum_list (map (\<lambda>sm. sample_at bucket sm k) (shard_samples ops)))" for k
    using Cons.prems(3) [of k] by (simp add: ss add.assoc)
  ultimately have "shards_inv contents kinds
      (\<lambda>k. R k + shard_op_marks bucket op k + sum_list (map (\<lambda>sm. sample_at bucket sm k) (shard_samples ops)))
      (fold (shard_step hdr) ops (shard_step hdr op st))" by (rule Cons.IH)
  then show ?case by (simp add: ss add.assoc)
qed simp

lemma record_all_ok:
  assumes laws: "hdr_laws hdr bucket contents quant"
  shows "agg_ok contents kinds a \<Longrightarrow> (\<And>sm. sm \<in> set sms \<Longrightarrow> sample_ok kinds sm) \<Longrightarrow>
    (\<And>k. counter_fits (cum contents a k + sum_list (map (\<lambda>sm. sample_at bucket sm k) sms))) \<Longrightarrow>
    agg_ok contents kinds (fold (agg_record hdr) sms a) \<and>
    (\<forall>k. cum contents (fold (agg_record hdr) sms a) k = cum contents a k + sum_list (map (\<lambda>sm. sample_at bucket sm k) sms))"
proof (induction sms arbitrary: a)
  case (Cons sm sms)
  have "counter_fits (cum contents a k + sample_at bucket sm k)" for k
    using Cons.prems(3) [of k] by (rule counter_fits_mono) simp
  note r = agg_record_ok [OF laws Cons.prems(1) Cons.prems(2) [of sm] this]
  have "counter_fits (cum contents (agg_record hdr sm a) k + sum_list (map (\<lambda>sm. sample_at bucket sm k) sms))" for k
    using Cons.prems(3) [of k] by (simp add: r(2) add.assoc)
  with Cons.IH [of "agg_record hdr sm a"] Cons.prems(2) r(1)
  show ?case by (simp add: r(2) add.assoc del: split_paired_All)
qed simp

text \<open>
  C22: recording into shards and draining them gives what recording into one aggregator would have
  given. After any interleaving of records on the shards and drains, ended by a drain, every counter
  total, every rate and every quantile of a trend in the target is that of the aggregator that
  recorded the same samples directly; a series only one of the two has is empty.
\<close>

theorem sharded_equals_direct:
  assumes "hdr_laws hdr bucket contents quant" "\<And>sm. sm \<in> set (shard_samples ops) \<Longrightarrow> sample_ok kinds sm"
    "\<And>k. counter_fits (sum_list (map (\<lambda>sm. sample_at bucket sm k) (shard_samples ops)))"
    "target = snd (fold (shard_step hdr) (ops @ [ShDrain]) (shards_new now n, agg_new now))"
    "direct = fold (agg_record hdr) (shard_samples ops) (agg_new now)"
  shows "cum contents target k = cum contents direct k \<and>
    (map_of (ag_series target) k = Some s \<longrightarrow> map_of (ag_series direct) k = Some d \<longrightarrow> view hdr (s_data s) = view hdr (s_data d))"
proof -
  let ?R = "\<lambda>k. sum_list (map (\<lambda>sm. sample_at bucket sm k) (shard_samples ops))"
  have "shards_inv contents kinds (\<lambda>k. {#}) (shards_new now n, agg_new now)"
    unfolding shards_inv_def shards_new_def by (auto simp: max_def)
  then have "shards_inv contents kinds (\<lambda>k. {#} + ?R k) (fold (shard_step hdr) ops (shards_new now n, agg_new now))"
    by (rule shard_run_inv [OF assms(1)]) (use assms(2,3) in auto)
  then have inv: "shards_inv contents kinds ?R (fold (shard_step hdr) ops (shards_new now n, agg_new now))" by simp
  obtain sh t where st: "fold (shard_step hdr) ops (shards_new now n, agg_new now) = (sh, t)" by (metis surj_pair)
  obtain sh' where d: "drain_into hdr sh t = (sh', target)" using assms(4) by (cases "drain_into hdr sh t") (simp add: st)
  have b: "agg_ok contents kinds t" "\<And>a. a \<in> set sh \<Longrightarrow> agg_ok contents kinds a"
    "cum contents t k + sum_list (map (\<lambda>a. unf contents a k) sh) = ?R k" for k
    using inv by (auto simp: st shards_inv_def simp del: split_paired_All)
  have "counter_fits (cum contents t k + sum_list (map (\<lambda>a. unf contents a k) sh))" for k unfolding b by (rule assms)
  from drain_into_ok [OF assms(1) b(1,2) this d]
  have T: "agg_ok contents kinds target" "cum contents target k = ?R k" using b(3) by (simp_all del: split_paired_All)
  from record_all_ok [OF assms(1) agg_ok_new [of contents kinds now] assms(2)] assms(3)
  have D: "agg_ok contents kinds direct" "cum contents direct k = ?R k" by (simp_all add: assms(5) del: split_paired_All)
  have "view hdr (s_data s) = view hdr (s_data d)"
    if "map_of (ag_series target) k = Some s" "map_of (ag_series direct) k = Some d"
    using T(2) D(2) that by (intro view_determined [OF assms(1) agg_okD [OF T(1) that(1)] agg_okD [OF D(1) that(2)]]) (simp add: cum_def)
  then show ?thesis using T D by simp
qed

definition latency_sample :: "rat \<Rightarrow> sample" where
  "latency_sample v = \<lparr>sm_metric = ''http_req_duration'', sm_kind = Trend, sm_value = Fin v, sm_tags = [], sm_timestamp = 0\<rparr>"

theorem sharded_equals_direct_witness:
  "cum char_contents (snd (fold (shard_step char_hdr) ([ShRecord 0 (latency_sample 1), ShDrain, ShRecord 1 (latency_sample 2)] @ [ShDrain])
      (shards_new 0 2, agg_new 0))) (''http_req_duration'', []) =
   cum char_contents (fold (agg_record char_hdr) [latency_sample 1, latency_sample 2] (agg_new 0)) (''http_req_duration'', [])"
proof -
  let ?ops = "[ShRecord 0 (latency_sample 1), ShDrain, ShRecord 1 (latency_sample 2)]"
  have m: "count (sum_list (map (\<lambda>sm. sample_at char_bucket sm k) (shard_samples ?ops))) MUnit = 0" for k
    by (simp add: sample_at_def sample_marks_def latency_sample_def)
  have f: "counter_fits (sum_list (map (\<lambda>sm. sample_at char_bucket sm k) (shard_samples ?ops)))" for k
    unfolding counter_fits_def m by simp
  have ok: "sample_ok (\<lambda>_. Trend) sm" if "sm \<in> set (shard_samples ?ops)" for sm
    using that by (auto simp: sample_ok_def latency_sample_def)
  show ?thesis using sharded_equals_direct [OF char_hdr_laws ok f refl refl, where now = 0 and n = 2 and k = "(''http_req_duration'', [])"]
    by simp
qed

text \<open>
  Gauges are not conserved by \<open>drain_into\<close>: \<open>take_delta\<close> emits the last value of a gauge again on
  every drain, so the stale value of a later shard overwrites a newer one of an earlier shard.
\<close>

definition depth_sample :: "rat \<Rightarrow> sample" where
  "depth_sample v = \<lparr>sm_metric = ''queue_depth'', sm_kind = Gauge, sm_value = Fin v, sm_tags = [], sm_timestamp = 0\<rparr>"

definition last_gauge :: "'h aggregator \<Rightarrow> series_key \<Rightarrow> f64 option" where
  "last_gauge a k =
     (case map_of (ag_series a) k of
        Some s \<Rightarrow> (case s_data s of SGauge v _ _ _ \<Rightarrow> Some v | _ \<Rightarrow> None)
      | None \<Rightarrow> None)"

lemma stale_gauge_wins:
  "last_gauge (snd (fold (shard_step char_hdr) [ShRecord 1 (depth_sample 1), ShDrain, ShRecord 0 (depth_sample 5), ShDrain]
     (shards_new 0 2, agg_new 0))) (''queue_depth'', []) = Some (Fin 1)"
  "last_gauge (fold (agg_record char_hdr) [depth_sample 1, depth_sample 5] (agg_new 0)) (''queue_depth'', []) = Some (Fin 5)"
  by (code_simp, code_simp)

end
