(* ===== verification/Rust_Str.thy ===== *)
theory Rust_Str
  imports F64 "HOL-Library.Sublist"
begin

text \<open>
  The operations of Rust's \<open>str\<close> that the configuration language uses, on byte strings of ASCII
  text: trimming, searching, splitting, stripping, and the parser of \<open>f64\<close> with its documented
  grammar. A float literal is read as the exact rational it denotes and rounded once.
\<close>

section \<open>Trimming\<close>

definition is_ws :: "char \<Rightarrow> bool" where
  "is_ws c \<longleftrightarrow> c = CHR '' '' \<or> c = CHR 0x09 \<or> c = CHR 0x0A \<or> c = CHR 0x0B \<or> c = CHR 0x0C \<or> c = CHR 0x0D"

definition trim_start :: "string \<Rightarrow> string" where
  "trim_start s = dropWhile is_ws s"

definition trim_end :: "string \<Rightarrow> string" where
  "trim_end s = rev (dropWhile is_ws (rev s))"

definition trim :: "string \<Rightarrow> string" where
  "trim s = trim_end (trim_start s)"

definition trimmed :: "string \<Rightarrow> bool" where
  "trimmed s \<longleftrightarrow> s = [] \<or> \<not> is_ws (hd s) \<and> \<not> is_ws (last s)"

lemma trim_Nil [simp]: "trim [] = []"
  by (simp add: trim_def trim_start_def trim_end_def)

lemma dropWhile_hd: "s \<noteq> [] \<Longrightarrow> \<not> P (hd s) \<Longrightarrow> dropWhile P s = s"
  by (cases s) auto

lemma trimmed_trim_id [simp]: "trimmed s \<Longrightarrow> trim s = s"
  by (cases "s = []")
    (auto simp: trimmed_def trim_def trim_start_def trim_end_def dropWhile_hd [of _ is_ws] hd_rev)

lemma trimmed_trim [simp]: "trimmed (trim s)"
proof -
  define t where "t = dropWhile is_ws s"
  have hd_t: "t \<noteq> [] \<Longrightarrow> \<not> is_ws (hd t)" using hd_dropWhile [of is_ws s] by (simp add: t_def)
  have e: "trim s = rev (dropWhile is_ws (rev t))" by (simp add: trim_def trim_start_def trim_end_def t_def)
  show ?thesis
  proof (cases "dropWhile is_ws (rev t) = []")
    case True
    then show ?thesis by (simp add: trimmed_def e)
  next
    case False
    obtain pre where pre: "rev t = pre @ dropWhile is_ws (rev t)" by (metis takeWhile_dropWhile_id)
    then have "t = rev (dropWhile is_ws (rev t)) @ rev pre" by (metis rev_append rev_rev_ident)
    then have "hd t = hd (rev (dropWhile is_ws (rev t)))" using False by (metis hd_append2 rev_is_Nil_conv)
    moreover have "t \<noteq> []" using False by auto
    ultimately show ?thesis
      using hd_t False hd_dropWhile [OF False] by (simp add: trimmed_def e last_rev)
  qed
qed

lemma trim_idem [simp]: "trim (trim s) = trim s"
  by simp

lemma trim_set: "set (trim s) \<subseteq> set s"
  by (auto simp: trim_def trim_start_def trim_end_def dest!: set_dropWhileD)

section \<open>Searching and splitting\<close>

text \<open>\<open>str::find\<close> of a pattern string and \<open>str::rfind\<close> of a character.\<close>

fun find_str :: "string \<Rightarrow> string \<Rightarrow> nat option" where
  "find_str pat [] = (if pat = [] then Some 0 else None)"
| "find_str pat (c # s) =
     (if prefix pat (c # s) then Some 0 else map_option Suc (find_str pat s))"

fun find_char :: "char \<Rightarrow> string \<Rightarrow> nat option" where
  "find_char c [] = None"
| "find_char c (d # s) = (if c = d then Some 0 else map_option Suc (find_char c s))"

definition rfind_char :: "char \<Rightarrow> string \<Rightarrow> nat option" where
  "rfind_char c s = map_option (\<lambda>i. length s - 1 - i) (find_char c (rev s))"

fun split_char :: "char \<Rightarrow> string \<Rightarrow> string list" where
  "split_char c [] = [[]]"
| "split_char c (d # s) =
     (if d = c then [] # split_char c s
      else case split_char c s of [] \<Rightarrow> [[d]] | w # ws \<Rightarrow> (d # w) # ws)"

definition split_once :: "char \<Rightarrow> string \<Rightarrow> (string \<times> string) option" where
  "split_once c s = map_option (\<lambda>i. (take i s, drop (i + 1) s)) (find_char c s)"

definition str_strip_prefix :: "string \<Rightarrow> string \<Rightarrow> string option" where
  "str_strip_prefix p s = (if prefix p s then Some (drop (length p) s) else None)"

definition str_strip_suffix :: "string \<Rightarrow> string \<Rightarrow> string option" where
  "str_strip_suffix p s = (if suffix p s then Some (take (length s - length p) s) else None)"

fun join :: "string \<Rightarrow> string list \<Rightarrow> string" where
  "join sep [] = []"
| "join sep [w] = w"
| "join sep (w # ws) = w @ sep @ join sep ws"

lemma split_char_ne [simp]: "split_char c s \<noteq> []"
  by (induction s) (auto split: list.splits)

lemma split_char_join: "join [c] (split_char c s) = s"
proof (induction s)
  case (Cons d s)
  obtain w ws where s: "split_char c s = w # ws" by (cases "split_char c s") auto
  with Cons show ?case by (cases ws) auto
qed simp

lemma split_char_none: "c \<notin> set s \<Longrightarrow> split_char c s = [s]"
  by (induction s) auto

lemma split_char_append:
  "c \<notin> set w \<Longrightarrow> split_char c (w @ c # s) = w # split_char c s"
  by (induction w) auto

lemma split_join:
  "ws \<noteq> [] \<Longrightarrow> \<forall>w \<in> set ws. c \<notin> set w \<Longrightarrow> split_char c (join [c] ws) = ws"
proof (induction ws)
  case (Cons w ws)
  then show ?case by (cases ws) (simp_all add: split_char_none split_char_append)
qed simp

lemma find_char_None: "find_char c s = None \<longleftrightarrow> c \<notin> set s"
  by (induction s) auto

lemma find_char_append: "c \<notin> set w \<Longrightarrow> find_char c (w @ c # s) = Some (length w)"
  by (induction w) auto

lemma find_char_Some:
  "find_char c s = Some i \<Longrightarrow> i < length s \<and> s ! i = c \<and> c \<notin> set (take i s) \<and> s = take i s @ c # drop (i + 1) s"
proof (induction s arbitrary: i)
  case (Cons d s)
  then show ?case by (cases "c = d"; cases i) auto
qed simp

lemma split_once_append: "c \<notin> set w \<Longrightarrow> split_once c (w @ c # s) = Some (w, s)"
  by (simp add: split_once_def find_char_append)

lemma rfind_char_append: "c \<notin> set s \<Longrightarrow> rfind_char c (w @ c # s) = Some (length w)"
  using find_char_append [of c "rev s" "rev w"] by (simp add: rfind_char_def)

lemma find_str_Some:
  "find_str pat s = Some i \<Longrightarrow> i \<le> length s \<and> prefix pat (drop i s)"
  by (induction s arbitrary: i) (auto split: if_splits)

lemma find_str_first:
  "find_str pat s = Some i \<Longrightarrow> j < i \<Longrightarrow> \<not> prefix pat (drop j s)"
proof (induction s arbitrary: i j)
  case (Cons c s)
  then show ?case by (cases j) (auto split: if_splits)
qed (auto split: if_splits)

lemma find_str_None:
  "find_str pat s = None \<Longrightarrow> \<not> prefix pat (drop j s)"
proof (induction s arbitrary: j)
  case (Cons c s)
  then show ?case by (cases j) (auto split: if_splits)
qed (auto split: if_splits)

lemma str_strip_prefix_append [simp]: "str_strip_prefix p (p @ s) = Some s"
  by (simp add: str_strip_prefix_def)

lemma str_strip_suffix_append [simp]: "str_strip_suffix p (s @ p) = Some s"
  by (simp add: str_strip_suffix_def suffix_def)

section \<open>Letters and digits\<close>

definition ascii_digit :: "char \<Rightarrow> bool" where
  "ascii_digit c \<longleftrightarrow> 48 \<le> (of_char c :: nat) \<and> (of_char c :: nat) \<le> 57"

definition to_lower :: "char \<Rightarrow> char" where
  "to_lower c = (if 65 \<le> (of_char c :: nat) \<and> (of_char c :: nat) \<le> 90 then char_of ((of_char c :: nat) + 32) else c)"

definition to_ascii_lowercase :: "string \<Rightarrow> string" where
  "to_ascii_lowercase s = map to_lower s"

definition digit_val :: "char \<Rightarrow> nat" where
  "digit_val c = of_char c - 48"

definition dec_val :: "string \<Rightarrow> nat" where
  "dec_val ds = foldl (\<lambda>n c. 10 * n + digit_val c) 0 ds"

section \<open>\<open>str::parse::<f64>\<close>\<close>

definition digits :: "string \<Rightarrow> string \<times> string" where
  "digits s = (takeWhile ascii_digit s, dropWhile ascii_digit s)"

fun take_sign :: "string \<Rightarrow> bool \<times> string" where
  "take_sign (c # s) = (if c = CHR ''-'' then (True, s) else if c = CHR ''+'' then (False, s) else (False, c # s))"
| "take_sign [] = (False, [])"

definition parse_exponent :: "string \<Rightarrow> int option" where
  "parse_exponent s =
     (case s of
        [] \<Rightarrow> Some 0
      | c # r \<Rightarrow>
          if to_lower c = CHR ''e''
          then (let (neg, r') = take_sign r; (ep, rest) = digits r'
                in if ep = [] \<or> rest \<noteq> [] then None
                   else Some (if neg then - int (dec_val ep) else int (dec_val ep)))
          else None)"

fun parse_fraction :: "string \<Rightarrow> string \<times> string" where
  "parse_fraction (c # s) = (if c = CHR ''.'' then digits s else ([], c # s))"
| "parse_fraction [] = ([], [])"

definition parse_number :: "string \<Rightarrow> rat option" where
  "parse_number s =
     (let (ip, r1) = digits s; (fp, r2) = parse_fraction r1
      in if ip = [] \<and> fp = [] then None
         else map_option (\<lambda>e. of_nat (dec_val (ip @ fp)) * 10 powi (e - int (length fp))) (parse_exponent r2))"

definition parse_f64 :: "string \<Rightarrow> f64 option" where
  "parse_f64 s =
     (let (neg, body) = take_sign s; low = to_ascii_lowercase body
      in if low = ''inf'' \<or> low = ''infinity'' then Some (if neg then NInf else PInf)
         else if low = ''nan'' then Some NaN
         else map_option (\<lambda>v. rnd (if neg then - v else v)) (parse_number body))"

lemma parse_number_ends:
  assumes "s \<noteq> []" "\<not> ascii_digit (last s)" "last s \<noteq> CHR ''.''"
  shows "parse_number s = None"
proof (rule ccontr)
  assume "parse_number s \<noteq> None"
  define ip r1 where "ip = takeWhile ascii_digit s" and "r1 = dropWhile ascii_digit s"
  obtain fp r2 where f: "parse_fraction r1 = (fp, r2)" by (metis surj_pair)
  have e: "parse_exponent r2 \<noteq> None"
    using \<open>parse_number s \<noteq> None\<close>
    by (auto simp: parse_number_def digits_def r1_def [symmetric] f split: if_splits)
  have s: "s = ip @ r1" by (simp add: ip_def r1_def)
  have lip: "ip \<noteq> [] \<Longrightarrow> ascii_digit (last ip)" unfolding ip_def by (meson last_in_set set_takeWhileD)
  have r1: "r1 \<noteq> []" "last r1 = last s" using s assms(2) lip assms(1) by (cases r1; auto)+
  obtain c r where c: "r1 = c # r" using r1(1) by (cases r1) auto
  have "r2 \<noteq> [] \<and> last r2 = last s"
  proof (cases "c = CHR ''.''")
    case True
    then have r2: "r2 = dropWhile ascii_digit r" using f by (simp add: c digits_def)
    have ne: "r \<noteq> []" using r1 c assms(3) True by auto
    have "r = takeWhile ascii_digit r @ r2" by (simp add: r2)
    moreover have "takeWhile ascii_digit r \<noteq> [] \<Longrightarrow> ascii_digit (last (takeWhile ascii_digit r))"
      by (meson last_in_set set_takeWhileD)
    moreover have "last r = last s" using r1(2) c ne by simp
    ultimately show ?thesis using assms(2) ne by (metis append_Nil2 last_append)
  next
    case False
    then show ?thesis using r1 c f by auto
  qed
  then obtain d t where d: "r2 = d # t" "last (d # t) = last s" by (cases r2) auto
  obtain neg t' where t': "take_sign t = (neg, t')" by (metis surj_pair)
  have all: "to_lower d = CHR ''e''" "takeWhile ascii_digit t' \<noteq> []" "dropWhile ascii_digit t' = []"
    using e by (auto simp: parse_exponent_def d t' digits_def Let_def split: if_splits)
  have "t' \<noteq> []" using all(2) by auto
  moreover have "last t = last t'" using t' \<open>t' \<noteq> []\<close> by (cases t) (auto split: if_splits)
  moreover have "t \<noteq> []" using t' \<open>t' \<noteq> []\<close> by (cases t) auto
  moreover have "\<forall>x \<in> set t'. ascii_digit x" using all(3) by (simp add: dropWhile_eq_Nil_conv)
  ultimately show False using assms(2) d(2) last_in_set [of t'] by (metis last_ConsR)
qed

section \<open>Printing numbers\<close>

definition digit_char :: "nat \<Rightarrow> char" where
  "digit_char d = char_of (48 + d)"

fun show_nat :: "nat \<Rightarrow> string" where
  "show_nat n = (if n < 10 then [digit_char n] else show_nat (n div 10) @ [digit_char (n mod 10)])"

declare show_nat.simps [simp del]

definition show_int :: "int \<Rightarrow> string" where
  "show_int i = (if i < 0 then CHR ''-'' # show_nat (nat (- i)) else show_nat (nat i))"

lemma of_char_digit_char [simp]: "d < 10 \<Longrightarrow> (of_char (digit_char d) :: nat) = 48 + d"
  by (simp add: digit_char_def)

lemma ascii_digit_char [simp]: "d < 10 \<Longrightarrow> ascii_digit (digit_char d)"
  by (simp add: ascii_digit_def)

lemma digit_val_char [simp]: "d < 10 \<Longrightarrow> digit_val (digit_char d) = d"
  by (simp add: digit_val_def)

lemma dec_val_snoc [simp]: "dec_val (ds @ [c]) = 10 * dec_val ds + digit_val c"
  by (simp add: dec_val_def)

lemma dec_val_Nil [simp]: "dec_val [] = 0"
  by (simp add: dec_val_def)

lemma dec_val_append: "dec_val (xs @ ys) = dec_val xs * 10 ^ length ys + dec_val ys"
  by (induction ys rule: rev_induct) (simp_all flip: append_assoc add: algebra_simps)

lemma dec_val_show_nat [simp]: "dec_val (show_nat n) = n"
proof (induction n rule: show_nat.induct)
  case (1 n)
  show ?case
  proof (cases "n < 10")
    case True
    then show ?thesis by (simp add: show_nat.simps [of n] dec_val_def)
  next
    case False
    then show ?thesis using 1 by (simp add: show_nat.simps [of n])
  qed
qed

lemma show_nat_digits: "\<forall>c \<in> set (show_nat n). ascii_digit c"
proof (induction n rule: show_nat.induct)
  case (1 n)
  then show ?case by (subst show_nat.simps) auto
qed

lemma show_nat_ne [simp]: "show_nat n \<noteq> []"
  by (subst show_nat.simps) simp

text \<open>
  \<open>Display\<close> of a finite \<open>f64\<close>: the shortest decimal that reads back as the same value, written
  without an exponent. \<open>cand q e\<close> is the integer nearest to \<open>q / 10^e\<close> whose decimal reads back
  as \<open>q\<close>, if there is one; the largest such \<open>e\<close> gives the fewest digits.
\<close>

definition reads_back :: "rat \<Rightarrow> int \<Rightarrow> int \<Rightarrow> bool" where
  "reads_back q e c \<longleftrightarrow> rnd (of_int c * 10 powi e) = Fin q"

definition cand :: "rat \<Rightarrow> int \<Rightarrow> int option" where
  "cand q e =
     (let c = \<lfloor>q / 10 powi e\<rfloor>
      in if reads_back q e c \<and> (\<not> reads_back q e (c + 1) \<or> q / 10 powi e - of_int c \<le> 1/2) then Some c
         else if reads_back q e (c + 1) then Some (c + 1) else None)"

definition decimal_exponents :: "int list" where
  "decimal_exponents = map (\<lambda>i. 309 - int i) [0..<1384]"

definition shortest :: "rat \<Rightarrow> (int \<times> int) option" where
  "shortest q =
     map_option (\<lambda>e. (the (cand q e), e)) (List.find (\<lambda>e. cand q e \<noteq> None) decimal_exponents)"

definition pad_left :: "nat \<Rightarrow> string \<Rightarrow> string" where
  "pad_left n s = replicate (n - length s) CHR ''0'' @ s"

definition strip_zeros :: "string \<Rightarrow> string" where
  "strip_zeros s = rev (dropWhile (\<lambda>c. c = CHR ''0'') (rev s))"

definition show_decimal :: "nat \<Rightarrow> int \<Rightarrow> string" where
  "show_decimal c e =
     (if 0 \<le> e then show_nat c @ replicate (nat e) CHR ''0''
      else let k = nat (- e); fr = strip_zeros (pad_left k (show_nat (c mod 10 ^ k)))
           in show_nat (c div 10 ^ k) @ (if fr = [] then [] else CHR ''.'' # fr))"

definition show_f64 :: "f64 \<Rightarrow> string" where
  "show_f64 x =
     (case x of
        NaN \<Rightarrow> ''NaN'' | PInf \<Rightarrow> ''inf'' | NInf \<Rightarrow> ''-inf''
      | Fin q \<Rightarrow>
          if q = 0 then ''0''
          else (case shortest \<bar>q\<bar> of
                  None \<Rightarrow> []
                | Some (c, e) \<Rightarrow> (if q < 0 then ''-'' else []) @ show_decimal (nat c) e))"

section \<open>A printed \<open>f64\<close> reads back as itself\<close>

lemma not_digit [simp]: "\<not> ascii_digit CHR ''.''" "\<not> ascii_digit CHR ''-''" "\<not> ascii_digit CHR ''+''"
  by (simp_all add: ascii_digit_def)

lemma zero_digit [simp]: "ascii_digit CHR ''0''" "digit_val CHR ''0'' = 0"
  by (simp_all add: ascii_digit_def digit_val_def)

lemma digits_all: "\<forall>c \<in> set s. ascii_digit c \<Longrightarrow> digits s = (s, [])"
  by (simp add: digits_def takeWhile_eq_all_conv dropWhile_eq_Nil_conv)

lemma digits_stop: "\<forall>c \<in> set s. ascii_digit c \<Longrightarrow> \<not> ascii_digit c \<Longrightarrow> digits (s @ c # r) = (s, c # r)"
  by (simp add: digits_def)

lemma parse_number_digits:
  "\<forall>c \<in> set s. ascii_digit c \<Longrightarrow> s \<noteq> [] \<Longrightarrow> parse_number s = Some (of_nat (dec_val s))"
  by (simp add: parse_number_def digits_all parse_exponent_def)

lemma parse_number_point:
  "\<forall>c \<in> set (ip @ fr). ascii_digit c \<Longrightarrow> ip \<noteq> [] \<Longrightarrow>
   parse_number (ip @ CHR ''.'' # fr) = Some (of_nat (dec_val (ip @ fr)) * 10 powi (- int (length fr)))"
  by (simp add: parse_number_def digits_stop digits_all parse_exponent_def ball_Un)

lemma to_lower_digit: "ascii_digit c \<Longrightarrow> to_lower c = c"
  by (simp add: to_lower_def ascii_digit_def)

lemma parse_f64_body:
  assumes "s \<noteq> []" "ascii_digit (hd s)"
  shows "parse_f64 s = map_option rnd (parse_number s)"
    "parse_f64 (CHR ''-'' # s) = map_option (\<lambda>v. rnd (- v)) (parse_number s)"
proof -
  obtain c r where s: "s = c # r" "ascii_digit c" using assms by (cases s) auto
  have c: "c \<noteq> CHR ''-''" "c \<noteq> CHR ''+''" using s(2) by auto
  have l: "to_lower c = c" "c \<noteq> CHR ''i''" "c \<noteq> CHR ''n''"
    using s(2) to_lower_digit by (auto simp: ascii_digit_def)
  show "parse_f64 s = map_option rnd (parse_number s)"
    "parse_f64 (CHR ''-'' # s) = map_option (\<lambda>v. rnd (- v)) (parse_number s)"
    using c l by (simp_all add: parse_f64_def s(1) to_ascii_lowercase_def Let_def)
qed

lemma dec_val_zeros: "dec_val (s @ replicate n CHR ''0'') = dec_val s * 10 ^ n"
proof -
  have "dec_val (replicate n CHR ''0'') = 0"
  proof (induction n)
    case (Suc n)
    have "replicate (Suc n) CHR ''0'' = replicate n CHR ''0'' @ [CHR ''0'']" by (simp add: replicate_append_same)
    then show ?case using Suc by (simp only: dec_val_snoc) simp
  qed simp
  then show ?thesis by (simp add: dec_val_append)
qed

lemma dec_val_zeros_left [simp]: "dec_val (replicate n CHR ''0'' @ s) = dec_val s"
  using dec_val_zeros [of "[]" n] by (simp add: dec_val_append)

lemma strip_zeros_split: "\<exists>z. s = strip_zeros s @ replicate z CHR ''0''"
proof -
  let ?w = "takeWhile (\<lambda>c. c = CHR ''0'') (rev s)"
  have "?w = replicate (length ?w) CHR ''0''" by (rule replicate_eqI) (auto dest: set_takeWhileD)
  then have "rev ?w = replicate (length ?w) CHR ''0''" by (metis rev_replicate)
  moreover have "s = strip_zeros s @ rev ?w"
    unfolding strip_zeros_def by (metis rev_append rev_rev_ident takeWhile_dropWhile_id)
  ultimately show ?thesis by metis
qed

lemma length_show_nat: "n < 10 ^ k \<Longrightarrow> 0 < k \<Longrightarrow> length (show_nat n) \<le> k"
proof (induction k arbitrary: n)
  case (Suc k)
  show ?case
  proof (cases "n < 10")
    case True
    then show ?thesis by (subst show_nat.simps) simp
  next
    case False
    then have "0 < k" using Suc.prems by (cases k) auto
    moreover have "n div 10 < 10 ^ k" using Suc.prems(1) by (simp add: less_mult_imp_div_less mult.commute)
    ultimately have "length (show_nat (n div 10)) \<le> k" by (rule Suc.IH [rotated])
    then show ?thesis using False by (subst show_nat.simps) simp
  qed
qed simp

lemma show_decimal_parse:
  "parse_number (show_decimal c e) = Some (of_nat c * 10 powi e)" (is ?parse)
  "show_decimal c e \<noteq> [] \<and> ascii_digit (hd (show_decimal c e))" (is ?start)
proof -
  have hd_nat: "ascii_digit (hd (show_nat n))" for n using show_nat_digits [of n] by (metis show_nat_ne list.set_sel(1))
  show ?start by (auto simp: show_decimal_def Let_def hd_append hd_nat)
  show ?parse
  proof (cases "0 \<le> e")
    case True
    then show ?thesis
      using show_nat_digits [of c]
      by (subst parse_number_digits) (auto simp: show_decimal_def dec_val_zeros power_int_def)
  next
    case False
    define k where "k = nat (- e)"
    define p where "p = pad_left k (show_nat (c mod 10 ^ k))"
    define fr where "fr = strip_zeros p"
    obtain z where z: "p = fr @ replicate z CHR ''0''" using strip_zeros_split [of p] by (auto simp: fr_def)
    let ?ip = "show_nat (c div 10 ^ k)"
    have k: "0 < k" "e = - int k" using False by (simp_all add: k_def)
    have "length p = k" using length_show_nat [of "c mod 10 ^ k" k] k(1) by (simp add: p_def pad_left_def)
    then have zk: "z + length fr = k" using z by simp
    have "dec_val (?ip @ p) = c" by (simp add: dec_val_append \<open>length p = k\<close>) (simp add: p_def pad_left_def mult.commute)
    then have c: "dec_val (?ip @ fr) * 10 ^ z = c" using dec_val_zeros [of "?ip @ fr" z] by (simp add: z)
    have dig: "\<forall>x \<in> set p. ascii_digit x" using show_nat_digits [of "c mod 10 ^ k"] by (auto simp: p_def pad_left_def)
    then have dig: "\<forall>x \<in> set (?ip @ fr). ascii_digit x" using show_nat_digits [of "c div 10 ^ k"] by (auto simp: z)
    have v: "of_nat (dec_val (?ip @ fr)) * 10 powi (- int (length fr)) = (of_nat c * 10 powi e :: rat)"
    proof -
      have "(of_nat c * 10 powi e :: rat) = of_nat (dec_val (?ip @ fr)) * (10 ^ z * 10 powi e)"
        using arg_cong [OF c, of "of_nat :: nat \<Rightarrow> rat"] by (simp add: mult.assoc)
      also have "(10 ^ z * 10 powi e :: rat) = 10 powi (int z + e)" by (simp add: power_int_add)
      also have "int z + e = - int (length fr)" using zk k by simp
      finally show ?thesis by simp
    qed
    show ?thesis
    proof (cases "fr = []")
      case True
      then have "parse_number (show_decimal c e) = Some (of_nat (dec_val ?ip))"
        using False parse_number_digits [OF show_nat_digits] by (simp add: show_decimal_def Let_def k_def [symmetric] p_def [symmetric] fr_def [symmetric])
      then show ?thesis using v True by simp
    next
      case False
      then have "show_decimal c e = ?ip @ CHR ''.'' # fr"
        using k by (simp add: show_decimal_def Let_def k_def [symmetric] p_def [symmetric] fr_def [symmetric])
      then show ?thesis using parse_number_point [OF dig] v by simp
    qed
  qed
qed

lemma grid_decimal:
  fixes q :: rat
  assumes "q = of_int k * 2 powi (- int n)"
  shows "q * 10 powi int n = of_int (k * 5 ^ n)"
proof -
  have "(10 :: rat) powi int n = 5 ^ n * 2 ^ n" by (simp flip: power_mult_distrib)
  then show ?thesis by (simp add: assms power_int_minus)
qed

lemma rep_grid:
  assumes "rep q" "0 < q"
  obtains k :: int and n :: nat where "n = 1074" "q * 10 powi int n = of_int k"
proof -
  have "rnd_pos q = q" using assms by (auto simp: rep_def rnd_def Let_def split: if_splits)
  then have "on_grid (qexp q) q" using on_grid_rnd_pos [of q] by simp
  then have "on_grid (- 1074) q" by (rule on_grid_mono) (simp add: qexp_def)
  then obtain k where k: "q = of_int k * 2 powi (- 1074)" by (auto simp: on_grid_def)
  define n :: nat where "n = 1074"
  have "q = of_int k * 2 powi (- int n)" unfolding k by (simp add: n_def)
  from grid_decimal [OF this] show thesis by (rule that [OF n_def])
qed

lemma rnd_nonpos: "x \<le> 0 \<Longrightarrow> rnd x = Fin q \<Longrightarrow> q \<le> 0"
  using rnd_le_rep [of x 0] by simp

lemma shortest_Some:
  assumes "rep q" "0 < q"
  obtains c e where "shortest q = Some (c, e)" "reads_back q e c" "0 < c"
proof -
  obtain k n where n: "n = 1074" and k: "q * 10 powi int n = of_int k" by (rule rep_grid [OF assms])
  have inv: "10 powi (- int n) = inverse (10 powi int n :: rat)" by (rule power_int_minus)
  have ne: "(10 powi int n :: rat) \<noteq> 0" by simp
  have "q / 10 powi (- int n) = of_int k" unfolding inv using k by (simp add: divide_inverse)
  moreover have "of_int k * 10 powi (- int n) = q" unfolding inv using k ne by (simp add: field_simps)
  ultimately have "cand q (- int n) \<noteq> None"
    using assms(1) by (simp add: cand_def reads_back_def rep_def)
  moreover have "- int n \<in> set decimal_exponents"
    unfolding decimal_exponents_def using n by (auto intro!: image_eqI [of _ _ 1383])
  ultimately have "List.find (\<lambda>e. cand q e \<noteq> None) decimal_exponents \<noteq> None"
    by (auto simp: find_None_iff)
  then obtain e where e: "List.find (\<lambda>e. cand q e \<noteq> None) decimal_exponents = Some e" by blast
  then have "cand q e \<noteq> None" by (auto simp: find_Some_iff)
  then obtain c where c: "cand q e = Some c" by blast
  then have rb: "reads_back q e c" by (auto simp: cand_def Let_def split: if_splits)
  have "0 < c"
  proof (rule ccontr)
    assume "\<not> 0 < c"
    then have "of_int c * 10 powi e \<le> (0 :: rat)" by (simp add: mult_nonpos_nonneg)
    then show False using rnd_nonpos rb assms(2) by (fastforce simp: reads_back_def)
  qed
  then show thesis using e c rb by (intro that [of c e]) (simp_all add: shortest_def)
qed

text \<open>\<open>format!("{v:.k}")\<close>: the exact value rounded to \<open>k > 0\<close> decimals, ties to even.\<close>

definition show_fixed :: "nat \<Rightarrow> f64 \<Rightarrow> string" where
  "show_fixed k v =
     (case v of
        Fin q \<Rightarrow>
          (let n = nat (round_half_even (\<bar>q\<bar> * 10 ^ k))
           in (if q < 0 then ''-'' else []) @ show_nat (n div 10 ^ k) @ ''.'' @ pad_left k (show_nat (n mod 10 ^ k)))
      | _ \<Rightarrow> show_f64 v)"

fun f64_ok :: "f64 \<Rightarrow> bool" where
  "f64_ok (Fin q) = rep q"
| "f64_ok _ = True"

lemma show_f64_digits_body:
  assumes "rep q" "0 < q"
  obtains c e where "shortest q = Some (c, e)" "parse_number (show_decimal (nat c) e) = Some (of_int c * 10 powi e)"
    "rnd (of_int c * 10 powi e) = Fin q"
proof -
  obtain c e where s: "shortest q = Some (c, e)" "reads_back q e c" "0 < c" by (rule shortest_Some [OF assms])
  have "parse_number (show_decimal (nat c) e) = Some (of_nat (nat c) * 10 powi e)" by (rule show_decimal_parse)
  moreover have "of_nat (nat c) = (of_int c :: rat)" using s(3) by simp
  ultimately show thesis using that s(1,2) by (simp add: reads_back_def)
qed

text \<open>Every value of \<open>f64\<close> is read back from its display.\<close>

lemma parse_show_f64 [simp]:
  assumes "f64_ok x" shows "parse_f64 (show_f64 x) = Some x"
proof (cases x)
  case (Fin q)
  consider "q = 0" | "0 < q" | "q < 0" by linarith
  then show ?thesis
  proof cases
    case 1
    then show ?thesis using parse_f64_body [of "''0''"] parse_number_digits [of "''0''"] by (simp add: Fin show_f64_def dec_val_def)
  next
    case 2
    have r: "rep q" using assms Fin by simp
    obtain c e where c: "shortest q = Some (c, e)" "parse_number (show_decimal (nat c) e) = Some (of_int c * 10 powi e)"
      "rnd (of_int c * 10 powi e) = Fin q" by (rule show_f64_digits_body [OF r 2])
    have "show_f64 x = show_decimal (nat c) e" using 2 c(1) by (simp add: Fin show_f64_def)
    then show ?thesis using parse_f64_body(1) show_decimal_parse(2) [of "nat c" e] c(2,3) by (simp add: Fin)
  next
    case 3
    have r: "rep (- q)" "0 < - q" using assms Fin 3 by simp_all
    obtain c e where c: "shortest (- q) = Some (c, e)" "parse_number (show_decimal (nat c) e) = Some (of_int c * 10 powi e)"
      "rnd (of_int c * 10 powi e) = Fin (- q)" by (rule show_f64_digits_body [OF r])
    have "show_f64 x = CHR ''-'' # show_decimal (nat c) e" using 3 c(1) by (simp add: Fin show_f64_def)
    then show ?thesis using parse_f64_body(2) show_decimal_parse(2) [of "nat c" e] c(2,3)
      by (simp add: Fin rnd_uminus)
  qed
next
  case NaN
  have "to_ascii_lowercase ''NaN'' = ''nan''" by code_simp
  then show ?thesis by (simp add: NaN show_f64_def parse_f64_def)
qed (simp_all add: show_f64_def parse_f64_def to_ascii_lowercase_def to_lower_def)

end
