(* ===== verification/Dur_Text.thy ===== *)
theory Dur_Text
  imports Rust_Str Durations
begin

text \<open>
  The text form of durations (\<open>loadr-config/src/duration.rs\<close>): parsing, display and the scalar
  forms a YAML document may use. The \<open>humantime\<close> crate is a pair of arguments, its parser (an
  error carries its message) and its formatter; \<open>humantime_laws\<close> states what its documentation
  promises of them. A \<open>None\<close> result is the panic of \<open>Duration::from_secs_f64\<close>.
\<close>

datatype dur_error = NegativeDuration string | InvalidDuration string string | NegativeInt | NegativeFloat

type_synonym humantime_parse = "string \<Rightarrow> (string, duration) result"
type_synonym humantime_format = "duration \<Rightarrow> string"

definition dur_parse :: "humantime_parse \<Rightarrow> string \<Rightarrow> (dur_error, duration) result panicky" where
  "dur_parse ht s =
     (let t = trim s
      in case parse_f64 t of
           Some secs \<Rightarrow>
             if secs < Fin 0 \<or> \<not> is_finite secs then Some (Inl (NegativeDuration s))
             else map_option Inr (from_secs_f64 secs)
         | None \<Rightarrow> Some (case ht t of Inl e \<Rightarrow> Inl (InvalidDuration s e) | Inr d \<Rightarrow> Inr d))"

definition dur_display :: "humantime_format \<Rightarrow> duration \<Rightarrow> string" where
  "dur_display fmt d = fmt d"

text \<open>\<open>DurVisitor\<close>: the scalars of a document; \<open>SI64\<close> carries the bits of an \<open>i64\<close>.\<close>

datatype scalar = SStr string | SU64 u64 | SI64 u64 | SF64 f64

fun dur_visit :: "humantime_parse \<Rightarrow> scalar \<Rightarrow> (dur_error, duration) result panicky" where
  "dur_visit ht (SStr v) = dur_parse ht v"
| "dur_visit ht (SU64 v) = Some (Inr (from_secs (unat v)))"
| "dur_visit ht (SI64 v) = Some (if sint v < 0 then Inl NegativeInt else Inr (from_secs (unat v)))"
| "dur_visit ht (SF64 v) =
     (if v < Fin 0 \<or> \<not> is_finite v then Some (Inl NegativeFloat) else map_option Inr (from_secs_f64 v))"

text \<open>
  What \<open>humantime\<close> documents: the formatter writes numbers with unit suffixes, so its text starts
  with a digit and ends with a letter, and the parser accepts everything the formatter writes.
\<close>

definition humantime_laws :: "humantime_parse \<Rightarrow> humantime_format \<Rightarrow> bool" where
  "humantime_laws ht fmt \<longleftrightarrow>
     (\<forall>t d. ht t = Inr d \<longrightarrow> d < DURATION_LIMIT) \<and>
     (\<forall>d < DURATION_LIMIT. ht (fmt d) = Inr d \<and> fmt d \<noteq> [] \<and> ascii_digit (hd (fmt d)) \<and>
        (of_char (last (fmt d)) :: nat) \<in> {97..122})"

lemma digit_not_ws: "ascii_digit c \<Longrightarrow> \<not> is_ws c"
  by (auto simp: ascii_digit_def is_ws_def)

lemma letter_facts:
  assumes "(of_char c :: nat) \<in> {97..122}"
  shows "\<not> is_ws c" "\<not> ascii_digit c" "c \<noteq> CHR ''.''"
  using assms by (auto simp: ascii_digit_def is_ws_def)

lemma units_not_number:
  assumes "s \<noteq> []" "ascii_digit (hd s)" "(of_char (last s) :: nat) \<in> {97..122}"
  shows "trim s = s" "parse_f64 s = None"
  using assms letter_facts [OF assms(3)] digit_not_ws [OF assms(2)]
    parse_f64_body(1) [OF assms(1,2)] parse_number_ends [of s]
  by (simp_all add: trimmed_def)

lemma display_parse:
  assumes "humantime_laws ht fmt" "d < DURATION_LIMIT"
  shows "dur_parse ht (dur_display fmt d) = Some (Inr d)"
proof -
  have l: "ht (fmt d) = Inr d" "fmt d \<noteq> []" "ascii_digit (hd (fmt d))" "(of_char (last (fmt d)) :: nat) \<in> {97..122}"
    using assms by (auto simp: humantime_laws_def)
  show ?thesis using units_not_number [OF l(2-4)] l(1) by (simp add: dur_parse_def dur_display_def)
qed

lemma from_secs_f64_limit: "from_secs_f64 x = Some d \<Longrightarrow> d < DURATION_LIMIT"
proof -
  have "0 < DURATION_LIMIT" by (simp add: DURATION_LIMIT_def NANOS_PER_SEC_def)
  then show "from_secs_f64 x = Some d \<Longrightarrow> d < DURATION_LIMIT"
    by (auto simp: from_secs_f64_def Let_def not_le split: f64.splits if_splits)
qed

lemma from_secs_limit: "from_secs (unat v) < DURATION_LIMIT" for v :: u64
  using unat_u64_less [of v] by (simp add: from_secs_def DURATION_LIMIT_def NANOS_PER_SEC_def)

lemma dur_parse_ok: "dur_parse ht s = Some (Inr d) \<Longrightarrow> humantime_laws ht fmt \<Longrightarrow> d < DURATION_LIMIT"
  by (auto simp: dur_parse_def humantime_laws_def Let_def from_secs_f64_limit split: option.splits if_splits sum.splits)


text \<open>A formatter that writes nanoseconds, and its parser.\<close>

definition ns_format :: humantime_format where
  "ns_format d = show_nat d @ ''ns''"

definition ns_parse :: humantime_parse where
  "ns_parse s =
     (case str_strip_suffix ''ns'' s of
        Some ds \<Rightarrow> if ds \<noteq> [] \<and> list_all ascii_digit ds \<and> dec_val ds < DURATION_LIMIT then Inr (dec_val ds) else Inl ''bad number''
      | None \<Rightarrow> Inl ''bad unit'')"

lemma ns_laws: "humantime_laws ns_parse ns_format"
proof -
  have d: "ascii_digit (hd (show_nat d))" "list_all ascii_digit (show_nat d)" for d
    using show_nat_digits [of d] by (simp_all add: list_all_iff)
  have "ns_parse t = Inr e \<Longrightarrow> e < DURATION_LIMIT" for t e by (auto simp: ns_parse_def split: option.splits if_splits)
  then show ?thesis by (auto simp: humantime_laws_def ns_parse_def ns_format_def d)
qed


text \<open>
  A bare number of seconds too large for \<open>Duration\<close> is not rejected: \<open>from_secs_f64\<close> panics.
\<close>

lemma dur_parse_panics: "dur_parse ht ''1e30'' = None"
proof -
  have "parse_number ''1e30'' = Some (10 ^ 30)" by code_simp
  then have p: "parse_f64 ''1e30'' = Some (rnd (10 ^ 30))"
    using parse_f64_body(1) [of "''1e30''"] by (simp add: ascii_digit_def)
  have "rep (2 powi 70)" "rep (2 powi 100)" by (rule rep_pow2; simp)+
  then obtain r where r: "rnd (10 ^ 30) = Fin r" "2 powi 70 \<le> r"
    using rnd_between [of "2 powi 70" "2 powi 100" "10 ^ 30"] by auto
  have "of_int (int DURATION_LIMIT) \<le> r * of_nat NANOS_PER_SEC"
    using r(2) by (simp add: DURATION_LIMIT_def NANOS_PER_SEC_def)
  then have "int DURATION_LIMIT \<le> round_half_even (r * of_nat NANOS_PER_SEC)"
    using rhe_mono rhe_of_int by metis
  then have "from_secs_f64 (Fin r) = None" by (simp add: from_secs_f64_def)
  moreover have "trim ''1e30'' = ''1e30''" by code_simp
  moreover have "0 \<le> r" using r(2) by (rule order_trans [rotated]) simp
  ultimately show ?thesis unfolding dur_parse_def Let_def using p unfolding r(1) by (simp add: is_finite_def)
qed

end
