(* ===== verification/Threshold_Expr.thy ===== *)
theory Threshold_Expr
  imports Dur_Text "HOL-Library.List_Lexorder" "HOL-Library.Char_ord" "HOL-Library.Product_Lexorder"
begin

text \<open>
  Threshold expressions and metric selectors (\<open>loadr-config/src/threshold.rs\<close>): their parsers,
  their display, and the comparison a threshold makes.
\<close>

section \<open>Expressions\<close>

datatype threshold_error =
    EmptyExpr
  | UnknownAgg string
  | BadPercentile string
  | BadSlo string
  | UnsupportedSlo string
  | MissingOp string
  | BadNumber string
  | BadSelector string string

datatype agg =
    AggAvg | AggMin | AggMax | AggMed | AggPercentile f64 | AggRate | AggCount | AggValue | AggSlo f64

datatype op = OpLt | OpLe | OpGt | OpGe | OpEq | OpNe

record threshold_expr =
  te_agg :: agg
  te_op :: op
  te_bound :: f64

definition SUPPORTED_SLO_POINTS :: "f64 list" where
  "SUPPORTED_SLO_POINTS = [Fin 50, Fin 90, Fin 95, Fin 99, rnd (999/10)]"

definition NEAR :: f64 where
  "NEAR = rnd (1 / 10 ^ 9)"

fun op_eval :: "op \<Rightarrow> f64 \<Rightarrow> f64 \<Rightarrow> bool" where
  "op_eval OpLt l r = (l < r)"
| "op_eval OpLe l r = (l \<le> r)"
| "op_eval OpGt l r = (r < l)"
| "op_eval OpGe l r = (r \<le> l)"
| "op_eval OpEq l r = (\<bar>l - r\<bar> < EPSILON)"
| "op_eval OpNe l r = (EPSILON \<le> \<bar>l - r\<bar>)"

fun show_op :: "op \<Rightarrow> string" where
  "show_op OpLt = ''<''"
| "show_op OpLe = ''<=''"
| "show_op OpGt = ''>''"
| "show_op OpGe = ''>=''"
| "show_op OpEq = ''==''"
| "show_op OpNe = ''!=''"

fun show_agg :: "agg \<Rightarrow> string" where
  "show_agg AggAvg = ''avg''"
| "show_agg AggMin = ''min''"
| "show_agg AggMax = ''max''"
| "show_agg AggMed = ''med''"
| "show_agg (AggPercentile p) = ''p('' @ show_f64 p @ '')''"
| "show_agg AggRate = ''rate''"
| "show_agg AggCount = ''count''"
| "show_agg AggValue = ''value''"
| "show_agg (AggSlo n) = ''slo('' @ show_f64 n @ ''%)''"

definition show_expr :: "threshold_expr \<Rightarrow> string" where
  "show_expr e = show_agg (te_agg e) @ show_op (te_op e) @ show_f64 (te_bound e)"

definition ops :: "(string \<times> op) list" where
  "ops = [(''<='', OpLe), (''>='', OpGe), (''=='', OpEq), (''!='', OpNe), (''<'', OpLt), (''>'', OpGt), (''='', OpEq)]"

fun find_op :: "string \<Rightarrow> (string \<times> op) list \<Rightarrow> (nat \<times> nat \<times> op) option \<Rightarrow> (nat \<times> nat \<times> op) option" where
  "find_op s [] found = found"
| "find_op s ((tok, op) # rest) found =
     find_op s rest
       (case find_str tok s of
          None \<Rightarrow> found
        | Some idx \<Rightarrow>
            (case found of
               Some (fidx, len, op') \<Rightarrow> if fidx \<le> idx then found else Some (idx, length tok, op)
             | None \<Rightarrow> Some (idx, length tok, op)))"

definition slo_supported :: "f64 \<Rightarrow> bool" where
  "slo_supported n \<longleftrightarrow> list_ex (\<lambda>p. \<bar>p - n\<bar> < NEAR) SUPPORTED_SLO_POINTS"

definition parse_slo :: "string \<Rightarrow> (threshold_error, agg) result" where
  "parse_slo s =
     (let inner = trim s; num = trim (case str_strip_suffix ''%'' inner of Some r \<Rightarrow> r | None \<Rightarrow> inner)
      in case parse_f64 num of
           None \<Rightarrow> Inl (BadSlo inner)
         | Some n \<Rightarrow>
             if \<not> is_finite n \<or> n \<le> Fin 0 \<or> Fin 100 \<le> n then Inl (BadSlo inner)
             else if \<not> slo_supported n then Inl (UnsupportedSlo num)
             else Inr (AggSlo n))"

definition parse_agg :: "string \<Rightarrow> (threshold_error, agg) result" where
  "parse_agg s =
     (if s = ''avg'' then Inr AggAvg else if s = ''min'' then Inr AggMin else if s = ''max'' then Inr AggMax
      else if s = ''med'' then Inr AggMed else if s = ''rate'' then Inr AggRate
      else if s = ''count'' then Inr AggCount else if s = ''value'' then Inr AggValue
      else case Option.bind (str_strip_prefix ''p('' s) (str_strip_suffix '')'') of
             Some inner \<Rightarrow>
               (case parse_f64 (trim inner) of
                  None \<Rightarrow> Inl (BadPercentile inner)
                | Some p \<Rightarrow> if p \<le> Fin 0 \<or> Fin 100 < p then Inl (BadPercentile inner) else Inr (AggPercentile p))
           | None \<Rightarrow>
               (case Option.bind (str_strip_prefix ''slo('' s) (str_strip_suffix '')'') of
                  Some inner \<Rightarrow> parse_slo inner
                | None \<Rightarrow> Inl (UnknownAgg s)))"

definition parse_bound :: "humantime_parse \<Rightarrow> string \<Rightarrow> (threshold_error, f64) result panicky" where
  "parse_bound ht s =
     (case parse_f64 s of
        Some v \<Rightarrow> Some (Inr v)
      | None \<Rightarrow>
          map_option (\<lambda>r. case r of Inr d \<Rightarrow> Inr (as_secs_f64 d * Fin 1000) | Inl _ \<Rightarrow> Inl (BadNumber s)) (dur_parse ht s))"

definition threshold_parse :: "humantime_parse \<Rightarrow> string \<Rightarrow> (threshold_error, threshold_expr) result panicky" where
  "threshold_parse ht s0 =
     (let s = trim s0
      in if s = [] then Some (Inl EmptyExpr)
         else case find_op s ops None of
           None \<Rightarrow> Some (Inl (MissingOp s))
         | Some (idx, len, op) \<Rightarrow>
             (case parse_agg (trim (take idx s)) of
                Inl e \<Rightarrow> Some (Inl e)
              | Inr a \<Rightarrow>
                  map_option (map_sum id (\<lambda>b. \<lparr>te_agg = a, te_op = op, te_bound = b\<rparr>))
                    (parse_bound ht (trim (drop (idx + len) s)))))"

section \<open>Selectors\<close>

record metric_selector =
  sel_metric :: string
  sel_tags :: "(string \<times> string) list"

fun parse_pairs :: "string \<Rightarrow> string list \<Rightarrow> (threshold_error, (string \<times> string) list) result" where
  "parse_pairs s [] = Inr []"
| "parse_pairs s (p # ps) =
     (let pair = trim p
      in if pair = [] then parse_pairs s ps
         else case split_once CHR '':'' pair of
           None \<Rightarrow> Inl (BadSelector s (''tag '' @ pair @ '' must be key:value''))
         | Some (k, v) \<Rightarrow> map_sum id (\<lambda>tags. (trim k, trim v) # tags) (parse_pairs s ps))"

definition selector_parse :: "string \<Rightarrow> (threshold_error, metric_selector) result" where
  "selector_parse s0 =
     (let s = trim s0
      in case find_char CHR ''{'' s of
           Some opn \<Rightarrow>
             (case rfind_char CHR ''}'' s of
                None \<Rightarrow> Inl (BadSelector s ''missing closing brace'')
              | Some cls \<Rightarrow>
                  if cls < opn then Inl (BadSelector s ''closing brace before opening brace'')
                  else let metric = trim (take opn s)
                       in if metric = [] then Inl (BadSelector s ''empty metric name'')
                          else map_sum id (\<lambda>tags. \<lparr>sel_metric = metric, sel_tags = sort tags\<rparr>)
                            (parse_pairs s (split_char CHR '','' (drop (opn + 1) (take cls s)))))
         | None \<Rightarrow>
             if s = [] then Inl (BadSelector s ''empty metric name'')
             else Inr \<lparr>sel_metric = s, sel_tags = []\<rparr>)"

definition show_pair :: "string \<times> string \<Rightarrow> string" where
  "show_pair kv = fst kv @ '':'' @ snd kv"

definition selector_show :: "metric_selector \<Rightarrow> string" where
  "selector_show sel =
     sel_metric sel @
     (if sel_tags sel = [] then [] else ''{'' @ join '','' (map show_pair (sel_tags sel)) @ ''}'')"

section \<open>Selectors survive their display\<close>

definition pair_ok :: "string \<times> string \<Rightarrow> bool" where
  "pair_ok kv \<longleftrightarrow> trimmed (fst kv) \<and> trimmed (snd kv) \<and> CHR '':'' \<notin> set (fst kv) \<and>
     CHR '','' \<notin> set (fst kv) \<and> CHR '','' \<notin> set (snd kv)"

definition selector_ok :: "metric_selector \<Rightarrow> bool" where
  "selector_ok sel \<longleftrightarrow> trimmed (sel_metric sel) \<and> sel_metric sel \<noteq> [] \<and> CHR ''{'' \<notin> set (sel_metric sel) \<and>
     sorted (sel_tags sel) \<and> list_all pair_ok (sel_tags sel)"

lemma not_ws [simp]: "\<not> is_ws CHR '':''" "\<not> is_ws CHR ''}''" "\<not> is_ws CHR ''%''" "\<not> is_ws CHR '')''"
  by (simp_all add: is_ws_def)

lemma show_pair_facts:
  assumes "pair_ok kv"
  shows "trim (show_pair kv) = show_pair kv" "show_pair kv \<noteq> []" "split_once CHR '':'' (show_pair kv) = Some kv"
    "CHR '','' \<notin> set (show_pair kv)"
proof -
  show "trim (show_pair kv) = show_pair kv"
    using assms by (intro trimmed_trim_id) (auto simp: pair_ok_def show_pair_def trimmed_def hd_append last_append)
  show "split_once CHR '':'' (show_pair kv) = Some kv"
    using assms split_once_append [of "CHR '':''" "fst kv" "snd kv"] by (simp add: pair_ok_def show_pair_def)
qed (use assms in \<open>auto simp: pair_ok_def show_pair_def\<close>)

lemma parse_shown_pairs: "list_all pair_ok tags \<Longrightarrow> parse_pairs s (map show_pair tags) = Inr tags"
proof (induction tags)
  case (Cons kv tags)
  have "trimmed (fst kv)" "trimmed (snd kv)" using Cons.prems by (simp_all add: pair_ok_def)
  then show ?case using Cons show_pair_facts [of kv] by (cases kv) simp
qed simp

lemma parse_pairs_ok:
  "parse_pairs s ps = Inr tags \<Longrightarrow> \<forall>p \<in> set ps. CHR '','' \<notin> set p \<Longrightarrow> list_all pair_ok tags"
proof (induction ps arbitrary: tags)
  case (Cons p ps)
  show ?case
  proof (cases "trim p = []")
    case False
    obtain k v rest where kv: "split_once CHR '':'' (trim p) = Some (k, v)" "parse_pairs s ps = Inr rest"
      "tags = (trim k, trim v) # rest"
      using Cons.prems(1) False by (cases "parse_pairs s ps") (auto simp: Let_def split: option.splits)
    have "CHR '':'' \<notin> set k" "set k \<subseteq> set (trim p)" "set v \<subseteq> set (trim p)"
      using kv(1) find_char_Some [of "CHR '':''" "trim p"] set_take_subset set_drop_subset
      by (auto simp: split_once_def dest: in_set_takeD in_set_dropD)
    then have "pair_ok (trim k, trim v)"
      using Cons.prems(2) trim_set [of p] trim_set [of k] trim_set [of v] by (auto simp: pair_ok_def)
    then show ?thesis using Cons.IH [OF kv(2)] Cons.prems(2) kv(3) by simp
  qed (use Cons in \<open>simp add: Let_def\<close>)
qed simp

lemma split_char_free: "w \<in> set (split_char c s) \<Longrightarrow> c \<notin> set w"
proof (induction s arbitrary: w)
  case (Cons d s)
  obtain v vs where "split_char c s = v # vs" by (cases "split_char c s") auto
  then show ?case using Cons by (auto split: if_splits)
qed simp

lemma map_sum_Inr: "map_sum id f r = Inr y \<longleftrightarrow> (\<exists>x. r = Inr x \<and> y = f x)"
  by (cases r) auto

lemma selector_parse_ok: "selector_parse s = Inr sel \<Longrightarrow> selector_ok sel"
proof -
  assume p: "selector_parse s = Inr sel"
  let ?s = "trim s"
  show "selector_ok sel"
  proof (cases "find_char CHR ''{'' ?s")
    case None
    then have "sel = \<lparr>sel_metric = ?s, sel_tags = []\<rparr>" "?s \<noteq> []"
      using p by (auto simp: selector_parse_def Let_def split: if_splits)
    then show ?thesis using None by (simp add: selector_ok_def find_char_None)
  next
    case (Some opn)
    obtain ps tags where t: "parse_pairs ?s (split_char CHR '','' ps) = Inr tags" "trim (take opn ?s) \<noteq> []"
      "sel = \<lparr>sel_metric = trim (take opn ?s), sel_tags = sort tags\<rparr>"
      using p Some by (auto simp: selector_parse_def Let_def map_sum_Inr split: option.splits if_splits)
    have "list_all pair_ok tags" by (rule parse_pairs_ok [OF t(1)]) (auto dest: split_char_free)
    moreover have "CHR ''{'' \<notin> set (trim (take opn ?s))"
      using find_char_Some [OF Some] trim_set [of "take opn ?s"] by blast
    ultimately show ?thesis using t(2,3) by (simp add: selector_ok_def list_all_iff)
  qed
qed

lemma selector_show_parse:
  assumes "selector_ok sel" shows "selector_parse (selector_show sel) = Inr sel"
proof (cases "sel_tags sel = []")
  case True
  then have "trim (selector_show sel) = sel_metric sel" "find_char CHR ''{'' (sel_metric sel) = None"
    using assms by (simp_all add: selector_show_def selector_ok_def find_char_None)
  then show ?thesis using assms True by (simp add: selector_parse_def Let_def selector_ok_def)
next
  case False
  let ?m = "sel_metric sel" and ?body = "join '','' (map show_pair (sel_tags sel))"
  let ?s = "?m @ CHR ''{'' # ?body @ ''}''"
  have ok: "trimmed ?m" "?m \<noteq> []" "CHR ''{'' \<notin> set ?m" "sorted (sel_tags sel)" "list_all pair_ok (sel_tags sel)"
    using assms by (auto simp: selector_ok_def)
  have sh: "selector_show sel = ?s" using False by (simp add: selector_show_def)
  have t: "trim ?s = ?s" using ok(1,2) by (intro trimmed_trim_id) (simp add: trimmed_def)
  have o: "find_char CHR ''{'' ?s = Some (length ?m)" by (rule find_char_append [OF ok(3)])
  have c: "rfind_char CHR ''}'' ?s = Some (length (?m @ CHR ''{'' # ?body))"
    using rfind_char_append [of "CHR ''}''" "[]" "?m @ CHR ''{'' # ?body"] by simp
  have "split_char CHR '','' ?body = map show_pair (sel_tags sel)"
    using False ok(5) show_pair_facts(4) by (intro split_join) (auto simp: list_all_iff)
  then have "parse_pairs ?s (split_char CHR '','' ?body) = Inr (sel_tags sel)"
    by (simp add: parse_shown_pairs [OF ok(5)])
  moreover have "drop (length ?m + 1) (take (length (?m @ CHR ''{'' # ?body)) ?s) = ?body" by simp
  ultimately show ?thesis unfolding sh selector_parse_def Let_def t o c
    using ok(1,2,4) by (simp add: sorted_sort_id)
qed

text \<open>
  Whatever selector the parser accepts, its display parses back to the same selector: same
  metric, same tag filters in the same order.
\<close>

theorem selector_roundtrip:
  assumes "selector_parse s = Inr sel"
  shows "selector_parse (selector_show sel) = Inr sel"
  using selector_show_parse [OF selector_parse_ok [OF assms]] .

theorem selector_roundtrip_witness:
  "selector_parse (selector_show \<lparr>sel_metric = ''http_reqs'', sel_tags = [(''a'', ''x''), (''b'', ''y'')]\<rparr>) =
     Inr \<lparr>sel_metric = ''http_reqs'', sel_tags = [(''a'', ''x''), (''b'', ''y'')]\<rparr>"
proof -
  have "selector_parse '' http_reqs { b : y, a:x,} '' =
    Inr \<lparr>sel_metric = ''http_reqs'', sel_tags = [(''a'', ''x''), (''b'', ''y'')]\<rparr>" by code_simp
  then show ?thesis by (rule selector_roundtrip)
qed

section \<open>Expressions survive their display\<close>

fun agg_shaped :: "agg \<Rightarrow> bool" where
  "agg_shaped (AggPercentile p) \<longleftrightarrow> f64_ok p \<and> \<not> (p \<le> Fin 0 \<or> Fin 100 < p)"
| "agg_shaped (AggSlo n) \<longleftrightarrow> f64_ok n \<and> is_finite n \<and> \<not> (n \<le> Fin 0 \<or> Fin 100 \<le> n) \<and> slo_supported n"
| "agg_shaped _ = True"

definition expr_ok :: "threshold_expr \<Rightarrow> bool" where
  "expr_ok e \<longleftrightarrow> agg_shaped (te_agg e) \<and> f64_ok (te_bound e)"

definition op_chars :: "char set" where
  "op_chars = {CHR ''<'', CHR ''>'', CHR ''='', CHR ''!''}"

definition number_chars :: "char set" where
  "number_chars = {c. ascii_digit c} \<union> {CHR ''.'', CHR ''-'', CHR ''N'', CHR ''a'', CHR ''i'', CHR ''n'', CHR ''f''}"

lemma number_chars_facts: "c \<in> number_chars \<Longrightarrow> \<not> is_ws c" "c \<in> number_chars \<Longrightarrow> c \<notin> op_chars"
  by (auto simp: number_chars_def op_chars_def digit_not_ws is_ws_def ascii_digit_def)

lemma show_decimal_chars: "set (show_decimal c e) \<subseteq> {c. ascii_digit c} \<union> {CHR ''.''}"
proof -
  have n: "set (show_nat n) \<subseteq> {c. ascii_digit c}" for n using show_nat_digits [of n] by auto
  have z: "set (strip_zeros (pad_left k (show_nat n))) \<subseteq> {c. ascii_digit c}" for k n
    using n [of n] by (auto simp: strip_zeros_def pad_left_def dest!: set_dropWhileD)
  show ?thesis using n [of c] n [of "c div 10 ^ nat (- e)"] z [of "nat (- e)" "c mod 10 ^ nat (- e)"]
    by (auto simp: show_decimal_def Let_def ascii_digit_def)
qed

lemma show_f64_chars: "set (show_f64 x) \<subseteq> number_chars"
proof (cases x)
  case (Fin q)
  have "set (show_decimal c e) \<subseteq> number_chars" for c e
    using show_decimal_chars [of c e] by (auto simp: number_chars_def)
  then show ?thesis by (auto simp: Fin show_f64_def number_chars_def split: option.splits)
qed (auto simp: show_f64_def number_chars_def)

lemma show_f64_ends:
  "show_f64 x \<noteq> [] \<Longrightarrow> \<not> is_ws (hd (show_f64 x)) \<and> \<not> is_ws (last (show_f64 x))"
  by (meson show_f64_chars number_chars_facts(1) hd_in_set last_in_set subsetD)

lemma show_f64_trimmed [simp]: "trim (show_f64 x) = show_f64 x"
proof (rule trimmed_trim_id)
  show "trimmed (show_f64 x)" using show_f64_ends [of x] by (auto simp: trimmed_def)
qed

lemma show_f64_no_eq: "show_f64 x \<noteq> CHR ''='' # r"
  using show_f64_chars [of x] number_chars_facts(2) [of "CHR ''=''"] by (auto simp: op_chars_def)

lemma find_str_skip:
  "tok \<noteq> [] \<Longrightarrow> hd tok \<notin> set lhs \<Longrightarrow> find_str tok (lhs @ r) = map_option (\<lambda>i. length lhs + i) (find_str tok r)"
proof (induction lhs)
  case (Cons c lhs)
  then have "\<not> prefix tok (c # lhs @ r)" by (cases tok) auto
  then show ?case using Cons by (simp add: option.map_comp comp_def)
qed (cases "find_str tok r"; simp)

lemma find_op_skip:
  "\<forall>(tok, op) \<in> set os. tok \<noteq> [] \<and> hd tok \<notin> set lhs \<Longrightarrow>
   find_op (lhs @ r) os (map_option (\<lambda>(i, l, op). (length lhs + i, l, op)) found) =
     map_option (\<lambda>(i, l, op). (length lhs + i, l, op)) (find_op r os found)"
proof (induction os arbitrary: found)
  case (Cons to' os)
  obtain tok op where to': "to' = (tok, op)" by (cases to')
  have "find_str tok (lhs @ r) = map_option (\<lambda>i. length lhs + i) (find_str tok r)"
    using Cons.prems by (intro find_str_skip) (auto simp: to')
  then show ?case
    using Cons.prems Cons.IH [of found] Cons.IH [of "Some (the (find_str tok r), length tok, op)"]
    by (auto simp: to' split: option.splits)
qed simp

lemma find_str_start: "find_str tok s = Some 0 \<longleftrightarrow> prefix tok s"
  by (cases s) auto

lemma find_op_found: "find_op s os (Some (0, l, op)) = Some (0, l, op)"
  by (induction os) (auto split: option.split)

lemma find_op_leftmost:
  assumes "list_all (\<lambda>(tok, op). \<not> prefix tok s) before" "prefix tok s"
    "\<And>i l op'. found = Some (i, l, op') \<Longrightarrow> 0 < i"
  shows "find_op s (before @ (tok, op) # after) found = Some (0, length tok, op)"
  using assms
proof (induction before arbitrary: found)
  case Nil
  then have "find_str tok s = Some 0" by (simp add: find_str_start)
  then show ?case using Nil(3) by (cases found) (auto simp: find_op_found)
next
  case (Cons b before)
  obtain t o' where b: "b = (t, o')" by (cases b)
  have "find_str t s \<noteq> Some 0" using Cons.prems(1) by (simp add: b find_str_start)
  then show ?case using Cons.prems by (auto simp: b split: option.split intro!: Cons.IH)
qed

lemma find_op_here:
  assumes "\<And>t. rhs \<noteq> CHR ''='' # t"
  shows "find_op (show_op op @ rhs) ops None = Some (0, length (show_op op), op)"
proof -
  have "\<exists>before after. ops = before @ (show_op op, op) # after \<and>
      list_all (\<lambda>(tok, op'). \<not> prefix tok (show_op op @ rhs)) before"
  proof (intro exI conjI)
    let ?before = "takeWhile (\<lambda>(tok, op'). tok \<noteq> show_op op) ops"
    show "ops = ?before @ (show_op op, op) # drop (Suc (length ?before)) ops"
      by (cases op) (simp_all add: ops_def)
    show "list_all (\<lambda>(tok, op'). \<not> prefix tok (show_op op @ rhs)) ?before"
      using assms by (cases op; cases rhs) (auto simp: ops_def)
  qed
  then obtain before after where o: "ops = before @ (show_op op, op) # after"
    "list_all (\<lambda>(tok, op'). \<not> prefix tok (show_op op @ rhs)) before" by blast
  show ?thesis unfolding o(1) by (rule find_op_leftmost [OF o(2)]) auto
qed

lemma show_agg_chars: "set (show_agg a) \<inter> op_chars = {}"
  using show_f64_chars number_chars_facts(2) by (cases a) (fastforce simp: op_chars_def)+

lemma parse_show_agg: "agg_shaped a \<Longrightarrow> parse_agg (show_agg a) = Inr a"
proof (cases a)
  case (AggPercentile p)
  assume ok: "agg_shaped a"
  have "str_strip_prefix ''p('' (show_agg a) = Some (show_f64 p @ '')'')" by (simp add: AggPercentile str_strip_prefix_def)
  then show ?thesis using ok by (simp add: parse_agg_def AggPercentile)
next
  case (AggSlo n)
  assume ok: "agg_shaped a"
  have "str_strip_prefix ''slo('' (show_agg a) = Some ((show_f64 n @ ''%'') @ '')'')"
    "str_strip_prefix ''p('' (show_agg a) = None" by (simp_all add: AggSlo str_strip_prefix_def)
  then have "parse_agg (show_agg a) = parse_slo (show_f64 n @ ''%'')"
    by (simp add: parse_agg_def AggSlo del: append_assoc)
  moreover have "trim (show_f64 n @ ''%'') = show_f64 n @ ''%''"
    using show_f64_ends [of n] by (intro trimmed_trim_id) (auto simp: trimmed_def hd_append is_ws_def [of "CHR ''%''"])
  ultimately show ?thesis using ok by (simp add: parse_slo_def AggSlo)
qed (simp_all add: parse_agg_def)

lemma show_agg_trimmed: "trim (show_agg a) = show_agg a"
  by (intro trimmed_trim_id, cases a) (auto simp: trimmed_def is_ws_def)

lemma show_expr_parse:
  assumes "expr_ok e" shows "threshold_parse ht (show_expr e) = Some (Inr e)"
proof -
  let ?a = "show_agg (te_agg e)" and ?r = "show_op (te_op e) @ show_f64 (te_bound e)"
  have ne: "show_f64 (te_bound e) \<noteq> []"
    using parse_show_f64 [of "te_bound e"] assms by (auto simp: expr_ok_def parse_f64_def parse_number_def digits_def to_ascii_lowercase_def)
  have a: "?a \<noteq> []" "\<not> is_ws (hd ?a)" by (cases "te_agg e"; simp add: is_ws_def)+
  have "\<not> is_ws (last (show_f64 (te_bound e)))"
    using show_f64_chars [of "te_bound e"] number_chars_facts(1) ne by (meson last_in_set subsetD)
  then have t: "trim (show_expr e) = show_expr e"
    using a ne by (intro trimmed_trim_id) (simp add: trimmed_def show_expr_def)
  have "find_op (?a @ ?r) ops (map_option (\<lambda>(i, l, op). (length ?a + i, l, op)) None) =
    map_option (\<lambda>(i, l, op). (length ?a + i, l, op)) (find_op ?r ops None)"
    using show_agg_chars [of "te_agg e"] by (intro find_op_skip) (auto simp: ops_def op_chars_def)
  then have f: "find_op (show_expr e) ops None = Some (length ?a, length (show_op (te_op e)), te_op e)"
    using find_op_here [OF show_f64_no_eq, of "te_op e" "te_bound e"] by (simp add: show_expr_def)
  have "take (length ?a) (show_expr e) = ?a" "drop (length ?a + length (show_op (te_op e))) (show_expr e) = show_f64 (te_bound e)"
    by (simp_all add: show_expr_def)
  then show ?thesis
    using assms f a(1) parse_show_agg [of "te_agg e"]
    by (simp add: threshold_parse_def t Let_def show_agg_trimmed expr_ok_def parse_bound_def) (simp add: show_expr_def)
qed

lemma f64_ok_rnd [simp]: "f64_ok (rnd x)"
  by (cases "rnd x") (auto dest: rnd_rep)

lemma f64_ok_mul [simp]: "f64_ok (f64_mul x y)"
  by (cases "(x, y)" rule: f64_mul.cases) (auto simp: f64_ok_rnd)

lemma parse_f64_ok: "parse_f64 s = Some v \<Longrightarrow> f64_ok v"
  by (auto simp: parse_f64_def Let_def split: prod.splits if_splits)

lemma parse_slo_ok: "parse_slo s = Inr a \<Longrightarrow> agg_shaped a"
  by (auto simp: parse_slo_def Let_def parse_f64_ok simp del: less_eq_f64_def less_f64_def split: option.splits if_splits)

lemma parse_agg_shaped: "parse_agg s = Inr a \<Longrightarrow> agg_shaped a"
  by (auto simp: parse_agg_def parse_f64_ok simp del: less_eq_f64_def less_f64_def dest: parse_slo_ok split: option.splits if_splits)

lemma parse_bound_ok: "parse_bound ht s = Some (Inr b) \<Longrightarrow> f64_ok b"
  by (cases "dur_parse ht s"; cases "the (dur_parse ht s)")
    (auto simp: parse_bound_def parse_f64_ok split: option.split_asm)

lemma threshold_parse_ok: "threshold_parse ht s = Some (Inr e) \<Longrightarrow> expr_ok e"
  by (auto simp: threshold_parse_def expr_ok_def Let_def map_sum_Inr dest: parse_agg_shaped parse_bound_ok
      split: if_splits option.splits prod.splits sum.splits)

text \<open>
  C38: every threshold expression the parser accepts survives its display: the printed form parses to
  the same aggregation, the same operator and the same bound, bit for bit, whatever the humantime
  parser does, because a displayed bound is a plain number even when the document wrote a duration.
\<close>

theorem threshold_roundtrip:
  assumes "threshold_parse ht s = Some (Inr e)"
  shows "threshold_parse ht' (show_expr e) = Some (Inr e)"
  using show_expr_parse [OF threshold_parse_ok [OF assms]] .

theorem threshold_roundtrip_witness:
  "threshold_parse ns_parse (show_expr \<lparr>te_agg = AggRate, te_op = OpLe, te_bound = Fin 0\<rparr>) =
     Some (Inr \<lparr>te_agg = AggRate, te_op = OpLe, te_bound = Fin 0\<rparr>)"
proof -
  have "threshold_parse ns_parse '' rate <= 0 '' =
    Some (Inr \<lparr>te_agg = AggRate, te_op = OpLe, te_bound = Fin 0\<rparr>)" by code_simp
  then show ?thesis by (rule threshold_roundtrip)
qed

lemma parse_bound_trim:
  "parse_bound ht (trim x) =
    Some (case (parse_f64 (trim x), ht (trim x)) of
            (Some v, _) \<Rightarrow> Inr v
          | (None, Inr d) \<Rightarrow> Inr (as_secs_f64 d * Fin 1000)
          | (None, Inl _) \<Rightarrow> Inl (BadNumber (trim x)))"
  by (simp add: parse_bound_def dur_parse_def Let_def trimmed_trim_id split: option.split sum.split)

lemma threshold_parse_not_None: "\<exists>r. threshold_parse ht s = Some r"
  by (auto simp: threshold_parse_def Let_def parse_bound_trim split: option.split sum.split prod.split)

text \<open>
  Parsing a threshold never panics, although \<open>DurationSpec::parse\<close>, which it falls back to, can:
  the fallback is only reached for text that is not a number, where the panicking conversion from
  seconds is not reached. The outcome is decided by three questions in order: is there text, is there an operator,
  do both sides parse.
\<close>

theorem threshold_parse_outcome:
  "threshold_parse ht s =
     Some (if trim s = [] then Inl EmptyExpr
           else case find_op (trim s) ops None of
                  None \<Rightarrow> Inl (MissingOp (trim s))
                | Some (idx, len, op) \<Rightarrow>
                    let lhs = trim (take idx (trim s)); rhs = trim (drop (idx + len) (trim s))
                    in case (parse_agg lhs, parse_f64 rhs, ht rhs) of
                         (Inl e, _, _) \<Rightarrow> Inl e
                       | (Inr a, Some v, _) \<Rightarrow> Inr \<lparr>te_agg = a, te_op = op, te_bound = v\<rparr>
                       | (Inr a, None, Inr d) \<Rightarrow> Inr \<lparr>te_agg = a, te_op = op, te_bound = as_secs_f64 d * Fin 1000\<rparr>
                       | (Inr a, None, Inl _) \<Rightarrow> Inl (BadNumber rhs))"
  by (simp add: threshold_parse_def Let_def parse_bound_trim split: option.split sum.split prod.split)

end
