(* ===== verification/Thresholds.thy ===== *)
theory Thresholds
  imports Threshold_Expr Federation
begin

text \<open>
  Compiled thresholds and their evaluation (\<open>loadr-core/src/thresholds.rs\<close>, with
  \<open>AggValues::value_for\<close> of \<open>aggregate.rs\<close> and the \<open>thresholds:\<close> block of \<open>plan.rs\<close>).
\<close>

section \<open>The thresholds block\<close>

datatype threshold_entry = ExprEntry string | Detailed string bool "duration option"

datatype threshold_list = Single string | Many "threshold_entry list"

fun entries :: "threshold_list \<Rightarrow> threshold_entry list" where
  "entries (Single s) = [ExprEntry s]"
| "entries (Many v) = v"

fun entry_expression :: "threshold_entry \<Rightarrow> string" where
  "entry_expression (ExprEntry s) = s"
| "entry_expression (Detailed threshold _ _) = threshold"

fun entry_abort_on_fail :: "threshold_entry \<Rightarrow> bool" where
  "entry_abort_on_fail (ExprEntry _) = False"
| "entry_abort_on_fail (Detailed _ abort _) = abort"

fun entry_delay_abort_eval :: "threshold_entry \<Rightarrow> duration option" where
  "entry_delay_abort_eval (ExprEntry _) = None"
| "entry_delay_abort_eval (Detailed _ _ delay) = delay"

record compiled_threshold =
  ct_selector :: metric_selector
  ct_expr :: threshold_expr
  ct_abort_on_fail :: bool
  ct_delay_abort_eval :: "duration option"
  ct_source :: string

record threshold_status =
  st_metric :: string
  st_expression :: string
  st_observed :: "f64 option"
  st_passed :: bool
  st_abort_on_fail :: bool

text \<open>The two messages \<open>compile_thresholds\<close> builds, with the error they print.\<close>

datatype compile_error = SelectorError threshold_error | ExprError string threshold_error

fun compile_entries ::
  "humantime_parse \<Rightarrow> string \<Rightarrow> metric_selector \<Rightarrow> threshold_entry list \<Rightarrow>
   (compile_error, compiled_threshold list) result panicky" where
  "compile_entries ht selector_str selector [] = Some (Inr [])"
| "compile_entries ht selector_str selector (entry # es) =
     Option.bind (threshold_parse ht (entry_expression entry)) (\<lambda>r. case r of
       Inl e \<Rightarrow> Some (Inl (ExprError selector_str e))
     | Inr expr \<Rightarrow>
         map_option (map_sum id (\<lambda>out.
           \<lparr>ct_selector = selector, ct_expr = expr, ct_abort_on_fail = entry_abort_on_fail entry,
            ct_delay_abort_eval = entry_delay_abort_eval entry, ct_source = entry_expression entry\<rparr> # out))
           (compile_entries ht selector_str selector es))"

fun compile_thresholds ::
  "humantime_parse \<Rightarrow> (string \<times> threshold_list) list \<Rightarrow> (compile_error, compiled_threshold list) result panicky" where
  "compile_thresholds ht [] = Some (Inr [])"
| "compile_thresholds ht ((selector_str, lst) # rest) =
     (case selector_parse selector_str of
        Inl e \<Rightarrow> Some (Inl (SelectorError e))
      | Inr selector \<Rightarrow>
          Option.bind (compile_entries ht selector_str selector (entries lst)) (\<lambda>r. case r of
            Inl e \<Rightarrow> Some (Inl e)
          | Inr out \<Rightarrow> map_option (map_sum id (\<lambda>out'. out @ out')) (compile_thresholds ht rest)))"

section \<open>Looking up an aggregate\<close>

definition near :: "f64 \<Rightarrow> f64 \<Rightarrow> bool" where
  "near x p \<longleftrightarrow> \<bar>x - p\<bar> < NEAR"

definition fixed_percentile :: "agg_values \<Rightarrow> f64 \<Rightarrow> f64 option" where
  "fixed_percentile v p =
     (if near p (Fin 90) then av_p90 v
      else if near p (Fin 95) then av_p95 v
      else if near p (Fin 99) then av_p99 v
      else if near p (rnd (999/10)) then av_p999 v
      else None)"

fun value_for :: "agg_values \<Rightarrow> agg \<Rightarrow> metric_kind \<Rightarrow> f64 option" where
  "value_for v AggAvg kind = av_avg v"
| "value_for v AggMin kind = av_min v"
| "value_for v AggMax kind = av_max v"
| "value_for v AggMed kind = av_med v"
| "value_for v (AggPercentile p) kind = fixed_percentile v p"
| "value_for v (AggSlo n) kind = (if near n (Fin 50) then av_med v else fixed_percentile v n)"
| "value_for v AggRate kind = (if kind = Rate then av_rate v else av_per_second v)"
| "value_for v AggCount kind = Some (if kind = Counter then av_sum v else f64_of_nat (av_count v))"
| "value_for v AggValue kind = av_last v"

fun effective_agg :: "agg \<Rightarrow> agg" where
  "effective_agg (AggSlo n) = (if near n (Fin 50) then AggMed else AggPercentile n)"
| "effective_agg other = other"

section \<open>Evaluation\<close>

definition evaluate :: "'h hdr \<Rightarrow> nat \<Rightarrow> compiled_threshold \<Rightarrow> 'h aggregator \<Rightarrow> threshold_status" where
  "evaluate hdr now t a =
     (let sel = ct_selector t; metric = sel_metric sel; lookup = effective_agg (te_agg (ct_expr t));
          observed = Option.bind (aggregate_selector hdr now metric (sel_tags sel) a) (\<lambda>(kind, values).
            case lookup of
              AggPercentile p \<Rightarrow>
                (case value_for values lookup kind of
                   Some v \<Rightarrow> Some v
                 | None \<Rightarrow> aggregate_selector_percentile hdr metric (sel_tags sel) p a)
            | _ \<Rightarrow> value_for values lookup kind);
          passed = (case observed of Some v \<Rightarrow> op_eval (te_op (ct_expr t)) v (te_bound (ct_expr t)) | None \<Rightarrow> True)
      in \<lparr>st_metric = selector_show sel, st_expression = ct_source t, st_observed = observed,
          st_passed = passed, st_abort_on_fail = ct_abort_on_fail t\<rparr>)"

fun evaluate_loop ::
  "'h hdr \<Rightarrow> nat \<Rightarrow> 'h aggregator \<Rightarrow> duration \<Rightarrow> compiled_threshold list \<Rightarrow> bool \<Rightarrow> threshold_status list \<times> bool" where
  "evaluate_loop hdr now a elapsed [] abort = ([], abort)"
| "evaluate_loop hdr now a elapsed (t # ts) abort =
     (let status = evaluate hdr now t a;
          delay_ok = (case ct_delay_abort_eval t of Some d \<Rightarrow> d \<le> elapsed | None \<Rightarrow> True);
          abort' = (if \<not> st_passed status \<and> ct_abort_on_fail t \<and> delay_ok then True else abort);
          (statuses, abort'') = evaluate_loop hdr now a elapsed ts abort'
      in (status # statuses, abort''))"

definition evaluate_all ::
  "'h hdr \<Rightarrow> nat \<Rightarrow> compiled_threshold list \<Rightarrow> 'h aggregator \<Rightarrow> duration \<Rightarrow> threshold_status list \<times> bool" where
  "evaluate_all hdr now ts a elapsed = evaluate_loop hdr now a elapsed ts False"

definition threshold_kind :: "'h hdr \<Rightarrow> nat \<Rightarrow> 'h aggregator \<Rightarrow> compiled_threshold \<Rightarrow> metric_kind option" where
  "threshold_kind hdr now a t =
     map_option fst (aggregate_selector hdr now (sel_metric (ct_selector t)) (sel_tags (ct_selector t)) a)"

section \<open>Labels\<close>

definition as_i64 :: "f64 \<Rightarrow> int" where
  "as_i64 x =
     (case x of
        Fin r \<Rightarrow> max (- (2 ^ 63)) (min (if 0 \<le> r then \<lfloor>r\<rfloor> else \<lceil>r\<rceil>) (2 ^ 63 - 1))
      | PInf \<Rightarrow> 2 ^ 63 - 1 | NInf \<Rightarrow> - (2 ^ 63) | NaN \<Rightarrow> 0)"

definition fmt_ms :: "f64 \<Rightarrow> string" where
  "fmt_ms v =
     (if \<bar>v - f64_round v\<bar> < NEAR then show_int (as_i64 (f64_round v))
      else rev (dropWhile (\<lambda>c. c = CHR ''.'') (dropWhile (\<lambda>c. c = CHR ''0'') (rev (show_fixed 2 v)))))"

definition slo_observed_label :: "compiled_threshold \<Rightarrow> f64 option \<Rightarrow> string option" where
  "slo_observed_label t observed =
     (case te_agg (ct_expr t) of
        AggSlo n \<Rightarrow>
          map_option (\<lambda>v.
            (let budget_op = (case te_op (ct_expr t) of
                   OpLt \<Rightarrow> ''<='' | OpLe \<Rightarrow> ''<='' | OpGt \<Rightarrow> ''>='' | OpGe \<Rightarrow> ''>='' | other \<Rightarrow> show_op other)
             in ''p'' @ fmt_ms n @ ''='' @ fmt_ms v @ ''ms (budget: '' @ budget_op @ fmt_ms (te_bound (ct_expr t)) @ ''ms)''))
            observed
      | _ \<Rightarrow> None)"

section \<open>Compiling keeps every entry\<close>

lemma compile_entries_outcome:
  "\<exists>r. compile_entries ht sel_str sel es = Some r \<and>
     (\<forall>cts. r = Inr cts \<longrightarrow>
        map ct_source cts = map entry_expression es \<and>
        list_all (\<lambda>t. ct_selector t = sel \<and> expr_ok (ct_expr t) \<and> threshold_parse ht (ct_source t) = Some (Inr (ct_expr t))) cts)"
proof (induction es)
  case (Cons e es)
  obtain r where r: "threshold_parse ht (entry_expression e) = Some r"
    using threshold_parse_not_None [of ht "entry_expression e"] by blast
  show ?case
  proof (cases r)
    case (Inr expr)
    then have "expr_ok expr" using r threshold_parse_ok by blast
    then show ?thesis using Cons r Inr by (auto simp: map_sum_Inr)
  qed (simp add: r)
qed simp

text \<open>
  Compiling the \<open>thresholds:\<close> block never panics, and when it succeeds every entry of every list
  has become one compiled threshold, in document order, whose expression is what its source text parses to.
\<close>

theorem compile_thresholds_complete:
  "\<exists>r. compile_thresholds ht block = Some r \<and>
     (\<forall>cts. r = Inr cts \<longrightarrow>
        map ct_source cts = concat (map (\<lambda>(_, l). map entry_expression (entries l)) block) \<and>
        list_all (\<lambda>t. threshold_parse ht (ct_source t) = Some (Inr (ct_expr t))) cts)"
proof (induction block)
  case (Cons b block)
  obtain sel_str l where b: "b = (sel_str, l)" by (cases b)
  show ?case
  proof (cases "selector_parse sel_str")
    case (Inr sel)
    then show ?thesis
      using Cons compile_entries_outcome [of ht sel_str sel "entries l"]
      by (auto simp: b map_sum_Inr list_all_iff split: sum.splits)
  qed (simp add: b)
qed simp

theorem compile_thresholds_complete_witness:
  "map ct_source
     (case compile_thresholds ns_parse [(''errors'', Many [ExprEntry ''rate==0'', Detailed ''count<=0'' True None])] of
        Some (Inr cts) \<Rightarrow> cts | _ \<Rightarrow> []) = [''rate==0'', ''count<=0'']"
proof -
  let ?block = "[(''errors'', Many [ExprEntry ''rate==0'', Detailed ''count<=0'' True None])]"
  have "case compile_thresholds ns_parse ?block of Some (Inr cts) \<Rightarrow> True | _ \<Rightarrow> False" by code_simp
  then show ?thesis using compile_thresholds_complete [of ns_parse ?block] by (auto split: option.splits sum.splits)
qed

section \<open>Aborting\<close>

definition demands_abort :: "duration \<Rightarrow> compiled_threshold \<Rightarrow> threshold_status \<Rightarrow> bool" where
  "demands_abort elapsed t st \<longleftrightarrow>
     \<not> st_passed st \<and> ct_abort_on_fail t \<and> (case ct_delay_abort_eval t of None \<Rightarrow> True | Some d \<Rightarrow> d \<le> elapsed)"

text \<open>
  Evaluating all thresholds gives one status per threshold in order, and asks for an abort exactly
  when some failing threshold has \<open>abort_on_fail\<close> and its delay, if it has one, has passed.
\<close>

theorem evaluate_all_abort:
  "evaluate_all hdr now ts a elapsed =
     (map (\<lambda>t. evaluate hdr now t a) ts, list_ex (\<lambda>t. demands_abort elapsed t (evaluate hdr now t a)) ts)"
proof -
  have "evaluate_loop hdr now a elapsed ts abort =
     (map (\<lambda>t. evaluate hdr now t a) ts, abort \<or> list_ex (\<lambda>t. demands_abort elapsed t (evaluate hdr now t a)) ts)" for abort
    by (induction ts arbitrary: abort) (auto simp: Let_def demands_abort_def split: option.split)
  then show ?thesis by (simp add: evaluate_all_def)
qed

section \<open>Percentile thresholds\<close>

fun trend_contents :: "('h \<Rightarrow> nat multiset) \<Rightarrow> 'h series_data \<Rightarrow> nat multiset" where
  "trend_contents contents (STrend h _ _ _ _ _) = contents h"
| "trend_contents contents _ = {#}"

definition matching :: "metric_selector \<Rightarrow> 'h aggregator \<Rightarrow> 'h series list" where
  "matching sel a = map snd (filter (\<lambda>((m, ts), _). m = sel_metric sel \<and> tags_match (sel_tags sel) ts) (ag_series a))"

definition selected :: "('h \<Rightarrow> nat multiset) \<Rightarrow> metric_selector \<Rightarrow> 'h aggregator \<Rightarrow> nat multiset" where
  "selected contents sel a = sum_list (map (\<lambda>s. trend_contents contents (s_data s)) (matching sel a))"

lemma trend_okE:
  assumes "data_ok contents Trend d"
  obtains h e sm cnt mn mx where "d = STrend h e sm cnt mn mx" "cnt = size (contents h)"
  using assms by (cases d) auto

lemma matching_ok:
  assumes "agg_ok contents kinds a" "kinds (sel_metric sel) = Trend" "s \<in> set (matching sel a)"
  shows "s_kind s = Trend" "data_ok contents Trend (s_data s)"
proof -
  obtain ts where m: "((sel_metric sel, ts), s) \<in> set (ag_series a)" using assms(3) by (auto simp: matching_def)
  have "map_of (ag_series a) (sel_metric sel, ts) = Some s"
    using m assms(1) by (simp add: agg_ok_def wf_map_def)
  then show "s_kind s = Trend" "data_ok contents Trend (s_data s)"
    using assms(1,2) agg_okD [OF assms(1)] unfolding agg_ok_def by (metis fst_conv, metis fst_conv)
qed

lemma merge_trends:
  assumes "hdr_laws hdr bucket contents quant" "\<And>s. s \<in> set ss \<Longrightarrow> data_ok contents Trend (s_data s)"
    "data_ok contents Trend (s_data m)"
  shows "data_ok contents Trend (s_data (foldl (merge_series hdr metric) m ss))
    \<and> trend_contents contents (s_data (foldl (merge_series hdr metric) m ss)) =
      trend_contents contents (s_data m) + sum_list (map (\<lambda>s. trend_contents contents (s_data s)) ss)"
  using assms(2,3)
proof (induction ss arbitrary: m)
  case (Cons s ss)
  obtain h e sm cnt mn mx where s: "s_data s = STrend h e sm cnt mn mx" "cnt = size (contents h)"
    using Cons.prems(1) [of s] trend_okE by (metis list.set_intros(1))
  obtain h' e' sm' cnt' mn' mx' where m: "s_data m = STrend h' e' sm' cnt' mn' mx'" "cnt' = size (contents h')"
    using Cons.prems(2) trend_okE by metis
  have "contents e' \<subseteq># contents h'" using Cons.prems(2) m by simp
  then have ok: "data_ok contents Trend (s_data (merge_series hdr metric m s))"
    "trend_contents contents (s_data (merge_series hdr metric m s)) = contents h' + contents h"
    using s m hdr_lawsD(3) [OF assms(1)] by (simp_all add: merge_series_def subset_mset.add_increasing2)
  show ?case using Cons.IH [OF _ ok(1)] Cons.prems(1) ok(2) s m by (simp add: add.assoc)
qed simp

lemma percentile_loop_contents:
  assumes "hdr_laws hdr bucket contents quant" "\<And>s. s \<in> set ss \<Longrightarrow> data_ok contents Trend (s_data s)"
    "ss \<noteq> [] \<or> merged \<noteq> None"
  shows "\<exists>h. percentile_loop hdr ss merged = Some h \<and>
    contents h = (case merged of None \<Rightarrow> {#} | Some g \<Rightarrow> contents g) + sum_list (map (\<lambda>s. trend_contents contents (s_data s)) ss)"
  using assms(2,3)
proof (induction ss arbitrary: merged)
  case (Cons s ss)
  obtain h e sm cnt mn mx where s: "s_data s = STrend h e sm cnt mn mx"
    using Cons.prems(1) [of s] trend_okE by (metis list.set_intros(1))
  let ?m = "Some (case merged of None \<Rightarrow> h | Some m \<Rightarrow> h_add hdr m h)"
  have "percentile_loop hdr (s # ss) merged = percentile_loop hdr ss ?m" by (simp add: s)
  then show ?case using Cons.IH [of ?m] Cons.prems(1) hdr_lawsD(3) [OF assms(1)]
    by (cases merged) (auto simp: s add.assoc)
qed auto

lemma merged_trend:
  assumes "hdr_laws hdr bucket contents quant" "ss \<noteq> []"
    "\<And>s. s \<in> set ss \<Longrightarrow> s_kind s = Trend \<and> data_ok contents Trend (s_data s)"
  obtains d where "merged_agg hdr metric ss elapsed = Some (Trend, agg_values_of hdr elapsed d)" "data_ok contents Trend d"
    "trend_contents contents d = sum_list (map (\<lambda>s. trend_contents contents (s_data s)) ss)"
proof -
  obtain s rest where ss: "ss = s # rest" using assms(2) by (cases ss) auto
  let ?m = "foldl (merge_series hdr metric) (series_new hdr Trend) ss"
  have "data_ok contents Trend (s_data (series_new hdr Trend))" "trend_contents contents (s_data (series_new hdr Trend)) = {#}"
    using hdr_lawsD(1) [OF assms(1)] by (simp_all add: series_new_def)
  then have m: "data_ok contents Trend (s_data ?m)"
    "trend_contents contents (s_data ?m) = sum_list (map (\<lambda>s. trend_contents contents (s_data s)) ss)"
    using merge_trends [OF assms(1), of ss "series_new hdr Trend" metric] assms(3) by auto
  show thesis
  proof (cases rest)
    case Nil
    then show thesis using assms(3) [of s] that [of "s_data s"] by (simp add: ss merged_agg_def Let_def)
  next
    case (Cons s' rest')
    then show thesis using assms(3) [of s] that [OF _ m] by (simp add: ss merged_agg_def Let_def del: foldl_Cons)
  qed
qed

lemma f64_between: "Fin l < x \<Longrightarrow> x < Fin u \<Longrightarrow> \<exists>r. x = Fin r \<and> l < r \<and> r < u"
  by (cases x) auto

lemma NEAR_bounds: "Fin 0 < NEAR" "NEAR < Fin 1"
  by code_simp+

lemma near_int: "near (Fin (of_nat i)) (Fin (of_nat j)) \<longleftrightarrow> i = j" if "i \<le> 2 ^ 53" "j \<le> 2 ^ 53"
proof -
  obtain r where r: "NEAR = Fin r" "0 < r" "r < 1" using f64_between [OF NEAR_bounds] by blast
  have "rnd (of_nat i - of_nat j) = Fin (of_nat i - of_nat j)"
    using rep_int [of "int i - int j"] that by (simp add: rep_def)
  moreover have "\<bar>rat_of_nat i - rat_of_nat j\<bar> < r \<longleftrightarrow> i = j"
  proof (cases "i = j")
    case False
    have "1 \<le> \<bar>int i - int j\<bar>" using False by linarith
    then have "1 \<le> \<bar>rat_of_int (int i - int j)\<bar>" by linarith
    then show ?thesis using r False by simp
  qed (use r in simp)
  ultimately show ?thesis by (simp add: near_def r abs_f64_def)
qed

definition off_grid :: "f64 \<Rightarrow> bool" where
  "off_grid p \<longleftrightarrow> \<not> near p (Fin 90) \<and> \<not> near p (Fin 95) \<and> \<not> near p (Fin 99) \<and> \<not> near p (rnd (999/10))"

lemma fixed_percentile_trend:
  assumes "p \<in> {Fin 90, Fin 95, Fin 99} \<or> off_grid p" "0 < cnt"
  shows "fixed_percentile (agg_values_of hdr elapsed (STrend h e sm cnt mn mx)) p =
    (if off_grid p then None else Some (trend_quantile hdr (p / Fin 100) h))"
proof -
  have n: "near (Fin 90) (Fin 90)" "near (Fin 95) (Fin 95)" "near (Fin 99) (Fin 99)"
    "\<not> near (Fin 95) (Fin 90)" "\<not> near (Fin 99) (Fin 90)" "\<not> near (Fin 99) (Fin 95)"
    using near_int [of 90 90] near_int [of 95 95] near_int [of 99 99] near_int [of 95 90] near_int [of 99 90] near_int [of 99 95]
    by simp_all
  show ?thesis using assms n by (auto simp: fixed_percentile_def off_grid_def Let_def)
qed


definition p90_threshold :: compiled_threshold where
  "p90_threshold =
     \<lparr>ct_selector = \<lparr>sel_metric = ''http_req_duration'', sel_tags = []\<rparr>,
      ct_expr = \<lparr>te_agg = AggPercentile (Fin 90), te_op = OpLt, te_bound = Fin 400\<rparr>,
      ct_abort_on_fail = False, ct_delay_abort_eval = None, ct_source = ''p(90)<400''\<rparr>"


end
