(* ===== verification/Summary.thy ===== *)
theory Summary
  imports Thresholds "HOL-Library.Option_ord"
begin

text \<open>
  The end-of-run summary (\<open>loadr-core/src/summary.rs\<close>): timeline points from live snapshots, and the
  summary built from the final aggregator. The arguments \<open>now\<close>, \<open>sel_now\<close> and
  \<open>rollup_now\<close> are the clock as the successive projections of the aggregator read it.
\<close>

section \<open>Timeline\<close>

record timeline_point =
  tp_elapsed_secs :: f64
  tp_rps :: f64
  tp_iterations_ps :: f64
  tp_active_vus :: f64
  tp_error_rate :: f64
  tp_latency_avg :: "f64 option"
  tp_latency_p50 :: "f64 option"
  tp_latency_p95 :: "f64 option"
  tp_latency_p99 :: "f64 option"
  tp_external :: "(string \<times> f64) list"

definition error_rate :: "snapshot \<Rightarrow> f64" where
  "error_rate snap =
     (case foldl (\<lambda>(p, t) s. (p + ss_interval_sum s, t + ss_interval_count s)) (Fin 0, 0 :: nat)
             (filter (\<lambda>s. ss_metric s = ''http_req_failed'') (sn_series snap)) of
        (passes, tot) \<Rightarrow> if 0 < tot then passes / f64_of_nat tot else Fin 0)"

text \<open>The weighted fallback of \<open>latency\<close>: the series that have samples and the wanted percentile.\<close>

fun latency_loop :: "(agg_values \<Rightarrow> f64 option) \<Rightarrow> series_snapshot list \<Rightarrow> f64 \<times> nat \<Rightarrow> f64 \<times> nat" where
  "latency_loop pick [] acc = acc"
| "latency_loop pick (s # ss) (acc, tot) =
     latency_loop pick ss
       (if av_count (ss_agg s) = 0 then (acc, tot)
        else case pick (ss_agg s) of
               Some v \<Rightarrow> (acc + v * f64_of_nat (av_count (ss_agg s)), tot + av_count (ss_agg s))
             | None \<Rightarrow> (acc, tot))"

definition latency :: "snapshot \<Rightarrow> snapshot option \<Rightarrow> (agg_values \<Rightarrow> f64 option) \<Rightarrow> f64 option" where
  "latency snap exact pick =
     (case Option.bind exact (\<lambda>e.
             Option.bind (List.find (\<lambda>s. ss_metric s = ''request_duration'' \<and> ss_tags s = []) (sn_series e))
               (\<lambda>s. pick (ss_agg s))) of
        Some value \<Rightarrow> Some value
      | None \<Rightarrow>
          (case latency_loop pick (filter (\<lambda>s. is_request_duration_metric (ss_metric s)) (sn_series snap)) (Fin 0, 0) of
             (acc, tot) \<Rightarrow> if 0 < tot then Some (acc / f64_of_nat tot) else None))"

definition from_snapshots :: "snapshot \<Rightarrow> snapshot option \<Rightarrow> timeline_point" where
  "from_snapshots snap exact =
     (let interval = (if Fin 0 < sn_interval_secs snap then sn_interval_secs snap else Fin 1)
      in \<lparr>tp_elapsed_secs = sn_elapsed_secs snap,
          tp_rps = f64_of_nat (interval_request_count snap) / interval,
          tp_iterations_ps = f64_of_nat (interval_count ''iterations'' snap) / interval,
          tp_active_vus = foldl (+) (Fin 0)
            (List.map_filter (\<lambda>s. if ss_metric s = ''vus'' then av_last (ss_agg s) else None) (sn_series snap)),
          tp_error_rate = error_rate snap,
          tp_latency_avg = latency snap exact av_avg,
          tp_latency_p50 = latency snap exact av_med,
          tp_latency_p95 = latency snap exact av_p95,
          tp_latency_p99 = latency snap exact av_p99,
          tp_external = []\<rparr>)"

section \<open>Building the summary\<close>

record check_failure_group =
  cg_code :: "int option"
  cg_label :: string
  cg_count :: nat

record check_summary =
  cs_name :: string
  cs_passes :: nat
  cs_fails :: nat
  cs_failure_groups :: "check_failure_group list"

record check_accumulator =
  ca_passes :: nat
  ca_fails :: nat
  ca_failure_groups :: "(int option \<times> string, nat) hashmap"

record metric_summary =
  ms_metric :: string
  ms_kind :: metric_kind
  ms_agg :: agg_values

record summary =
  su_name :: "string option"
  su_run_id :: string
  su_started_ms :: nat
  su_ended_ms :: nat
  su_duration_secs :: f64
  su_scenarios :: "string list"
  su_metrics :: "metric_summary list"
  su_checks :: "check_summary list"
  su_thresholds :: "threshold_status list"
  su_thresholds_passed :: bool
  su_aborted :: "string option"
  su_snapshot :: snapshot
  su_timeline :: "timeline_point list"

definition merged_metrics :: "'h hdr \<Rightarrow> (string \<Rightarrow> nat) \<Rightarrow> nat \<Rightarrow> snapshot \<Rightarrow> 'h aggregator \<Rightarrow> metric_summary list" where
  "merged_metrics hdr sel_now rollup_now snap a =
     filter (\<lambda>m. \<not> rollup_metric (ms_metric m))
       (List.map_filter
          (\<lambda>m. map_option (\<lambda>(kind, values). \<lparr>ms_metric = m, ms_kind = kind, ms_agg = values\<rparr>)
             (aggregate_selector hdr (sel_now m) m [] a))
          (remdups_adj (sort (map ss_metric (sn_series snap))))) @
     map (\<lambda>s. \<lparr>ms_metric = ss_metric s, ms_kind = ss_kind s, ms_agg = ss_agg s\<rparr>)
       (filter (\<lambda>s. ss_tags s = [] \<and> rollup_metric (ss_metric s)) (sn_series (aggregate_snapshot hdr rollup_now [] a)))"

text \<open>\<open>u64\<close> subtraction: overflow panics where overflow checks are compiled in.\<close>

definition checked_sub :: "nat \<Rightarrow> nat \<Rightarrow> nat panicky" where
  "checked_sub m n = (if n \<le> m then Some (m - n) else None)"

definition reqs_ok_series :: "f64 \<Rightarrow> nat \<Rightarrow> metric_summary" where
  "reqs_ok_series elapsed ok =
     \<lparr>ms_metric = ''request_reqs_ok'', ms_kind = Counter,
      ms_agg = agg_default\<lparr>av_count := ok, av_sum := f64_of_nat ok,
        av_per_second := (if Fin 0 < elapsed then Some (f64_of_nat ok / elapsed) else None)\<rparr>\<rparr>"

definition request_reqs_ok :: "f64 \<Rightarrow> metric_summary list \<Rightarrow> metric_summary list panicky" where
  "request_reqs_ok elapsed metrics =
     (case List.find (\<lambda>m. ms_metric m = ''http_req_failed'') metrics of
        None \<Rightarrow> Some []
      | Some m \<Rightarrow>
          if av_count (ms_agg m) = 0 then Some []
          else map_option (\<lambda>ok. [reqs_ok_series elapsed ok]) (checked_sub (av_count (ms_agg m)) (f64_to_u64 (av_sum (ms_agg m)))))"

definition parse_i64 :: "string \<Rightarrow> int option" where
  "parse_i64 s =
     (let (neg, body) = take_sign s;
          v = (if neg then - int (dec_val body) else int (dec_val body))
      in if body \<noteq> [] \<and> list_all ascii_digit body \<and> - (2 ^ 63) \<le> v \<and> v < 2 ^ 63 then Some v else None)"

definition add_check :: "series_snapshot \<Rightarrow> (string, check_accumulator) hashmap \<Rightarrow> (string, check_accumulator) hashmap panicky" where
  "add_check s checks =
     (let name = (case tag_get ''check'' (ss_tags s) of Some n \<Rightarrow> n | None \<Rightarrow> ''unnamed'');
          passes = f64_to_u64 (av_sum (ss_agg s))
      in map_option (\<lambda>fails.
           upsert name \<lparr>ca_passes = 0, ca_fails = 0, ca_failure_groups = []\<rparr>
             (\<lambda>entry. entry\<lparr>ca_passes := ca_passes entry + passes, ca_fails := ca_fails entry + fails,
                ca_failure_groups :=
                  (case (0 < fails, tag_get ''failure_group'' (ss_tags s)) of
                     (True, Some label) \<Rightarrow>
                       upsert (Option.bind (tag_get ''failure_code'' (ss_tags s)) parse_i64, label) 0 (\<lambda>n. n + fails)
                         (ca_failure_groups entry)
                   | _ \<Rightarrow> ca_failure_groups entry)\<rparr>) checks)
           (checked_sub (av_count (ss_agg s)) passes))"

fun add_checks :: "series_snapshot list \<Rightarrow> (string, check_accumulator) hashmap \<Rightarrow> (string, check_accumulator) hashmap panicky" where
  "add_checks [] checks = Some checks"
| "add_checks (s # ss) checks = Option.bind (add_check s checks) (add_checks ss)"

definition check_summary_of :: "string \<times> check_accumulator \<Rightarrow> check_summary" where
  "check_summary_of e =
     \<lparr>cs_name = fst e, cs_passes = ca_passes (snd e), cs_fails = ca_fails (snd e),
      cs_failure_groups = map (\<lambda>((code, label), n). \<lparr>cg_code = code, cg_label = label, cg_count = n\<rparr>)
        (sort_key fst (ca_failure_groups (snd e)))\<rparr>"

definition check_summaries :: "snapshot \<Rightarrow> check_summary list panicky" where
  "check_summaries snap =
     map_option (\<lambda>checks. map check_summary_of (sort_key fst checks))
       (add_checks (filter (\<lambda>s. ss_metric s = ''checks'') (sn_series snap)) [])"

definition summary_build ::
  "'h hdr \<Rightarrow> nat \<Rightarrow> (string \<Rightarrow> nat) \<Rightarrow> nat \<Rightarrow> nat \<Rightarrow> string option \<Rightarrow> string \<Rightarrow> nat \<Rightarrow> string list \<Rightarrow> threshold_status list \<Rightarrow>
   string option \<Rightarrow> timeline_point list \<Rightarrow> 'h aggregator \<Rightarrow> (summary \<times> 'h aggregator) panicky" where
  "summary_build hdr now sel_now rollup_now ended_ms name run_id started_ms scenarios thresholds aborted timeline a0 =
     (let (snap, a) = build_snapshot hdr now True a0;
          metrics = merged_metrics hdr sel_now rollup_now snap a
      in Option.bind (request_reqs_ok (sn_elapsed_secs snap) metrics) (\<lambda>ok.
         Option.bind (check_summaries snap) (\<lambda>checks.
           Some (\<lparr>su_name = name, su_run_id = run_id, su_started_ms = started_ms, su_ended_ms = ended_ms,
             su_duration_secs = sn_elapsed_secs snap, su_scenarios = scenarios,
             su_metrics = sort_key ms_metric (metrics @ ok), su_checks = checks, su_thresholds = thresholds,
             su_thresholds_passed = list_all st_passed thresholds, su_aborted = aborted, su_snapshot = snap,
             su_timeline = timeline\<rparr>, a))))"

section \<open>The summary adds up\<close>

definition passes_of :: "'h series \<Rightarrow> nat" where
  "passes_of s = (case s_data s of SRate p _ _ _ \<Rightarrow> p | _ \<Rightarrow> 0)"

definition row_passes :: "series_snapshot \<Rightarrow> nat" where
  "row_passes s = f64_to_u64 (av_sum (ss_agg s))"

definition row_ok :: "series_snapshot \<Rightarrow> bool" where
  "row_ok s \<longleftrightarrow> row_passes s \<le> av_count (ss_agg s)"

lemma rate_okE:
  assumes "data_ok contents Rate d"
  obtains p t fp ft where "d = SRate p t fp ft" "p \<le> t"
  using assms by (cases d) auto

lemma f64_to_u64_of_nat: "n \<le> 2 ^ 53 \<Longrightarrow> f64_to_u64 (f64_of_nat n) = n"
  using rep_nat [of n] by (simp add: f64_of_nat_def rep_def)

lemma sum_values_update:
  "wf_map m \<Longrightarrow>
   sum_list (map (\<lambda>e. g (snd e)) (AList.update k v m)) + (case map_of m k of None \<Rightarrow> 0 | Some w \<Rightarrow> g w) =
     sum_list (map (\<lambda>e. g (snd e)) m) + (g v :: nat)"
proof (induction m)
  case (Cons e m)
  then show ?case by (auto simp: wf_map_def dom_map_of_conv_image_fst split: option.splits)
qed simp

lemma add_check_sums:
  assumes "row_ok s" "wf_map m"
  obtains m' where "add_check s m = Some m'" "wf_map m'"
    "sum_list (map (\<lambda>e. ca_passes (snd e)) m') = sum_list (map (\<lambda>e. ca_passes (snd e)) m) + row_passes s"
    "sum_list (map (\<lambda>e. ca_passes (snd e) + ca_fails (snd e)) m') =
       sum_list (map (\<lambda>e. ca_passes (snd e) + ca_fails (snd e)) m) + av_count (ss_agg s)"
proof -
  define m' where "m' = the (add_check s m)"
  have m': "add_check s m = Some m'"
    using assms(1) by (simp add: m'_def add_check_def checked_sub_def row_ok_def row_passes_def Let_def)
  define name where "name = (case tag_get ''check'' (ss_tags s) of Some n \<Rightarrow> n | None \<Rightarrow> ''unnamed'')"
  obtain v where v: "m' = AList.update name v m"
    "ca_passes v = (case map_of m name of None \<Rightarrow> 0 | Some w \<Rightarrow> ca_passes w) + row_passes s"
    "ca_fails v = (case map_of m name of None \<Rightarrow> 0 | Some w \<Rightarrow> ca_fails w) + (av_count (ss_agg s) - row_passes s)"
    using m' assms(1)
    by (auto simp: add_check_def checked_sub_def row_ok_def row_passes_def name_def [symmetric] Let_def upsert_def split: option.splits)
  have p: "sum_list (map (\<lambda>e. ca_passes (snd e)) m') = sum_list (map (\<lambda>e. ca_passes (snd e)) m) + row_passes s"
    using sum_values_update [OF assms(2), of ca_passes name v] v by (auto split: option.splits)
  have f: "sum_list (map (\<lambda>e. ca_passes (snd e) + ca_fails (snd e)) m') =
       sum_list (map (\<lambda>e. ca_passes (snd e) + ca_fails (snd e)) m) + av_count (ss_agg s)"
    using sum_values_update [OF assms(2), of "\<lambda>a. ca_passes a + ca_fails a" name v] v assms(1)
    by (auto simp: row_ok_def split: option.splits)
  show thesis using that [OF m' _ p f] assms(2) v(1) by simp
qed

lemma add_checks_sums:
  "list_all row_ok ss \<Longrightarrow> wf_map m \<Longrightarrow>
   \<exists>m'. add_checks ss m = Some m' \<and>
     sum_list (map (\<lambda>e. ca_passes (snd e)) m') = sum_list (map (\<lambda>e. ca_passes (snd e)) m) + sum_list (map row_passes ss) \<and>
     sum_list (map (\<lambda>e. ca_passes (snd e) + ca_fails (snd e)) m') =
       sum_list (map (\<lambda>e. ca_passes (snd e) + ca_fails (snd e)) m) + sum_list (map (\<lambda>s. av_count (ss_agg s)) ss)"
proof (induction ss arbitrary: m)
  case (Cons s ss)
  obtain m1 where "add_check s m = Some m1" "wf_map m1"
    "sum_list (map (\<lambda>e. ca_passes (snd e)) m1) = sum_list (map (\<lambda>e. ca_passes (snd e)) m) + row_passes s"
    "sum_list (map (\<lambda>e. ca_passes (snd e) + ca_fails (snd e)) m1) =
       sum_list (map (\<lambda>e. ca_passes (snd e) + ca_fails (snd e)) m) + av_count (ss_agg s)"
    using add_check_sums [of s m] Cons.prems by auto
  then show ?case using Cons.IH [of m1] Cons.prems(1) by auto
qed simp

lemma sum_list_sort_key: "sum_list (map f (sort_key k xs)) = (sum_list (map f xs) :: nat)"
  by (simp flip: sum_mset_sum_list)

lemma snapshot_rows:
  assumes "agg_ok contents kinds a" "kinds m = Rate" "metric_sum m series_count (ag_series a) \<le> 2 ^ 53"
    and rows_def: "rows = filter (\<lambda>s. ss_metric s = m) (sn_series (fst (build_snapshot hdr now True a)))"
  shows "list_all row_ok rows" "sum_list (map row_passes rows) = metric_sum m passes_of (ag_series a)"
    "sum_list (map (\<lambda>s. av_count (ss_agg s)) rows) = metric_sum m series_count (ag_series a)"
proof -
  let ?el = "as_secs_f64 (agg_elapsed now a)"
  let ?row = "\<lambda>(key, s). snapshot_of hdr ?el key s (fst (roll_series s))"
  let ?xs = "filter (\<lambda>(k, s). fst k = m) (ag_series a)"
  have each: "row_passes (?row e) = passes_of (snd e)" "av_count (ss_agg (?row e)) = series_count (snd e)" "row_ok (?row e)"
    if e: "e \<in> set ?xs" for e
  proof -
    obtain k s where [simp]: "e = (k, s)" by (cases e)
    note that = e [simplified]
    have "map_of (ag_series a) k = Some s" using that assms(1) by (auto simp: agg_ok_def wf_map_def)
    then have "data_ok contents Rate (s_data s)" using agg_okD [OF assms(1)] assms(2) that by fastforce
    then obtain p t fp ft where d: "s_data s = SRate p t fp ft" "p \<le> t" by (rule rate_okE)
    have "series_count s \<le> metric_sum m series_count (ag_series a)" unfolding metric_sum_def
      using that by (intro member_le_sum_list) (force, simp)
    then have "p \<le> 2 ^ 53" using d assms(3) by (simp add: series_count_def)
    then show "row_passes (?row e) = passes_of (snd e)" "av_count (ss_agg (?row e)) = series_count (snd e)" "row_ok (?row e)"
      using d by (simp_all add: row_passes_def row_ok_def snapshot_of_def passes_of_def series_count_def f64_to_u64_of_nat)
  qed
  have s: "sn_series (fst (build_snapshot hdr now True a)) = sort_series (map ?row (ag_series a))"
    by (simp add: build_snapshot_def Let_def)
  have "mset rows = mset (filter (\<lambda>s. ss_metric s = m) (map ?row (ag_series a)))"
    unfolding rows_def s sort_series_def by (simp only: mset_filter mset_sort)
  also have "\<dots> = mset (map ?row ?xs)" by (simp add: filter_map o_def case_prod_unfold snapshot_of_def)
  finally have mset: "mset rows = mset (map ?row ?xs)" .
  have sums: "sum_list (map f rows) = sum_list (map (\<lambda>e. f (?row e)) ?xs)" for f :: "series_snapshot \<Rightarrow> nat"
  proof -
    have "sum_list (map f rows) = sum_mset (image_mset f (mset rows))" by (simp flip: sum_mset_sum_list)
    also have "\<dots> = sum_mset (mset (map f (map ?row ?xs)))" by (simp only: mset mset_map)
    also have "\<dots> = sum_list (map f (map ?row ?xs))" by (rule sum_mset_sum_list)
    finally show ?thesis by (simp only: map_map o_def)
  qed
  have metric: "metric_sum m f (ag_series a) = sum_list (map (\<lambda>e. f (snd e)) ?xs)" for f
    
  proof -
    have "sum_list (map (\<lambda>(k, s). if fst k = m then f s else 0) xs) = sum_list (map (\<lambda>e. f (snd e)) (filter (\<lambda>(k, s). fst k = m) xs))"
      for xs by (induction xs) auto
    then show ?thesis by (simp add: metric_sum_def)
  qed
  show "list_all row_ok rows"
  proof -
    have "set rows = set (map ?row ?xs)" using mset by (rule mset_eq_setD)
    then show ?thesis unfolding list_all_iff using each(3) by (simp only: set_map ball_simps) blast
  qed
  show "sum_list (map row_passes rows) = metric_sum m passes_of (ag_series a)"
    unfolding sums metric by (rule arg_cong [of _ _ sum_list], rule map_cong [OF refl], rule each(1))
  show "sum_list (map (\<lambda>s. av_count (ss_agg s)) rows) = metric_sum m series_count (ag_series a)"
    unfolding sums metric by (rule arg_cong [of _ _ sum_list], rule map_cong [OF refl], rule each(2))
qed

lemma roll_series_keeps [simp]: "s_data (snd (roll_series s)) = s_data s" "s_kind (snd (roll_series s)) = s_kind s"
  by (simp_all add: roll_series_def Let_def split: series_data.split)

lemma build_snapshot_rolled:
  assumes "agg_ok contents kinds a"
  shows "agg_ok contents kinds (snd (build_snapshot hdr now True a))"
    "metric_sum m series_count (ag_series (snd (build_snapshot hdr now True a))) = metric_sum m series_count (ag_series a)"
proof -
  have s: "ag_series (snd (build_snapshot hdr now True a)) = map (\<lambda>(key, s). (key, snd (roll_series s))) (ag_series a)"
    by (simp add: build_snapshot_def Let_def)
  show "agg_ok contents kinds (snd (build_snapshot hdr now True a))"
    unfolding agg_ok_def s map_of_map_snd wf_map_map_snd
  proof (intro conjI allI impI)
    show "wf_map (ag_series a)" using assms by (simp add: agg_ok_def)
    fix k s assume "map_option (\<lambda>x. snd (roll_series x)) (map_of (ag_series a) k) = Some s"
    then obtain x where x: "map_of (ag_series a) k = Some x" "s = snd (roll_series x)" by auto
    then have "s_kind x = kinds (fst k) \<and> data_ok contents (kinds (fst k)) (s_data x)" using assms unfolding agg_ok_def by blast
    then show "s_kind s = kinds (fst k)" "data_ok contents (kinds (fst k)) (s_data s)" using x by simp_all
  qed
  show "metric_sum m series_count (ag_series (snd (build_snapshot hdr now True a))) = metric_sum m series_count (ag_series a)"
    unfolding s metric_sum_def by (simp add: case_prod_unfold o_def series_count_def cong: if_cong)
qed

lemma merge_rates:
  assumes "\<And>s. s \<in> set ss \<Longrightarrow> data_ok contents Rate (s_data s)" "s_data m = SRate p t fp ft" "p \<le> t"
  shows "\<exists>p' t'. s_data (foldl (merge_series hdr metric) m ss) = SRate p' t' fp ft \<and> p' \<le> t' \<and>
    t' = t + sum_list (map series_count ss)"
  using assms
proof (induction ss arbitrary: m p t)
  case (Cons s ss)
  obtain q u fq fu where s: "s_data s = SRate q u fq fu" "q \<le> u" using Cons.prems(1) [of s] rate_okE by (metis list.set_intros(1))
  have "s_data (merge_series hdr metric m s) = SRate (p + q) (t + u) fp ft"
    using s Cons.prems(2) by (simp add: merge_series_def)
  from Cons.IH [OF _ this] show ?case using Cons.prems(1,3) s by (simp add: series_count_def add.assoc)
qed simp

lemma failed_metric_ok:
  assumes "agg_ok contents kinds a" "kinds ''http_req_failed'' = Rate"
    "metric_sum ''http_req_failed'' series_count (ag_series a) \<le> 2 ^ 53"
    "aggregate_selector hdr now ''http_req_failed'' [] a = Some (kind, v)"
  shows "f64_to_u64 (av_sum v) \<le> av_count v"
proof -
  let ?m = "''http_req_failed''"
  define ss where "ss = map snd (filter (\<lambda>((m, ts), _). m = ?m \<and> tags_match [] ts) (ag_series a))"
  have each: "s_kind s = Rate \<and> data_ok contents Rate (s_data s)" if "s \<in> set ss" for s
  proof -
    obtain ts where "((?m, ts), s) \<in> set (ag_series a)" using \<open>s \<in> set ss\<close> by (auto simp: ss_def)
    then have "map_of (ag_series a) (?m, ts) = Some s" using assms(1) by (simp add: agg_ok_def wf_map_def)
    then show ?thesis using assms(1,2) unfolding agg_ok_def by (metis fst_conv)
  qed
  have count: "metric_sum ?m series_count xs = sum_list (map series_count (map snd (filter (\<lambda>((m, ts), _). m = ?m \<and> tags_match [] ts) xs)))" for xs
    unfolding metric_sum_def by (induction xs) (auto simp: tags_match_def)
  have tot: "sum_list (map series_count ss) \<le> 2 ^ 53" using assms(3) unfolding count ss_def .
  obtain s rest where ss: "ss = s # rest" using assms(4) by (cases ss) (auto simp: aggregate_selector_def merged_agg_def ss_def [symmetric])
  obtain p t fp ft where d: "v = agg_values_of hdr (as_secs_f64 (agg_elapsed now a)) (SRate p t fp ft)" "p \<le> t"
    "t \<le> sum_list (map series_count ss)"
  proof (cases rest)
    case Nil
    obtain p t fp ft where "s_data s = SRate p t fp ft" "p \<le> t" using each [of s] rate_okE ss by (metis list.set_intros(1))
    then show thesis using assms(4) each [of s] that [of p t fp ft] Nil
      by (simp add: aggregate_selector_def merged_agg_def ss_def [symmetric] ss Let_def series_count_def)
  next
    case (Cons s' rest')
    have "s_data (series_new hdr Rate) = SRate 0 0 0 0" by (simp add: series_new_def)
    then obtain p t where "s_data (foldl (merge_series hdr ?m) (series_new hdr Rate) ss) = SRate p t 0 0" "p \<le> t"
      "t = sum_list (map series_count ss)"
      using merge_rates [where m = "series_new hdr Rate" and hdr = hdr and metric = ?m] each by fastforce
    then show thesis using assms(4) each [of s] that [of p t 0 0] Cons
      by (simp add: aggregate_selector_def merged_agg_def ss_def [symmetric] ss Let_def del: foldl_Cons)
  qed
  then show ?thesis using tot by (simp add: f64_to_u64_of_nat)
qed

text \<open>
  Building the summary never underflows, although it subtracts a count read back from a float, and
  the checks it lists account for every check the run recorded: their passes and their fails add up to the
  passes and to the samples of the \<open>checks\<close> metric over all of its series.
\<close>

theorem summary_accounts_for_checks:
  assumes "agg_ok contents kinds a" "kinds ''checks'' = Rate" "kinds ''http_req_failed'' = Rate"
    "metric_sum ''checks'' series_count (ag_series a) \<le> 2 ^ 53"
    "metric_sum ''http_req_failed'' series_count (ag_series a) \<le> 2 ^ 53"
  shows "\<exists>su a'. summary_build hdr now sel_now rollup_now ended name run_id started scenarios thresholds aborted timeline a = Some (su, a') \<and>
    sum_list (map cs_passes (su_checks su)) = metric_sum ''checks'' passes_of (ag_series a) \<and>
    sum_list (map (\<lambda>c. cs_passes c + cs_fails c) (su_checks su)) = metric_sum ''checks'' series_count (ag_series a)"
proof -
  obtain snap a' where sn: "build_snapshot hdr now True a = (snap, a')" by (cases "build_snapshot hdr now True a")
  note rolled = build_snapshot_rolled [OF assms(1), where hdr = hdr and now = now, unfolded sn snd_conv]
  define metrics where "metrics = merged_metrics hdr sel_now rollup_now snap a'"
  have "request_reqs_ok (sn_elapsed_secs snap) metrics \<noteq> None"
  proof (cases "List.find (\<lambda>m. ms_metric m = ''http_req_failed'') metrics")
    case (Some m)
    then have "m \<in> set metrics" "ms_metric m = ''http_req_failed''" by (auto simp: find_Some_iff)
    then obtain kind where "aggregate_selector hdr (sel_now ''http_req_failed'') ''http_req_failed'' [] a' = Some (kind, ms_agg m)"
      by (auto simp: metrics_def merged_metrics_def rollup_metric_def List.map_filter_def)
    from failed_metric_ok [OF rolled(1) assms(3) _ this] Some show ?thesis
      using rolled(2) assms(5) by (simp add: request_reqs_ok_def checked_sub_def)
  qed (simp add: request_reqs_ok_def)
  then obtain ok where ok: "request_reqs_ok (sn_elapsed_secs snap) metrics = Some ok" by blast
  let ?rows = "filter (\<lambda>s. ss_metric s = ''checks'') (sn_series snap)"
  have rows: "list_all row_ok ?rows" "sum_list (map row_passes ?rows) = metric_sum ''checks'' passes_of (ag_series a)"
    "sum_list (map (\<lambda>s. av_count (ss_agg s)) ?rows) = metric_sum ''checks'' series_count (ag_series a)"
    using snapshot_rows [OF assms(1,2,4) refl, of hdr now] by (simp_all add: sn)
  obtain checks where "add_checks ?rows [] = Some checks"
    "sum_list (map (\<lambda>e. ca_passes (snd e)) checks) = metric_sum ''checks'' passes_of (ag_series a)"
    "sum_list (map (\<lambda>e. ca_passes (snd e) + ca_fails (snd e)) checks) = metric_sum ''checks'' series_count (ag_series a)"
    using add_checks_sums [OF rows(1) wf_map_Nil] rows(2,3) by auto
  then show ?thesis
    by (simp add: summary_build_def sn Let_def metrics_def [symmetric] ok check_summaries_def check_summary_of_def o_def sum_list_sort_key)
qed

theorem summary_accounts_for_checks_witness:
  "\<exists>su a'. summary_build char_hdr 0 (\<lambda>_. 0) 0 0 None ''r1'' 0 [] [] None [] (agg_record char_hdr check_sample (agg_new 0)) = Some (su, a') \<and>
    sum_list (map cs_passes (su_checks su)) = 1 \<and> sum_list (map (\<lambda>c. cs_passes c + cs_fails c) (su_checks su)) = 1"
proof -
  let ?a = "agg_record char_hdr check_sample (agg_new 0)"
  have a: "ag_series ?a = [((''checks'', []), \<lparr>s_kind = Rate, s_data = SRate 1 1 0 0, snap_counter = Fin 0, snap_count = 0\<rparr>)]"
    by (simp add: agg_record_def record_cached_def check_sample_def agg_new_def upsert_def series_new_def series_record_def f64_eq_def)
  have "agg_ok char_contents (\<lambda>_. Rate) ?a" by (simp add: agg_ok_def a wf_map_def)
  moreover have "metric_sum ''checks'' series_count (ag_series ?a) = 1" "metric_sum ''http_req_failed'' series_count (ag_series ?a) = 0"
    "metric_sum ''checks'' passes_of (ag_series ?a) = 1"
    by (simp_all add: a metric_sum_def series_count_def passes_of_def)
  ultimately show ?thesis
    using summary_accounts_for_checks [of char_contents "\<lambda>_. Rate" ?a char_hdr 0 "\<lambda>_. 0" 0 0 None "''r1''" 0 "[]" "[]" None "[]"]
    by simp
qed

end
