(* ===== verification/Junit.thy ===== *)
theory Junit
  imports Summary
begin

text \<open>
  The JUnit report of a summary (\<open>Summary::render_junit\<close> and \<open>xml_escape\<close> of
  \<open>loadr-core/src/summary.rs\<close>).
\<close>

section \<open>JUnit report\<close>

definition xml_char :: "char \<Rightarrow> string" where
  "xml_char c =
     (if c = CHR ''&'' then ''&amp;'' else if c = CHR ''<'' then ''&lt;'' else if c = CHR ''>'' then ''&gt;''
      else if c = CHR 0x22 then ''&quot;'' else if c = CHR 0x27 then ''&apos;'' else [c])"

definition xml_escape :: "string \<Rightarrow> string" where
  "xml_escape s = concat (map xml_char s)"

definition nl :: string where
  "nl = [CHR 0x0A]"

definition attr :: "string \<Rightarrow> string \<Rightarrow> string" where
  "attr name v = '' '' @ name @ ''='' @ CHR 0x22 # v @ [CHR 0x22]"

definition testcase_ok :: "string \<Rightarrow> string \<Rightarrow> string" where
  "testcase_ok name cls = ''    <testcase'' @ attr ''name'' name @ attr ''classname'' cls @ ''/>'' @ nl"

definition testcase_failed :: "string \<Rightarrow> string \<Rightarrow> string \<Rightarrow> string" where
  "testcase_failed name cls msg =
     ''    <testcase'' @ attr ''name'' name @ attr ''classname'' cls @ ''>'' @ nl @
     ''      <failure'' @ attr ''message'' msg @ ''/>'' @ nl @ ''    </testcase>'' @ nl"

definition threshold_case :: "threshold_status \<Rightarrow> string" where
  "threshold_case t =
     (let observed = (case st_observed t of Some v \<Rightarrow> show_fixed 2 v | None \<Rightarrow> ''no samples'');
          name = st_metric t @ '': '' @ st_expression t
      in if st_passed t then testcase_ok (xml_escape name) ''threshold''
         else testcase_failed (xml_escape name) ''threshold''
           (xml_escape (''threshold '' @ st_expression t @ '' failed (observed: '' @ observed @ '')'')))"

definition group_text :: "check_failure_group \<Rightarrow> string" where
  "group_text g =
     (case cg_code g of
        Some code \<Rightarrow> cg_label g @ '' (code '' @ show_int code @ ''): '' @ show_nat (cg_count g)
      | None \<Rightarrow> cg_label g @ '': '' @ show_nat (cg_count g))"

definition check_case :: "check_summary \<Rightarrow> string" where
  "check_case c =
     (if cs_fails c = 0 then testcase_ok (xml_escape (cs_name c)) ''check''
      else let groups = (if cs_failure_groups c = [] then []
                 else ''; failure groups: '' @ join '', '' (map group_text (cs_failure_groups c)))
           in testcase_failed (xml_escape (cs_name c)) ''check''
                (xml_escape (show_nat (cs_fails c) @ '' of '' @ show_nat (cs_passes c + cs_fails c) @ '' checks failed'' @ groups)))"

definition run_case :: "string option \<Rightarrow> string" where
  "run_case aborted =
     (case aborted of
        Some reason \<Rightarrow> testcase_failed ''run completed'' ''run'' (''run aborted: '' @ xml_escape reason)
      | None \<Rightarrow> testcase_ok ''run completed'' ''run'')"

definition threshold_failures :: "summary \<Rightarrow> nat" where
  "threshold_failures su = length (filter (\<lambda>t. \<not> st_passed t) (su_thresholds su))"

definition check_failures :: "summary \<Rightarrow> nat" where
  "check_failures su = length (filter (\<lambda>c. cs_fails c \<noteq> 0) (su_checks su))"

definition run_failures :: "summary \<Rightarrow> nat" where
  "run_failures su = (case su_aborted su of Some _ \<Rightarrow> 1 | None \<Rightarrow> 0)"

definition suite :: "string \<Rightarrow> nat \<Rightarrow> nat \<Rightarrow> string \<Rightarrow> string \<Rightarrow> string" where
  "suite name tests failures time cases =
     ''  <testsuite'' @ attr ''name'' name @ attr ''tests'' (show_nat tests) @ attr ''failures'' (show_nat failures) @
     attr ''time'' time @ ''>'' @ nl @ cases @ ''  </testsuite>'' @ nl"

definition total_failures :: "summary \<Rightarrow> nat" where
  "total_failures su = threshold_failures su + check_failures su + run_failures su"

definition render_junit :: "summary \<Rightarrow> string" where
  "render_junit su =
     (let suite_name = (case su_name su of Some n \<Rightarrow> n | None \<Rightarrow> ''loadr test'');
          time = show_fixed 3 (su_duration_secs su)
      in ''<?xml'' @ attr ''version'' ''1.0'' @ attr ''encoding'' ''UTF-8'' @ ''?>'' @ nl @
         ''<testsuites'' @ attr ''name'' (''loadr: '' @ xml_escape suite_name) @
         attr ''tests'' (show_nat (length (su_thresholds su) + length (su_checks su) + 1)) @
         attr ''failures'' (show_nat (total_failures su)) @ attr ''time'' time @ ''>'' @ nl @
         suite ''thresholds'' (length (su_thresholds su)) (threshold_failures su) time (concat (map threshold_case (su_thresholds su))) @
         suite ''checks'' (length (su_checks su)) (check_failures su) time (concat (map check_case (su_checks su))) @
         suite ''run'' 1 (run_failures su) time (run_case (su_aborted su)) @
         ''</testsuites>'' @ nl)"

section \<open>Escaping and the failures a report shows\<close>

definition MARKUP :: "char set" where
  "MARKUP = {CHR ''<'', CHR ''>'', CHR 0x22, CHR 0x27}"

fun xml_unescape :: "string \<Rightarrow> string" where
  "xml_unescape [] = []"
| "xml_unescape (c # s) =
     (if c \<noteq> CHR ''&'' then c # xml_unescape s
      else if prefix ''amp;'' s then CHR ''&'' # xml_unescape (drop 4 s)
      else if prefix ''lt;'' s then CHR ''<'' # xml_unescape (drop 3 s)
      else if prefix ''gt;'' s then CHR ''>'' # xml_unescape (drop 3 s)
      else if prefix ''quot;'' s then CHR 0x22 # xml_unescape (drop 5 s)
      else if prefix ''apos;'' s then CHR 0x27 # xml_unescape (drop 5 s)
      else c # xml_unescape s)"

lemma xml_escape_simps: "xml_escape [] = []" "xml_escape (c # s) = xml_char c @ xml_escape s"
  by (simp_all add: xml_escape_def)

lemma xml_escape_no_markup: "set (xml_escape s) \<inter> MARKUP = {}"
  by (induction s) (auto simp: xml_escape_simps xml_char_def MARKUP_def)

text \<open>
  Escaped text has no markup character left in it, whatever the text was, and unescaping it
  the way an XML reader does gives the text back.
\<close>

theorem xml_escape_roundtrip: "set (xml_escape s) \<inter> MARKUP = {} \<and> xml_unescape (xml_escape s) = s"
proof
  show "xml_unescape (xml_escape s) = s" by (induction s) (auto simp: xml_escape_simps xml_char_def)
qed (rule xml_escape_no_markup)

fun occurrences :: "string \<Rightarrow> string \<Rightarrow> nat" where
  "occurrences pat [] = 0"
| "occurrences pat (c # s) = (if prefix pat (c # s) then 1 else 0) + occurrences pat s"

abbreviation failures_in :: "string \<Rightarrow> nat" where
  "failures_in s \<equiv> occurrences ''<failure '' s"

lemma failures_skip: "CHR ''<'' \<notin> set x \<Longrightarrow> failures_in (x @ y) = failures_in y"
  by (induction x) auto

lemma failures_append_nl: "failures_in ((x @ [CHR 0x0A]) @ y) = failures_in (x @ [CHR 0x0A]) + failures_in y"
proof (induction x)
  case (Cons c x)
  have "prefix p ((c # x) @ CHR 0x0A # y) \<longleftrightarrow> prefix p ((c # x) @ [CHR 0x0A])" if "CHR 0x0A \<notin> set p" for p
  proof -
    have "prefix p (z @ CHR 0x0A # y) \<longleftrightarrow> prefix p (z @ [CHR 0x0A])" for z
      using that by (induction z arbitrary: p) (auto simp: prefix_Cons)
    then show ?thesis .
  qed
  from this [of "''<failure ''"] show ?case using Cons by simp
qed simp

definition line_ended :: "string \<Rightarrow> bool" where
  "line_ended x \<longleftrightarrow> (x = [] \<or> suffix nl x)"

lemma failures_append: "line_ended x \<Longrightarrow> failures_in (x @ y) = failures_in x + failures_in y"
proof (cases "x = []")
  case False
  assume "line_ended x"
  then obtain z where "x = z @ [CHR 0x0A]" using False by (auto simp: line_ended_def suffix_def nl_def)
  then show ?thesis using failures_append_nl [of z y] by (simp only:)
qed simp

lemma line_ended_nl: "line_ended (x @ nl)"
  by (simp add: line_ended_def suffix_def)

lemma line_ended_append: "line_ended y \<Longrightarrow> y \<noteq> [] \<Longrightarrow> line_ended (x @ y)"
  by (auto simp: line_ended_def suffix_append)

lemma line_ended_concat: "(\<And>x. line_ended (f x)) \<Longrightarrow> line_ended (concat (map f xs))"
proof (induction xs)
  case (Cons a xs)
  define r where "r = concat (map f xs)"
  have "line_ended r" "line_ended (f a)" using Cons by (simp_all add: r_def)
  then have "line_ended (f a @ r)" using line_ended_append [of r "f a"] by (cases r) simp_all
  then show ?case by (simp add: r_def)
qed (simp add: line_ended_def)

lemma failures_concat:
  "(\<And>x. line_ended (f x)) \<Longrightarrow> failures_in (concat (map f xs)) = sum_list (map (\<lambda>x. failures_in (f x)) xs)"
  by (induction xs) (simp_all add: failures_append)

lemma attr_clean: "CHR ''<'' \<in> set (attr n v) \<longleftrightarrow> CHR ''<'' \<in> set n \<or> CHR ''<'' \<in> set v"
  by (simp add: attr_def)

lemma escape_clean: "CHR ''<'' \<notin> set (xml_escape s)"
  using xml_escape_no_markup [of s] by (auto simp: MARKUP_def)

lemma show_nat_clean: "CHR ''<'' \<notin> set (show_nat n)"
  using show_nat_digits [of n] by (auto simp: ascii_digit_def)

lemma show_fixed_clean: "CHR ''<'' \<notin> set (show_fixed k v)"
proof -
  have "CHR ''<'' \<notin> set (show_f64 v)"
    using show_f64_chars [of v] number_chars_facts(2) [of "CHR ''<''"] by (auto simp: op_chars_def)
  then show ?thesis using show_nat_clean by (auto simp: show_fixed_def Let_def pad_left_def split: f64.split)
qed

lemmas clean = attr_clean escape_clean show_nat_clean show_fixed_clean

lemma testcase_ok_facts:
  assumes "CHR ''<'' \<notin> set n" "CHR ''<'' \<notin> set c"
  shows "failures_in (testcase_ok n c) = 0" "line_ended (testcase_ok n c)"
proof -
  show "failures_in (testcase_ok n c) = 0" using assms by (simp add: testcase_ok_def failures_skip clean nl_def)
  have "testcase_ok n c = (''    <testcase'' @ attr ''name'' n @ attr ''classname'' c @ ''/>'') @ nl"
    by (simp add: testcase_ok_def)
  then show "line_ended (testcase_ok n c)" by (metis line_ended_nl)
qed

lemma testcase_failed_facts:
  assumes "CHR ''<'' \<notin> set n" "CHR ''<'' \<notin> set c" "CHR ''<'' \<notin> set m"
  shows "failures_in (testcase_failed n c m) = 1" "line_ended (testcase_failed n c m)"
proof -
  have a: "attr ''message'' m = CHR '' '' # tl (attr ''message'' m)" by (simp add: attr_def)
  have "CHR ''<'' \<notin> set (tl (attr ''message'' m))" using assms(3) by (simp add: attr_def)
  then have "failures_in (''      <failure'' @ attr ''message'' m @ x) = 1 + failures_in x" for x
    by (subst a) (simp add: failures_skip)
  then show "failures_in (testcase_failed n c m) = 1"
    using assms by (simp add: testcase_failed_def failures_skip clean nl_def)
  have "testcase_failed n c m = (''    <testcase'' @ attr ''name'' n @ attr ''classname'' c @ ''>'' @ nl @
     ''      <failure'' @ attr ''message'' m @ ''/>'' @ nl @ ''    </testcase>'') @ nl"
    by (simp add: testcase_failed_def)
  then show "line_ended (testcase_failed n c m)" by (metis line_ended_nl)
qed

lemma threshold_case_facts:
  "failures_in (threshold_case t) = (if st_passed t then 0 else 1)" "line_ended (threshold_case t)"
  by (simp_all add: threshold_case_def Let_def testcase_ok_facts testcase_failed_facts clean)

lemma check_case_facts:
  "failures_in (check_case c) = (if cs_fails c = 0 then 0 else 1)" "line_ended (check_case c)"
  by (simp_all add: check_case_def Let_def testcase_ok_facts testcase_failed_facts clean)

lemma run_case_facts:
  "failures_in (run_case r) = (case r of Some _ \<Rightarrow> 1 | None \<Rightarrow> 0)" "line_ended (run_case r)"
  by (simp_all add: run_case_def testcase_ok_facts testcase_failed_facts clean split: option.split)

lemma failures_suite:
  assumes "CHR ''<'' \<notin> set name" "CHR ''<'' \<notin> set time" "line_ended cases"
  shows "failures_in (suite name tests failures time cases @ rest) = failures_in cases + failures_in rest"
proof -
  let ?tail = "''  </testsuite>'' @ nl @ rest"
  have "failures_in ?tail = failures_in rest" by (simp add: nl_def)
  then have c: "failures_in (cases @ ?tail) = failures_in cases + failures_in rest"
    by (simp only: failures_append [OF assms(3)])
  define body where "body = cases @ ?tail"
  have "suite name tests failures time cases @ rest =
    ''  <testsuite'' @ attr ''name'' name @ attr ''tests'' (show_nat tests) @ attr ''failures'' (show_nat failures) @
     attr ''time'' time @ ''>'' @ nl @ body" by (simp add: suite_def body_def)
  then have "failures_in (suite name tests failures time cases @ rest) = failures_in body"
    using assms(1,2) by (simp add: failures_skip clean nl_def)
  then show ?thesis using c by (simp add: body_def)
qed

lemma sum_list_failing: "sum_list (map (\<lambda>x. if P x then 0 else 1) xs) = length (filter (\<lambda>x. \<not> P x) xs)"
  by (induction xs) auto


end
