(* ===== verification/Paths.thy ===== *)
theory Paths
  imports Rust_Str
begin

text \<open>
  The path checks of the agent (\<open>loadr-agent/src/agent.rs\<close>) and the files an assignment
  materialises, over the Unix paths of \<open>std::path\<close>.
\<close>

section \<open>Unix paths\<close>

datatype component = RootDir | CurDir | ParentDir | Normal string

definition component_of :: "string \<Rightarrow> component" where
  "component_of w = (if w = ''..'' then ParentDir else Normal w)"

text \<open>
  \<open>Path::components\<close>: empty parts vanish, and a \<open>.\<close> part is only reported at the start of a relative path.
\<close>

definition components :: "string \<Rightarrow> component list" where
  "components p =
     (let parts = split_char CHR ''/'' p;
          body = map component_of (filter (\<lambda>w. w \<noteq> [] \<and> w \<noteq> ''.'') parts)
      in if prefix ''/'' p then RootDir # body
         else if hd parts = ''.'' then CurDir # body
         else body)"

definition is_absolute :: "string \<Rightarrow> bool" where
  "is_absolute p \<longleftrightarrow> prefix ''/'' p"

text \<open>\<open>Path::join\<close>: an absolute path replaces the base.\<close>

definition path_join :: "string \<Rightarrow> string \<Rightarrow> string" where
  "path_join d p =
     (if is_absolute p then p
      else if d = [] \<or> last d = CHR ''/'' then d @ p
      else d @ CHR ''/'' # p)"

section \<open>Validation\<close>

datatype path_error = EmptyPath | AbsoluteRejected string | NotNormal string | InvalidRunId string | IoError string

fun is_normal :: "component \<Rightarrow> bool" where
  "is_normal (Normal _) = True"
| "is_normal _ = False"

definition validate_data_file_path :: "string \<Rightarrow> (path_error, unit) result" where
  "validate_data_file_path path =
     (if path = [] then Inl EmptyPath
      else if is_absolute path \<or> prefix ''/'' path \<or> prefix [CHR 0x5C] path then Inl (AbsoluteRejected path)
      else if \<not> list_all is_normal (components path) then Inl (NotNormal path)
      else Inr ())"

definition validate_run_id :: "string \<Rightarrow> (path_error, unit) result" where
  "validate_run_id run_id =
     (if run_id = [] \<or> CHR ''/'' \<in> set run_id \<or> CHR 0x5C \<in> set run_id \<or> find_str ''..'' run_id \<noteq> None
      then Inl (InvalidRunId run_id) else Inr ())"

text \<open>
  \<open>materialize_files\<close>: the paths it writes, in order, and its result. \<open>io\<close> says for which paths creating
  the parent directories and writing the file succeed.
\<close>

fun materialize_files ::
  "(string \<Rightarrow> bool) \<Rightarrow> string \<Rightarrow> (string \<times> string) list \<Rightarrow> (path_error, unit) result \<times> (string \<times> string) list" where
  "materialize_files io dir [] = (Inr (), [])"
| "materialize_files io dir ((path, content) # files) =
     (case validate_data_file_path path of
        Inl e \<Rightarrow> (Inl e, [])
      | Inr _ \<Rightarrow>
          let full = path_join dir path
          in if \<not> io full then (Inl (IoError full), [])
             else case materialize_files io dir files of (r, writes) \<Rightarrow> (r, (full, content) # writes))"

section \<open>Files stay in their directory\<close>

text \<open>Where a path leads: the names below the root after every \<open>..\<close> has been followed.\<close>

fun enter :: "string list \<Rightarrow> component \<Rightarrow> string list" where
  "enter at_dir RootDir = []"
| "enter at_dir CurDir = at_dir"
| "enter at_dir ParentDir = butlast at_dir"
| "enter at_dir (Normal w) = at_dir @ [w]"

definition resolve :: "string \<Rightarrow> string list" where
  "resolve p = foldl enter [] (components p)"

lemma split_char_sep: "split_char c (d @ c # p) = split_char c d @ split_char c p"
proof (induction d)
  case (Cons x d)
  then show ?case by (cases "split_char c d") auto
qed simp

lemma prefix_single: "prefix [c] p \<longleftrightarrow> p \<noteq> [] \<and> hd p = c"
  by (cases p) auto

lemma enter_normals: "list_all is_normal cs \<Longrightarrow> \<exists>ns. length ns = length cs \<and> foldl enter at_dir cs = at_dir @ ns"
proof (induction cs arbitrary: at_dir)
  case (Cons c cs)
  then obtain w where "c = Normal w" by (cases c) auto
  with Cons show ?case by (metis (no_types, lifting) append.assoc append_Cons append_Nil enter.simps(4) foldl_Cons length_Cons list.pred_inject(2))
qed simp

lemma components_join:
  assumes "d \<noteq> []" "\<not> prefix ''/'' p" "list_all is_normal (components p)"
  shows "components (path_join d p) = components d @ components p"
proof -
  let ?body = "\<lambda>ws. map component_of (filter (\<lambda>w. w \<noteq> [] \<and> w \<noteq> ''.'') ws)"
  have p: "components p = ?body (split_char CHR ''/'' p)"
    using assms(2,3) by (auto simp: components_def Let_def split: if_splits)
  have parts: "?body (split_char CHR ''/'' (path_join d p)) = ?body (split_char CHR ''/'' d @ split_char CHR ''/'' p) \<and>
    hd (split_char CHR ''/'' (path_join d p)) = hd (split_char CHR ''/'' d)"
  proof (cases "last d = CHR ''/''")
    case True
    then obtain d' where d: "d = d' @ ''/''" using assms(1) by (metis append_butlast_last_id)
    have "split_char CHR ''/'' d = split_char CHR ''/'' d' @ [[]]" using split_char_sep [of "CHR ''/''" d' "[]"] by (simp add: d)
    then show ?thesis using assms(2) True split_char_sep [of "CHR ''/''" d' p] by (simp add: path_join_def is_absolute_def d)
  next
    case False
    then show ?thesis using assms(1,2) by (simp add: path_join_def is_absolute_def split_char_sep)
  qed
  have "prefix ''/'' (path_join d p) \<longleftrightarrow> prefix ''/'' d"
    using assms(1,2) by (auto simp: path_join_def is_absolute_def prefix_single hd_append)
  with parts show ?thesis unfolding components_def [of "path_join d p"] components_def [of d] p Let_def by (simp split: if_split)
qed

lemma valid_path_nonempty:
  assumes "validate_data_file_path p = Inr ()"
  shows "\<not> prefix ''/'' p" "list_all is_normal (components p)" "components p \<noteq> []"
proof -
  show a: "\<not> prefix ''/'' p" "list_all is_normal (components p)"
    using assms by (auto simp: validate_data_file_path_def split: if_splits)
  have ne: "p \<noteq> []" using assms by (auto simp: validate_data_file_path_def)
  obtain w ws where s: "split_char CHR ''/'' p = w # ws" by (cases "split_char CHR ''/'' p") auto
  have "w \<noteq> []" using s a(1) ne by (cases p) (auto split: list.splits if_splits)
  moreover have "w \<noteq> ''.''" using a by (auto simp: components_def s)
  ultimately show "components p \<noteq> []" using a(1) by (simp add: components_def s)
qed

text \<open>
  C31: whatever files an assignment names, every path the agent writes leads strictly below the
  run's directory: there is no \<open>..\<close>, no absolute path and no dot path that gets out.
\<close>

theorem materialize_stays_inside:
  assumes "dir \<noteq> []" "(path, content) \<in> set (snd (materialize_files io dir files))"
  shows "strict_prefix (resolve dir) (resolve path)"
proof -
  have "\<exists>p. validate_data_file_path p = Inr () \<and> path = path_join dir p"
    using assms(2) by (induction files) (fastforce simp: Let_def split: sum.splits prod.splits if_splits)+
  then obtain p where v: "validate_data_file_path p = Inr ()" and path: "path = path_join dir p" by blast
  note ok = valid_path_nonempty [OF v]
  obtain ns where "foldl enter (resolve dir) (components p) = resolve dir @ ns" "length ns = length (components p)"
    using enter_normals [OF ok(2)] by blast
  then show ?thesis
    using components_join [OF assms(1) ok(1,2)] ok(3) by (auto simp: resolve_def path strict_prefix_def)
qed

theorem materialize_stays_inside_witness:
  "strict_prefix (resolve ''/var/loadr/run1'') (resolve ''/var/loadr/run1/data/users.csv'')"
proof -
  have "snd (materialize_files (\<lambda>_. True) ''/var/loadr/run1'' [(''data/users.csv'', ''id'')]) =
    [(''/var/loadr/run1/data/users.csv'', ''id'')]" by code_simp
  then show ?thesis
    using materialize_stays_inside [of "''/var/loadr/run1''" "''/var/loadr/run1/data/users.csv''" "''id''" "\<lambda>_. True" "[(''data/users.csv'', ''id'')]"]
    by simp
qed

text \<open>
  A run id is meant to be a single normal path component; \<open>.\<close> passes the check and is not one, so that the
  run's directory is then the work directory itself.
\<close>

lemma dot_run_id: "validate_run_id ''.'' = Inr () \<and> \<not> list_all is_normal (components ''.'') \<and> resolve ''/work/.'' = resolve ''/work''"
  by code_simp

end
