(* ===== verification/Controller_State.thy ===== *)
theory Controller_State
  imports Summary Executor_Spec Paths
begin

text \<open>
  The state of the coordination controller (\<open>loadr-agent/src/controller.rs\<close>): the messages of
  \<open>coordination.proto\<close>, agents, runs, the bounded downlinks of the sessions and the tasks that wait.
  A downlink is named by its session's number. JSON decoding, the identifiers drawn by \<open>uuid\<close> and the
  clock are arguments.
\<close>

section \<open>Messages\<close>

record register_msg =
  rg_agent_id :: string
  rg_agent_name :: string
  rg_protocol_version :: nat
  rg_loadr_version :: string
  rg_cpu_cores :: nat
  rg_labels :: "(string, string) hashmap"
  rg_resume_run_id :: string
  rg_build_revision :: string
  rg_incarnation :: string

record run_event =
  ev_run_id :: string
  ev_kind :: string
  ev_detail :: string
  ev_summary_json :: string

record control_ack =
  ca_run_id :: string
  ca_command_id :: nat
  ca_action :: string
  ca_scenario :: string
  ca_value :: u64
  ca_applied :: bool
  ca_detail :: string

datatype agent_payload =
    Heartbeat nat
  | Metrics string string
  | Event run_event
  | ControlAck control_ack
  | AssignmentReady string nat
  | RegisterMsg register_msg
  | NoMsg

record assignment =
  as_run_id :: string
  as_plan_yaml :: string
  as_partition_index :: nat
  as_partition_count :: nat
  as_files :: "(string \<times> string) list"
  as_env :: string

datatype ctrl_msg =
    Registered string nat string
  | Assignment assignment
  | Start string int
  | Control string string string u64 nat
  | UplinkAck nat

text \<open>An item of a downlink: a message, or the status that ends the stream.\<close>

datatype down_item = Down ctrl_msg | Status string

definition PROTOCOL_VERSION :: nat where
  "PROTOCOL_VERSION = 4"

definition DOWNLINK_CAP :: nat where
  "DOWNLINK_CAP = 128"

section \<open>State\<close>

datatype on_agent_loss = LossContinue | LossAbort

datatype run_state = Pending | Running | Stopping | Finished | Aborted | Failed

definition is_terminal :: "run_state \<Rightarrow> bool" where
  "is_terminal st \<longleftrightarrow> st = Finished \<or> st = Aborted \<or> st = Failed"

fun state_str :: "run_state \<Rightarrow> string" where
  "state_str Pending = ''pending''"
| "state_str Running = ''running''"
| "state_str Stopping = ''stopping''"
| "state_str Finished = ''finished''"
| "state_str Aborted = ''aborted''"
| "state_str Failed = ''failed''"

datatype agent_error =
    ConfigError string
  | PathError path_error
  | CompileError compile_error
  | NoAgents | AgentsBusy
  | UnknownRun string | NotStarted string
  | ControlError string

record agent_entry =
  ae_name :: string
  ae_labels :: "(string, string) hashmap"
  ae_cores :: nat
  ae_peer_addr :: "string option"
  ae_version :: "string option"
  ae_revision :: "string option"
  ae_incarnation :: string
  ae_connected_at :: nat
  ae_last_heartbeat :: nat
  ae_active_vus :: nat
  ae_connected :: bool
  ae_session :: nat
  ae_last_seq :: nat
  ae_active_run :: "string option"
  ae_sender :: nat

record pending_control =
  pc_expected :: "string list"
  pc_responses :: "(string, (string, unit) result) hashmap"
  pc_action :: string
  pc_scenario :: string

datatype admit = Apply | Duplicate | Stale

datatype prep_phase = Assigned | Ready

record fleet_metric =
  fm_metric :: string
  fm_kind :: metric_kind
  fm_agg :: agg_values

record metrics_view =
  mv_run_id :: string
  mv_name :: "string option"
  mv_state :: string
  mv_started_ms :: nat
  mv_detailed :: snapshot
  mv_fleet :: "fleet_metric list"

record 'h ctrl_run =
  cr_run_id :: string
  cr_name :: "string option"
  cr_plan_yaml :: string
  cr_scenarios :: "string list"
  cr_externally_controlled :: "string list"
  cr_thresholds :: "compiled_threshold list"
  cr_on_agent_loss :: on_agent_loss
  cr_assigned :: "string list"
  cr_files :: "(string \<times> string) list"
  cr_env :: string
  cr_state :: run_state
  cr_phases :: "(string, prep_phase) hashmap"
  cr_failure :: "(string \<times> run_state) option"
  cr_start_unix_ms :: "int option"
  cr_submitted_ms :: nat
  cr_started_ms :: "nat option"
  cr_finished_ms :: "nat option"
  cr_agg :: "'h aggregator"
  cr_done :: "(string, string) hashmap"
  cr_lost :: "string list"
  cr_lost_ever :: "string list"
  cr_contributing :: "string list"
  cr_paused :: "bool option"
  cr_pending_controls :: "(nat, pending_control) hashmap"
  cr_summaries :: "summary list"
  cr_merged_summary :: "summary option"
  cr_threshold_statuses :: "threshold_status list"
  cr_abort_reason :: "string option"
  cr_snapshot :: snapshot
  cr_timeline :: "timeline_point list"
  cr_prom_view :: "metrics_view option"

record downlink =
  dl_queue :: "down_item list"
  dl_open :: bool

text \<open>What a task still has to do. The lists of sends name the downlink of each message.\<close>

datatype task =
    TAssign string "(nat \<times> ctrl_msg) list" duration duration
  | TBarrier string duration nat
  | TStart string "(nat \<times> ctrl_msg) list"
  | TFail string "(nat \<times> ctrl_msg) list" run_state
  | TTicker string
  | TSweep "string list" "string list"
  | TSweepStop string "(nat \<times> ctrl_msg) list" "string list" "string list"
  | TControl string nat string string "(string \<times> nat \<times> ctrl_msg) list"
  | TAwaitAcks string nat string nat

record 'h inner =
  in_controller_id :: string
  in_liveness :: duration
  in_agents :: "(string, agent_entry) hashmap"
  in_runs :: "(string, 'h ctrl_run) hashmap"
  in_session_counter :: nat
  in_control_counter :: nat
  in_downlinks :: "(nat, downlink) hashmap"
  in_tasks :: "task list"
  in_results :: "(nat \<times> (agent_error, unit) result) list"

text \<open>The code outside the repository that a handler calls, and the clock it reads.\<close>

record 'h services =
  sv_hdr :: "'h hdr"
  sv_decode_delta :: "string \<Rightarrow> metrics_delta option"
  sv_decode_summary :: "string \<Rightarrow> summary option"
  sv_humantime :: humantime_parse

record clock =
  ck_now :: nat
  ck_unix_ms :: nat

definition controller_new :: "string \<Rightarrow> duration \<Rightarrow> 'h inner" where
  "controller_new cid liveness =
     \<lparr>in_controller_id = cid, in_liveness = liveness, in_agents = [], in_runs = [], in_session_counter = 0,
      in_control_counter = 0, in_downlinks = [], in_tasks = [], in_results = []\<rparr>"

definition non_empty :: "string \<Rightarrow> string option" where
  "non_empty v = (if v = [] then None else Some v)"

definition upd_run :: "string \<Rightarrow> ('h ctrl_run \<Rightarrow> 'h ctrl_run) \<Rightarrow> 'h inner \<Rightarrow> 'h inner" where
  "upd_run rid f s =
     (case map_of (in_runs s) rid of
        None \<Rightarrow> s
      | Some run \<Rightarrow> s\<lparr>in_runs := AList.update rid (f run) (in_runs s)\<rparr>)"

definition upd_agent :: "string \<Rightarrow> (agent_entry \<Rightarrow> agent_entry) \<Rightarrow> 'h inner \<Rightarrow> 'h inner" where
  "upd_agent aid f s =
     (case map_of (in_agents s) aid of
        None \<Rightarrow> s
      | Some e \<Rightarrow> s\<lparr>in_agents := AList.update aid (f e) (in_agents s)\<rparr>)"

section \<open>Downlinks\<close>

definition can_send :: "nat \<Rightarrow> 'h inner \<Rightarrow> bool" where
  "can_send ch s =
     (case map_of (in_downlinks s) ch of
        None \<Rightarrow> False
      | Some d \<Rightarrow> dl_open d \<and> length (dl_queue d) < DOWNLINK_CAP)"

definition try_send :: "nat \<Rightarrow> down_item \<Rightarrow> 'h inner \<Rightarrow> 'h inner" where
  "try_send ch item s =
     (case map_of (in_downlinks s) ch of
        None \<Rightarrow> s
      | Some d \<Rightarrow>
          if dl_open d \<and> length (dl_queue d) < DOWNLINK_CAP
          then s\<lparr>in_downlinks := AList.update ch (d\<lparr>dl_queue := dl_queue d @ [item]\<rparr>) (in_downlinks s)\<rparr>
          else s)"

text \<open>One poll of \<open>sender.send(item).await\<close>: \<open>None\<close> while the channel is full, else whether it was delivered.\<close>

definition send_poll :: "nat \<Rightarrow> down_item \<Rightarrow> 'h inner \<Rightarrow> (bool \<times> 'h inner) option" where
  "send_poll ch item s =
     (case map_of (in_downlinks s) ch of
        None \<Rightarrow> Some (False, s)
      | Some d \<Rightarrow>
          if \<not> dl_open d then Some (False, s)
          else if length (dl_queue d) < DOWNLINK_CAP then Some (True, try_send ch item s)
          else None)"

definition agent_sender :: "string \<Rightarrow> 'h inner \<Rightarrow> nat option" where
  "agent_sender aid s = map_option ae_sender (map_of (in_agents s) aid)"

definition control_message :: "string \<Rightarrow> string \<Rightarrow> string \<Rightarrow> u64 \<Rightarrow> nat \<Rightarrow> ctrl_msg" where
  "control_message rid action scenario value command_id = Control rid action scenario value command_id"

definition send_uplink_ack :: "agent_entry \<Rightarrow> nat \<Rightarrow> 'h inner \<Rightarrow> 'h inner" where
  "send_uplink_ack e seq s = try_send (ae_sender e) (Down (UplinkAck seq)) s"

definition kill_agent_run :: "string \<Rightarrow> string \<Rightarrow> 'h inner \<Rightarrow> 'h inner" where
  "kill_agent_run aid rid s =
     (case agent_sender aid s of
        Some ch \<Rightarrow> try_send ch (Down (control_message rid ''kill'' [] 0 0)) s
      | None \<Rightarrow> s)"

definition position :: "string \<Rightarrow> string list \<Rightarrow> nat option" where
  "position x xs = (let i = length (takeWhile (\<lambda>y. y \<noteq> x) xs) in if i < length xs then Some i else None)"

definition assignment_for :: "'h ctrl_run \<Rightarrow> nat \<Rightarrow> ctrl_msg" where
  "assignment_for run index =
     Assignment \<lparr>as_run_id = cr_run_id run, as_plan_yaml = cr_plan_yaml run, as_partition_index = index,
       as_partition_count = length (cr_assigned run), as_files = cr_files run, as_env = cr_env run\<rparr>"

definition send_assignment :: "'h ctrl_run \<Rightarrow> string \<Rightarrow> 'h inner \<Rightarrow> 'h inner" where
  "send_assignment run aid s =
     (case position aid (cr_assigned run) of
        None \<Rightarrow> s
      | Some index \<Rightarrow>
          (case agent_sender aid s of
             None \<Rightarrow> s
           | Some ch \<Rightarrow> try_send ch (Down (assignment_for run index)) s))"

text \<open>\<open>run_senders\<close>: the downlinks of the assigned agents that are neither done nor lost and are connected.\<close>

definition run_senders :: "'h ctrl_run \<Rightarrow> 'h inner \<Rightarrow> (string \<times> nat) list" where
  "run_senders run s =
     List.map_filter
       (\<lambda>aid. Option.bind (map_of (in_agents s) aid) (\<lambda>e. if ae_connected e then Some (aid, ae_sender e) else None))
       (filter (\<lambda>aid. \<not> contains_key (cr_done run) aid \<and> aid \<notin> set (cr_lost run)) (cr_assigned run))"

end
