(* ===== verification/Controller.thy ===== *)
theory Controller
  imports Controller_State
begin

text \<open>
  The operations of the coordination controller (\<open>loadr-agent/src/controller.rs\<close>): registration and
  fencing of agent sessions, reservation of agents, the preparation barrier, run events, the
  liveness sweep, control commands and the finalisation of a run.

  What the code does between two \<open>await\<close> points is one function of the controller's state; the tasks
  that wait (sending to a full downlink, the barrier, the acknowledgements of a command) are values
  in \<open>in_tasks\<close>, and \<open>task_step\<close> is what a task does when it is polled.
\<close>

section \<open>Settling a run\<close>

definition zero_live_gauges :: "string \<Rightarrow> 'h aggregator \<Rightarrow> 'h aggregator" where
  "zero_live_gauges aid a =
     fold (\<lambda>metric. set_gauge_by_tag metric ''loadr_agent_id'' aid (Fin 0)) LIVE_GAUGES a"

definition zero_agent_live_gauges :: "string \<Rightarrow> 'h ctrl_run \<Rightarrow> 'h ctrl_run" where
  "zero_agent_live_gauges aid run = run\<lparr>cr_agg := zero_live_gauges aid (cr_agg run)\<rparr>"

definition worth_a_point :: "snapshot \<Rightarrow> bool" where
  "worth_a_point snap \<longleftrightarrow>
     Fin 0 < sn_interval_secs snap \<and> list_ex (\<lambda>s. 0 < ss_interval_count s \<or> ss_metric s = ''vus'') (sn_series snap)"

text \<open>
  What \<open>finalize_run\<close> and \<open>publish_live_snapshot\<close> read from the aggregator, then \<open>finalize_run\<close> on the run it holds. \<open>Summary::build\<close> may panic; the writes before it remain, the run
  does not become terminal.
\<close>

definition live_projection :: "'h services \<Rightarrow> clock \<Rightarrow> 'h ctrl_run \<Rightarrow> threshold_status list \<times> snapshot \<times> 'h aggregator \<times> timeline_point list" where
  "live_projection sv ck run =
     (let hdr = sv_hdr sv; now = ck_now ck;
          statuses = fst (evaluate_all hdr now (cr_thresholds run) (cr_agg run) (agg_elapsed now (cr_agg run)));
          aggregates = aggregate_snapshot hdr now [[''scenario'']] (cr_agg run);
          (snap, agg1) = build_snapshot hdr now True (cr_agg run);
          timeline = (if worth_a_point snap then cr_timeline run @ [from_snapshots snap (Some aggregates)] else cr_timeline run)
      in (statuses, snap, agg1, timeline))"

definition started_or_submitted :: "'h ctrl_run \<Rightarrow> nat" where
  "started_or_submitted run = (case cr_started_ms run of Some t \<Rightarrow> t | None \<Rightarrow> cr_submitted_ms run)"

definition settle :: "'h services \<Rightarrow> clock \<Rightarrow> run_state \<Rightarrow> 'h ctrl_run \<Rightarrow> 'h ctrl_run" where
  "settle sv ck final_state run =
     (let (statuses, snap, agg1, timeline) = live_projection sv ck run;
          finished = ck_unix_ms ck; started = started_or_submitted run;
          run1 = run\<lparr>cr_finished_ms := Some finished, cr_threshold_statuses := statuses, cr_timeline := timeline, cr_agg := agg1\<rparr>
      in case summary_build (sv_hdr sv) (ck_now ck) (\<lambda>_. ck_now ck) (ck_now ck) finished (cr_name run) (cr_run_id run) started
                (cr_scenarios run) statuses (cr_abort_reason run) timeline agg1 of
           None \<Rightarrow> run1
         | Some (su, agg2) \<Rightarrow>
             run1\<lparr>cr_agg := agg2,
               cr_merged_summary := Some (su\<lparr>su_ended_ms := finished,
                 su_duration_secs := f64_of_nat (finished - started) / Fin 1000, su_snapshot := snap\<rparr>),
               cr_state := final_state, cr_snapshot := snap\<rparr>)"

definition release_reservations :: "'h ctrl_run \<Rightarrow> 'h inner \<Rightarrow> 'h inner" where
  "release_reservations run s =
     fold (\<lambda>aid. upd_agent aid (\<lambda>e. if ae_active_run e = Some (cr_run_id run) then e\<lparr>ae_active_run := None\<rparr> else e))
       (cr_assigned run) s"

definition finalize_run :: "'h services \<Rightarrow> clock \<Rightarrow> string \<Rightarrow> run_state \<Rightarrow> 'h inner \<Rightarrow> 'h inner" where
  "finalize_run sv ck rid final_state s =
     (case map_of (in_runs s) rid of
        None \<Rightarrow> s
      | Some run \<Rightarrow>
          if is_terminal (cr_state run) then s
          else let run' = settle sv ck final_state run;
                   s' = s\<lparr>in_runs := AList.update rid run' (in_runs s)\<rparr>
               in if is_terminal (cr_state run') then release_reservations run' s' else s')"

definition all_accounted :: "'h ctrl_run \<Rightarrow> bool" where
  "all_accounted run \<longleftrightarrow> list_all (\<lambda>a. contains_key (cr_done run) a \<or> a \<in> set (cr_lost run)) (cr_assigned run)"

definition verdict_of :: "'h ctrl_run \<Rightarrow> run_state" where
  "verdict_of run =
     (if list_ex (\<lambda>(_, k). k = ''failed'') (cr_done run) \<or> cr_done run = [] then Failed
      else if list_ex (\<lambda>(_, k). k = ''aborted'') (cr_done run) then Aborted
      else Finished)"

definition check_completion :: "'h services \<Rightarrow> clock \<Rightarrow> string \<Rightarrow> 'h inner \<Rightarrow> 'h inner" where
  "check_completion sv ck rid s =
     (case map_of (in_runs s) rid of
        None \<Rightarrow> s
      | Some run \<Rightarrow>
          if is_terminal (cr_state run) \<or> \<not> all_accounted run then s
          else finalize_run sv ck rid (verdict_of run) s)"

text \<open>Flag a failure before the start: the new state, and whether the run was still pending.\<close>

definition record_prep_failure :: "string \<Rightarrow> string \<Rightarrow> run_state \<Rightarrow> 'h inner \<Rightarrow> bool \<times> 'h inner" where
  "record_prep_failure rid reason verdict s =
     (case map_of (in_runs s) rid of
        None \<Rightarrow> (False, s)
      | Some run \<Rightarrow>
          if cr_state run \<noteq> Pending then (False, s)
          else (True, upd_run rid (\<lambda>r. r\<lparr>cr_failure := (case cr_failure r of None \<Rightarrow> Some (reason, verdict) | f \<Rightarrow> f)\<rparr>) s))"

definition set_abort_reason :: "string \<Rightarrow> 'h ctrl_run \<Rightarrow> 'h ctrl_run" where
  "set_abort_reason reason run =
     run\<lparr>cr_abort_reason := (case cr_abort_reason run of None \<Rightarrow> Some reason | r \<Rightarrow> r)\<rparr>"

definition insert_list :: "'a \<Rightarrow> 'a list \<Rightarrow> 'a list" where
  "insert_list x xs = (if x \<in> set xs then xs else xs @ [x])"

definition stops_for :: "'h ctrl_run \<Rightarrow> 'h inner \<Rightarrow> (nat \<times> ctrl_msg) list" where
  "stops_for run s = map (\<lambda>(_, ch). (ch, control_message (cr_run_id run) ''stop'' [] 0 0)) (run_senders run s)"

definition broadcast_stop :: "string \<Rightarrow> 'h inner \<Rightarrow> 'h inner" where
  "broadcast_stop rid s =
     (case map_of (in_runs s) rid of
        None \<Rightarrow> s
      | Some run \<Rightarrow> fold (\<lambda>(ch, msg). try_send ch (Down msg)) (stops_for run s) s)"

section \<open>Registration\<close>

definition terminate_participation :: "'h services \<Rightarrow> clock \<Rightarrow> string \<Rightarrow> string \<Rightarrow> 'h inner \<Rightarrow> 'h inner" where
  "terminate_participation sv ck aid rid s =
     (case map_of (in_runs s) rid of
        None \<Rightarrow> s
      | Some run \<Rightarrow>
          (case record_prep_failure rid (''agent '' @ aid @ '' restarted during preparation'') Failed s of
             (True, s') \<Rightarrow> s'
           | (False, _) \<Rightarrow>
               if is_terminal (cr_state run) \<or> contains_key (cr_done run) aid then s
               else let s1 = upd_run rid (\<lambda>r. r\<lparr>cr_lost := insert_list aid (cr_lost r)\<rparr>) s
                    in case cr_on_agent_loss run of
                         LossContinue \<Rightarrow> check_completion sv ck rid s1
                       | LossAbort \<Rightarrow>
                           finalize_run sv ck rid Failed
                             (broadcast_stop rid (upd_run rid (set_abort_reason (''agent restarted: '' @ aid)) s1))))"

definition replay_assignment_if_pending :: "string \<Rightarrow> string \<Rightarrow> 'h inner \<Rightarrow> 'h inner" where
  "replay_assignment_if_pending aid rid s =
     (case map_of (in_runs s) rid of
        None \<Rightarrow> s
      | Some run \<Rightarrow>
          if is_terminal (cr_state run) \<or> map_of (cr_phases run) aid \<noteq> Some Assigned \<or>
             contains_key (cr_done run) aid \<or> aid \<in> set (cr_lost run)
          then s
          else send_assignment run aid s)"

definition resume_run :: "string \<Rightarrow> string \<Rightarrow> 'h inner \<Rightarrow> 'h inner" where
  "resume_run aid rid s =
     (case map_of (in_runs s) rid of
        None \<Rightarrow> kill_agent_run aid rid s
      | Some run \<Rightarrow>
          if aid \<notin> set (cr_assigned run) then s
          else if is_terminal (cr_state run) \<or> contains_key (cr_done run) aid then kill_agent_run aid rid s
          else let s1 = upd_run rid (\<lambda>r. r\<lparr>cr_lost := removeAll aid (cr_lost r)\<rparr>) s
               in case map_of (cr_phases run) aid of
                    Some Assigned \<Rightarrow> send_assignment run aid s1
                  | Some Ready \<Rightarrow>
                      (case (cr_start_unix_ms run, agent_sender aid s1) of
                         (Some t, Some ch) \<Rightarrow> try_send ch (Down (Start rid t)) s1
                       | _ \<Rightarrow> s1)
                  | None \<Rightarrow> s1)"

datatype followup = FNone | FTerminate string | FReplay string

definition same_process :: "register_msg \<Rightarrow> agent_entry \<Rightarrow> bool" where
  "same_process reg e \<longleftrightarrow> ae_incarnation e = rg_incarnation reg"

definition reserve_after :: "register_msg \<Rightarrow> agent_entry option \<Rightarrow> string option \<times> followup" where
  "reserve_after reg prev =
     (case Option.bind prev ae_active_run of
        None \<Rightarrow> (None, FNone)
      | Some rid \<Rightarrow>
          if \<not> same_process reg (the prev) then (None, FTerminate rid)
          else if rg_resume_run_id reg = [] then (Some rid, FReplay rid)
          else (Some rid, FNone))"

definition new_entry :: "clock \<Rightarrow> register_msg \<Rightarrow> string option \<Rightarrow> nat \<Rightarrow> agent_entry option \<Rightarrow> agent_entry" where
  "new_entry ck reg peer_addr session prev =
     \<lparr>ae_name = rg_agent_name reg, ae_labels = rg_labels reg, ae_cores = rg_cpu_cores reg, ae_peer_addr = peer_addr,
      ae_version = non_empty (rg_loadr_version reg), ae_revision = non_empty (rg_build_revision reg),
      ae_incarnation = rg_incarnation reg, ae_connected_at = ck_now ck, ae_last_heartbeat = ck_now ck, ae_active_vus = 0,
      ae_connected = True, ae_session = session,
      ae_last_seq = (case prev of Some e \<Rightarrow> if same_process reg e then ae_last_seq e else 0 | None \<Rightarrow> 0),
      ae_active_run = fst (reserve_after reg prev), ae_sender = session\<rparr>"

definition register_agent ::
  "'h services \<Rightarrow> clock \<Rightarrow> register_msg \<Rightarrow> string option \<Rightarrow> nat \<Rightarrow> 'h inner \<Rightarrow> 'h inner" where
  "register_agent sv ck reg peer_addr session s =
     (let aid = rg_agent_id reg;
          prev = map_of (in_agents s) aid;
          restarted = (case prev of Some e \<Rightarrow> \<not> same_process reg e | None \<Rightarrow> False);
          s1 = s\<lparr>in_agents := AList.update aid (new_entry ck reg peer_addr session prev) (in_agents s)\<rparr>;
          s2 = (case prev of
                  Some e \<Rightarrow> try_send (ae_sender e) (Status ''session superseded by a newer registration'') s1
                | None \<Rightarrow> s1);
          s3 = (case snd (reserve_after reg prev) of
                  FTerminate rid \<Rightarrow> terminate_participation sv ck aid rid s2
                | FReplay rid \<Rightarrow> replay_assignment_if_pending aid rid s2
                | FNone \<Rightarrow> s2)
      in if rg_resume_run_id reg \<noteq> [] \<and> \<not> restarted then resume_run aid (rg_resume_run_id reg) s3 else s3)"

text \<open>\<open>Coordination::session\<close> up to its spawned pump: the refusals, then the new session.\<close>

datatype session_error = FirstNotRegister | VersionMismatch nat | AgentIdRequired

definition open_session ::
  "'h services \<Rightarrow> clock \<Rightarrow> agent_payload \<Rightarrow> string option \<Rightarrow> 'h inner \<Rightarrow> (session_error, nat) result \<times> 'h inner" where
  "open_session sv ck first peer_addr s =
     (case first of
        RegisterMsg reg \<Rightarrow>
          if rg_protocol_version reg \<noteq> PROTOCOL_VERSION then (Inl (VersionMismatch (rg_protocol_version reg)), s)
          else if rg_agent_id reg = [] then (Inl AgentIdRequired, s)
          else let session = in_session_counter s + 1;
                   welcome = Registered (in_controller_id s) PROTOCOL_VERSION (''welcome '' @ rg_agent_name reg);
                   s1 = s\<lparr>in_session_counter := session,
                          in_downlinks := AList.update session \<lparr>dl_queue = [Down welcome], dl_open = True\<rparr> (in_downlinks s)\<rparr>
               in (Inr session, register_agent sv ck reg peer_addr session s1)
      | _ \<Rightarrow> (Inl FirstNotRegister, s))"

definition mark_disconnected :: "string \<Rightarrow> nat \<Rightarrow> 'h inner \<Rightarrow> 'h inner" where
  "mark_disconnected aid session s =
     upd_agent aid (\<lambda>e. if ae_session e = session then e\<lparr>ae_connected := False\<rparr> else e) s"

section \<open>Admission\<close>

definition admit_msg :: "clock \<Rightarrow> string \<Rightarrow> nat \<Rightarrow> nat \<Rightarrow> 'h inner \<Rightarrow> admit \<times> 'h inner" where
  "admit_msg ck aid session seq s =
     (case map_of (in_agents s) aid of
        None \<Rightarrow> (Stale, s)
      | Some e \<Rightarrow>
          if ae_session e \<noteq> session then (Stale, s)
          else let alive = upd_agent aid (\<lambda>e. e\<lparr>ae_last_heartbeat := ck_now ck\<rparr>) s
               in if seq = 0 then (Apply, if 0 < ae_last_seq e then send_uplink_ack e (ae_last_seq e) alive else alive)
                  else if seq \<le> ae_last_seq e then (Duplicate, send_uplink_ack e (ae_last_seq e) alive)
                  else (Apply, send_uplink_ack e seq (upd_agent aid (\<lambda>e. e\<lparr>ae_last_seq := seq\<rparr>) alive)))"

section \<open>Payloads\<close>

definition add_agent_identity :: "string \<Rightarrow> string \<Rightarrow> metrics_delta \<Rightarrow> metrics_delta" where
  "add_agent_identity agent_name aid delta =
     map (\<lambda>sd. sd\<lparr>sd_tags := tag_insert ''loadr_agent_id'' aid (tag_insert ''loadr_agent'' agent_name (sd_tags sd))\<rparr>) delta"

definition apply_delta :: "'h services \<Rightarrow> string \<Rightarrow> metrics_delta \<Rightarrow> 'h ctrl_run \<Rightarrow> 'h ctrl_run" where
  "apply_delta sv aid delta run =
     (if is_terminal (cr_state run) then run
      else let run1 = run\<lparr>cr_contributing := insert_list aid (cr_contributing run),
                          cr_agg := merge_delta (sv_hdr sv) delta (cr_agg run)\<rparr>
           in if aid \<in> set (cr_lost run1) \<or> contains_key (cr_done run1) aid then zero_agent_live_gauges aid run1 else run1)"

definition handle_metrics :: "'h services \<Rightarrow> string \<Rightarrow> string \<Rightarrow> string \<Rightarrow> 'h inner \<Rightarrow> 'h inner" where
  "handle_metrics sv aid rid delta_json s =
     (case map_of (in_runs s) rid of
        None \<Rightarrow> s
      | Some _ \<Rightarrow>
          (case sv_decode_delta sv delta_json of
             None \<Rightarrow> s
           | Some delta \<Rightarrow>
               let agent_name = (case map_of (in_agents s) aid of Some e \<Rightarrow> ae_name e | None \<Rightarrow> aid)
               in upd_run rid (apply_delta sv aid (add_agent_identity agent_name aid delta)) s))"

definition note_ack :: "string \<Rightarrow> control_ack \<Rightarrow> 'h ctrl_run \<Rightarrow> 'h ctrl_run" where
  "note_ack aid ack run =
     (case map_of (cr_pending_controls run) (ca_command_id ack) of
        None \<Rightarrow> run
      | Some command \<Rightarrow>
          if aid \<in> set (pc_expected command) \<and> ca_action ack = pc_action command \<and> ca_scenario ack = pc_scenario command
          then let result = (if ca_applied ack then Inr ()
                             else Inl (if ca_detail ack = [] then ''agent rejected command'' else ca_detail ack))
               in run\<lparr>cr_pending_controls := AList.update (ca_command_id ack)
                    (command\<lparr>pc_responses := AList.update aid result (pc_responses command)\<rparr>) (cr_pending_controls run)\<rparr>
          else run)"

definition handle_control_ack :: "string \<Rightarrow> control_ack \<Rightarrow> 'h inner \<Rightarrow> 'h inner" where
  "handle_control_ack aid ack s = upd_run (ca_run_id ack) (note_ack aid ack) s"

definition handle_assignment_ready :: "string \<Rightarrow> string \<Rightarrow> nat \<Rightarrow> 'h inner \<Rightarrow> 'h inner" where
  "handle_assignment_ready aid rid partition_index s =
     (case map_of (in_runs s) rid of
        None \<Rightarrow> kill_agent_run aid rid s
      | Some run \<Rightarrow>
          if position aid (cr_assigned run) \<noteq> Some partition_index then s
          else if is_terminal (cr_state run) then kill_agent_run aid rid s
          else upd_run rid (\<lambda>r. r\<lparr>cr_phases := AList.update aid Ready (cr_phases r)\<rparr>) s)"

definition agent_done :: "'h services \<Rightarrow> string \<Rightarrow> run_event \<Rightarrow> 'h ctrl_run \<Rightarrow> 'h ctrl_run" where
  "agent_done sv aid ev run =
     (let run1 = (if ev_summary_json ev = [] then run
                  else case sv_decode_summary sv (ev_summary_json ev) of
                         Some su \<Rightarrow> run\<lparr>cr_summaries := cr_summaries run @ [su]\<rparr>
                       | None \<Rightarrow> run);
          run2 = (if (ev_kind ev = ''aborted'' \<or> ev_kind ev = ''failed'') \<and> ev_detail ev \<noteq> []
                  then set_abort_reason (ev_detail ev) run1 else run1);
          run3 = zero_agent_live_gauges aid run2
      in run3\<lparr>cr_done := AList.update aid (ev_kind ev) (cr_done run3)\<rparr>)"

definition handle_run_event :: "'h services \<Rightarrow> clock \<Rightarrow> string \<Rightarrow> run_event \<Rightarrow> 'h inner \<Rightarrow> 'h inner" where
  "handle_run_event sv ck aid ev s =
     (let rid = ev_run_id ev
      in if \<not> contains_key (in_runs s) rid then s
         else if ev_kind ev = ''started''
         then upd_run rid (\<lambda>r. if cr_state r = Pending then r\<lparr>cr_state := Running\<rparr> else r) s
         else if ev_kind ev = ''prep_failed''
         then snd (record_prep_failure rid (''preparation failed on agent '' @ aid @ '': '' @ ev_detail ev) Failed s)
         else if ev_kind ev = ''finished'' \<or> ev_kind ev = ''aborted'' \<or> ev_kind ev = ''failed''
         then check_completion sv ck rid (upd_run rid (agent_done sv aid ev) s)
         else s)"

fun apply_agent_message :: "'h services \<Rightarrow> clock \<Rightarrow> string \<Rightarrow> agent_payload \<Rightarrow> 'h inner \<Rightarrow> 'h inner" where
  "apply_agent_message sv ck aid (Heartbeat vus) s = upd_agent aid (\<lambda>e. e\<lparr>ae_active_vus := vus\<rparr>) s"
| "apply_agent_message sv ck aid (Metrics rid delta_json) s = handle_metrics sv aid rid delta_json s"
| "apply_agent_message sv ck aid (Event ev) s = handle_run_event sv ck aid ev s"
| "apply_agent_message sv ck aid (ControlAck ack) s = handle_control_ack aid ack s"
| "apply_agent_message sv ck aid (AssignmentReady rid index) s = handle_assignment_ready aid rid index s"
| "apply_agent_message sv ck aid (RegisterMsg _) s = s"
| "apply_agent_message sv ck aid NoMsg s = s"

definition handle_agent_message ::
  "'h services \<Rightarrow> clock \<Rightarrow> string \<Rightarrow> nat \<Rightarrow> nat \<times> agent_payload \<Rightarrow> 'h inner \<Rightarrow> bool \<times> 'h inner" where
  "handle_agent_message sv ck aid session msg s =
     (case admit_msg ck aid session (fst msg) s of
        (Apply, s') \<Rightarrow> (True, apply_agent_message sv ck aid (snd msg) s')
      | (Duplicate, s') \<Rightarrow> (True, s')
      | (Stale, s') \<Rightarrow> (False, s'))"

text \<open>One message of a session's pump, which ends with its first refused message.\<close>

definition pump :: "'h services \<Rightarrow> clock \<Rightarrow> string \<Rightarrow> nat \<Rightarrow> nat \<times> agent_payload \<Rightarrow> 'h inner \<Rightarrow> 'h inner" where
  "pump sv ck aid session msg s =
     (case handle_agent_message sv ck aid session msg s of
        (True, s') \<Rightarrow> s'
      | (False, s') \<Rightarrow> mark_disconnected aid session s')"

section \<open>Submission\<close>

record submit_options =
  so_env :: "string option"
  so_name :: "string option"
  so_files :: "(string \<times> string) list"
  so_agent_filter :: "(string, string) hashmap option"
  so_on_agent_loss :: on_agent_loss
  so_start_barrier :: duration
  so_preparation_timeout :: duration

text \<open>The parts of a loaded plan that a submission uses.\<close>

record loaded_plan =
  lp_name :: "string option"
  lp_thresholds :: "(string \<times> threshold_list) list"
  lp_scenarios :: "(string \<times> scenario) list"

definition eligible :: "clock \<Rightarrow> duration \<Rightarrow> (string, string) hashmap option \<Rightarrow> agent_entry \<Rightarrow> bool" where
  "eligible ck liveness flt e \<longleftrightarrow>
     ae_connected e \<and> ck_now ck - ae_last_heartbeat e \<le> liveness \<and>
     (case flt of Some f \<Rightarrow> list_all (\<lambda>(k, v). map_of (ae_labels e) k = Some v) f | None \<Rightarrow> True)"

definition reserve_agents ::
  "clock \<Rightarrow> (string, string) hashmap option \<Rightarrow> string \<Rightarrow> 'h inner \<Rightarrow> (agent_error, (string \<times> nat) list) result \<times> 'h inner" where
  "reserve_agents ck flt rid s =
     (let elig = (\<lambda>e. eligible ck (in_liveness s) flt e);
          free = (\<lambda>e. elig e \<and> ae_active_run e = None);
          selected = map (\<lambda>(aid, e). (aid, ae_sender e)) (filter (\<lambda>(aid, e). free e) (in_agents s));
          s' = s\<lparr>in_agents := map (\<lambda>(aid, e). (aid, if free e then e\<lparr>ae_active_run := Some rid\<rparr> else e)) (in_agents s)\<rparr>
      in if selected = [] then (Inl (if list_ex (\<lambda>(aid, e). elig e) (in_agents s) then AgentsBusy else NoAgents), s)
         else (Inr selected, s'))"

definition is_external :: "scenario \<Rightarrow> bool" where
  "is_external sc = (case executor_spec sc of Inr (ExternallyControlled _ _) \<Rightarrow> True | _ \<Rightarrow> False)"

definition empty_snapshot :: snapshot where
  "empty_snapshot = \<lparr>sn_timestamp = 0, sn_elapsed_secs = Fin 0, sn_interval_secs = Fin 0, sn_series = []\<rparr>"

definition new_run ::
  "clock \<Rightarrow> string \<Rightarrow> string \<Rightarrow> submit_options \<Rightarrow> loaded_plan \<Rightarrow> compiled_threshold list \<Rightarrow> string list \<Rightarrow> 'h ctrl_run" where
  "new_run ck rid plan_yaml opts plan thresholds assigned =
     \<lparr>cr_run_id = rid,
      cr_name = (case so_name opts of Some n \<Rightarrow> Some n | None \<Rightarrow> lp_name plan),
      cr_plan_yaml = plan_yaml,
      cr_scenarios = map fst (lp_scenarios plan),
      cr_externally_controlled = map fst (filter (\<lambda>(_, sc). is_external sc) (lp_scenarios plan)),
      cr_thresholds = thresholds,
      cr_on_agent_loss = so_on_agent_loss opts,
      cr_assigned = assigned,
      cr_files = so_files opts,
      cr_env = (case so_env opts of Some e \<Rightarrow> e | None \<Rightarrow> []),
      cr_state = Pending,
      cr_phases = map (\<lambda>aid. (aid, Assigned)) assigned,
      cr_failure = None,
      cr_start_unix_ms = None,
      cr_submitted_ms = ck_unix_ms ck,
      cr_started_ms = None,
      cr_finished_ms = None,
      cr_agg = agg_new (ck_now ck),
      cr_done = [],
      cr_lost = [],
      cr_lost_ever = [],
      cr_contributing = [],
      cr_paused = Some False,
      cr_pending_controls = [],
      cr_summaries = [],
      cr_merged_summary = None,
      cr_threshold_statuses = [],
      cr_abort_reason = None,
      cr_snapshot = empty_snapshot,
      cr_timeline = [],
      cr_prom_view = None\<rparr>"

text \<open>
  \<open>submit\<close>: \<open>loaded\<close> is what \<open>load_str\<close> returned for the plan and \<open>rid\<close> the identifier drawn for
  the run. There is no await between the reservation and the insertion of the run.
\<close>

definition submit ::
  "'h services \<Rightarrow> clock \<Rightarrow> string \<Rightarrow> string \<Rightarrow> submit_options \<Rightarrow> (string, loaded_plan) result \<Rightarrow> 'h inner \<Rightarrow>
   (agent_error, string) result \<times> 'h inner" where
  "submit sv ck rid plan_yaml opts loaded s =
     (case loaded of
        Inl e \<Rightarrow> (Inl (ConfigError e), s)
      | Inr plan \<Rightarrow>
          (case collect_results (\<lambda>(path, _). validate_data_file_path path) (so_files opts) of
             Inl e \<Rightarrow> (Inl (PathError e), s)
           | Inr _ \<Rightarrow>
               (case compile_thresholds (sv_humantime sv) (lp_thresholds plan) of
                  None \<Rightarrow> (Inl (ConfigError []), s)
                | Some (Inl e) \<Rightarrow> (Inl (CompileError e), s)
                | Some (Inr thresholds) \<Rightarrow>
                    (case reserve_agents ck (so_agent_filter opts) rid s of
                       (Inl e, s') \<Rightarrow> (Inl e, s')
                     | (Inr sel, s') \<Rightarrow>
                         let selected = sort_key fst sel;
                             run = new_run ck rid plan_yaml opts plan thresholds (map fst selected);
                             sends = map (\<lambda>(i, _, ch). (ch, assignment_for run i)) (enumerate 0 selected)
                         in (Inr rid,
                             s'\<lparr>in_runs := AList.update rid run (in_runs s'),
                                in_tasks := in_tasks s' @
                                  [TAssign rid sends (so_start_barrier opts) (so_preparation_timeout opts)]\<rparr>)))))"

section \<open>The preparation barrier\<close>

datatype decision = Started int | FailRun string run_state | Settled | Wait

definition all_ready :: "'h ctrl_run \<Rightarrow> bool" where
  "all_ready run \<longleftrightarrow> list_all (\<lambda>(_, p). p = Ready) (cr_phases run)"

definition commit_start :: "clock \<Rightarrow> duration \<Rightarrow> 'h ctrl_run \<Rightarrow> 'h ctrl_run" where
  "commit_start ck start_barrier run =
     run\<lparr>cr_start_unix_ms := Some (int (ck_unix_ms ck) + int (start_barrier div 1000000)),
         cr_started_ms := Some (ck_unix_ms ck), cr_agg := agg_new (ck_now ck), cr_state := Running\<rparr>"

definition barrier_decision :: "clock \<Rightarrow> duration \<Rightarrow> nat \<Rightarrow> 'h ctrl_run \<Rightarrow> decision" where
  "barrier_decision ck start_barrier deadline run =
     (if is_terminal (cr_state run) then Settled
      else case cr_failure run of
             Some (reason, verdict) \<Rightarrow> FailRun reason verdict
           | None \<Rightarrow>
               if all_ready run then Started (int (ck_unix_ms ck) + int (start_barrier div 1000000))
               else if deadline \<le> ck_now ck
               then FailRun (''preparation timed out waiting for: '' @
                      join '', '' (filter (\<lambda>aid. map_of (cr_phases run) aid \<noteq> Some Ready) (cr_assigned run))) Failed
               else Wait)"

section \<open>Live snapshots and the sweep\<close>

definition publish_live_snapshot :: "'h services \<Rightarrow> clock \<Rightarrow> 'h ctrl_run \<Rightarrow> 'h ctrl_run" where
  "publish_live_snapshot sv ck run =
     (if is_terminal (cr_state run) then run
      else case live_projection sv ck run of
             (statuses, snap, agg1, timeline) \<Rightarrow>
               run\<lparr>cr_threshold_statuses := statuses, cr_agg := agg1, cr_timeline := timeline, cr_snapshot := snap\<rparr>)"

definition lost_agents :: "clock \<Rightarrow> 'h inner \<Rightarrow> string list" where
  "lost_agents ck s =
     map fst (filter (\<lambda>(_, e). in_liveness s < ck_now ck - ae_last_heartbeat e) (in_agents s))"

definition newly_lost :: "string list \<Rightarrow> 'h ctrl_run \<Rightarrow> string list" where
  "newly_lost lost_ids run =
     filter (\<lambda>aid. aid \<in> set (cr_assigned run) \<and> aid \<notin> set (cr_lost run) \<and> \<not> contains_key (cr_done run) aid) lost_ids"

definition mark_lost :: "string list \<Rightarrow> 'h ctrl_run \<Rightarrow> 'h ctrl_run" where
  "mark_lost newly run =
     fold (\<lambda>aid r. zero_agent_live_gauges aid
             (r\<lparr>cr_lost := insert_list aid (cr_lost r), cr_lost_ever := insert_list aid (cr_lost_ever r)\<rparr>)) newly run"

text \<open>The body of the sweep's loop for one run: \<open>Some sends\<close> when it now waits to stop the survivors.\<close>

definition sweep_run ::
  "'h services \<Rightarrow> clock \<Rightarrow> string list \<Rightarrow> string \<Rightarrow> 'h inner \<Rightarrow> (nat \<times> ctrl_msg) list option \<times> 'h inner" where
  "sweep_run sv ck lost_ids rid s =
     (case map_of (in_runs s) rid of
        None \<Rightarrow> (None, s)
      | Some run \<Rightarrow>
          let newly = newly_lost lost_ids run
          in if is_terminal (cr_state run) \<or> newly = [] then (None, s)
             else let s1 = upd_run rid (mark_lost newly) s
                  in case record_prep_failure rid (''agent(s) lost during preparation: '' @ join '', '' newly) Failed s1 of
                       (True, s2) \<Rightarrow> (None, s2)
                     | (False, _) \<Rightarrow>
                         (case cr_on_agent_loss run of
                            LossContinue \<Rightarrow> (None, check_completion sv ck rid s1)
                          | LossAbort \<Rightarrow>
                              let s2 = upd_run rid (set_abort_reason (''agent(s) lost: '' @ join '', '' newly)) s1
                              in (case map_of (in_runs s2) rid of
                                    None \<Rightarrow> (None, s2)
                                  | Some r \<Rightarrow> (Some (stops_for r s2), s2))))"

section \<open>Control commands\<close>

definition CONTROL_TIMEOUT :: duration where
  "CONTROL_TIMEOUT = from_secs 3"

definition share_for :: "u64 option \<Rightarrow> nat \<Rightarrow> nat \<Rightarrow> u64" where
  "share_for vus_total agents index =
     (case vus_total of
        None \<Rightarrow> 0
      | Some total_vus \<Rightarrow>
          (let shares = scale_shares total_vus (of_nat agents) in if index < length shares then shares ! index else 0))"

text \<open>\<open>control\<close> up to its first await: an error, \<open>Ok\<close> at once, or the task that delivers the command.\<close>

definition control ::
  "string \<Rightarrow> string \<Rightarrow> string \<Rightarrow> u64 option \<Rightarrow> 'h inner \<Rightarrow> (agent_error, task option) result \<times> 'h inner" where
  "control rid action scenario vus_total s =
     (case map_of (in_runs s) rid of
        None \<Rightarrow> (Inl (UnknownRun rid), s)
      | Some run \<Rightarrow>
          let stopping = (action = ''stop'' \<or> action = ''kill'');
              flagged = (if stopping then record_prep_failure rid ''run stopped before start'' Aborted s else (False, s))
          in if fst flagged then (Inr None, snd flagged)
             else if \<not> stopping \<and> cr_state run = Pending then (Inl (NotStarted rid), s)
             else let targets = run_senders run s
                  in if targets = [] then (Inl NoAgents, s)
                     else if action = ''scale'' \<and> scenario \<notin> set (cr_externally_controlled run)
                     then (Inl (ControlError (''scenario `'' @ scenario @ ''` is not externally controlled (available: '' @
                                 join '', '' (cr_externally_controlled run) @ '')'')), s)
                     else let cmd = in_control_counter s + 1;
                              command = \<lparr>pc_expected = map fst targets, pc_responses = [], pc_action = action, pc_scenario = scenario\<rparr>;
                              sends = map (\<lambda>(i, aid, ch).
                                (aid, ch, control_message rid action scenario (share_for vus_total (length targets) i) cmd))
                                (enumerate 0 targets);
                              s1 = upd_run rid (\<lambda>r. r\<lparr>cr_pending_controls := AList.update cmd command (cr_pending_controls r)\<rparr>)
                                     (s\<lparr>in_control_counter := cmd\<rparr>)
                          in (Inr (Some (TControl rid cmd action scenario sends)), s1))"

definition undeliverable :: "string \<Rightarrow> nat \<Rightarrow> 'h ctrl_run \<Rightarrow> 'h ctrl_run" where
  "undeliverable aid cmd run =
     (case map_of (cr_pending_controls run) cmd of
        None \<Rightarrow> run
      | Some command \<Rightarrow>
          run\<lparr>cr_pending_controls := AList.update cmd
            (command\<lparr>pc_responses := AList.update aid (Inl ''could not deliver command'') (pc_responses command)\<rparr>)
            (cr_pending_controls run)\<rparr>)"

definition acks_complete :: "nat \<Rightarrow> 'h ctrl_run \<Rightarrow> bool" where
  "acks_complete cmd run =
     (case map_of (cr_pending_controls run) cmd of
        None \<Rightarrow> True
      | Some p \<Rightarrow> length (pc_expected p) \<le> length (pc_responses p))"

definition forget_command :: "nat \<Rightarrow> 'h ctrl_run \<Rightarrow> 'h ctrl_run" where
  "forget_command cmd run = run\<lparr>cr_pending_controls := AList.delete cmd (cr_pending_controls run)\<rparr>"

definition is_pause :: "string \<Rightarrow> bool" where
  "is_pause action \<longleftrightarrow> action = ''pause'' \<or> action = ''resume''"

text \<open>What \<open>control\<close> does once every response is in: its result and the run.\<close>

definition conclude_control :: "nat \<Rightarrow> string \<Rightarrow> 'h ctrl_run \<Rightarrow> (agent_error, unit) result \<times> 'h ctrl_run" where
  "conclude_control cmd action run =
     (let responses = (case map_of (cr_pending_controls run) cmd of Some p \<Rightarrow> pc_responses p | None \<Rightarrow> []);
          failures = List.map_filter (\<lambda>(agent, r). case r of Inl e \<Rightarrow> Some (agent @ '': '' @ e) | Inr _ \<Rightarrow> None) responses;
          run1 = forget_command cmd run
      in if failures \<noteq> []
         then (Inl (ControlError (join ''; '' failures)), if is_pause action then run1\<lparr>cr_paused := None\<rparr> else run1)
         else (Inr (),
               if is_pause action then run1\<lparr>cr_paused := Some (action = ''pause'')\<rparr>
               else if (action = ''stop'' \<or> action = ''kill'') \<and> \<not> is_terminal (cr_state run1) then run1\<lparr>cr_state := Stopping\<rparr>
               else run1))"

definition expire_control :: "nat \<Rightarrow> string \<Rightarrow> 'h ctrl_run \<Rightarrow> (agent_error, unit) result \<times> 'h ctrl_run" where
  "expire_control cmd action run =
     (let missing = (case map_of (cr_pending_controls run) cmd of
                       Some p \<Rightarrow> filter (\<lambda>aid. \<not> contains_key (pc_responses p) aid) (pc_expected p)
                     | None \<Rightarrow> []);
          run1 = forget_command cmd run
      in (Inl (ControlError (''timed out waiting for agent acknowledgement'' @
                (if missing = [] then [] else '': '' @ join '', '' missing))),
          if is_pause action then run1\<lparr>cr_paused := None\<rparr> else run1))"

section \<open>Tasks\<close>

definition set_run :: "string \<Rightarrow> 'h ctrl_run \<Rightarrow> 'h inner \<Rightarrow> 'h inner" where
  "set_run rid run s = s\<lparr>in_runs := AList.update rid run (in_runs s)\<rparr>"

definition barrier_step :: "clock \<Rightarrow> string \<Rightarrow> duration \<Rightarrow> nat \<Rightarrow> 'h inner \<Rightarrow> task list \<times> 'h inner" where
  "barrier_step ck rid start_barrier deadline s =
     (case map_of (in_runs s) rid of
        None \<Rightarrow> ([], s)
      | Some run \<Rightarrow>
          (case barrier_decision ck start_barrier deadline run of
             Settled \<Rightarrow> ([], s)
           | Wait \<Rightarrow> ([TBarrier rid start_barrier deadline], s)
           | Started t \<Rightarrow>
               let run1 = commit_start ck start_barrier run
               in ([TStart rid (map (\<lambda>(_, ch). (ch, Start rid t)) (run_senders run1 s))], set_run rid run1 s)
           | FailRun reason verdict \<Rightarrow>
               let run1 = set_abort_reason reason run
               in ([TFail rid (stops_for run1 s) verdict], set_run rid run1 s)))"

definition finish_control ::
  "string \<Rightarrow> nat \<Rightarrow> (agent_error, unit) result \<times> 'h ctrl_run \<Rightarrow> 'h inner \<Rightarrow> 'h inner" where
  "finish_control rid cmd out s = (set_run rid (snd out) s)\<lparr>in_results := in_results s @ [(cmd, fst out)]\<rparr>"

fun task_step :: "'h services \<Rightarrow> clock \<Rightarrow> task \<Rightarrow> 'h inner \<Rightarrow> task list \<times> 'h inner" where
  "task_step sv ck (TAssign rid [] barrier timeout) s = ([TBarrier rid barrier (ck_now ck + timeout)], s)"
| "task_step sv ck (TAssign rid ((ch, msg) # sends) barrier timeout) s =
     (case send_poll ch (Down msg) s of
        None \<Rightarrow> ([TAssign rid ((ch, msg) # sends) barrier timeout], s)
      | Some (_, s') \<Rightarrow> ([TAssign rid sends barrier timeout], s'))"
| "task_step sv ck (TBarrier rid barrier deadline) s = barrier_step ck rid barrier deadline s"
| "task_step sv ck (TStart rid []) s = ([TTicker rid], s)"
| "task_step sv ck (TStart rid ((ch, msg) # sends)) s =
     (case send_poll ch (Down msg) s of
        None \<Rightarrow> ([TStart rid ((ch, msg) # sends)], s)
      | Some (_, s') \<Rightarrow> ([TStart rid sends], s'))"
| "task_step sv ck (TFail rid [] verdict) s = ([], finalize_run sv ck rid verdict s)"
| "task_step sv ck (TFail rid ((ch, msg) # sends) verdict) s =
     (case send_poll ch (Down msg) s of
        None \<Rightarrow> ([TFail rid ((ch, msg) # sends) verdict], s)
      | Some (_, s') \<Rightarrow> ([TFail rid sends verdict], s'))"
| "task_step sv ck (TTicker rid) s =
     (case map_of (in_runs s) rid of
        None \<Rightarrow> ([], s)
      | Some run \<Rightarrow>
          let run1 = publish_live_snapshot sv ck run
          in (if is_terminal (cr_state run1) then [] else [TTicker rid], set_run rid run1 s))"
| "task_step sv ck (TSweep lost_ids []) s = ([], s)"
| "task_step sv ck (TSweep lost_ids (rid # rids)) s =
     (case sweep_run sv ck lost_ids rid s of
        (None, s') \<Rightarrow> ([TSweep lost_ids rids], s')
      | (Some sends, s') \<Rightarrow> ([TSweepStop rid sends lost_ids rids], s'))"
| "task_step sv ck (TSweepStop rid [] lost_ids rids) s = ([TSweep lost_ids rids], finalize_run sv ck rid Failed s)"
| "task_step sv ck (TSweepStop rid ((ch, msg) # sends) lost_ids rids) s =
     (case send_poll ch (Down msg) s of
        None \<Rightarrow> ([TSweepStop rid ((ch, msg) # sends) lost_ids rids], s)
      | Some (_, s') \<Rightarrow> ([TSweepStop rid sends lost_ids rids], s'))"
| "task_step sv ck (TControl rid cmd action scenario []) s = ([TAwaitAcks rid cmd action (ck_now ck + CONTROL_TIMEOUT)], s)"
| "task_step sv ck (TControl rid cmd action scenario ((aid, ch, msg) # sends)) s =
     (case send_poll ch (Down msg) s of
        None \<Rightarrow> ([TControl rid cmd action scenario ((aid, ch, msg) # sends)], s)
      | Some (True, s') \<Rightarrow> ([TControl rid cmd action scenario sends], s')
      | Some (False, s') \<Rightarrow> ([TControl rid cmd action scenario sends], upd_run rid (undeliverable aid cmd) s'))"
| "task_step sv ck (TAwaitAcks rid cmd action deadline) s =
     (case map_of (in_runs s) rid of
        None \<Rightarrow> ([], s)
      | Some run \<Rightarrow>
          if acks_complete cmd run then ([], finish_control rid cmd (conclude_control cmd action run) s)
          else if deadline \<le> ck_now ck then ([], finish_control rid cmd (expire_control cmd action run) s)
          else ([TAwaitAcks rid cmd action deadline], s))"

section \<open>Reports\<close>

record agent_info =
  ai_id :: string
  ai_name :: string
  ai_labels :: "(string, string) hashmap"
  ai_cores :: nat
  ai_peer_addr :: "string option"
  ai_version :: "string option"
  ai_revision :: "string option"
  ai_connected_secs :: nat
  ai_last_heartbeat_ms :: nat
  ai_active_vus :: nat
  ai_healthy :: bool
  ai_active_run :: "string option"

definition agents_report :: "clock \<Rightarrow> 'h inner \<Rightarrow> agent_info list" where
  "agents_report ck s =
     map (\<lambda>(aid, e).
       \<lparr>ai_id = aid, ai_name = ae_name e, ai_labels = ae_labels e, ai_cores = ae_cores e, ai_peer_addr = ae_peer_addr e,
        ai_version = ae_version e, ai_revision = ae_revision e,
        ai_connected_secs = (ck_now ck - ae_connected_at e) div 1000000000,
        ai_last_heartbeat_ms = (ck_now ck - ae_last_heartbeat e) div 1000000,
        ai_active_vus = ae_active_vus e,
        ai_healthy = (ae_connected e \<and> ck_now ck - ae_last_heartbeat e \<le> in_liveness s),
        ai_active_run = ae_active_run e\<rparr>) (in_agents s)"

record run_info =
  ri_run_id :: string
  ri_name :: "string option"
  ri_state :: string
  ri_started_ms :: nat
  ri_ended_ms :: "nat option"
  ri_agents :: "string list"

definition runs_report :: "'h inner \<Rightarrow> run_info list" where
  "runs_report s =
     sort_key (\<lambda>r. (- int (ri_started_ms r), ri_run_id r))
       (map (\<lambda>(_, run). \<lparr>ri_run_id = cr_run_id run, ri_name = cr_name run, ri_state = state_str (cr_state run),
          ri_started_ms = started_or_submitted run, ri_ended_ms = cr_finished_ms run, ri_agents = cr_assigned run\<rparr>) (in_runs s))"

record operational_info =
  oi_scenarios :: "string list"
  oi_externally_controlled :: "string list"
  oi_assigned :: "string list"
  oi_contributing :: "string list"
  oi_completed :: "string list"
  oi_lost :: "string list"
  oi_on_agent_loss :: on_agent_loss
  oi_paused :: "bool option"

definition run_operational_info :: "string \<Rightarrow> 'h inner \<Rightarrow> operational_info option" where
  "run_operational_info rid s =
     map_option (\<lambda>run.
       \<lparr>oi_scenarios = cr_scenarios run, oi_externally_controlled = cr_externally_controlled run, oi_assigned = cr_assigned run,
        oi_contributing = sort (cr_contributing run), oi_completed = sort (map fst (cr_done run)),
        oi_lost = sort (cr_lost_ever run), oi_on_agent_loss = cr_on_agent_loss run, oi_paused = cr_paused run\<rparr>)
       (map_of (in_runs s) rid)"

definition run_metrics_view :: "'h services \<Rightarrow> clock \<Rightarrow> string \<Rightarrow> 'h inner \<Rightarrow> metrics_view option \<times> 'h inner" where
  "run_metrics_view sv ck rid s =
     (case map_of (in_runs s) rid of
        None \<Rightarrow> (None, s)
      | Some run \<Rightarrow>
          (case (is_terminal (cr_state run), cr_prom_view run) of
             (True, Some mv) \<Rightarrow> (Some mv, s)
           | _ \<Rightarrow>
               let mv = \<lparr>mv_run_id = cr_run_id run, mv_name = cr_name run, mv_state = state_str (cr_state run),
                         mv_started_ms = started_or_submitted run,
                         mv_detailed = fst (build_snapshot (sv_hdr sv) (ck_now ck) False (cr_agg run)),
                         mv_fleet = map (\<lambda>(metric, kind, values). \<lparr>fm_metric = metric, fm_kind = kind, fm_agg = values\<rparr>)
                           (aggregate_all (sv_hdr sv) (ck_now ck) (cr_agg run))\<rparr>
               in (Some mv, if is_terminal (cr_state run) then set_run rid (run\<lparr>cr_prom_view := Some mv\<rparr>) s else s)))"

definition run_aggregate_snapshot :: "'h services \<Rightarrow> clock \<Rightarrow> string \<Rightarrow> 'h inner \<Rightarrow> snapshot option" where
  "run_aggregate_snapshot sv ck rid s =
     map_option (\<lambda>run. aggregate_snapshot (sv_hdr sv) (ck_now ck) [[''scenario''], [''loadr_agent'', ''loadr_agent_id'']] (cr_agg run))
       (map_of (in_runs s) rid)"

definition run_thresholds :: "string \<Rightarrow> 'h inner \<Rightarrow> threshold_status list" where
  "run_thresholds rid s = (case map_of (in_runs s) rid of Some run \<Rightarrow> cr_threshold_statuses run | None \<Rightarrow> [])"

definition run_agent_summaries :: "string \<Rightarrow> 'h inner \<Rightarrow> summary list" where
  "run_agent_summaries rid s = (case map_of (in_runs s) rid of Some run \<Rightarrow> cr_summaries run | None \<Rightarrow> [])"

definition run_summary :: "string \<Rightarrow> 'h inner \<Rightarrow> summary option" where
  "run_summary rid s =
     (case map_of (in_runs s) rid of
        None \<Rightarrow> None
      | Some run \<Rightarrow> if is_terminal (cr_state run) then cr_merged_summary run else None)"

section \<open>Events\<close>

datatype event =
    EConnect clock agent_payload "string option"
  | EUplink clock string nat "nat \<times> agent_payload"
  | EStreamEnd string nat
  | EDownRecv nat
  | EDownClosed nat
  | ESubmit clock string string submit_options "(string, loaded_plan) result"
  | EControl string string string "u64 option"
  | ESweep clock
  | ETask clock nat
  | EView clock string
  | EShutdown

fun stops_at_shutdown :: "task \<Rightarrow> bool" where
  "stops_at_shutdown (TBarrier _ _ _) = True"
| "stops_at_shutdown (TTicker _) = True"
| "stops_at_shutdown _ = False"

fun ctl_step :: "'h services \<Rightarrow> event \<Rightarrow> 'h inner \<Rightarrow> 'h inner" where
  "ctl_step sv (EConnect ck first peer) s = snd (open_session sv ck first peer s)"
| "ctl_step sv (EUplink ck aid session msg) s = pump sv ck aid session msg s"
| "ctl_step sv (EStreamEnd aid session) s = mark_disconnected aid session s"
| "ctl_step sv (EDownRecv ch) s =
     (case map_of (in_downlinks s) ch of
        None \<Rightarrow> s
      | Some d \<Rightarrow> s\<lparr>in_downlinks := AList.update ch (d\<lparr>dl_queue := tl (dl_queue d)\<rparr>) (in_downlinks s)\<rparr>)"
| "ctl_step sv (EDownClosed ch) s =
     (case map_of (in_downlinks s) ch of
        None \<Rightarrow> s
      | Some d \<Rightarrow> s\<lparr>in_downlinks := AList.update ch (d\<lparr>dl_open := False\<rparr>) (in_downlinks s)\<rparr>)"
| "ctl_step sv (ESubmit ck rid plan_yaml opts loaded) s = snd (submit sv ck rid plan_yaml opts loaded s)"
| "ctl_step sv (EControl rid action scenario vus_total) s =
     (case control rid action scenario vus_total s of
        (Inr (Some t), s') \<Rightarrow> s'\<lparr>in_tasks := in_tasks s' @ [t]\<rparr>
      | (_, s') \<Rightarrow> s')"
| "ctl_step sv (ESweep ck) s =
     (let lost_ids = lost_agents ck s
      in if lost_ids = [] then s else s\<lparr>in_tasks := in_tasks s @ [TSweep lost_ids (map fst (in_runs s))]\<rparr>)"
| "ctl_step sv (ETask ck i) s =
     (if i < length (in_tasks s)
      then case task_step sv ck (in_tasks s ! i) s of
             (ts, s') \<Rightarrow> s'\<lparr>in_tasks := take i (in_tasks s) @ ts @ drop (i + 1) (in_tasks s)\<rparr>
      else s)"
| "ctl_step sv (EView ck rid) s = snd (run_metrics_view sv ck rid s)"
| "ctl_step sv EShutdown s = s\<lparr>in_tasks := filter (\<lambda>t. \<not> stops_at_shutdown t) (in_tasks s)\<rparr>"

text \<open>The identifier of a submission is new: it is drawn by \<open>Uuid::new_v4\<close>.\<close>

fun fresh_ids :: "event \<Rightarrow> 'h inner \<Rightarrow> bool" where
  "fresh_ids (ESubmit _ rid _ _ _) s \<longleftrightarrow> \<not> contains_key (in_runs s) rid"
| "fresh_ids _ s \<longleftrightarrow> True"

inductive reachable :: "'h services \<Rightarrow> string \<Rightarrow> duration \<Rightarrow> 'h inner \<Rightarrow> bool" for sv cid liveness where
  start: "reachable sv cid liveness (controller_new cid liveness)"
| step: "reachable sv cid liveness s \<Longrightarrow> fresh_ids e s \<Longrightarrow> reachable sv cid liveness (ctl_step sv e s)"

end
