(* ===== verification/Controller_Inv.thy ===== *)
theory Controller_Inv
  imports Controller
begin

text \<open>
  The invariant of the coordination controller and that every operation keeps it: runs freeze when
  they become terminal, agents are reserved only for live runs they belong to, and a start is only ever
  sent for a run whose agents are all ready.
\<close>

section \<open>How a run may change\<close>

definition frozen :: "'h ctrl_run \<Rightarrow> run_state \<times> summary option \<times> nat option \<times> threshold_status list \<times> timeline_point list \<times>
    snapshot \<times> string list" where
  "frozen r =
     (cr_state r, cr_merged_summary r, cr_finished_ms r, cr_threshold_statuses r, cr_timeline r, cr_snapshot r, cr_contributing r)"

definition finish_ok :: "'h ctrl_run \<Rightarrow> bool" where
  "finish_ok r \<longleftrightarrow> (cr_state r = Finished \<longrightarrow> all_accounted r \<and> cr_done r \<noteq> [])"

text \<open>The verdicts of a run that did not complete.\<close>

definition bad_end :: "run_state \<Rightarrow> bool" where
  "bad_end v \<longleftrightarrow> v = Failed \<or> v = Aborted"

definition run_ok :: "'h ctrl_run \<Rightarrow> bool" where
  "run_ok r \<longleftrightarrow>
     (is_terminal (cr_state r) \<longleftrightarrow> cr_merged_summary r \<noteq> None) \<and>
     (is_terminal (cr_state r) \<longrightarrow> cr_finished_ms r \<noteq> None) \<and>
     (cr_start_unix_ms r \<noteq> None \<longrightarrow> all_ready r \<and> cr_failure r = None \<and> cr_state r \<noteq> Pending) \<and>
     (\<forall>reason v. cr_failure r = Some (reason, v) \<longrightarrow> bad_end v) \<and> finish_ok r \<and>
     distinct (cr_assigned r) \<and> wf_map (cr_phases r) \<and> fst ` set (cr_phases r) = set (cr_assigned r)"

definition run_keeps :: "'h ctrl_run \<Rightarrow> 'h ctrl_run \<Rightarrow> bool" where
  "run_keeps r r' \<longleftrightarrow>
     cr_run_id r' = cr_run_id r \<and> cr_assigned r' = cr_assigned r \<and> cr_start_unix_ms r' = cr_start_unix_ms r \<and>
     (is_terminal (cr_state r) \<longrightarrow> frozen r' = frozen r) \<and>
     (cr_state r \<noteq> Pending \<longrightarrow> cr_state r' \<noteq> Pending)"

text \<open>A change that keeps the run well formed and does not make it terminal.\<close>

definition quiet :: "('h ctrl_run \<Rightarrow> 'h ctrl_run) \<Rightarrow> 'h ctrl_run \<Rightarrow> bool" where
  "quiet f r \<longleftrightarrow> run_keeps r (f r) \<and> (run_ok r \<longrightarrow> run_ok (f r)) \<and> (is_terminal (cr_state (f r)) \<longrightarrow> is_terminal (cr_state r))"

lemma run_keeps_refl [simp]: "run_keeps r r"
  by (simp add: run_keeps_def)

lemma run_keeps_trans: "run_keeps r r' \<Longrightarrow> run_keeps r' r'' \<Longrightarrow> run_keeps r r''"
  by (auto simp: run_keeps_def frozen_def)

lemma terminal_simps [simp]:
  "is_terminal Finished" "is_terminal Aborted" "is_terminal Failed"
  "\<not> is_terminal Pending" "\<not> is_terminal Running" "\<not> is_terminal Stopping"
  by (simp_all add: is_terminal_def)

lemma quiet_id: "quiet (\<lambda>r. r) r"
  by (simp add: quiet_def)

lemma quiet_comp: "quiet f r \<Longrightarrow> quiet g (f r) \<Longrightarrow> quiet (\<lambda>r. g (f r)) r"
  by (auto simp: quiet_def intro: run_keeps_trans)

text \<open>Changes of the parts that neither the invariant nor the frozen part of a run mentions.\<close>

definition core :: "'h ctrl_run \<Rightarrow> string \<times> string list \<times> int option \<times> (string, prep_phase) hashmap \<times> (string \<times> run_state) option" where
  "core r = (cr_run_id r, cr_assigned r, cr_start_unix_ms r, cr_phases r, cr_failure r)"

text \<open>\<open>accounts r r'\<close>: whoever was done or lost in \<open>r\<close> is so in \<open>r'\<close>.\<close>

definition accounts :: "'h ctrl_run \<Rightarrow> 'h ctrl_run \<Rightarrow> bool" where
  "accounts r r' \<longleftrightarrow> fst ` set (cr_done r) \<subseteq> fst ` set (cr_done r') \<and> set (cr_lost r) \<subseteq> set (cr_lost r')"

lemma accounts_finish:
  assumes "accounts r r'" "cr_assigned r' = cr_assigned r" "cr_state r' = cr_state r" "finish_ok r"
  shows "finish_ok r'"
  using assms unfolding finish_ok_def accounts_def all_accounted_def list_all_iff contains_key_def map_of_eq_None_iff by (metis (no_types, lifting) image_is_empty set_empty subset_empty subset_iff)

lemma accounts_trans: "accounts r r' \<Longrightarrow> accounts r' r'' \<Longrightarrow> accounts r r''"
  unfolding accounts_def by blast

lemma accounts_same [simp]: "cr_done r' = cr_done r \<Longrightarrow> cr_lost r' = cr_lost r \<Longrightarrow> accounts r r'"
  by (simp add: accounts_def)

lemma quiet_same:
  assumes "core (f r) = core r" "frozen (f r) = frozen r" "accounts r (f r)"
  shows "quiet f r"
proof -
  have "finish_ok r \<Longrightarrow> finish_ok (f r)" using assms by (intro accounts_finish [of r "f r"]) (simp_all add: core_def frozen_def)
  then show ?thesis using assms by (simp add: quiet_def run_keeps_def run_ok_def core_def frozen_def all_ready_def)
qed

lemma zero_gauges_core [simp]: "core (zero_agent_live_gauges aid r) = core r" "frozen (zero_agent_live_gauges aid r) = frozen r"
  by (simp_all add: zero_agent_live_gauges_def core_def frozen_def)

lemma set_abort_core [simp]: "core (set_abort_reason x r) = core r" "frozen (set_abort_reason x r) = frozen r"
  by (simp_all add: set_abort_reason_def core_def frozen_def)

lemma quiet_agent_done: "quiet (agent_done sv aid ev) r"
  by (rule quiet_same)
    (auto simp: agent_done_def Let_def zero_agent_live_gauges_def set_abort_reason_def core_def frozen_def accounts_def dom_update split: option.split)

lemma quiet_note_ack: "quiet (note_ack aid ack) r"
  by (rule quiet_same) (simp_all add: note_ack_def Let_def core_def frozen_def split: option.split)

lemma quiet_lost: "set (cr_lost r) \<subseteq> set (f (cr_lost r)) \<Longrightarrow> quiet (\<lambda>r. r\<lparr>cr_lost := f (cr_lost r)\<rparr>) r"
  by (rule quiet_same) (simp_all add: core_def frozen_def accounts_def)

lemma quiet_found: "\<not> is_terminal (cr_state r) \<Longrightarrow> quiet (\<lambda>r. r\<lparr>cr_lost := f (cr_lost r)\<rparr>) r"
  by (auto simp: quiet_def run_keeps_def run_ok_def all_ready_def finish_ok_def)

lemma set_insert_list [simp]: "set (insert_list x xs) = insert x (set xs)"
  by (auto simp: insert_list_def)

lemma mark_lost_core: "core (mark_lost newly r) = core r \<and> frozen (mark_lost newly r) = frozen r \<and> accounts r (mark_lost newly r)"
proof (induction newly arbitrary: r)
  case (Cons aid newly)
  let ?r = "zero_agent_live_gauges aid (r\<lparr>cr_lost := insert_list aid (cr_lost r), cr_lost_ever := insert_list aid (cr_lost_ever r)\<rparr>)"
  have "core ?r = core r" "frozen ?r = frozen r" "accounts r ?r"
    by (auto simp: core_def frozen_def zero_agent_live_gauges_def accounts_def)
  moreover have "mark_lost (aid # newly) r = mark_lost newly ?r" by (simp add: mark_lost_def)
  ultimately show ?case using Cons.IH [of ?r] accounts_trans by metis
qed (simp add: mark_lost_def)

lemma quiet_mark_lost: "quiet (mark_lost newly) r"
  using mark_lost_core [of newly r] by (intro quiet_same) simp_all

lemma quiet_abort_reason: "quiet (set_abort_reason x) r"
  by (rule quiet_same) (simp_all, simp add: set_abort_reason_def)

lemma quiet_undeliverable: "quiet (undeliverable aid cmd) r"
  by (rule quiet_same) (simp_all add: undeliverable_def core_def frozen_def split: option.split)

lemma quiet_pending: "quiet (\<lambda>r. r\<lparr>cr_pending_controls := f (cr_pending_controls r)\<rparr>) r"
  by (rule quiet_same) (simp_all add: core_def frozen_def)

lemma quiet_prom_view: "quiet (\<lambda>r. r\<lparr>cr_prom_view := v\<rparr>) r"
  by (rule quiet_same) (simp_all add: core_def frozen_def)

lemma quiet_apply_delta: "quiet (apply_delta sv aid delta) r"
  by (auto simp: apply_delta_def Let_def quiet_def run_keeps_def run_ok_def finish_ok_def all_accounted_def all_ready_def zero_agent_live_gauges_def frozen_def)

lemma quiet_publish: "quiet (publish_live_snapshot sv ck) r"
  by (simp add: publish_live_snapshot_def quiet_def run_keeps_def run_ok_def finish_ok_def all_accounted_def all_ready_def split: prod.split)

lemma quiet_started: "quiet (\<lambda>r. if cr_state r = Pending then r\<lparr>cr_state := Running\<rparr> else r) r"
  by (auto simp: quiet_def run_keeps_def run_ok_def finish_ok_def all_accounted_def all_ready_def frozen_def)

lemma quiet_failure:
  assumes "cr_state r = Pending" "bad_end v"
  shows "quiet (\<lambda>r. r\<lparr>cr_failure := (case cr_failure r of None \<Rightarrow> Some (reason, v) | f \<Rightarrow> f)\<rparr>) r"
  using assms by (auto simp: quiet_def run_keeps_def run_ok_def finish_ok_def all_accounted_def all_ready_def frozen_def split: option.split)

lemma quiet_ready:
  assumes "aid \<in> set (cr_assigned r)"
  shows "quiet (\<lambda>r. r\<lparr>cr_phases := AList.update aid Ready (cr_phases r)\<rparr>) r"
proof -
  have "all_ready (r\<lparr>cr_phases := AList.update aid Ready (cr_phases r)\<rparr>)" if "all_ready r"
    using that by (fastforce simp: all_ready_def list_all_iff dest: set_update_mem)
  moreover have "fst ` set (AList.update aid Ready (cr_phases r)) = insert aid (fst ` set (cr_phases r))"
    by (simp add: dom_update)
  ultimately show ?thesis using assms by (auto simp: quiet_def run_keeps_def run_ok_def frozen_def finish_ok_def all_accounted_def)
qed

lemma quiet_conclude: "quiet (\<lambda>r. snd (conclude_control cmd action r)) r"
  by (auto simp: conclude_control_def Let_def forget_command_def quiet_def run_keeps_def run_ok_def finish_ok_def all_accounted_def all_ready_def frozen_def)

lemma quiet_expire: "quiet (\<lambda>r. snd (expire_control cmd action r)) r"
  by (rule quiet_same) (simp_all add: expire_control_def Let_def forget_command_def core_def frozen_def)

lemma settle_shape:
  obtains st tl ag where "settle sv ck v r = r\<lparr>cr_finished_ms := Some (ck_unix_ms ck), cr_threshold_statuses := st, cr_timeline := tl, cr_agg := ag\<rparr>"
  | st tl ag su sn where "settle sv ck v r =
      r\<lparr>cr_finished_ms := Some (ck_unix_ms ck), cr_threshold_statuses := st, cr_timeline := tl, cr_agg := ag,
        cr_merged_summary := Some su, cr_state := v, cr_snapshot := sn\<rparr>"
proof -
  obtain st sn ag tl where p: "live_projection sv ck r = (st, sn, ag, tl)" by (metis prod_cases4)
  show thesis
  proof (cases "summary_build (sv_hdr sv) (ck_now ck) (\<lambda>_. ck_now ck) (ck_now ck) (ck_unix_ms ck) (cr_name r) (cr_run_id r)
      (started_or_submitted r) (cr_scenarios r) st (cr_abort_reason r) tl ag")
    case None
    then show thesis by (intro that(1)) (simp add: settle_def Let_def p)
  next
    case (Some x)
    then show thesis by (cases x, intro that(2)) (simp add: settle_def Let_def p)
  qed
qed

lemma settle_facts:
  assumes "\<not> is_terminal (cr_state r)" "is_terminal v" "v = Finished \<Longrightarrow> all_accounted r \<and> cr_done r \<noteq> []"
  shows "run_keeps r (settle sv ck v r)" "run_ok r \<Longrightarrow> run_ok (settle sv ck v r)"
    "is_terminal (cr_state (settle sv ck v r)) \<Longrightarrow> cr_state (settle sv ck v r) = v"
proof -
  have v: "v \<noteq> Pending" using assms(2) by auto
  show "run_keeps r (settle sv ck v r)"
    using assms v by (cases rule: settle_shape [of sv ck v r]) (simp_all add: run_keeps_def)
  show "run_ok r \<Longrightarrow> run_ok (settle sv ck v r)"
    using assms v by (cases rule: settle_shape [of sv ck v r]) (auto simp: run_ok_def all_ready_def finish_ok_def all_accounted_def)
  show "is_terminal (cr_state (settle sv ck v r)) \<Longrightarrow> cr_state (settle sv ck v r) = v"
    using assms by (cases rule: settle_shape [of sv ck v r]) simp_all
qed

section \<open>The invariant\<close>

definition live_member :: "'h inner \<Rightarrow> string \<Rightarrow> string \<Rightarrow> bool" where
  "live_member s rid aid \<longleftrightarrow>
     (\<exists>run. map_of (in_runs s) rid = Some run \<and> \<not> is_terminal (cr_state run) \<and> aid \<in> set (cr_assigned run))"

definition started_at :: "'h inner \<Rightarrow> string \<Rightarrow> int \<Rightarrow> bool" where
  "started_at s rid t \<longleftrightarrow> (\<exists>run. map_of (in_runs s) rid = Some run \<and> cr_start_unix_ms run = Some t)"

definition not_started :: "'h inner \<Rightarrow> string \<Rightarrow> bool" where
  "not_started s rid \<longleftrightarrow> (\<exists>run. map_of (in_runs s) rid = Some run \<and> cr_start_unix_ms run = None)"

fun is_start :: "ctrl_msg \<Rightarrow> bool" where
  "is_start (Start _ _) = True"
| "is_start _ = False"

definition item_ok :: "'h inner \<Rightarrow> down_item \<Rightarrow> bool" where
  "item_ok s it \<longleftrightarrow> (\<forall>rid t. it = Down (Start rid t) \<longrightarrow> started_at s rid t)"

definition entry_ok :: "'h inner \<Rightarrow> string \<Rightarrow> agent_entry \<Rightarrow> bool" where
  "entry_ok s aid e \<longleftrightarrow>
     ae_sender e = ae_session e \<and> ae_session e \<le> in_session_counter s \<and>
     (\<forall>rid. ae_active_run e = Some rid \<longrightarrow> live_member s rid aid)"

definition link_ok :: "'h inner \<Rightarrow> downlink \<Rightarrow> bool" where
  "link_ok s d \<longleftrightarrow> length (dl_queue d) \<le> DOWNLINK_CAP \<and> list_all (item_ok s) (dl_queue d)"

definition plain :: "(nat \<times> ctrl_msg) list \<Rightarrow> bool" where
  "plain sends \<longleftrightarrow> list_all (\<lambda>(_, m). \<not> is_start m) sends"

fun task_ok :: "'h inner \<Rightarrow> task \<Rightarrow> bool" where
  "task_ok s (TAssign rid sends _ _) \<longleftrightarrow> not_started s rid \<and> plain sends"
| "task_ok s (TBarrier rid _ _) \<longleftrightarrow> not_started s rid"
| "task_ok s (TStart rid sends) \<longleftrightarrow> list_all (\<lambda>(_, m). \<exists>t. m = Start rid t \<and> started_at s rid t) sends"
| "task_ok s (TFail rid sends v) \<longleftrightarrow> plain sends \<and> bad_end v"
| "task_ok s (TSweepStop rid sends _ _) \<longleftrightarrow> plain sends"
| "task_ok s (TControl rid _ _ _ sends) \<longleftrightarrow> plain (map snd sends)"
| "task_ok s _ \<longleftrightarrow> True"

text \<open>The runs whose start a task may still commit.\<close>

fun may_start :: "task \<Rightarrow> string list" where
  "may_start (TAssign rid _ _ _) = [rid]"
| "may_start (TBarrier rid _ _) = [rid]"
| "may_start _ = []"

definition base_inv :: "'h inner \<Rightarrow> bool" where
  "base_inv s \<longleftrightarrow>
     wf_map (in_agents s) \<and> wf_map (in_runs s) \<and> wf_map (in_downlinks s) \<and>
     (\<forall>rid run. map_of (in_runs s) rid = Some run \<longrightarrow> run_ok run \<and> cr_run_id run = rid) \<and>
     (\<forall>aid e. map_of (in_agents s) aid = Some e \<longrightarrow> entry_ok s aid e) \<and>
     (\<forall>ch d. map_of (in_downlinks s) ch = Some d \<longrightarrow> link_ok s d)"

lemma base_invI:
  assumes "wf_map (in_agents s)" "wf_map (in_runs s)" "wf_map (in_downlinks s)"
    "\<And>rid run. map_of (in_runs s) rid = Some run \<Longrightarrow> run_ok run \<and> cr_run_id run = rid"
    "\<And>aid e. map_of (in_agents s) aid = Some e \<Longrightarrow> entry_ok s aid e"
    "\<And>ch d. map_of (in_downlinks s) ch = Some d \<Longrightarrow> link_ok s d"
  shows "base_inv s"
  using assms by (simp add: base_inv_def)

lemma base_invD:
  assumes "base_inv s"
  shows "wf_map (in_agents s)" "wf_map (in_runs s)" "wf_map (in_downlinks s)"
    "map_of (in_runs s) rid = Some run \<Longrightarrow> run_ok run" "map_of (in_runs s) rid = Some run \<Longrightarrow> cr_run_id run = rid"
    "map_of (in_agents s) aid = Some e \<Longrightarrow> entry_ok s aid e" "map_of (in_downlinks s) ch = Some d \<Longrightarrow> link_ok s d"
  using assms by (auto simp: base_inv_def)

definition ctl_inv :: "'h inner \<Rightarrow> bool" where
  "ctl_inv s \<longleftrightarrow> base_inv s \<and> list_all (task_ok s) (in_tasks s) \<and> distinct (concat (map may_start (in_tasks s)))"

text \<open>The runs of a state and of a later one: every run is still there, changed only as a run may change.\<close>

definition keeps :: "'h inner \<Rightarrow> 'h inner \<Rightarrow> bool" where
  "keeps s s' \<longleftrightarrow>
     (\<forall>rid. rel_option run_keeps (map_of (in_runs s) rid) (map_of (in_runs s') rid)) \<and> in_tasks s' = in_tasks s"

definition evolves :: "'h inner \<Rightarrow> 'h inner \<Rightarrow> bool" where
  "evolves s s' \<longleftrightarrow> (base_inv s \<longrightarrow> base_inv s' \<and> keeps s s')"

lemma keeps_refl: "keeps s s"
  by (simp add: keeps_def option.rel_refl)

lemma keeps_trans:
  assumes "keeps s s'" "keeps s' s''" shows "keeps s s''"
proof -
  have "rel_option run_keeps (map_of (in_runs s) rid) (map_of (in_runs s'') rid)" for rid
  proof -
    have "rel_option run_keeps (map_of (in_runs s) rid) (map_of (in_runs s') rid)"
      "rel_option run_keeps (map_of (in_runs s') rid) (map_of (in_runs s'') rid)" using assms by (simp_all add: keeps_def)
    then show ?thesis
      by (cases "map_of (in_runs s) rid"; cases "map_of (in_runs s') rid"; cases "map_of (in_runs s'') rid")
        (auto intro: run_keeps_trans)
  qed
  then show ?thesis using assms by (simp add: keeps_def)
qed

lemma evolves_refl [simp]: "evolves s s"
  by (simp add: evolves_def keeps_refl)

lemma evolves_trans [trans]: "evolves s s' \<Longrightarrow> evolves s' s'' \<Longrightarrow> evolves s s''"
  by (auto simp: evolves_def intro: keeps_trans)

lemma keepsD:
  assumes "keeps s s'" "map_of (in_runs s) rid = Some run"
  obtains run' where "map_of (in_runs s') rid = Some run'" "run_keeps run run'"
proof -
  have "rel_option run_keeps (Some run) (map_of (in_runs s') rid)" using assms by (metis keeps_def)
  then show thesis using that by (cases "map_of (in_runs s') rid") auto
qed

lemma keeps_started: "keeps s s' \<Longrightarrow> started_at s rid t \<Longrightarrow> started_at s' rid t"
  by (auto simp: started_at_def run_keeps_def elim!: keepsD)

lemma keeps_not_started: "keeps s s' \<Longrightarrow> not_started s rid \<Longrightarrow> not_started s' rid"
  by (auto simp: not_started_def run_keeps_def elim!: keepsD)

lemma keeps_task_ok: "keeps s s' \<Longrightarrow> task_ok s t \<Longrightarrow> task_ok s' t"
  by (cases t) (auto simp: keeps_started keeps_not_started list_all_iff)

lemma evolves_inv: "evolves s s' \<Longrightarrow> ctl_inv s \<Longrightarrow> ctl_inv s' \<and> keeps s s'"
  by (auto simp: evolves_def ctl_inv_def keeps_def list_all_iff intro: keeps_task_ok [of s s'])

lemma same_runs_keeps: "in_runs s' = in_runs s \<Longrightarrow> in_tasks s' = in_tasks s \<Longrightarrow> keeps s s'"
  by (simp add: keeps_def option.rel_refl)

lemma live_member_cong: "in_runs s' = in_runs s \<Longrightarrow> live_member s' = live_member s"
  by (intro ext) (simp add: live_member_def)

lemma started_at_cong: "in_runs s' = in_runs s \<Longrightarrow> started_at s' = started_at s"
  by (intro ext) (simp add: started_at_def)

section \<open>Elementary changes\<close>

lemma evolves_upd_run:
  assumes "\<And>r. map_of (in_runs s) rid = Some r \<Longrightarrow> quiet f r"
  shows "evolves s (upd_run rid f s)"
proof (cases "map_of (in_runs s) rid")
  case (Some run)
  let ?s' = "s\<lparr>in_runs := AList.update rid (f run) (in_runs s)\<rparr>"
  have q: "run_keeps run (f run)" "run_ok run \<Longrightarrow> run_ok (f run)" "is_terminal (cr_state (f run)) \<Longrightarrow> is_terminal (cr_state run)"
    using assms [OF Some] by (simp_all add: quiet_def)
  have live: "live_member ?s' r a" if "live_member s r a" for r a
    using that Some q(1,3) by (auto simp: live_member_def run_keeps_def)
  have started: "started_at ?s' r t" if "started_at s r t" for r t
    using that Some q(1) by (auto simp: started_at_def run_keeps_def)
  have "base_inv ?s'" if b: "base_inv s"
  proof (rule base_invI)
    show "wf_map (in_agents ?s')" "wf_map (in_runs ?s')" "wf_map (in_downlinks ?s')" using base_invD(1-3) [OF b] by simp_all
    show "run_ok r \<and> cr_run_id r = rid'" if "map_of (in_runs ?s') rid' = Some r" for rid' r
    proof (cases "rid' = rid")
      case True
      then show ?thesis using that q(1,2) base_invD(4,5) [OF b Some] by (simp add: run_keeps_def)
    next
      case False
      then show ?thesis using that base_invD(4,5) [OF b] by simp
    qed
    show "entry_ok ?s' aid e" if "map_of (in_agents ?s') aid = Some e" for aid e
    proof -
      have "entry_ok s aid e" using that base_invD(6) [OF b] by simp
      then show ?thesis using live by (simp add: entry_ok_def)
    qed
    show "link_ok ?s' d" if "map_of (in_downlinks ?s') ch = Some d" for ch d
    proof -
      have "link_ok s d" using that base_invD(7) [OF b] by simp
      then show ?thesis using started by (simp add: link_ok_def item_ok_def list_all_iff)
    qed
  qed
  moreover have "keeps s ?s'" using Some q(1) by (auto simp: keeps_def option.rel_refl)
  ultimately show ?thesis using Some by (simp add: evolves_def upd_run_def)
qed (simp add: upd_run_def)

lemma evolves_upd_agent:
  assumes "\<And>e. map_of (in_agents s) aid = Some e \<Longrightarrow>
    ae_sender (f e) = ae_sender e \<and> ae_session (f e) = ae_session e \<and> (ae_active_run (f e) = ae_active_run e \<or> ae_active_run (f e) = None)"
  shows "evolves s (upd_agent aid f s)"
proof (cases "map_of (in_agents s) aid")
  case (Some e)
  let ?s' = "s\<lparr>in_agents := AList.update aid (f e) (in_agents s)\<rparr>"
  have c: "live_member ?s' = live_member s" "started_at ?s' = started_at s"
    by (rule live_member_cong, simp, rule started_at_cong, simp)
  have i: "item_ok ?s' = item_ok s" by (intro ext) (simp add: item_ok_def c)
  have "base_inv ?s'" if b: "base_inv s"
  proof (rule base_invI)
    show "wf_map (in_agents ?s')" "wf_map (in_runs ?s')" "wf_map (in_downlinks ?s')" using base_invD(1-3) [OF b] by simp_all
    show "run_ok r \<and> cr_run_id r = rid" if "map_of (in_runs ?s') rid = Some r" for rid r
      using that base_invD(4,5) [OF b] by simp
    show "entry_ok ?s' aid' e'" if "map_of (in_agents ?s') aid' = Some e'" for aid' e'
    proof (cases "aid' = aid")
      case True
      then show ?thesis using that base_invD(6) [OF b Some] assms [OF Some] by (auto simp: entry_ok_def c)
    next
      case False
      then show ?thesis using that base_invD(6) [OF b, of aid' e'] by (simp add: entry_ok_def c)
    qed
    show "link_ok ?s' d" if "map_of (in_downlinks ?s') ch = Some d" for ch d
      using that base_invD(7) [OF b, of ch d] by (simp add: link_ok_def i)
  qed
  then show ?thesis using Some by (simp add: evolves_def upd_agent_def same_runs_keeps)
qed (simp add: upd_agent_def)

lemma evolves_try_send:
  assumes "item_ok s it" shows "evolves s (try_send ch it s)"
proof (cases "can_send ch s")
  case True
  then obtain d where d: "map_of (in_downlinks s) ch = Some d" "dl_open d" "length (dl_queue d) < DOWNLINK_CAP"
    by (auto simp: can_send_def split: option.splits)
  let ?s' = "s\<lparr>in_downlinks := AList.update ch (d\<lparr>dl_queue := dl_queue d @ [it]\<rparr>) (in_downlinks s)\<rparr>"
  have c: "live_member ?s' = live_member s" "started_at ?s' = started_at s"
    by (rule live_member_cong, simp, rule started_at_cong, simp)
  have i: "item_ok ?s' = item_ok s" by (intro ext) (simp add: item_ok_def c)
  have "base_inv ?s'" if b: "base_inv s"
  proof (rule base_invI)
    show "wf_map (in_agents ?s')" "wf_map (in_runs ?s')" "wf_map (in_downlinks ?s')" using base_invD(1-3) [OF b] by simp_all
    show "run_ok r \<and> cr_run_id r = rid" if "map_of (in_runs ?s') rid = Some r" for rid r
      using that base_invD(4,5) [OF b] by simp
    show "entry_ok ?s' aid e" if "map_of (in_agents ?s') aid = Some e" for aid e
      using that base_invD(6) [OF b, of aid e] by (simp add: entry_ok_def c)
    show "link_ok ?s' d'" if "map_of (in_downlinks ?s') ch' = Some d'" for ch' d'
      using that base_invD(7) [OF b, of ch' d'] base_invD(7) [OF b d(1)] d(3) assms by (auto simp: link_ok_def i split: if_splits)
  qed
  then show ?thesis using d by (simp add: evolves_def try_send_def same_runs_keeps)
qed (auto simp: can_send_def try_send_def split: option.splits)

lemma item_ok_simps [simp]:
  "item_ok s (Status x)" "\<not> is_start m \<Longrightarrow> item_ok s (Down m)" "item_ok s (Down (Start rid t)) \<longleftrightarrow> started_at s rid t"
  by (auto simp: item_ok_def)

lemma evolves_fold: "(\<And>x s. x \<in> set xs \<Longrightarrow> evolves s (f x s)) \<Longrightarrow> evolves s (fold f xs s)"
proof (induction xs arbitrary: s)
  case (Cons x xs)
  then show ?case using evolves_trans [of s "f x s" "fold f xs (f x s)"] by simp
qed simp

lemma evolves_kill [simp]: "evolves s (kill_agent_run aid rid s)"
  by (simp add: kill_agent_run_def control_message_def evolves_try_send split: option.split)

lemma evolves_ack [simp]: "evolves s (send_uplink_ack e seq s)"
  by (simp add: send_uplink_ack_def evolves_try_send)

lemma evolves_send_assignment [simp]: "evolves s (send_assignment run aid s)"
  by (simp add: send_assignment_def assignment_for_def evolves_try_send split: option.split)

lemma stops_plain: "plain (stops_for run s)"
  by (auto simp: plain_def stops_for_def control_message_def list_all_iff)

lemma evolves_broadcast_stop [simp]: "evolves s (broadcast_stop rid s)"
proof (cases "map_of (in_runs s) rid")
  case (Some run)
  have "evolves s' (case x of (ch, msg) \<Rightarrow> try_send ch (Down msg) s')" if "x \<in> set (stops_for run s)" for x s'
    using that stops_plain [of run s] by (auto simp: plain_def list_all_iff intro!: evolves_try_send)
  then show ?thesis by (simp add: broadcast_stop_def Some) (rule evolves_fold, auto)
qed (simp add: broadcast_stop_def)

section \<open>Finalising\<close>

definition released :: "'h ctrl_run \<Rightarrow> string \<Rightarrow> agent_entry \<Rightarrow> agent_entry" where
  "released run aid e =
     (if aid \<in> set (cr_assigned run) \<and> ae_active_run e = Some (cr_run_id run) then e\<lparr>ae_active_run := None\<rparr> else e)"

lemma release_facts:
  "map_of (in_agents (release_reservations run s)) aid = map_option (released run aid) (map_of (in_agents s) aid)"
  "in_runs (release_reservations run s) = in_runs s" "in_tasks (release_reservations run s) = in_tasks s"
  "in_results (release_reservations run s) = in_results s"
  "in_downlinks (release_reservations run s) = in_downlinks s"
  "in_session_counter (release_reservations run s) = in_session_counter s"
  "wf_map (in_agents s) \<Longrightarrow> wf_map (in_agents (release_reservations run s))"
proof -
  let ?free = "\<lambda>e. if ae_active_run e = Some (cr_run_id run) then e\<lparr>ae_active_run := None\<rparr> else e"
  let ?f = "\<lambda>aid. upd_agent aid ?free"
  have map: "map_of (in_agents (fold ?f xs t)) aid =
      map_option (\<lambda>e. if aid \<in> set xs then ?free e else e) (map_of (in_agents t) aid)" for xs and t :: "'a inner"
  proof (induction xs arbitrary: t)
    case (Cons x xs)
    have "map_of (in_agents (upd_agent x ?free t)) aid = map_option (\<lambda>e. if aid = x then ?free e else e) (map_of (in_agents t) aid)"
      by (cases "map_of (in_agents t) aid") (auto simp: upd_agent_def split: option.split)
    then show ?case by (cases "map_of (in_agents t) aid") (simp_all add: Cons.IH)
  qed (simp add: option.map_ident)
  show "map_of (in_agents (release_reservations run s)) aid = map_option (released run aid) (map_of (in_agents s) aid)"
    unfolding release_reservations_def map released_def by (rule arg_cong [of _ _ "\<lambda>f. map_option f _"]) (rule ext, simp)
  have "in_runs (fold ?f xs t) = in_runs t \<and> in_tasks (fold ?f xs t) = in_tasks t \<and> in_results (fold ?f xs t) = in_results t \<and>
      in_downlinks (fold ?f xs t) = in_downlinks t \<and> in_session_counter (fold ?f xs t) = in_session_counter t \<and>
      (wf_map (in_agents t) \<longrightarrow> wf_map (in_agents (fold ?f xs t)))" for xs and t :: "'a inner"
    by (induction xs arbitrary: t) (auto simp: upd_agent_def split: option.split)
  then show "in_runs (release_reservations run s) = in_runs s" "in_tasks (release_reservations run s) = in_tasks s"
    "in_results (release_reservations run s) = in_results s"
    "in_downlinks (release_reservations run s) = in_downlinks s"
    "in_session_counter (release_reservations run s) = in_session_counter s"
    "wf_map (in_agents s) \<Longrightarrow> wf_map (in_agents (release_reservations run s))"
    unfolding release_reservations_def by blast+
qed

lemma evolves_finalize_verdict:
  assumes "is_terminal v"
    and fin: "\<And>run. map_of (in_runs s) rid = Some run \<Longrightarrow> v = Finished \<Longrightarrow> all_accounted run \<and> cr_done run \<noteq> []"
  shows "evolves s (finalize_run sv ck rid v s)"
proof (cases "map_of (in_runs s) rid")
  case (Some run)
  show ?thesis
  proof (cases "is_terminal (cr_state run)")
    case False
    define run' where "run' = settle sv ck v run"
    define s1 where "s1 = s\<lparr>in_runs := AList.update rid run' (in_runs s)\<rparr>"
    have fin': "v = Finished \<Longrightarrow> all_accounted run \<and> cr_done run \<noteq> []" by (rule fin [OF Some])
    have f: "run_keeps run run'" "run_ok run \<Longrightarrow> run_ok run'" "is_terminal (cr_state run') \<Longrightarrow> cr_state run' = v"
      unfolding run'_def using settle_facts [OF False assms(1) fin'] by blast+
    show ?thesis
    proof (cases "is_terminal (cr_state run')")
      case nt: False
      have "evolves s (upd_run rid (\<lambda>_. run') s)" using Some f nt by (intro evolves_upd_run) (auto simp: quiet_def)
      then show ?thesis using Some False nt by (simp add: finalize_run_def Let_def run'_def [symmetric] upd_run_def)
    next
      case t: True
      define s2 where "s2 = release_reservations run' s1"
      have fin: "finalize_run sv ck rid v s = s2"
        using Some False t by (simp add: finalize_run_def Let_def run'_def [symmetric] s1_def s2_def)
      have runs: "in_runs s2 = AList.update rid run' (in_runs s)" "in_downlinks s2 = in_downlinks s"
        "in_session_counter s2 = in_session_counter s" by (simp_all add: s2_def release_facts s1_def)
      have started: "started_at s2 r t" if "started_at s r t" for r t
        using that Some f(1) by (auto simp: started_at_def runs run_keeps_def)
      have "base_inv s2" if b: "base_inv s"
      proof (rule base_invI)
        have rid: "cr_run_id run' = rid" "cr_assigned run' = cr_assigned run"
          using f(1) base_invD(5) [OF b Some] by (simp_all add: run_keeps_def)
        show "wf_map (in_agents s2)" "wf_map (in_runs s2)" "wf_map (in_downlinks s2)"
          using base_invD(1-3) [OF b] by (simp_all add: runs) (simp add: s2_def release_facts s1_def)
        show "run_ok r \<and> cr_run_id r = rid'" if "map_of (in_runs s2) rid' = Some r" for rid' r
          using that f(2) [OF base_invD(4) [OF b Some]] rid base_invD(4,5) [OF b, of rid' r] by (auto simp: runs split: if_splits)
        show "link_ok s2 d" if "map_of (in_downlinks s2) ch = Some d" for ch d
          using that started base_invD(7) [OF b, of ch d] by (simp add: runs link_ok_def item_ok_def list_all_iff)
        show "entry_ok s2 aid e" if "map_of (in_agents s2) aid = Some e" for aid e
        proof -
          obtain e0 where e0: "map_of (in_agents s) aid = Some e0" "e = released run' aid e0"
            using \<open>map_of (in_agents s2) aid = Some e\<close> by (auto simp: s2_def release_facts s1_def)
          have ok: "entry_ok s aid e0" using base_invD(6) [OF b e0(1)] .
          have "live_member s2 r aid" if "ae_active_run e = Some r" for r
          proof -
            have "ae_active_run e0 = Some r" using that e0(2) by (auto simp: released_def split: if_splits)
            then have live: "live_member s r aid" using ok by (simp add: entry_ok_def)
            have "r \<noteq> rid"
            proof
              assume "r = rid"
              then have "aid \<in> set (cr_assigned run')" using live Some rid by (auto simp: live_member_def)
              then show False using that e0(2) \<open>ae_active_run e0 = Some r\<close> \<open>r = rid\<close> rid by (simp add: released_def)
            qed
            then show ?thesis using live by (simp add: live_member_def runs)
          qed
          then show ?thesis using ok e0(2) by (auto simp: entry_ok_def runs released_def)
        qed
      qed
      moreover have "keeps s s2" using Some f(1) by (auto simp: keeps_def runs s2_def release_facts s1_def option.rel_refl)
      ultimately show ?thesis by (simp add: evolves_def fin)
    qed
  qed (use Some in \<open>simp add: finalize_run_def\<close>)
qed (simp add: finalize_run_def)

lemma verdict_terminal [simp]: "is_terminal (verdict_of run)"
  by (simp add: verdict_of_def)

lemma evolves_finalize: "bad_end v \<Longrightarrow> evolves s (finalize_run sv ck rid v s)"
  by (rule evolves_finalize_verdict) (auto simp: bad_end_def)

lemma bad_end_simps [simp]: "bad_end Failed" "bad_end Aborted"
  by (simp_all add: bad_end_def)

lemma verdict_Finished: "verdict_of run = Finished \<Longrightarrow> cr_done run \<noteq> []"
  by (auto simp: verdict_of_def)

lemma evolves_completion [simp]: "evolves s (check_completion sv ck rid s)"
  by (auto simp: check_completion_def intro!: evolves_finalize_verdict dest: verdict_Finished split: option.split)

lemma evolves_prep_failure:
  assumes "bad_end v" shows "evolves s (snd (record_prep_failure rid reason v s))"
proof (cases "map_of (in_runs s) rid")
  case (Some run)
  then show ?thesis using assms
    by (auto simp: record_prep_failure_def intro!: evolves_upd_run quiet_failure)
qed (simp add: record_prep_failure_def)

section \<open>Sessions\<close>

lemma evolves_terminate [simp]: "evolves s (terminate_participation sv ck aid rid s)"
proof (cases "map_of (in_runs s) rid")
  case (Some run)
  let ?reason = "''agent '' @ aid @ '' restarted during preparation''"
  let ?s1 = "upd_run rid (\<lambda>r. r\<lparr>cr_lost := insert_list aid (cr_lost r)\<rparr>) s"
  let ?s2 = "upd_run rid (set_abort_reason (''agent restarted: '' @ aid)) ?s1"
  have fail: "evolves s (snd (record_prep_failure rid ?reason Failed s))" by (rule evolves_prep_failure) simp
  have s1: "evolves s ?s1" by (rule evolves_upd_run) (rule quiet_lost, auto)
  have s2: "evolves ?s1 ?s2" by (rule evolves_upd_run) (rule quiet_abort_reason)
  have abort: "evolves s (finalize_run sv ck rid Failed (broadcast_stop rid ?s2))"
    using s1 s2 evolves_broadcast_stop [of ?s2 rid] evolves_finalize [of Failed "broadcast_stop rid ?s2" sv ck rid]
    by (meson evolves_trans bad_end_simps(1))
  have cont: "evolves s (check_completion sv ck rid ?s1)" using s1 evolves_completion by (rule evolves_trans)
  show ?thesis
    using fail abort cont by (auto simp: terminate_participation_def Let_def Some split: prod.split bool.split on_agent_loss.split)
qed (simp add: terminate_participation_def)

lemma evolves_replay [simp]: "evolves s (replay_assignment_if_pending aid rid s)"
  by (simp add: replay_assignment_if_pending_def split: option.split)

lemma evolves_resume [simp]: "evolves s (resume_run aid rid s)"
proof (cases "map_of (in_runs s) rid")
  case (Some run)
  show ?thesis
  proof (cases "is_terminal (cr_state run)")
    case False
    let ?s1 = "upd_run rid (\<lambda>r. r\<lparr>cr_lost := removeAll aid (cr_lost r)\<rparr>) s"
    have s1: "evolves s ?s1" using False Some by (intro evolves_upd_run quiet_found) simp
    have "evolves ?s1 (try_send ch (Down (Start rid t)) ?s1)" if "cr_start_unix_ms run = Some t" for t ch
      using that Some by (intro evolves_try_send) (simp add: started_at_def upd_run_def)
    with s1 show ?thesis
      by (auto simp: resume_run_def Let_def Some split: option.split prep_phase.split intro: evolves_trans [OF s1])
  qed (simp add: resume_run_def Some)
qed (simp add: resume_run_def)

lemma reserve_after_Some: "fst (reserve_after reg prev) = Some rid \<Longrightarrow> \<exists>e. prev = Some e \<and> ae_active_run e = Some rid"
  by (cases prev) (auto simp: reserve_after_def split: option.splits if_splits)

lemma new_entry_fields:
  "ae_sender (new_entry ck reg peer session prev) = session" "ae_session (new_entry ck reg peer session prev) = session"
  "ae_active_run (new_entry ck reg peer session prev) = fst (reserve_after reg prev)"
  by (simp_all add: new_entry_def)

lemma evolves_new_entry:
  assumes "session \<le> in_session_counter s"
  shows "evolves s (s\<lparr>in_agents := AList.update aid (new_entry ck reg peer session (map_of (in_agents s) aid)) (in_agents s)\<rparr>)"
    (is "evolves s ?s'")
proof -
  let ?prev = "map_of (in_agents s) aid"
  have c: "live_member ?s' = live_member s" "started_at ?s' = started_at s"
    by (rule live_member_cong, simp, rule started_at_cong, simp)
  have i: "item_ok ?s' = item_ok s" by (intro ext) (simp add: item_ok_def c)
  have "base_inv ?s'" if b: "base_inv s"
  proof (rule base_invI)
    show "wf_map (in_agents ?s')" "wf_map (in_runs ?s')" "wf_map (in_downlinks ?s')" using base_invD(1-3) [OF b] by simp_all
    show "run_ok r \<and> cr_run_id r = rid" if "map_of (in_runs ?s') rid = Some r" for rid r
      using that base_invD(4,5) [OF b] by simp
    show "link_ok ?s' d" if "map_of (in_downlinks ?s') ch = Some d" for ch d
      using that base_invD(7) [OF b, of ch d] by (simp add: link_ok_def i)
    have new: "live_member s rid aid" if "fst (reserve_after reg ?prev) = Some rid" for rid
      using reserve_after_Some [OF that] base_invD(6) [OF b] by (auto simp: entry_ok_def)
    show "entry_ok ?s' aid' e'" if "map_of (in_agents ?s') aid' = Some e'" for aid' e'
    proof (cases "aid' = aid")
      case True
      then show ?thesis using that assms new by (auto simp: entry_ok_def c new_entry_fields)
    next
      case False
      then show ?thesis using that base_invD(6) [OF b, of aid' e'] by (simp add: entry_ok_def c)
    qed
  qed
  then show ?thesis by (simp add: evolves_def same_runs_keeps)
qed

lemma evolves_register:
  assumes "session \<le> in_session_counter s"
  shows "evolves s (register_agent sv ck reg peer session s)"
proof -
  let ?aid = "rg_agent_id reg" let ?prev = "map_of (in_agents s) ?aid"
  let ?s1 = "s\<lparr>in_agents := AList.update ?aid (new_entry ck reg peer session ?prev) (in_agents s)\<rparr>"
  let ?s2 = "case ?prev of Some e \<Rightarrow> try_send (ae_sender e) (Status ''session superseded by a newer registration'') ?s1 | None \<Rightarrow> ?s1"
  let ?s3 = "case snd (reserve_after reg ?prev) of
      FTerminate rid \<Rightarrow> terminate_participation sv ck ?aid rid ?s2
    | FReplay rid \<Rightarrow> replay_assignment_if_pending ?aid rid ?s2 | FNone \<Rightarrow> ?s2"
  have "evolves s ?s1" by (rule evolves_new_entry [OF assms])
  also have "evolves ?s1 ?s2" by (simp add: evolves_try_send split: option.split)
  also have "evolves ?s2 ?s3" by (simp split: followup.split)
  finally have s3: "evolves s ?s3" .
  have "evolves ?s3 (resume_run ?aid (rg_resume_run_id reg) ?s3)" by simp
  with s3 show ?thesis by (auto simp: register_agent_def Let_def intro: evolves_trans)
qed

lemma evolves_session_slot:
  assumes "in_session_counter s \<le> n" "\<not> is_start m"
  shows "evolves s (s\<lparr>in_session_counter := n,
     in_downlinks := AList.update n \<lparr>dl_queue = [Down m], dl_open = True\<rparr> (in_downlinks s)\<rparr>)"
    (is "evolves s ?s'")
proof -
  have c: "live_member ?s' = live_member s" "started_at ?s' = started_at s"
    by (rule live_member_cong, simp, rule started_at_cong, simp)
  have i: "item_ok ?s' = item_ok s" by (intro ext) (simp add: item_ok_def c)
  have "base_inv ?s'" if b: "base_inv s"
  proof (rule base_invI)
    show "wf_map (in_agents ?s')" "wf_map (in_runs ?s')" "wf_map (in_downlinks ?s')" using base_invD(1-3) [OF b] by simp_all
    show "run_ok r \<and> cr_run_id r = rid" if "map_of (in_runs ?s') rid = Some r" for rid r
      using that base_invD(4,5) [OF b] by simp
    show "link_ok ?s' d" if "map_of (in_downlinks ?s') ch = Some d" for ch d
      using that base_invD(7) [OF b, of ch d] assms(2) by (auto simp: link_ok_def i DOWNLINK_CAP_def split: if_splits)
    show "entry_ok ?s' aid e" if "map_of (in_agents ?s') aid = Some e" for aid e
      using that base_invD(6) [OF b, of aid e] assms(1) by (auto simp: entry_ok_def c)
  qed
  then show ?thesis by (simp add: evolves_def same_runs_keeps)
qed

lemma evolves_open_session [simp]: "evolves s (snd (open_session sv ck first peer s))"
  by (auto simp: open_session_def Let_def split: agent_payload.split
      intro!: evolves_trans [OF evolves_session_slot evolves_register, of s "Suc (in_session_counter s)"])

lemma evolves_disconnect [simp]: "evolves s (mark_disconnected aid session s)"
  by (auto simp: mark_disconnected_def intro!: evolves_upd_agent split: if_splits)

section \<open>Uplink messages\<close>

lemma evolves_admit [simp]: "evolves s (snd (admit_msg ck aid session seq s))"
proof (cases "map_of (in_agents s) aid")
  case (Some e)
  let ?alive = "upd_agent aid (\<lambda>e. e\<lparr>ae_last_heartbeat := ck_now ck\<rparr>) s"
  have a: "evolves s ?alive" "evolves ?alive (upd_agent aid (\<lambda>e. e\<lparr>ae_last_seq := seq\<rparr>) ?alive)"
    by (simp_all add: evolves_upd_agent)
  then have b: "evolves s (upd_agent aid (\<lambda>e. e\<lparr>ae_last_seq := seq\<rparr>) ?alive)" by (rule evolves_trans)
  show ?thesis using a(1) evolves_trans [OF a(1) evolves_ack] evolves_trans [OF b evolves_ack]
    by (simp add: admit_msg_def Some Let_def)
qed (simp add: admit_msg_def)

lemma evolves_metrics [simp]: "evolves s (handle_metrics sv aid rid delta_json s)"
  by (auto simp: handle_metrics_def Let_def intro!: evolves_upd_run quiet_apply_delta split: option.split)

lemma evolves_control_ack [simp]: "evolves s (handle_control_ack aid ack s)"
  by (auto simp: handle_control_ack_def intro!: evolves_upd_run quiet_note_ack)

lemma position_mem: "position x xs = Some i \<Longrightarrow> x \<in> set xs"
proof -
  assume "position x xs = Some i"
  then have "length (takeWhile (\<lambda>y. y \<noteq> x) xs) < length xs" by (auto simp: position_def Let_def split: if_splits)
  then have "takeWhile (\<lambda>y. y \<noteq> x) xs \<noteq> xs" by (metis less_irrefl)
  then show ?thesis by (auto simp: takeWhile_eq_all_conv)
qed

lemma evolves_assignment_ready [simp]: "evolves s (handle_assignment_ready aid rid index s)"
proof (cases "map_of (in_runs s) rid")
  case (Some run)
  then show ?thesis
    by (auto simp: handle_assignment_ready_def dest: position_mem intro!: evolves_upd_run quiet_ready)
qed (simp add: handle_assignment_ready_def)

lemma evolves_run_event [simp]: "evolves s (handle_run_event sv ck aid ev s)"
proof -
  have "evolves s (check_completion sv ck (ev_run_id ev) (upd_run (ev_run_id ev) (agent_done sv aid ev) s))"
    by (rule evolves_trans [OF evolves_upd_run evolves_completion]) (rule quiet_agent_done)
  then show ?thesis
    by (auto simp: handle_run_event_def Let_def intro!: evolves_upd_run quiet_started evolves_prep_failure)
qed

lemma evolves_apply [simp]: "evolves s (apply_agent_message sv ck aid msg s)"
  by (cases msg) (simp_all add: evolves_upd_agent)

lemma evolves_handle: "evolves s (snd (handle_agent_message sv ck aid session msg s))"
proof -
  obtain a s' where a: "admit_msg ck aid session (fst msg) s = (a, s')" by (metis surj_pair)
  then have "evolves s s'" using evolves_admit [of s ck aid session "fst msg"] by simp
  then show ?thesis
    using evolves_trans [OF _ evolves_apply, of s s'] by (cases a) (simp_all add: handle_agent_message_def a)
qed

lemma evolves_pump [simp]: "evolves s (pump sv ck aid session msg s)"
proof -
  obtain ok s' where h: "handle_agent_message sv ck aid session msg s = (ok, s')" by (metis surj_pair)
  then have "evolves s s'" using evolves_handle [of s sv ck aid session msg] by simp
  then show ?thesis using evolves_trans [OF _ evolves_disconnect, of s s'] by (cases ok) (simp_all add: pump_def h)
qed

end
