(* ===== verification/Controller_Safety.thy ===== *)
theory Controller_Safety
  imports Controller_Inv
begin

text \<open>
  Every event keeps the controller's invariant, and what follows for the states a controller can
  reach: reservations never leak, a terminal run is frozen, a start means that everyone was ready.
\<close>

section \<open>Steps of tasks\<close>

definition run_adv :: "'h ctrl_run \<Rightarrow> 'h ctrl_run \<Rightarrow> bool" where
  "run_adv r r' \<longleftrightarrow>
     cr_run_id r' = cr_run_id r \<and> cr_assigned r' = cr_assigned r \<and>
     (\<forall>t. cr_start_unix_ms r = Some t \<longrightarrow> cr_start_unix_ms r' = Some t) \<and>
     (is_terminal (cr_state r) \<longrightarrow> frozen r' = frozen r \<and> cr_start_unix_ms r' = cr_start_unix_ms r) \<and>
     (cr_state r \<noteq> Pending \<longrightarrow> cr_state r' \<noteq> Pending)"

definition adv :: "'h inner \<Rightarrow> 'h inner \<Rightarrow> bool" where
  "adv s s' \<longleftrightarrow>
     (\<forall>rid run. map_of (in_runs s) rid = Some run \<longrightarrow> (\<exists>run'. map_of (in_runs s') rid = Some run' \<and> run_adv run run'))"

lemma keeps_adv: "keeps s s' \<Longrightarrow> adv s s'"
  unfolding adv_def by (auto simp: run_adv_def run_keeps_def elim!: keepsD)

lemma adv_cong: "in_runs s'' = in_runs s' \<Longrightarrow> adv s s' \<Longrightarrow> adv s s''"
  by (simp add: adv_def)

lemma base_inv_cong:
  assumes "in_agents s' = in_agents s" "in_runs s' = in_runs s" "in_downlinks s' = in_downlinks s"
    "in_session_counter s' = in_session_counter s" "base_inv s"
  shows "base_inv s'"
proof -
  have c: "live_member s' = live_member s" "started_at s' = started_at s"
    using assms(2) by (rule live_member_cong, rule started_at_cong)
  have i: "item_ok s' = item_ok s" by (intro ext) (simp add: item_ok_def c)
  show ?thesis using assms unfolding base_inv_def entry_ok_def link_ok_def c i by simp
qed

lemma task_ok_cong: "in_runs s' = in_runs s \<Longrightarrow> task_ok s' t = task_ok s t"
  by (cases t) (simp_all add: not_started_def started_at_def)

lemma distinct_replace:
  assumes "distinct (concat (map f xs))" "i < length xs" "set ys \<subseteq> set (f (xs ! i))" "distinct ys" "concat (map f ts) = ys"
  shows "distinct (concat (map f (take i xs @ ts @ drop (i + 1) xs)))"
proof -
  have "concat (map f xs) = concat (map f (take i xs)) @ f (xs ! i) @ concat (map f (drop (i + 1) xs))"
    using assms(2) by (subst id_take_nth_drop [of i xs]) simp_all
  then show ?thesis using assms(1,3,4,5) by auto
qed

text \<open>Replacing a task by its continuation, after a change that keeps the runs.\<close>

lemma replace_task:
  assumes "ctl_inv s" "i < length (in_tasks s)" "evolves s s'" "list_all (task_ok s') ts"
    "concat (map may_start ts) = may_start (in_tasks s ! i) \<or> concat (map may_start ts) = []"
  shows "ctl_inv (s'\<lparr>in_tasks := take i (in_tasks s) @ ts @ drop (i + 1) (in_tasks s)\<rparr>) \<and>
    adv s (s'\<lparr>in_tasks := take i (in_tasks s) @ ts @ drop (i + 1) (in_tasks s)\<rparr>)"
    (is "ctl_inv ?n \<and> adv s ?n")
proof
  have inv: "ctl_inv s'" "keeps s s'" using evolves_inv [OF assms(3,1)] by simp_all
  have ok: "list_all (task_ok s') (in_tasks s)" using inv by (simp add: ctl_inv_def keeps_def)
  then have "list_all (task_ok s') (take i (in_tasks s) @ ts @ drop (i + 1) (in_tasks s))"
    using assms(4) by (auto simp: list_all_iff dest: in_set_takeD in_set_dropD)
  moreover have "distinct (concat (map may_start (take i (in_tasks s) @ ts @ drop (i + 1) (in_tasks s))))"
  proof (rule distinct_replace [OF _ assms(2) _ _ refl])
    show "distinct (concat (map may_start (in_tasks s)))" using assms(1) by (simp add: ctl_inv_def)
    have "distinct (may_start t)" for t by (cases t) auto
    then show "distinct (concat (map may_start ts))" using assms(5) by (metis distinct.simps(1))
    show "set (concat (map may_start ts)) \<subseteq> set (may_start (in_tasks s ! i))"
      using assms(5) by (metis empty_subsetI list.set(1) order_refl)
  qed
  moreover have "base_inv ?n" using inv(1) by (intro base_inv_cong [of ?n s']) (simp_all add: ctl_inv_def)
  moreover have "task_ok ?n = task_ok s'" by (rule ext) (rule task_ok_cong, simp)
  ultimately show "ctl_inv ?n" by (simp add: ctl_inv_def del: list_all_append concat_append map_append)
  show "adv s ?n" by (rule adv_cong [OF _ keeps_adv [OF inv(2)]]) simp
qed

lemma send_poll_evolves: "send_poll ch (Down m) s = Some (b, s') \<Longrightarrow> item_ok s (Down m) \<Longrightarrow> evolves s s'"
  by (auto simp: send_poll_def evolves_try_send split: option.splits if_splits)

lemma set_run_eq: "map_of (in_runs s) rid = Some run \<Longrightarrow> set_run rid (f run) s = upd_run rid f s"
  by (simp add: set_run_def upd_run_def)

lemma evolves_results: "evolves s s' \<Longrightarrow> evolves s (s'\<lparr>in_results := x\<rparr>)"
  using base_inv_cong [of "s'\<lparr>in_results := x\<rparr>" s'] by (auto simp: evolves_def keeps_def)

lemma evolves_counter: "evolves s (s\<lparr>in_control_counter := n\<rparr>)"
  using base_inv_cong [of "s\<lparr>in_control_counter := n\<rparr>" s] by (auto simp: evolves_def same_runs_keeps)

lemma evolves_sweep_run:
  assumes "sweep_run sv ck lost rid s = (out, s')"
  shows "evolves s s' \<and> (\<forall>sends. out = Some sends \<longrightarrow> plain sends)"
proof (cases "map_of (in_runs s) rid")
  case (Some run)
  let ?newly = "newly_lost lost run"
  let ?s1 = "upd_run rid (mark_lost ?newly) s"
  let ?reason = "''agent(s) lost during preparation: '' @ join '', '' ?newly"
  let ?s2 = "upd_run rid (set_abort_reason (''agent(s) lost: '' @ join '', '' ?newly)) ?s1"
  have s1: "evolves s ?s1" by (rule evolves_upd_run) (rule quiet_mark_lost)
  have f: "evolves s (snd (record_prep_failure rid ?reason Failed ?s1))"
    by (rule evolves_trans [OF s1 evolves_prep_failure]) simp
  have c: "evolves s (check_completion sv ck rid ?s1)" by (rule evolves_trans [OF s1]) simp
  have a: "evolves s ?s2" by (rule evolves_trans [OF s1 evolves_upd_run]) (rule quiet_abort_reason)
  show ?thesis using assms f c a stops_plain
    by (auto simp: sweep_run_def Some Let_def split: if_splits prod.splits bool.splits on_agent_loss.splits option.splits)
qed (use assms in \<open>auto simp: sweep_run_def\<close>)

lemma barrier_failure_bad:
  assumes "run_ok run" "barrier_decision ck b d run = FailRun reason v" shows "bad_end v"
  using assms by (auto simp: barrier_decision_def run_ok_def split: if_splits option.splits)

lemma barrier_not_started:
  assumes "base_inv s" "barrier_step ck rid b d s = (ts, s')" "not_started s rid" "map_of (in_runs s) rid = Some run"
    "\<And>t. barrier_decision ck b d run \<noteq> Started t"
  shows "evolves s s' \<and> list_all (task_ok s') ts \<and> (concat (map may_start ts) = [rid] \<or> concat (map may_start ts) = [])"
proof (cases "barrier_decision ck b d run")
  case (FailRun reason v)
  then have "s' = upd_run rid (set_abort_reason reason) s" "ts = [TFail rid (stops_for (set_abort_reason reason run) s) v]"
    using assms(2,4) by (simp_all add: barrier_step_def set_run_eq [OF assms(4), of "set_abort_reason reason"])
  then show ?thesis
    using stops_plain barrier_failure_bad [OF base_invD(4) [OF assms(1,4)] FailRun]
    by (auto intro!: evolves_upd_run quiet_abort_reason)
qed (use assms in \<open>auto simp: barrier_step_def\<close>)

lemma commit_ok:
  assumes "run_ok run" "cr_start_unix_ms run = None" "barrier_decision ck b d run = Started t"
  shows "run_ok (commit_start ck b run)" "run_adv run (commit_start ck b run)"
    "cr_start_unix_ms (commit_start ck b run) = Some t" "\<not> is_terminal (cr_state (commit_start ck b run))"
    "\<not> is_terminal (cr_state run)"
proof -
  have *: "\<not> is_terminal (cr_state run)" "cr_failure run = None" "all_ready run" "t = int (ck_unix_ms ck) + int (b div 1000000)"
    using assms(3) by (auto simp: barrier_decision_def split: if_splits option.splits)
  show "\<not> is_terminal (cr_state run)" by (rule *(1))
  have "cr_merged_summary run = None" using assms(1) *(1) by (auto simp: run_ok_def)
  then show "run_ok (commit_start ck b run)" using assms(1) * by (simp add: run_ok_def finish_ok_def commit_start_def all_ready_def)
  show "run_adv run (commit_start ck b run)" using *(1) assms(2) by (simp add: run_adv_def commit_start_def)
  show "cr_start_unix_ms (commit_start ck b run) = Some t" using *(4) by (simp add: commit_start_def)
  show "\<not> is_terminal (cr_state (commit_start ck b run))" by (simp add: commit_start_def)
qed

lemma distinct_concat_other:
  assumes "distinct (concat (map f xs))" "i < length xs" "x \<in> set (f (xs ! i))" "y \<in> set (take i xs @ drop (i + 1) xs)"
  shows "x \<notin> set (f y)"
proof -
  have "concat (map f xs) = concat (map f (take i xs)) @ f (xs ! i) @ concat (map f (drop (i + 1) xs))"
    using assms(2) by (subst id_take_nth_drop [of i xs]) simp_all
  then show ?thesis using assms(1,3,4) by auto
qed

text \<open>The commit of a start: the only step that changes when a run starts.\<close>

lemma commit_step:
  assumes inv: "ctl_inv s" and i: "i < length (in_tasks s)" "in_tasks s ! i = TBarrier rid b d"
    and run: "map_of (in_runs s) rid = Some run" and dec: "barrier_decision ck b d run = Started t"
  defines "s' \<equiv> set_run rid (commit_start ck b run) s"
    and "ts \<equiv> [TStart rid (map (\<lambda>(_, ch). (ch, Start rid t)) (run_senders (commit_start ck b run) s))]"
  shows "ctl_inv (s'\<lparr>in_tasks := take i (in_tasks s) @ ts @ drop (i + 1) (in_tasks s)\<rparr>) \<and>
    adv s (s'\<lparr>in_tasks := take i (in_tasks s) @ ts @ drop (i + 1) (in_tasks s)\<rparr>)"
proof -
  define n where "n = s'\<lparr>in_tasks := take i (in_tasks s) @ ts @ drop (i + 1) (in_tasks s)\<rparr>"
  let ?run = "commit_start ck b run"
  have b: "base_inv s" and tasks: "list_all (task_ok s) (in_tasks s)" and dist: "distinct (concat (map may_start (in_tasks s)))"
    using inv by (simp_all add: ctl_inv_def)
  have "task_ok s (TBarrier rid b d)" using tasks i by (metis list_all_length)
  then have none: "cr_start_unix_ms run = None" using run by (simp add: not_started_def)
  note c = commit_ok [OF base_invD(4) [OF b run] none dec]
  have runs: "in_runs n = AList.update rid ?run (in_runs s)" "in_agents n = in_agents s" "in_downlinks n = in_downlinks s"
    "in_session_counter n = in_session_counter s" by (simp_all add: n_def s'_def set_run_def)
  have assigned: "cr_assigned ?run = cr_assigned run" "cr_run_id ?run = cr_run_id run" using c(2) by (simp_all add: run_adv_def)
  have live: "live_member n r a" if "live_member s r a" for r a
    using that c(4) assigned run by (auto simp: live_member_def runs)
  have started: "started_at n r u" if "started_at s r u" for r u
    using that none run by (auto simp: started_at_def runs)
  have "base_inv n"
  proof (rule base_invI)
    show "wf_map (in_agents n)" "wf_map (in_runs n)" "wf_map (in_downlinks n)"
      unfolding runs using base_invD(1-3) [OF b] by simp_all
    show "run_ok r \<and> cr_run_id r = rid'" if "map_of (in_runs n) rid' = Some r" for rid' r
      using that base_invD(4,5) [OF b, of rid' r] base_invD(5) [OF b run] c(1) assigned unfolding runs by (auto split: if_splits)
    show "entry_ok n aid e" if "map_of (in_agents n) aid = Some e" for aid e
      using that base_invD(6) [OF b, of aid e] live unfolding entry_ok_def runs by blast
    show "link_ok n l" if "map_of (in_downlinks n) ch = Some l" for ch l
      using that base_invD(7) [OF b, of ch l] started unfolding link_ok_def item_ok_def runs list_all_iff by blast
  qed
  moreover have "list_all (task_ok n) (take i (in_tasks s) @ drop (i + 1) (in_tasks s))"
    unfolding list_all_iff
  proof
    fix y assume y: "y \<in> set (take i (in_tasks s) @ drop (i + 1) (in_tasks s))"
    have other: "rid \<notin> set (may_start y)" using distinct_concat_other [OF dist i(1) _ y, of rid] i(2) by simp
    have "not_started n r" if "not_started s r" "r \<noteq> rid" for r using that by (simp add: not_started_def runs)
    moreover have "task_ok s y" using tasks y by (auto simp: list_all_iff dest: in_set_takeD in_set_dropD)
    ultimately show "task_ok n y" using other started by (cases y) (auto simp: list_all_iff)
  qed
  moreover have "list_all (task_ok n) ts"
    using c(3) by (auto simp: ts_def list_all_iff started_at_def runs)
  moreover have "distinct (concat (map may_start (take i (in_tasks s) @ ts @ drop (i + 1) (in_tasks s))))"
    using distinct_replace [OF dist i(1), of "[]" ts] by (simp add: ts_def)
  moreover have "in_tasks n = take i (in_tasks s) @ ts @ drop (i + 1) (in_tasks s)" by (simp add: n_def)
  ultimately have "ctl_inv n" by (simp add: ctl_inv_def)
  moreover have "adv s n" unfolding adv_def runs
  proof (intro allI impI)
    fix r x assume "map_of (in_runs s) r = Some x"
    then show "\<exists>x'. map_of (AList.update rid ?run (in_runs s)) r = Some x' \<and> run_adv x x'"
      using c(2) run by (cases "r = rid") (auto simp: run_adv_def)
  qed
  ultimately show ?thesis by (simp add: n_def)
qed

lemma send_task:
  assumes "base_inv s" "item_ok s (Down m)" "task_ok s t0" "task_ok s t"
    and "(case send_poll ch (Down m) s of None \<Rightarrow> ([t0], s) | Some (_, s1) \<Rightarrow> ([t], s1)) = (ts, s')"
  shows "evolves s s' \<and> (ts = [t0] \<or> ts = [t]) \<and> list_all (task_ok s') ts"
proof (cases "send_poll ch (Down m) s")
  case (Some x)
  then have "send_poll ch (Down m) s = Some (fst x, s')" "ts = [t]" using assms(5) by (auto split: prod.splits)
  moreover from this have "evolves s s'" using send_poll_evolves assms(2) by blast
  moreover from this have "task_ok s' t" using assms(1,4) keeps_task_ok unfolding evolves_def by blast
  ultimately show ?thesis by simp
qed (use assms in auto)

lemma control_step:
  assumes "base_inv s" "send_poll ch (Down m) s = Some (b, s')" "\<not> is_start m" "task_ok s t"
  shows "evolves s (if b then s' else upd_run rid (undeliverable aid cmd) s')"
    "task_ok (if b then s' else upd_run rid (undeliverable aid cmd) s') t"
proof -
  have e: "evolves s s'" by (rule send_poll_evolves [OF assms(2)]) (simp add: assms(3))
  have "evolves s' (upd_run rid (undeliverable aid cmd) s')" by (rule evolves_upd_run) (rule quiet_undeliverable)
  then show ev: "evolves s (if b then s' else upd_run rid (undeliverable aid cmd) s')" using e evolves_trans by auto
  then show "task_ok (if b then s' else upd_run rid (undeliverable aid cmd) s') t"
    using assms(1,4) keeps_task_ok unfolding evolves_def by blast
qed

lemma evolves_finish_control:
  assumes "map_of (in_runs s) rid = Some run" "quiet (\<lambda>r. snd (f r)) run"
  shows "evolves s (finish_control rid cmd (f run) s)"
  unfolding finish_control_def set_run_eq [OF assms(1), of "\<lambda>r. snd (f r)"]
  by (intro evolves_results evolves_upd_run) (use assms in simp)

lemma task_evolves:
  assumes "base_inv s" "task_ok s t" "task_step sv ck t s = (ts, s')" "\<And>rid b d. t \<noteq> TBarrier rid b d"
  shows "evolves s s' \<and> list_all (task_ok s') ts \<and> (concat (map may_start ts) = may_start t \<or> concat (map may_start ts) = [])"
proof (cases "(sv, ck, t, s)" rule: task_step.cases)
  case (2 sv' ck' rid ch m sends b p s'')
  then show ?thesis
    using send_task [OF assms(1) _ assms(2), of m "TAssign rid sends b p" ch ts s'] assms(2,3) by (auto simp: plain_def)
next
  case (5 sv' ck' rid ch m sends s'')
  then obtain u where "m = Start rid u" "started_at s rid u" using assms(2) by auto
  then show ?thesis
    using 5 send_task [OF assms(1) _ assms(2), of m "TStart rid sends" ch ts s'] assms(2,3) by (auto simp: item_ok_def)
next
  case (6 sv' ck' rid v s'')
  then show ?thesis using assms(2,3) by (auto simp: evolves_finalize)
next
  case (7 sv' ck' rid ch m sends v s'')
  then show ?thesis
    using send_task [OF assms(1) _ assms(2), of m "TFail rid sends v" ch ts s'] assms(2,3) by (auto simp: plain_def)
next
  case (8 sv' ck' rid s'')
  then show ?thesis using assms(3)
    by (auto simp: set_run_eq Let_def intro!: evolves_upd_run quiet_publish split: option.splits if_splits)
next
  case (10 sv' ck' lost rid rids s'')
  obtain out s2 where o: "sweep_run sv ck lost rid s = (out, s2)" by (metis surj_pair)
  show ?thesis using o 10 assms(3) evolves_sweep_run [OF o] by (cases out) auto
next
  case (11 sv' ck' rid lost rids s'')
  then show ?thesis using assms(3) by (auto simp: evolves_finalize)
next
  case (12 sv' ck' rid ch m sends lost rids s'')
  then show ?thesis
    using send_task [OF assms(1) _ assms(2), of m "TSweepStop rid sends lost rids" ch ts s'] assms(2,3) by (auto simp: plain_def)
next
  case (14 sv' ck' rid cmd action scenario aid ch m sends s'')
  show ?thesis
  proof (cases "send_poll ch (Down m) s")
    case (Some x)
    obtain ok s2 where x: "x = (ok, s2)" by (cases x)
    have "\<not> is_start m" "task_ok s (TControl rid cmd action scenario sends)" using 14 assms(2) by (auto simp: plain_def)
    from control_step [OF assms(1) Some [unfolded x] this, of rid aid cmd] show ?thesis
      using Some x 14 assms(3) by (cases ok) auto
  qed (use 14 assms in auto)
next
  case (15 sv' ck' rid cmd action d s'')
  then show ?thesis using assms(3)
    by (auto intro: evolves_finish_control quiet_conclude quiet_expire split: option.splits if_splits)
qed (use assms in auto)

lemma task_step_inv:
  assumes "ctl_inv s" "i < length (in_tasks s)" "task_step sv ck (in_tasks s ! i) s = (ts, s')"
  shows "ctl_inv (s'\<lparr>in_tasks := take i (in_tasks s) @ ts @ drop (i + 1) (in_tasks s)\<rparr>) \<and>
    adv s (s'\<lparr>in_tasks := take i (in_tasks s) @ ts @ drop (i + 1) (in_tasks s)\<rparr>)"
proof -
  have b: "base_inv s" "task_ok s (in_tasks s ! i)" using assms(1,2) by (auto simp: ctl_inv_def list_all_length)
  show ?thesis
  proof (cases "\<exists>rid x d. in_tasks s ! i = TBarrier rid x d")
    case True
    then obtain rid x d where t: "in_tasks s ! i = TBarrier rid x d" by blast
    then obtain run where run: "map_of (in_runs s) rid = Some run" and ns: "not_started s rid"
      using b(2) by (auto simp: not_started_def)
    have step: "barrier_step ck rid x d s = (ts, s')" using assms(3) t by simp
    show ?thesis
    proof (cases "\<exists>u. barrier_decision ck x d run = Started u")
      case True
      then obtain u where u: "barrier_decision ck x d run = Started u" by blast
      then have "ts = [TStart rid (map (\<lambda>(_, ch). (ch, Start rid u)) (run_senders (commit_start ck x run) s))]"
        "s' = set_run rid (commit_start ck x run) s"
        using step run by (simp_all add: barrier_step_def Let_def)
      then show ?thesis using commit_step [OF assms(1,2) t run u] by simp
    next
      case False
      then show ?thesis using barrier_not_started [OF b(1) step ns run] t
        by (intro replace_task [OF assms(1,2)]) auto
    qed
  next
    case False
    then show ?thesis using task_evolves [OF b assms(3)] by (intro replace_task [OF assms(1,2)]) auto
  qed
qed

section \<open>Submissions\<close>

lemma reserve_shape:
  assumes "reserve_agents ck flt rid s = (Inr sel, s')" "F = (\<lambda>e. eligible ck (in_liveness s) flt e \<and> ae_active_run e = None)"
  shows "sel = map (\<lambda>(aid, e). (aid, ae_sender e)) (filter (\<lambda>(aid, e). F e) (in_agents s))"
    "s' = s\<lparr>in_agents := map (\<lambda>(aid, e). (aid, if F e then e\<lparr>ae_active_run := Some rid\<rparr> else e)) (in_agents s)\<rparr>"
  using assms by (simp_all add: reserve_agents_def Let_def split: if_splits)

lemma reserve_fails: "reserve_agents ck flt rid s = (Inl e, s') \<Longrightarrow> s' = s"
  by (auto simp: reserve_agents_def Let_def split: if_splits)

lemma run_ok_new:
  assumes "distinct assigned"
  shows "run_ok (new_run ck rid plan_yaml opts plan thresholds assigned)"
  using assms by (simp add: run_ok_def finish_ok_def new_run_def wf_map_def comp_def image_image)

lemma distinct_selected: "wf_map m \<Longrightarrow> distinct (map fst (sort_key fst (map (\<lambda>(k, v). (k, f v)) (filter P m))))"
proof -
  assume "wf_map m"
  then have "distinct (map fst (filter P m))" by (simp add: wf_map_def distinct_map_filter)
  moreover have "map fst (map (\<lambda>(k, v). (k, f v)) (filter P m)) = map fst (filter P m)" by (simp add: split_def)
  moreover have "mset (map fst (sort_key fst xs)) = mset (map fst xs)" for xs :: "('a \<times> 'c) list" by simp
  ultimately show ?thesis by (metis mset_eq_imp_distinct_iff)
qed

text \<open>Inserting a run under a new identifier, with the agents it reserves.\<close>

lemma insert_run:
  assumes "ctl_inv s" "\<not> contains_key (in_runs s) rid" "reserve_agents ck flt rid s = (Inr sel, s')"
    "run_ok run" "cr_run_id run = rid" "cr_state run = Pending" "set (cr_assigned run) = fst ` set sel" "cr_start_unix_ms run = None"
    "plain sends"
    and n_def: "n = s'\<lparr>in_runs := AList.update rid run (in_runs s'), in_tasks := in_tasks s' @ [TAssign rid sends b p]\<rparr>"
  shows "ctl_inv n \<and> adv s n"
proof -
  define F where "F = (\<lambda>e. eligible ck (in_liveness s) flt e \<and> ae_active_run e = None)"
  note sel = reserve_shape(1) [OF assms(3) F_def]
  note s' = reserve_shape(2) [OF assms(3) F_def]
  have b: "base_inv s" and tasks: "list_all (task_ok s) (in_tasks s)" and dist: "distinct (concat (map may_start (in_tasks s)))"
    using assms(1) by (simp_all add: ctl_inv_def)
  have new: "map_of (in_runs s) rid = None" using assms(2) by (simp add: contains_key_def)
  have fields: "in_runs n = AList.update rid run (in_runs s)" "in_downlinks n = in_downlinks s"
    "in_session_counter n = in_session_counter s" "in_tasks n = in_tasks s @ [TAssign rid sends b p]"
    "in_agents n = map (\<lambda>(aid, e). (aid, if F e then e\<lparr>ae_active_run := Some rid\<rparr> else e)) (in_agents s)"
    by (simp_all add: n_def s')
  have old: "map_of (in_runs n) r = map_of (in_runs s) r" if "r \<noteq> rid" for r using that by (simp add: fields)
  have live: "live_member n r a" if "live_member s r a" for r a
    using that new by (auto simp: live_member_def fields)
  have started: "started_at n r u" if "started_at s r u" for r u
    using that new by (auto simp: started_at_def fields)
  have unstarted: "not_started n r" if "not_started s r" for r
    using that new by (auto simp: not_started_def fields)
  have "base_inv n"
  proof (rule base_invI)
    show "wf_map (in_agents n)" "wf_map (in_runs n)" "wf_map (in_downlinks n)"
      unfolding fields using base_invD(1-3) [OF b] by (simp_all add: wf_map_map_snd)
    show "run_ok r \<and> cr_run_id r = rid'" if "map_of (in_runs n) rid' = Some r" for rid' r
      using that base_invD(4,5) [OF b, of rid' r] assms(4,5) unfolding fields by (auto split: if_splits)
    show "link_ok n l" if "map_of (in_downlinks n) ch = Some l" for ch l
      using that base_invD(7) [OF b, of ch l] started unfolding link_ok_def item_ok_def fields list_all_iff by blast
    fix aid e assume "map_of (in_agents n) aid = Some e"
    then obtain e0 where e0: "map_of (in_agents s) aid = Some e0" "e = (if F e0 then e0\<lparr>ae_active_run := Some rid\<rparr> else e0)"
      by (auto simp: fields map_of_map)
    have "aid \<in> set (cr_assigned run)" if "F e0"
      using that map_of_SomeD [OF e0(1)] assms(7) by (force simp: sel)
    then have "live_member n rid aid" if "F e0" using that assms(6) by (simp add: live_member_def fields)
    then show "entry_ok n aid e"
      using base_invD(6) [OF b e0(1)] e0(2) live by (auto simp: entry_ok_def fields)
  qed
  moreover have "list_all (task_ok n) (in_tasks n)"
  proof -
    have "task_ok n t" if "task_ok s t" for t using that started unstarted by (cases t) (auto simp: list_all_iff)
    then show ?thesis using tasks assms(8,9) by (auto simp: fields(4) list_all_iff not_started_def fields(1))
  qed
  moreover have "rid \<notin> set (may_start t)" if "t \<in> set (in_tasks s)" for t
  proof -
    have "task_ok s t" using that tasks by (simp add: list_all_iff)
    then show ?thesis by (cases t) (auto simp: not_started_def new)
  qed
  then have "distinct (concat (map may_start (in_tasks n)))" using dist by (auto simp: fields)
  ultimately have "ctl_inv n" by (simp add: ctl_inv_def)
  moreover have "adv s n" unfolding adv_def
  proof (intro allI impI)
    fix r x assume r: "map_of (in_runs s) r = Some x"
    then have "r \<noteq> rid" using new by auto
    then show "\<exists>x'. map_of (in_runs n) r = Some x' \<and> run_adv x x'" using r old by (simp add: run_adv_def)
  qed
  ultimately show ?thesis ..
qed

lemma adv_refl: "adv s s"
  by (auto simp: adv_def run_adv_def)

lemma submit_inv:
  assumes "ctl_inv s" "\<not> contains_key (in_runs s) rid"
  shows "ctl_inv (snd (submit sv ck rid plan_yaml opts loaded s)) \<and> adv s (snd (submit sv ck rid plan_yaml opts loaded s))"
proof (cases "snd (submit sv ck rid plan_yaml opts loaded s) = s")
  case False
  then obtain plan thresholds sel s' where
    r: "reserve_agents ck (so_agent_filter opts) rid s = (Inr sel, s')" and
    sub: "snd (submit sv ck rid plan_yaml opts loaded s) =
      (let selected = sort_key fst sel;
           run = new_run ck rid plan_yaml opts plan thresholds (map fst selected);
           sends = map (\<lambda>(i, _, ch). (ch, assignment_for run i)) (enumerate 0 selected)
       in s'\<lparr>in_runs := AList.update rid run (in_runs s'),
             in_tasks := in_tasks s' @ [TAssign rid sends (so_start_barrier opts) (so_preparation_timeout opts)]\<rparr>)"
    by (auto simp: submit_def Let_def dest: reserve_fails split: sum.splits option.splits prod.splits)
  have "wf_map (in_agents s)" using assms(1) by (auto simp: ctl_inv_def dest: base_invD)
  then have d: "distinct (map fst (sort_key fst sel))" unfolding reserve_shape(1) [OF r refl] by (rule distinct_selected)
  show ?thesis unfolding sub Let_def
    by (rule insert_run [OF assms r run_ok_new [OF d] _ _ _ _ _ refl]) (auto simp: new_run_def plain_def assignment_for_def list_all_iff)
qed (use assms in \<open>simp add: adv_refl\<close>)

section \<open>Every event\<close>

lemma add_task:
  assumes "ctl_inv s" "task_ok s t" "may_start t = []"
  shows "ctl_inv (s\<lparr>in_tasks := in_tasks s @ [t]\<rparr>)"
proof -
  let ?n = "s\<lparr>in_tasks := in_tasks s @ [t]\<rparr>"
  have "base_inv ?n" using assms(1) by (intro base_inv_cong [of ?n s]) (simp_all add: ctl_inv_def)
  moreover have "task_ok ?n = task_ok s" by (rule ext) (rule task_ok_cong, simp)
  ultimately show ?thesis using assms by (simp add: ctl_inv_def)
qed

lemma evolves_adv: "evolves s s' \<Longrightarrow> ctl_inv s \<Longrightarrow> ctl_inv s' \<and> adv s s'"
  using evolves_inv keeps_adv by blast

lemma evolves_downlink:
  assumes "map_of (in_downlinks s) ch = Some d" "set (dl_queue d') \<subseteq> set (dl_queue d)" "length (dl_queue d') \<le> length (dl_queue d)"
  shows "evolves s (s\<lparr>in_downlinks := AList.update ch d' (in_downlinks s)\<rparr>)"
proof -
  let ?n = "s\<lparr>in_downlinks := AList.update ch d' (in_downlinks s)\<rparr>"
  have c: "live_member ?n = live_member s" "started_at ?n = started_at s"
    by (rule live_member_cong, simp, rule started_at_cong, simp)
  have i: "item_ok ?n = item_ok s" by (intro ext) (simp add: item_ok_def c)
  have "base_inv ?n" if b: "base_inv s"
  proof (rule base_invI)
    show "link_ok ?n l" if "map_of (in_downlinks ?n) ch' = Some l" for ch' l
      using that base_invD(7) [OF b, of ch' l] base_invD(7) [OF b assms(1)] assms(2,3) unfolding link_ok_def i
      by (auto simp: list_all_iff split: if_splits)
    show "entry_ok ?n aid e" if "map_of (in_agents ?n) aid = Some e" for aid e
      using that base_invD(6) [OF b, of aid e] unfolding entry_ok_def c by simp
  qed (use base_invD [OF b] in auto)
  then show ?thesis by (simp add: evolves_def same_runs_keeps)
qed

lemma control_shape:
  assumes "control rid action scenario vus s = (out, s')"
  shows "evolves s s' \<and> (\<forall>t. out = Inr (Some t) \<longrightarrow> task_ok s' t \<and> may_start t = [])"
proof (cases "map_of (in_runs s) rid")
  case (Some run)
  have p: "evolves s (upd_run rid (\<lambda>r. r\<lparr>cr_pending_controls := f (cr_pending_controls r)\<rparr>) (s\<lparr>in_control_counter := c\<rparr>))" for f c
    by (rule evolves_trans [OF evolves_counter]) (rule evolves_upd_run, rule quiet_pending)
  have f: "evolves s (snd (record_prep_failure rid x Aborted s))" for x by (rule evolves_prep_failure) simp
  have c: "\<not> is_start (control_message rid action scenario v cmd)" for v cmd by (auto simp: control_message_def)
  show ?thesis using assms p f c
    by (auto simp: control_def Some Let_def plain_def list_all_iff split: if_splits)
qed (use assms in \<open>auto simp: control_def\<close>)

lemma evolves_view [simp]: "evolves s (snd (run_metrics_view sv ck rid s))"
proof (cases "map_of (in_runs s) rid")
  case (Some run)
  have "evolves s (set_run rid (run\<lparr>cr_prom_view := v\<rparr>) s)" for v
    unfolding set_run_eq [OF Some, of "\<lambda>r. r\<lparr>cr_prom_view := v\<rparr>"] by (rule evolves_upd_run) (rule quiet_prom_view)
  then show ?thesis by (simp add: run_metrics_view_def Some Let_def split: bool.split option.split)
qed (simp add: run_metrics_view_def)

theorem step_inv:
  assumes "ctl_inv s" "fresh_ids e s" shows "ctl_inv (ctl_step sv e s) \<and> adv s (ctl_step sv e s)"
proof (cases e)
  case (EDownRecv ch)
  show ?thesis
  proof (cases "map_of (in_downlinks s) ch")
    case (Some d)
    have "evolves s (s\<lparr>in_downlinks := AList.update ch (d\<lparr>dl_queue := tl (dl_queue d)\<rparr>) (in_downlinks s)\<rparr>)"
      by (rule evolves_downlink [OF Some]) (cases "dl_queue d", auto)
    then show ?thesis using EDownRecv Some evolves_adv [OF _ assms(1)] by simp
  qed (use EDownRecv assms(1) in \<open>simp add: adv_refl\<close>)
next
  case (EDownClosed ch)
  then show ?thesis using evolves_adv [OF evolves_downlink assms(1)] assms(1) by (auto simp: adv_refl split: option.split)
next
  case (ESubmit ck rid plan_yaml opts loaded)
  then show ?thesis using submit_inv [OF assms(1)] assms(2) by simp
next
  case (EControl rid action scenario vus)
  obtain out s' where c: "control rid action scenario vus s = (out, s')" by (metis surj_pair)
  have s': "ctl_inv s' \<and> adv s s'" using control_shape [OF c] evolves_adv [OF _ assms(1)] by blast
  show ?thesis
  proof (cases "\<exists>t. out = Inr (Some t)")
    case True
    then show ?thesis using EControl c s' control_shape [OF c] add_task adv_cong [of "s'\<lparr>in_tasks := _\<rparr>" s'] by auto
  next
    case False
    then show ?thesis using EControl c s' by (auto split: sum.split option.split)
  qed
next
  case (ESweep ck)
  then show ?thesis using assms(1) add_task [OF assms(1)] adv_cong [of _ s s] by (simp add: Let_def adv_refl)
next
  case (ETask ck i)
  then show ?thesis using task_step_inv [OF assms(1)] assms(1) by (auto simp: adv_refl split: prod.split)
next
  case EShutdown
  let ?n = "s\<lparr>in_tasks := filter (\<lambda>t. \<not> stops_at_shutdown t) (in_tasks s)\<rparr>"
  have "base_inv ?n" using assms(1) by (intro base_inv_cong [of ?n s]) (simp_all add: ctl_inv_def)
  moreover have "task_ok ?n = task_ok s" by (rule ext) (rule task_ok_cong, simp)
  moreover have "distinct (concat (map may_start xs)) \<Longrightarrow> distinct (concat (map may_start (filter P xs)))" for xs P
    by (induction xs) auto
  ultimately show ?thesis using EShutdown assms(1) adv_cong [of ?n s s] by (simp add: ctl_inv_def list_all_iff adv_refl)
qed (use evolves_adv [OF _ assms(1)] in auto)

theorem reachable_inv: "reachable sv cid liveness s \<Longrightarrow> ctl_inv s"
proof (induction rule: reachable.induct)
  case start
  show ?case by (simp add: ctl_inv_def base_inv_def controller_new_def)
next
  case (step s e)
  then show ?case using step_inv by blast
qed

end
