(* ===== verification/Fencing.thy ===== *)
theory Fencing
  imports Controller_Safety
begin

text \<open>
  Which events of the controller touch the identity of a registered agent (its process, session,
  sequence cursor and downlink) and the acknowledgements queued to a session: only the registration
  and the messages of that agent do.
\<close>

definition ident :: "agent_entry \<Rightarrow> string \<times> nat \<times> nat \<times> nat" where
  "ident e = (ae_incarnation e, ae_last_seq e, ae_session e, ae_sender e)"

definition fence :: "'h inner \<Rightarrow> string \<Rightarrow> (string \<times> nat \<times> nat \<times> nat) option" where
  "fence s aid = map_option ident (map_of (in_agents s) aid)"

fun is_ack :: "down_item \<Rightarrow> bool" where
  "is_ack (Down (UplinkAck _)) = True"
| "is_ack _ = False"

definition acks :: "'h inner \<Rightarrow> nat \<Rightarrow> down_item list" where
  "acks s ch = (case map_of (in_downlinks s) ch of None \<Rightarrow> [] | Some d \<Rightarrow> filter is_ack (dl_queue d))"

definition calm :: "'h inner \<Rightarrow> 'h inner \<Rightarrow> bool" where
  "calm s s' \<longleftrightarrow> fence s' = fence s \<and> acks s' = acks s \<and> in_session_counter s' = in_session_counter s"

lemma calm_refl [simp]: "calm s s"
  by (simp add: calm_def)

lemma calm_trans [trans]: "calm s s' \<Longrightarrow> calm s' s'' \<Longrightarrow> calm s s''"
  by (simp add: calm_def)

lemma calm_cong:
  "in_agents s' = in_agents s \<Longrightarrow> in_downlinks s' = in_downlinks s \<Longrightarrow> in_session_counter s' = in_session_counter s \<Longrightarrow> calm s s'"
  by (auto simp: calm_def fence_def acks_def fun_eq_iff)

lemma calm_upd_run [simp]: "calm s (upd_run rid f s)"
  by (rule calm_cong) (simp_all add: upd_run_def split: option.split)

lemma calm_set_run [simp]: "calm s (set_run rid run s)"
  by (rule calm_cong) (simp_all add: set_run_def)

lemma calm_upd_agent: "(\<And>e. ident (f e) = ident e) \<Longrightarrow> calm s (upd_agent aid f s)"
  by (auto simp: calm_def fence_def acks_def fun_eq_iff upd_agent_def split: option.split)

lemma calm_try_send: "\<not> is_ack it \<Longrightarrow> calm s (try_send ch it s)"
  by (auto simp: calm_def fence_def acks_def fun_eq_iff try_send_def split: option.split)

lemma calm_fold: "(\<And>x s. x \<in> set xs \<Longrightarrow> calm s (f x s)) \<Longrightarrow> calm s (fold f xs s)"
proof (induction xs arbitrary: s)
  case (Cons x xs)
  then show ?case using calm_trans by (metis fold_simps(2) list.set_intros)
qed simp

lemma calm_kill [simp]: "calm s (kill_agent_run aid rid s)"
  by (simp add: kill_agent_run_def control_message_def calm_try_send split: option.split)

lemma calm_send_assignment [simp]: "calm s (send_assignment run aid s)"
  by (simp add: send_assignment_def assignment_for_def calm_try_send split: option.split)

lemma stops_no_ack: "(ch, m) \<in> set (stops_for run s) \<Longrightarrow> \<not> is_ack (Down m)"
  by (auto simp: stops_for_def control_message_def)

lemma calm_broadcast_stop [simp]: "calm s (broadcast_stop rid s)"
  by (auto simp: broadcast_stop_def stops_no_ack intro!: calm_fold calm_try_send split: option.split)

lemma calm_release [simp]: "calm s (release_reservations run s)"
  unfolding release_reservations_def by (rule calm_fold, rule calm_upd_agent) (simp add: ident_def)

lemma calm_finalize [simp]: "calm s (finalize_run sv ck rid v s)"
proof (cases "map_of (in_runs s) rid")
  case (Some run)
  have "calm s (s\<lparr>in_runs := x\<rparr>)" for x by (rule calm_cong) simp_all
  then show ?thesis using calm_trans [OF _ calm_release] by (auto simp: finalize_run_def Some Let_def)
qed (simp add: finalize_run_def)

lemma calm_completion [simp]: "calm s (check_completion sv ck rid s)"
  by (simp add: check_completion_def split: option.split)

lemma calm_prep_failure [simp]: "calm s (snd (record_prep_failure rid reason v s))"
  by (simp add: record_prep_failure_def split: option.split)

lemma calm_prep_failureD: "record_prep_failure rid reason v s = (b, s') \<Longrightarrow> calm s s'"
  using calm_prep_failure [of s rid reason v] by simp

lemma calm_terminate [simp]: "calm s (terminate_participation sv ck aid rid s)"
proof (cases "map_of (in_runs s) rid")
  case (Some run)
  let ?s1 = "upd_run rid (\<lambda>r. r\<lparr>cr_lost := insert_list aid (cr_lost r)\<rparr>) s"
  let ?s2 = "upd_run rid (set_abort_reason (''agent restarted: '' @ aid)) ?s1"
  have "calm s ?s2" by (rule calm_trans [OF calm_upd_run calm_upd_run])
  then have "calm s (finalize_run sv ck rid Failed (broadcast_stop rid ?s2))"
    by (meson calm_trans calm_broadcast_stop calm_finalize)
  moreover have "calm s (check_completion sv ck rid ?s1)" by (rule calm_trans [OF calm_upd_run calm_completion])
  ultimately show ?thesis
    by (auto simp: terminate_participation_def Let_def Some dest: calm_prep_failureD split: prod.split bool.split on_agent_loss.split)
qed (simp add: terminate_participation_def)

lemma calm_replay [simp]: "calm s (replay_assignment_if_pending aid rid s)"
  by (simp add: replay_assignment_if_pending_def split: option.split)

lemma calm_resume [simp]: "calm s (resume_run aid rid s)"
proof (cases "map_of (in_runs s) rid")
  case (Some run)
  let ?s1 = "upd_run rid (\<lambda>r. r\<lparr>cr_lost := removeAll aid (cr_lost r)\<rparr>) s"
  have "calm s (send_assignment run aid ?s1)" by (rule calm_trans [OF calm_upd_run calm_send_assignment])
  moreover have "calm s (try_send ch (Down (Start rid t)) ?s1)" for ch t
    by (rule calm_trans [OF calm_upd_run calm_try_send]) simp
  ultimately show ?thesis by (auto simp: resume_run_def Some Let_def split: option.split prep_phase.split)
qed (simp add: resume_run_def)

lemma calm_apply [simp]: "calm s (apply_agent_message sv ck aid msg s)"
proof (cases msg)
  case (Heartbeat n)
  then show ?thesis by (simp add: calm_upd_agent ident_def)
next
  case (Event ev)
  have "calm s (check_completion sv ck (ev_run_id ev) (upd_run (ev_run_id ev) (agent_done sv aid ev) s))"
    by (rule calm_trans [OF calm_upd_run calm_completion])
  then show ?thesis using Event by (simp add: handle_run_event_def Let_def)
qed (simp_all add: handle_metrics_def handle_control_ack_def handle_assignment_ready_def split: option.split)

lemma calm_send_poll: "send_poll ch (Down m) s = Some (b, s') \<Longrightarrow> \<not> is_ack (Down m) \<Longrightarrow> calm s s'"
  by (auto simp: send_poll_def calm_try_send split: option.splits if_splits)

section \<open>Tasks and events\<close>

text \<open>No task ever sends an acknowledgement.\<close>

fun task_sends :: "task \<Rightarrow> ctrl_msg list" where
  "task_sends (TAssign _ sends _ _) = map snd sends"
| "task_sends (TStart _ sends) = map snd sends"
| "task_sends (TFail _ sends _) = map snd sends"
| "task_sends (TSweepStop _ sends _ _) = map snd sends"
| "task_sends (TControl _ _ _ _ sends) = map (snd \<circ> snd) sends"
| "task_sends _ = []"

definition no_acks :: "task list \<Rightarrow> bool" where
  "no_acks ts \<longleftrightarrow> (\<forall>t\<in>set ts. \<forall>m\<in>set (task_sends t). \<not> is_ack (Down m))"

lemma calm_sweep_run:
  assumes "sweep_run sv ck lost rid s = (out, s')"
  shows "calm s s' \<and> (\<forall>sends. out = Some sends \<longrightarrow> (\<forall>x\<in>set sends. \<not> is_ack (Down (snd x))))"
proof (cases "map_of (in_runs s) rid")
  case (Some run)
  let ?newly = "newly_lost lost run"
  let ?s1 = "upd_run rid (mark_lost ?newly) s"
  let ?s2 = "upd_run rid (set_abort_reason (''agent(s) lost: '' @ join '', '' ?newly)) ?s1"
  have "calm s s''" if "record_prep_failure rid x Failed ?s1 = (b, s'')" for x b s''
    by (rule calm_trans [OF calm_upd_run calm_prep_failureD [OF that]])
  moreover have "calm s (check_completion sv ck rid ?s1)" by (rule calm_trans [OF calm_upd_run calm_completion])
  moreover have "calm s ?s2" by (rule calm_trans [OF calm_upd_run calm_upd_run])
  ultimately show ?thesis using assms
    by (auto simp: sweep_run_def Some Let_def dest: stops_no_ack split: if_splits prod.splits bool.splits on_agent_loss.splits option.splits)
qed (use assms in \<open>auto simp: sweep_run_def\<close>)

lemma calm_send_task:
  assumes "\<not> is_ack (Down m)" "no_acks [old]" "no_acks [new]"
    and "(case send_poll ch (Down m) s of None \<Rightarrow> ([old], s) | Some (_, s1) \<Rightarrow> ([new], s1)) = (ts, s')"
  shows "calm s s' \<and> no_acks ts"
  using assms by (auto dest: calm_send_poll split: option.splits)

lemma calm_finish_control: "calm s (finish_control rid cmd out s)"
proof -
  have "calm s' (s'\<lparr>in_results := x\<rparr>)" for s' :: "'a inner" and x by (rule calm_cong) simp_all
  then show ?thesis unfolding finish_control_def using calm_trans [OF calm_set_run] by blast
qed

lemma task_calm:
  assumes "no_acks [t]" "task_step sv ck t s = (ts, s')"
  shows "calm s s' \<and> no_acks ts"
proof (cases "(sv, ck, t, s)" rule: task_step.cases)
  case (2 sv' ck' rid ch m sends b p s'')
  then show ?thesis using assms by (intro calm_send_task [where m = m and old = t and new = "TAssign rid sends b p" and ch = ch and s = s]) (auto simp: no_acks_def)
next
  case (3 sv' ck' rid b d s'')
  then show ?thesis using assms
    by (auto simp: barrier_step_def Let_def no_acks_def dest!: stops_no_ack split: option.splits decision.splits)
next
  case (5 sv' ck' rid ch m sends s'')
  then show ?thesis using assms by (intro calm_send_task [where m = m and old = t and new = "TStart rid sends" and ch = ch and s = s]) (auto simp: no_acks_def)
next
  case (7 sv' ck' rid ch m sends v s'')
  then show ?thesis using assms by (intro calm_send_task [where m = m and old = t and new = "TFail rid sends v" and ch = ch and s = s]) (auto simp: no_acks_def)
next
  case (8 sv' ck' rid s'')
  then show ?thesis using assms by (auto simp: Let_def no_acks_def split: option.splits if_splits)
next
  case (10 sv' ck' lost rid rids s'')
  obtain out s2 where o: "sweep_run sv ck lost rid s = (out, s2)" by (metis surj_pair)
  show ?thesis using o 10 assms calm_sweep_run [OF o] by (cases out) (auto simp: no_acks_def)
next
  case (12 sv' ck' rid ch m sends lost rids s'')
  then show ?thesis using assms by (intro calm_send_task [where m = m and old = t and new = "TSweepStop rid sends lost rids" and ch = ch and s = s]) (auto simp: no_acks_def)
next
  case (14 sv' ck' rid cmd action scenario aid ch m sends s'')
  then show ?thesis using assms
    by (auto simp: no_acks_def intro: calm_trans [OF calm_send_poll calm_upd_run] calm_send_poll split: option.splits prod.splits bool.splits)
next
  case (15 sv' ck' rid cmd action d s'')
  then show ?thesis using assms by (auto simp: no_acks_def calm_finish_control split: option.splits if_splits)
qed (use assms in \<open>auto simp: no_acks_def\<close>)

lemma control_calm:
  assumes "control rid action scenario vus s = (out, s')"
  shows "calm s s' \<and> (\<forall>t. out = Inr (Some t) \<longrightarrow> no_acks [t])"
proof (cases "map_of (in_runs s) rid")
  case (Some run)
  have "calm s (upd_run rid f (s\<lparr>in_control_counter := c\<rparr>))" for f c
    by (rule calm_trans [OF calm_cong calm_upd_run]) simp_all
  then show ?thesis using assms
    by (auto simp: control_def Some Let_def no_acks_def control_message_def split: if_splits)
qed (use assms in \<open>auto simp: control_def\<close>)

lemma submit_calm:
  "calm s (snd (submit sv ck rid plan_yaml opts loaded s))"
  "no_acks (in_tasks s) \<Longrightarrow> no_acks (in_tasks (snd (submit sv ck rid plan_yaml opts loaded s)))"
proof -
  have r: "calm s s' \<and> in_tasks s' = in_tasks s" if "reserve_agents ck flt rid s = (out, s')" for flt out s'
  proof (cases out)
    case (Inl e)
    then show ?thesis using that by (auto dest: reserve_fails)
  next
    case (Inr sel)
    have "calm s s'" unfolding reserve_shape(2) [OF that [unfolded Inr] refl]
      by (auto simp: calm_def fence_def acks_def fun_eq_iff map_of_map option.map_comp ident_def intro!: map_option_cong)
    then show ?thesis using reserve_shape(2) [OF that [unfolded Inr] refl] by simp
  qed
  have c: "calm s (s'\<lparr>in_runs := x, in_tasks := y\<rparr>)" if "calm s s'" for s' x y
    by (rule calm_trans [OF that]) (rule calm_cong, simp_all)
  show "calm s (snd (submit sv ck rid plan_yaml opts loaded s))"
    by (auto simp: submit_def Let_def dest: r intro: c split: sum.split option.split prod.split)
  show "no_acks (in_tasks s) \<Longrightarrow> no_acks (in_tasks (snd (submit sv ck rid plan_yaml opts loaded s)))"
    using r by (auto simp: submit_def Let_def no_acks_def assignment_for_def split: sum.split option.split prod.split)
qed

lemma fence_upd_agent:
  "fence (upd_agent aid f s) aid' = (if aid' = aid then map_option (ident \<circ> f) (map_of (in_agents s) aid) else fence s aid')"
  by (auto simp: fence_def upd_agent_def option.map_comp split: option.split)

lemma acks_upd_agent [simp]: "acks (upd_agent aid f s) = acks s" "in_session_counter (upd_agent aid f s) = in_session_counter s"
  by (simp_all add: acks_def upd_agent_def fun_eq_iff split: option.split)

lemma fence_try_send [simp]: "fence (try_send ch it s) = fence s" "in_session_counter (try_send ch it s) = in_session_counter s"
  by (auto simp: fence_def try_send_def fun_eq_iff split: option.split)

lemma acks_try_send: "ch \<noteq> cur \<or> \<not> is_ack it \<Longrightarrow> acks (try_send ch it s) cur = acks s cur"
  by (auto simp: acks_def try_send_def split: option.split)

lemma calm_disconnect [simp]: "calm s (mark_disconnected aid session s)"
  unfolding mark_disconnected_def by (rule calm_upd_agent) (simp add: ident_def)

text \<open>What the admission of a message does to its agent's identity and to the acknowledgements of its session.\<close>

lemma fence_heartbeat [simp]: "fence (upd_agent aid (\<lambda>e. e\<lparr>ae_last_heartbeat := n\<rparr>) s) = fence s"
  using calm_upd_agent [of "\<lambda>e. e\<lparr>ae_last_heartbeat := n\<rparr>" s aid] by (simp add: calm_def ident_def)

lemma admit_current:
  assumes "map_of (in_agents s) aid = Some e" "ae_session e = session" "admit_msg ck aid session seq s = (a, s')"
  shows "fence s' = (fence s)(aid := Some (ae_incarnation e, max (ae_last_seq e) seq, session, ae_sender e))"
    "in_session_counter s' = in_session_counter s" "in_tasks s' = in_tasks s"
    "ch \<noteq> ae_sender e \<Longrightarrow> acks s' ch = acks s ch"
    "set (acks s' (ae_sender e)) \<subseteq> insert (Down (UplinkAck (max (ae_last_seq e) seq))) (set (acks s (ae_sender e)))"
    "a = (if seq = 0 \<or> ae_last_seq e < seq then Apply else Duplicate)"
proof -
  have tasks: "in_tasks (upd_agent x f t) = in_tasks t" "in_tasks (try_send c it t) = in_tasks t" for x f c it and t :: "'a inner"
    by (simp_all add: upd_agent_def try_send_def split: option.split)
  have own: "fence s aid = Some (ae_incarnation e, ae_last_seq e, session, ae_sender e)" using assms by (simp add: fence_def ident_def)
  have ack: "set (acks (try_send c it t) c) \<subseteq> insert it (set (acks t c))" for c it and t :: "'a inner"
    by (auto simp: acks_def try_send_def split: option.split)
  have seq: "fence (upd_agent aid (\<lambda>e. e\<lparr>ae_last_seq := q\<rparr>) (upd_agent aid (\<lambda>e. e\<lparr>ae_last_heartbeat := n\<rparr>) s)) =
      (fence s)(aid := Some (ae_incarnation e, q, session, ae_sender e))" for q n
    using assms(1,2) by (auto simp: fun_eq_iff fence_def upd_agent_def ident_def)
  have defs: "(a, s') = (let alive = upd_agent aid (\<lambda>e. e\<lparr>ae_last_heartbeat := ck_now ck\<rparr>) s
      in if seq = 0 then (Apply, if 0 < ae_last_seq e then send_uplink_ack e (ae_last_seq e) alive else alive)
         else if seq \<le> ae_last_seq e then (Duplicate, send_uplink_ack e (ae_last_seq e) alive)
         else (Apply, send_uplink_ack e seq (upd_agent aid (\<lambda>e. e\<lparr>ae_last_seq := seq\<rparr>) alive)))"
    using assms by (simp add: admit_msg_def)
  note defs = defs [unfolded Let_def send_uplink_ack_def]
  show "in_session_counter s' = in_session_counter s" "in_tasks s' = in_tasks s" "ch \<noteq> ae_sender e \<Longrightarrow> acks s' ch = acks s ch"
    "a = (if seq = 0 \<or> ae_last_seq e < seq then Apply else Duplicate)"
    using defs by (auto simp: tasks acks_try_send split: if_splits)
  show "fence s' = (fence s)(aid := Some (ae_incarnation e, max (ae_last_seq e) seq, session, ae_sender e))"
    using defs own seq by (auto simp: fun_upd_idem max_def split: if_splits)
  show "set (acks s' (ae_sender e)) \<subseteq> insert (Down (UplinkAck (max (ae_last_seq e) seq))) (set (acks s (ae_sender e)))"
    using defs ack [of "ae_sender e"] by (fastforce simp: max_def split: if_splits)
qed

lemma register_calm:
  "calm (s\<lparr>in_agents := AList.update (rg_agent_id reg) (new_entry ck reg peer session (map_of (in_agents s) (rg_agent_id reg))) (in_agents s)\<rparr>)
    (register_agent sv ck reg peer session s)"
proof -
  define prev where "prev = map_of (in_agents s) (rg_agent_id reg)"
  define s1 where "s1 = s\<lparr>in_agents := AList.update (rg_agent_id reg) (new_entry ck reg peer session prev) (in_agents s)\<rparr>"
  define s2 where "s2 = (case prev of
      Some e \<Rightarrow> try_send (ae_sender e) (Status ''session superseded by a newer registration'') s1 | None \<Rightarrow> s1)"
  define s3 where "s3 = (case snd (reserve_after reg prev) of
      FTerminate rid \<Rightarrow> terminate_participation sv ck (rg_agent_id reg) rid s2
    | FReplay rid \<Rightarrow> replay_assignment_if_pending (rg_agent_id reg) rid s2 | FNone \<Rightarrow> s2)"
  have "calm s1 s2" by (simp add: s2_def calm_try_send split: option.split)
  moreover have "calm s2 s3" by (simp add: s3_def split: followup.split)
  moreover have "calm s3 (resume_run (rg_agent_id reg) (rg_resume_run_id reg) s3)" by simp
  ultimately have "calm s1 s3" "calm s1 (resume_run (rg_agent_id reg) (rg_resume_run_id reg) s3)" using calm_trans by metis+
  moreover have "register_agent sv ck reg peer session s = s3 \<or>
      register_agent sv ck reg peer session s = resume_run (rg_agent_id reg) (rg_resume_run_id reg) s3"
    unfolding register_agent_def Let_def prev_def [symmetric] s1_def [symmetric] s2_def [symmetric] s3_def [symmetric] by simp
  ultimately show ?thesis unfolding s1_def prev_def by metis
qed

text \<open>An accepted registration starts a new session: fresh number, no acknowledgements, the cursor kept for the same process only.\<close>

lemma open_session_effect:
  assumes "rg_protocol_version reg = PROTOCOL_VERSION" "rg_agent_id reg \<noteq> []"
    and s'_def: "s' = snd (open_session sv ck (RegisterMsg reg) peer s)" and n_def: "n = in_session_counter s + 1"
  shows "fence s' = (fence s)(rg_agent_id reg := Some (rg_incarnation reg,
      case fence s (rg_agent_id reg) of Some (i, q, _) \<Rightarrow> if i = rg_incarnation reg then q else 0 | None \<Rightarrow> 0, n, n))"
    "acks s' = (acks s)(n := [])" "in_session_counter s' = n"
proof -
  define s0 where "s0 = s\<lparr>in_session_counter := n,
     in_downlinks := AList.update n \<lparr>dl_queue = [Down (Registered (in_controller_id s) PROTOCOL_VERSION (''welcome '' @ rg_agent_name reg))],
       dl_open = True\<rparr> (in_downlinks s)\<rparr>"
  define s1 where "s1 = s0\<lparr>in_agents := AList.update (rg_agent_id reg) (new_entry ck reg peer n (map_of (in_agents s0) (rg_agent_id reg))) (in_agents s0)\<rparr>"
  have "s' = register_agent sv ck reg peer n s0" using assms(1,2) by (simp add: s'_def open_session_def Let_def s0_def n_def)
  then have c: "calm s1 s'" unfolding s1_def by (simp add: register_calm)
  have "acks s1 = (acks s)(n := [])" by (auto simp: s1_def s0_def acks_def fun_eq_iff)
  moreover have "fence s1 = (fence s)(rg_agent_id reg := Some (rg_incarnation reg,
      case fence s (rg_agent_id reg) of Some (i, q, _) \<Rightarrow> if i = rg_incarnation reg then q else 0 | None \<Rightarrow> 0, n, n))"
    by (auto simp: s1_def s0_def fence_def fun_eq_iff ident_def new_entry_def same_process_def split: option.split)
  ultimately show "fence s' = (fence s)(rg_agent_id reg := Some (rg_incarnation reg,
      case fence s (rg_agent_id reg) of Some (i, q, _) \<Rightarrow> if i = rg_incarnation reg then q else 0 | None \<Rightarrow> 0, n, n))"
    "acks s' = (acks s)(n := [])" "in_session_counter s' = n"
    using c by (simp_all add: calm_def s1_def s0_def)
qed

lemma open_session_refused:
  assumes "\<And>reg. first = RegisterMsg reg \<Longrightarrow> rg_protocol_version reg \<noteq> PROTOCOL_VERSION \<or> rg_agent_id reg = []"
  shows "snd (open_session sv ck first peer s) = s"
  using assms by (cases first) (auto simp: open_session_def)

section \<open>No event queues an acknowledgement for later\<close>

lemma in_tasks_evolves: "evolves s s' \<Longrightarrow> base_inv s \<Longrightarrow> in_tasks s' = in_tasks s"
  by (simp add: evolves_def keeps_def)

lemma no_acks_append [simp]: "no_acks (xs @ ys) \<longleftrightarrow> no_acks xs \<and> no_acks ys"
  by (auto simp: no_acks_def)

lemma no_acks_sub: "no_acks xs \<Longrightarrow> set ys \<subseteq> set xs \<Longrightarrow> no_acks ys"
  by (auto simp: no_acks_def)

lemma no_acks_nth: "no_acks ts \<Longrightarrow> i < length ts \<Longrightarrow> no_acks [ts ! i]"
  by (auto simp: no_acks_def)

lemma step_no_acks:
  assumes "ctl_inv s" "no_acks (in_tasks s)"
  shows "no_acks (in_tasks (ctl_step sv e s))"
proof -
  have b: "base_inv s" using assms(1) by (simp add: ctl_inv_def)
  show ?thesis
  proof (cases e)
    case (ETask ck i)
    show ?thesis
    proof (cases "i < length (in_tasks s)")
      case True
      obtain ts s' where t: "task_step sv ck (in_tasks s ! i) s = (ts, s')" by (metis surj_pair)
      have "no_acks [in_tasks s ! i]" by (rule no_acks_nth [OF assms(2) True])
      then have "no_acks ts" using task_calm [OF _ t] by blast
      moreover have "no_acks (take i (in_tasks s))" "no_acks (drop (i + 1) (in_tasks s))"
        using no_acks_sub [OF assms(2)] set_take_subset set_drop_subset by metis+
      ultimately show ?thesis using ETask True t by simp
    qed (use ETask assms(2) in simp)
  next
    case (EControl rid action scenario vus)
    obtain out s' where c: "control rid action scenario vus s = (out, s')" by (metis surj_pair)
    have "in_tasks s' = in_tasks s" using control_shape [OF c] in_tasks_evolves [OF _ b] by blast
    then show ?thesis using EControl c control_calm [OF c] assms(2) by (auto split: sum.split option.split)
  next
    case (ESubmit ck rid plan_yaml opts loaded)
    then show ?thesis using submit_calm(2) [OF assms(2)] by simp
  next
    case (EShutdown)
    then show ?thesis using no_acks_sub [OF assms(2)] by auto
  next
    case (ESweep ck)
    then show ?thesis using assms(2) by (auto simp: Let_def no_acks_def)
  next
    case (EDownRecv ch)
    then show ?thesis using assms(2) by (simp split: option.split)
  next
    case (EDownClosed ch)
    then show ?thesis using assms(2) by (simp split: option.split)
  next
    case (EConnect ck first peer)
    then show ?thesis using assms(2) in_tasks_evolves [OF evolves_open_session b] by simp
  next
    case (EUplink ck aid session msg)
    then show ?thesis using assms(2) in_tasks_evolves [OF evolves_pump b] by simp
  next
    case (EStreamEnd aid session)
    then show ?thesis using assms(2) in_tasks_evolves [OF evolves_disconnect b] by simp
  next
    case (EView ck rid)
    then show ?thesis using assms(2) in_tasks_evolves [OF evolves_view b] by simp
  qed
qed

lemma reachable_no_acks: "reachable sv cid liveness s \<Longrightarrow> no_acks (in_tasks s)"
proof (induction rule: reachable.induct)
  case start
  show ?case by (simp add: controller_new_def no_acks_def)
next
  case (step s e)
  then show ?case using step_no_acks [OF reachable_inv] by blast
qed

section \<open>Events that leave every identity alone\<close>

text \<open>Every event that is not a registration, a message or a read of a downlink.\<close>

theorem step_calm:
  assumes "no_acks (in_tasks s)" "\<And>ck first peer. e \<noteq> EConnect ck first peer" "\<And>ck aid session msg. e \<noteq> EUplink ck aid session msg"
    "\<And>ch. e \<noteq> EDownRecv ch"
  shows "calm s (ctl_step sv e s)"
proof (cases e)
  case (EDownClosed ch)
  then show ?thesis by (auto simp: calm_def fence_def acks_def fun_eq_iff split: option.split)
next
  case (ESubmit ck rid plan_yaml opts loaded)
  then show ?thesis using submit_calm(1) by simp
next
  case (EControl rid action scenario vus)
  obtain out s' where c: "control rid action scenario vus s = (out, s')" by (metis surj_pair)
  have "calm s s'" using control_calm [OF c] by simp
  moreover from this have "calm s (s'\<lparr>in_tasks := x\<rparr>)" for x by (rule calm_trans) (rule calm_cong, simp_all)
  ultimately show ?thesis by (simp add: EControl c split: sum.split option.split)
next
  case (ESweep ck)
  show ?thesis by (rule calm_cong) (simp_all add: ESweep Let_def)
next
  case (ETask ck i)
  obtain ts s' where t: "task_step sv ck (in_tasks s ! i) s = (ts, s')" by (metis surj_pair)
  have c: "calm s s'" if "i < length (in_tasks s)" using task_calm [OF no_acks_nth [OF assms(1) that] t] by simp
  have "calm s (s'\<lparr>in_tasks := x\<rparr>)" if "i < length (in_tasks s)" for x
    by (rule calm_trans [OF c [OF that]]) (rule calm_cong, simp_all)
  then show ?thesis by (simp add: ETask t)
next
  case (EView ck rid)
  then show ?thesis by (simp add: run_metrics_view_def Let_def split: option.split bool.split)
next
  case EShutdown
  show ?thesis by (rule calm_cong) (simp_all add: EShutdown)
next
  case (EStreamEnd aid' session)
  then show ?thesis by simp
qed (use assms in auto)

end
