(* ===== verification/Controller_Props.thy ===== *)
theory Controller_Props
  imports Controller_Safety
begin

text \<open>
  What the controller promises in every state it can reach: reservations never leak, a terminal run
  is frozen, a start means that everyone was ready, a finished run has heard of every agent, stale
  and repeated messages change nothing, and a barrier does not outlive its deadline.
\<close>

section \<open>A small fleet\<close>

text \<open>One agent, one run: the concrete history on which the properties are instantiated.\<close>

definition clock0 :: clock where
  "clock0 = \<lparr>ck_now = 0, ck_unix_ms = 0\<rparr>"

definition demo_services :: "string services" where
  "demo_services = \<lparr>sv_hdr = char_hdr, sv_decode_delta = (\<lambda>_. None), sv_decode_summary = (\<lambda>_. None), sv_humantime = ns_parse\<rparr>"

definition demo_register :: register_msg where
  "demo_register = \<lparr>rg_agent_id = ''a1'', rg_agent_name = ''a1'', rg_protocol_version = 4, rg_loadr_version = [], rg_cpu_cores = 1,
     rg_labels = [], rg_resume_run_id = [], rg_build_revision = [], rg_incarnation = ''i''\<rparr>"

definition demo_options :: submit_options where
  "demo_options = \<lparr>so_env = None, so_name = None, so_files = [], so_agent_filter = None, so_on_agent_loss = LossContinue,
     so_start_barrier = 0, so_preparation_timeout = 0\<rparr>"

definition demo_plan :: loaded_plan where
  "demo_plan = \<lparr>lp_name = None, lp_thresholds = [], lp_scenarios = []\<rparr>"

definition demo_entry :: agent_entry where
  "demo_entry = \<lparr>ae_name = ''a1'', ae_labels = [], ae_cores = 1, ae_peer_addr = None, ae_version = None, ae_revision = None,
     ae_incarnation = ''i'', ae_connected_at = 0, ae_last_heartbeat = 0, ae_active_vus = 0, ae_connected = True,
     ae_session = 1, ae_last_seq = 0, ae_active_run = None, ae_sender = 1\<rparr>"

definition demo_state :: "agent_entry \<Rightarrow> (string \<times> string ctrl_run) list \<Rightarrow> down_item list \<Rightarrow> task list \<Rightarrow> string inner" where
  "demo_state e runs q ts =
     \<lparr>in_controller_id = [], in_liveness = 0, in_agents = [(''a1'', e)], in_runs = runs, in_session_counter = 1,
      in_control_counter = 0, in_downlinks = [(1, \<lparr>dl_queue = q, dl_open = True\<rparr>)], in_tasks = ts, in_results = []\<rparr>"

definition demo_run :: "string ctrl_run" where
  "demo_run = new_run clock0 ''r1'' [] demo_options demo_plan [] [''a1'']"

definition greeting :: down_item where
  "greeting = Down (Registered [] 4 ''welcome a1'')"

abbreviation "demo_reachable \<equiv> reachable demo_services [] 0"

lemma demo_connected: "demo_reachable (demo_state demo_entry [] [greeting] [])"
  using reachable.step [OF reachable.start, where e = "EConnect clock0 (RegisterMsg demo_register) None" and sv = demo_services and cid = "[]" and liveness = 0]
  by (simp add: controller_new_def open_session_def demo_register_def PROTOCOL_VERSION_def Let_def
      register_agent_def new_entry_def reserve_after_def non_empty_def clock0_def demo_state_def demo_entry_def greeting_def)

abbreviation "reserved_entry \<equiv> demo_entry\<lparr>ae_active_run := Some ''r1''\<rparr>"

lemma demo_submitted:
  "demo_reachable (demo_state reserved_entry [(''r1'', demo_run)] [greeting] [TAssign ''r1'' [(1, assignment_for demo_run 0)] 0 0])"
  using reachable.step [OF demo_connected, where e = "ESubmit clock0 ''r1'' [] demo_options (Inr demo_plan)"]
  by (simp add: submit_def demo_state_def demo_options_def demo_plan_def reserve_agents_def eligible_def Let_def demo_entry_def
      clock0_def demo_run_def contains_key_def)

abbreviation "assignment_sent \<equiv> Down (assignment_for demo_run 0)"

lemma demo_assigned:
  "demo_reachable (demo_state reserved_entry [(''r1'', demo_run)] [greeting, assignment_sent] [TBarrier ''r1'' 0 0])"
  using reachable.step [OF reachable.step [OF demo_submitted, where e = "ETask clock0 0"], where e = "ETask clock0 0"]
  by (simp add: demo_state_def send_poll_def try_send_def DOWNLINK_CAP_def clock0_def)

abbreviation "ready_run \<equiv> demo_run\<lparr>cr_phases := [(''a1'', Ready)]\<rparr>"

lemma demo_run_simps [simp]:
  "cr_run_id demo_run = ''r1''" "cr_assigned demo_run = [''a1'']" "cr_state demo_run = Pending" "cr_phases demo_run = [(''a1'', Assigned)]"
  "cr_failure demo_run = None" "cr_done demo_run = []" "cr_lost demo_run = []" "cr_agg demo_run = agg_new 0" "cr_start_unix_ms demo_run = None"
  by (simp_all add: demo_run_def new_run_def clock0_def)

lemma demo_ready:
  "demo_reachable (demo_state (reserved_entry\<lparr>ae_last_seq := 1\<rparr>) [(''r1'', ready_run)] [greeting, assignment_sent, Down (UplinkAck 1)]
     [TBarrier ''r1'' 0 0])"
  using reachable.step [OF demo_assigned, where e = "EUplink clock0 ''a1'' 1 (1, AssignmentReady ''r1'' 0)"]
  by (simp add: demo_state_def pump_def handle_agent_message_def admit_msg_def Let_def upd_agent_def send_uplink_ack_def try_send_def
      DOWNLINK_CAP_def demo_entry_def handle_assignment_ready_def position_def upd_run_def clock0_def)

abbreviation "started_run \<equiv> commit_start clock0 0 ready_run"

lemma demo_started:
  "demo_reachable (demo_state (reserved_entry\<lparr>ae_last_seq := 1\<rparr>) [(''r1'', started_run)]
     [greeting, assignment_sent, Down (UplinkAck 1), Down (Start ''r1'' 0)] [TStart ''r1'' []])"
  using reachable.step [OF reachable.step [OF demo_ready, where e = "ETask clock0 0"], where e = "ETask clock0 0"]
  by (simp add: demo_state_def barrier_step_def barrier_decision_def all_ready_def Let_def commit_start_def set_run_def run_senders_def
      List.map_filter_def demo_entry_def send_poll_def try_send_def DOWNLINK_CAP_def clock0_def contains_key_def)

definition done_event :: event where
  "done_event = EUplink clock0 ''a1'' 1 (2, Event \<lparr>ev_run_id = ''r1'', ev_kind = ''finished'', ev_detail = [], ev_summary_json = []\<rparr>)"

abbreviation "started_state \<equiv> demo_state (reserved_entry\<lparr>ae_last_seq := 1\<rparr>) [(''r1'', started_run)]
     [greeting, assignment_sent, Down (UplinkAck 1), Down (Start ''r1'' 0)] [TStart ''r1'' []]"

definition finished_state :: "string inner" where
  "finished_state = ctl_step demo_services done_event started_state"

lemma demo_finished: "demo_reachable finished_state"
  unfolding finished_state_def by (rule reachable.step [OF demo_started]) (simp add: done_event_def)

lemma build_snapshot_empty:
  "ag_series a = [] \<Longrightarrow> build_snapshot hdr now True a = (snap, a') \<Longrightarrow> ag_series a' = [] \<and> sn_series snap = []"
  by (auto simp: build_snapshot_def Let_def sort_series_def)

lemma summary_build_empty:
  assumes "ag_series a = []"
  shows "\<exists>x. summary_build hdr now sel_now rollup_now ended name run_id started scenarios thresholds aborted timeline a = Some x"
proof -
  obtain snap a' where sn: "build_snapshot hdr now True a = (snap, a')" by (metis surj_pair)
  note e = build_snapshot_empty [OF assms sn]
  have "sn_series (aggregate_snapshot hdr rollup_now [] a') = []"
    using e by (simp add: aggregate_snapshot_def aggregate_matching_def Let_def sort_series_def List.map_filter_def)
  then show ?thesis using e
    by (simp add: summary_build_def sn merged_metrics_def request_reqs_ok_def check_summaries_def List.map_filter_def)
qed

lemma settle_empty:
  assumes "ag_series (cr_agg run) = []" shows "cr_state (settle sv ck v run) = v"
proof -
  obtain snap a' where sn: "build_snapshot (sv_hdr sv) (ck_now ck) True (cr_agg run) = (snap, a')" by (metis surj_pair)
  have "ag_series a' = []" using build_snapshot_empty [OF assms sn] by simp
  from summary_build_empty [OF this] show ?thesis
    by (simp add: settle_def live_projection_def Let_def sn split: option.split) (metis option.distinct(1))
qed

lemma finished_run:
  obtains run where "map_of (in_runs finished_state) ''r1'' = Some run" "cr_state run = Finished" "cr_assigned run = [''a1'']"
proof -
  have empty: "ag_series (zero_live_gauges aid a) = []" if "ag_series a = []" for aid and a :: "string aggregator"
  proof -
    have "ag_series (fold (\<lambda>m. set_gauge_by_tag m t v g) ms a) = []" for ms t v g
      using that by (induction ms arbitrary: a) (simp_all add: set_gauge_by_tag_def Let_def)
    then show ?thesis by (simp add: zero_live_gauges_def)
  qed
  define r where "r = agent_done demo_services ''a1'' \<lparr>ev_run_id = ''r1'', ev_kind = ''finished'', ev_detail = [], ev_summary_json = []\<rparr> started_run"
  have r: "cr_state r = Running" "cr_assigned r = [''a1'']" "cr_done r = [(''a1'', ''finished'')]" "ag_series (cr_agg r) = []" "cr_run_id r = ''r1''"
    by (simp_all add: r_def agent_done_def Let_def zero_agent_live_gauges_def commit_start_def empty agg_new_def)
  let ?r = "settle demo_services clock0 Finished r"
  have t: "cr_state ?r = Finished" by (rule settle_empty) (rule r(4))
  have "cr_assigned ?r = [''a1'']" using settle_facts(1) [of r Finished demo_services clock0] r
    by (simp add: run_keeps_def all_accounted_def contains_key_def)
  moreover have "map_of (in_runs finished_state) ''r1'' = Some ?r"
    using r t by (simp add: finished_state_def done_event_def demo_state_def pump_def handle_agent_message_def admit_msg_def Let_def
        upd_agent_def send_uplink_ack_def try_send_def DOWNLINK_CAP_def demo_entry_def handle_run_event_def contains_key_def upd_run_def
        r_def [symmetric] check_completion_def all_accounted_def verdict_of_def finalize_run_def release_facts)
  ultimately show thesis using t that by blast
qed

section \<open>Properties\<close>

text \<open>
  C5: an agent of a reachable controller is reserved only for a run that exists, has not ended and
  has the agent among its assigned agents. So the end of a run, however it ends, frees every agent it
  held, and no agent waits for a run that is over.
\<close>

theorem reservations_sound:
  assumes "reachable sv cid liveness s" "map_of (in_agents s) aid = Some e" "ae_active_run e = Some rid"
  shows "\<exists>run. map_of (in_runs s) rid = Some run \<and> \<not> is_terminal (cr_state run) \<and> aid \<in> set (cr_assigned run)"
  using base_invD(6) [OF _ assms(2)] reachable_inv [OF assms(1)] assms(3)
  by (auto simp: ctl_inv_def entry_ok_def live_member_def)

theorem reservations_sound_witness:
  "\<exists>run. map_of (in_runs started_state) ''r1'' = Some run \<and> \<not> is_terminal (cr_state run) \<and> ''a1'' \<in> set (cr_assigned run)"
  using reservations_sound [OF demo_started, of "''a1''" "reserved_entry\<lparr>ae_last_seq := 1\<rparr>" "''r1''"]
  by (simp add: demo_state_def)

text \<open>
  C7: once a run is terminal no event changes its verdict, its summary, its end time, its threshold
  statuses, its timeline, its final snapshot or its contributing agents, and a terminal run has a summary
  and an end time.
\<close>

theorem terminal_frozen:
  assumes "reachable sv cid liveness s" "fresh_ids e s" "map_of (in_runs s) rid = Some run" "is_terminal (cr_state run)"
  shows "\<exists>run'. map_of (in_runs (ctl_step sv e s)) rid = Some run' \<and>
    cr_state run' = cr_state run \<and> cr_merged_summary run' = cr_merged_summary run \<and> cr_merged_summary run \<noteq> None \<and>
    cr_finished_ms run' = cr_finished_ms run \<and> cr_finished_ms run \<noteq> None \<and>
    cr_threshold_statuses run' = cr_threshold_statuses run \<and> cr_timeline run' = cr_timeline run \<and>
    cr_snapshot run' = cr_snapshot run \<and> cr_contributing run' = cr_contributing run"
proof -
  have inv: "ctl_inv s" by (rule reachable_inv [OF assms(1)])
  then have "adv s (ctl_step sv e s)" using step_inv assms(2) by blast
  then obtain run' where r: "map_of (in_runs (ctl_step sv e s)) rid = Some run'" "run_adv run run'"
    using assms(3) by (auto simp: adv_def)
  moreover have "run_ok run" using inv base_invD(4) [OF _ assms(3)] by (simp add: ctl_inv_def)
  ultimately show ?thesis using assms(4) by (auto simp: run_adv_def frozen_def run_ok_def)
qed

theorem terminal_frozen_witness:
  "\<exists>run run'. map_of (in_runs finished_state) ''r1'' = Some run \<and> map_of (in_runs (ctl_step demo_services done_event finished_state)) ''r1'' = Some run' \<and>
    cr_state run' = Finished \<and> cr_merged_summary run' = cr_merged_summary run"
proof (rule finished_run)
  fix run assume "map_of (in_runs finished_state) ''r1'' = Some run" "cr_state run = Finished"
  then show ?thesis using terminal_frozen [OF demo_finished, of done_event "''r1''" run] by (auto simp: done_event_def)
qed

text \<open>
  C2: a start command is only ever queued to an agent after the start of its run was committed: every
  assigned agent had announced that it is ready, no preparation failure was recorded, the run is no longer
  pending, and the command carries the committed start time.
\<close>

theorem start_safety:
  assumes "reachable sv cid liveness s" "map_of (in_downlinks s) ch = Some d" "Down (Start rid t) \<in> set (dl_queue d)"
  shows "\<exists>run. map_of (in_runs s) rid = Some run \<and> cr_start_unix_ms run = Some t \<and>
    (\<forall>aid\<in>set (cr_assigned run). map_of (cr_phases run) aid = Some Ready) \<and> cr_failure run = None \<and> cr_state run \<noteq> Pending"
proof -
  have b: "base_inv s" using reachable_inv [OF assms(1)] by (simp add: ctl_inv_def)
  then have "item_ok s (Down (Start rid t))" using base_invD(7) [OF b assms(2)] assms(3) by (auto simp: link_ok_def list_all_iff)
  then obtain run where r: "map_of (in_runs s) rid = Some run" "cr_start_unix_ms run = Some t" by (auto simp: started_at_def)
  have ok: "run_ok run" by (rule base_invD(4) [OF b r(1)])
  have "map_of (cr_phases run) aid = Some Ready" if "aid \<in> set (cr_assigned run)" for aid
  proof -
    have "aid \<in> fst ` set (cr_phases run)" using ok that by (auto simp: run_ok_def)
    then obtain p where p: "map_of (cr_phases run) aid = Some p" by (metis map_of_eq_None_iff not_Some_eq)
    then have "p = Ready" using ok r(2) map_of_SomeD [OF p] by (auto simp: run_ok_def all_ready_def list_all_iff)
    then show ?thesis using p by simp
  qed
  then show ?thesis using r ok by (auto simp: run_ok_def)
qed

theorem start_safety_witness:
  "\<exists>run. map_of (in_runs started_state) ''r1'' = Some run \<and> cr_start_unix_ms run = Some 0 \<and> cr_state run \<noteq> Pending"
  using start_safety [OF demo_started, of 1 _ "''r1''" 0] by (auto simp: demo_state_def)



text \<open>
  C28: the identity of a run, the agents assigned to it and its committed start time never change, and a
  run that has left the pending state never returns to it.
\<close>

theorem run_history:
  assumes "reachable sv cid liveness s" "fresh_ids e s" "map_of (in_runs s) rid = Some run"
  shows "\<exists>run'. map_of (in_runs (ctl_step sv e s)) rid = Some run' \<and> cr_run_id run' = rid \<and> cr_assigned run' = cr_assigned run \<and>
    (cr_start_unix_ms run \<noteq> None \<longrightarrow> cr_start_unix_ms run' = cr_start_unix_ms run) \<and>
    (cr_state run \<noteq> Pending \<longrightarrow> cr_state run' \<noteq> Pending)"
proof -
  have inv: "ctl_inv s" by (rule reachable_inv [OF assms(1)])
  then have "adv s (ctl_step sv e s)" using step_inv assms(2) by blast
  then obtain run' where "map_of (in_runs (ctl_step sv e s)) rid = Some run'" "run_adv run run'"
    using assms(3) by (auto simp: adv_def)
  moreover have "cr_run_id run = rid" using inv base_invD(5) [OF _ assms(3)] by (simp add: ctl_inv_def)
  ultimately show ?thesis by (auto simp: run_adv_def)
qed

theorem run_history_witness:
  "\<exists>run'. map_of (in_runs finished_state) ''r1'' = Some run' \<and> cr_run_id run' = ''r1'' \<and> cr_assigned run' = [''a1''] \<and>
    cr_start_unix_ms run' = Some 0 \<and> cr_state run' \<noteq> Pending"
  using run_history [OF demo_started, of done_event "''r1''" started_run, folded finished_state_def]
  by (auto simp: done_event_def demo_state_def commit_start_def clock0_def)

lemma try_send_fields [simp]:
  "in_runs (try_send ch it s) = in_runs s" "in_agents (try_send ch it s) = in_agents s" "in_tasks (try_send ch it s) = in_tasks s"
  by (simp_all add: try_send_def split: option.split)

lemma upd_agent_fields [simp]:
  "in_runs (upd_agent aid f s) = in_runs s" "in_tasks (upd_agent aid f s) = in_tasks s"
  "map_of (in_agents (upd_agent aid f s)) aid = map_option f (map_of (in_agents s) aid)"
  by (simp_all add: upd_agent_def split: option.split)

text \<open>
  C29: a message of a superseded session, and a numbered message that the controller has already
  applied, leave every run, every waiting task, the sequence cursor and the reservation of the agent
  as they are.
\<close>

theorem uplink_fenced:
  assumes "map_of (in_agents s) aid = Some e" "ae_session e \<noteq> session \<or> 0 < seq \<and> seq \<le> ae_last_seq e"
  shows "\<exists>e'. map_of (in_agents (ctl_step sv (EUplink ck aid session (seq, payload)) s)) aid = Some e' \<and>
    ae_last_seq e' = ae_last_seq e \<and> ae_active_run e' = ae_active_run e \<and> ae_session e' = ae_session e \<and>
    in_runs (ctl_step sv (EUplink ck aid session (seq, payload)) s) = in_runs s \<and>
    in_tasks (ctl_step sv (EUplink ck aid session (seq, payload)) s) = in_tasks s"
  using assms by (cases "ae_session e = session")
    (simp_all add: pump_def handle_agent_message_def admit_msg_def Let_def send_uplink_ack_def mark_disconnected_def)

theorem uplink_fenced_witness:
  "in_runs (ctl_step demo_services (EUplink clock0 ''a1'' 1 (1, AssignmentReady ''r1'' 0)) started_state) = [(''r1'', started_run)]"
  using uplink_fenced [of started_state "''a1''" "reserved_entry\<lparr>ae_last_seq := 1\<rparr>" 1 1 demo_services clock0 "AssignmentReady ''r1'' 0"]
  by (auto simp: demo_state_def)

text \<open>
  C30: a preparation barrier polled at or after its deadline does not wait again: the start was
  committed, or the run had already ended, or the run now fails with a reason and a verdict that is not success.
\<close>

theorem barrier_ends:
  assumes "reachable sv cid liveness s" "i < length (in_tasks s)" "in_tasks s ! i = TBarrier rid b d" "d \<le> ck_now ck"
  shows "\<exists>run'. map_of (in_runs (ctl_step sv (ETask ck i) s)) rid = Some run' \<and>
    (\<forall>b' d'. TBarrier rid b' d' \<notin> set (in_tasks (ctl_step sv (ETask ck i) s))) \<and>
    (is_terminal (cr_state run') \<or> cr_start_unix_ms run' = Some (int (ck_unix_ms ck) + int (b div 1000000)) \<or>
     (\<exists>sends v. TFail rid sends v \<in> set (in_tasks (ctl_step sv (ETask ck i) s)) \<and> (v = Failed \<or> v = Aborted) \<and>
       cr_abort_reason run' \<noteq> None))"
proof -
  have inv: "ctl_inv s" by (rule reachable_inv [OF assms(1)])
  then have b: "base_inv s" and "task_ok s (TBarrier rid b d)" and dist: "distinct (concat (map may_start (in_tasks s)))"
    using assms(2,3) by (auto simp: ctl_inv_def list_all_length dest: spec [of _ i])
  then obtain run where run: "map_of (in_runs s) rid = Some run" by (auto simp: not_started_def)
  define others where "others = take i (in_tasks s) @ drop (i + 1) (in_tasks s)"
  have other: "TBarrier rid b' d' \<notin> set others" for b' d'
    using distinct_concat_other [OF dist assms(2), of rid "TBarrier rid b' d'"] assms(3) by (auto simp: others_def)
  obtain ts s' where step: "barrier_step ck rid b d s = (ts, s')" by (metis surj_pair)
  then have tasks: "set (in_tasks (ctl_step sv (ETask ck i) s)) = set ts \<union> set others" "in_runs (ctl_step sv (ETask ck i) s) = in_runs s'"
    using assms(2,3) by (auto simp: others_def)
  show ?thesis
  proof (cases "barrier_decision ck b d run")
    case (Started t)
    moreover from this have "t = int (ck_unix_ms ck) + int (b div 1000000)"
      by (auto simp: barrier_decision_def split: if_splits option.splits)
    ultimately show ?thesis using step run other unfolding tasks by (auto simp: barrier_step_def Let_def set_run_def commit_start_def)
  next
    case (FailRun reason v)
    then have "v = Failed \<or> v = Aborted" using barrier_failure_bad [OF base_invD(4) [OF b run] FailRun] by (simp add: bad_end_def)
    moreover have "cr_abort_reason (set_abort_reason reason run) \<noteq> None" by (simp add: set_abort_reason_def split: option.split)
    moreover have "ts = [TFail rid (stops_for (set_abort_reason reason run) s) v]" "in_runs s' = AList.update rid (set_abort_reason reason run) (in_runs s)"
      using FailRun step run by (auto simp: barrier_step_def Let_def set_run_def)
    moreover from this have "TFail rid (stops_for (set_abort_reason reason run) s) v \<in> set ts \<union> set others" by simp
    ultimately show ?thesis using other unfolding tasks by fastforce
  next
    case Settled
    then have "is_terminal (cr_state run)" by (auto simp: barrier_decision_def split: if_splits option.splits)
    then show ?thesis using Settled step run other unfolding tasks by (auto simp: barrier_step_def)
  next
    case Wait
    then show ?thesis using assms(4) by (auto simp: barrier_decision_def split: if_splits option.splits)
  qed
qed

theorem barrier_ends_witness:
  "\<exists>run'. map_of (in_runs (ctl_step demo_services (ETask clock0 0) (demo_state reserved_entry [(''r1'', demo_run)] [greeting, assignment_sent] [TBarrier ''r1'' 0 0]))) ''r1''
     = Some run' \<and> TBarrier ''r1'' 0 0 \<notin>
       set (in_tasks (ctl_step demo_services (ETask clock0 0) (demo_state reserved_entry [(''r1'', demo_run)] [greeting, assignment_sent] [TBarrier ''r1'' 0 0])))"
  using barrier_ends [OF demo_assigned, of 0 "''r1''" 0 0 clock0] by (auto simp: demo_state_def)

end
