(* ===== verification/Uplink.thy ===== *)
theory Uplink
  imports Prelude
begin

text \<open>
  The agent's acknowledged uplink window (\<open>loadr-agent/src/uplink.rs\<close>). A method that takes the
  state lock is a function of the window's state; \<open>'m\<close> is the payload of a message, and the size
  \<open>encoded_len\<close> of an encoded message, computed by \<open>prost\<close>, is an argument. Waiting is a result:
  \<open>enqueue\<close> parks and \<open>next_unsent\<close> pends until they are polled again.
\<close>

section \<open>State and operations\<close>

definition DEFAULT_MAX_BYTES :: nat where
  "DEFAULT_MAX_BYTES = 16 * 1024 * 1024"

definition DEFAULT_MAX_MESSAGES :: nat where
  "DEFAULT_MAX_MESSAGES = 4096"

record 'm entry =
  e_seq :: nat
  e_msg :: 'm
  e_bytes :: nat

record 'm uplink =
  next_seq :: nat
  pending :: "'m entry list"
  cursor :: nat
  up_bytes :: nat
  epoch :: nat
  up_closed :: bool
  max_bytes :: nat
  max_messages :: nat

datatype 'm rejected = Full 'm | UpClosed

definition with_limits :: "nat \<Rightarrow> nat \<Rightarrow> 'm uplink" where
  "with_limits mb mm =
     \<lparr>next_seq = 0, pending = [], cursor = 0, up_bytes = 0, epoch = 0, up_closed = False,
      max_bytes = mb, max_messages = mm\<rparr>"

definition up_new :: "'m uplink" where
  "up_new = with_limits DEFAULT_MAX_BYTES DEFAULT_MAX_MESSAGES"

definition up_is_full :: "'m uplink \<Rightarrow> bool" where
  "up_is_full u \<longleftrightarrow> max_bytes u \<le> up_bytes u \<or> max_messages u \<le> length (pending u)"

definition push :: "('m \<Rightarrow> nat) \<Rightarrow> 'm \<Rightarrow> 'm uplink \<Rightarrow> ('m rejected, nat) result \<times> 'm uplink" where
  "push encoded_len msg u =
     (let bytes = encoded_len msg
      in if up_closed u then (Inl UpClosed, u)
         else if up_is_full u then (Inl (Full msg), u)
         else let seq = next_seq u + 1
              in (Inr seq,
                  u\<lparr>next_seq := seq, up_bytes := up_bytes u + bytes,
                    pending := pending u @ [\<lparr>e_seq = seq, e_msg = msg, e_bytes = bytes\<rparr>]\<rparr>))"

definition try_enqueue :: "('m \<Rightarrow> nat) \<Rightarrow> 'm \<Rightarrow> 'm uplink \<Rightarrow> bool \<times> 'm uplink" where
  "try_enqueue encoded_len msg u = (case push encoded_len msg u of (r, u') \<Rightarrow> (is_ok r, u'))"

text \<open>One poll of \<open>enqueue\<close>: \<open>Inr\<close> its result, \<open>Inl\<close> the message a parked producer retries with.\<close>

definition enqueue_poll :: "('m \<Rightarrow> nat) \<Rightarrow> 'm \<Rightarrow> 'm uplink \<Rightarrow> ('m, bool) result \<times> 'm uplink" where
  "enqueue_poll encoded_len msg u =
     (case push encoded_len msg u of
        (Inr _, u') \<Rightarrow> (Inr True, u')
      | (Inl UpClosed, u') \<Rightarrow> (Inr False, u')
      | (Inl (Full returned), u') \<Rightarrow> (Inl returned, u'))"

text \<open>The loop of \<open>ack\<close>: it returns how many entries it freed.\<close>

fun ack_loop :: "nat \<Rightarrow> 'm entry list \<Rightarrow> nat \<Rightarrow> nat \<Rightarrow> nat \<times> 'm entry list \<times> nat" where
  "ack_loop seq [] bytes freed = (freed, [], bytes)"
| "ack_loop seq (en # es) bytes freed =
     (if e_seq en \<le> seq then ack_loop seq es (bytes - e_bytes en) (freed + 1)
      else (freed, en # es, bytes))"

definition ack :: "nat \<Rightarrow> 'm uplink \<Rightarrow> 'm uplink" where
  "ack seq u =
     (if next_seq u < seq then u
      else case ack_loop seq (pending u) (up_bytes u) 0 of
             (freed, es, bytes) \<Rightarrow>
               if freed = 0 then u
               else u\<lparr>pending := es, up_bytes := bytes, cursor := cursor u - freed\<rparr>)"

definition rewind :: "'m uplink \<Rightarrow> nat \<times> 'm uplink" where
  "rewind u = (epoch u + 1, u\<lparr>epoch := epoch u + 1, cursor := 0\<rparr>)"

datatype 'm unsent = Next "nat \<times> 'm" | Ended | Waiting

definition next_unsent :: "nat \<Rightarrow> 'm uplink \<Rightarrow> 'm unsent \<times> 'm uplink" where
  "next_unsent ep u =
     (if epoch u \<noteq> ep then (Ended, u)
      else if cursor u < length (pending u)
      then (Next (e_seq (pending u ! cursor u), e_msg (pending u ! cursor u)), u\<lparr>cursor := cursor u + 1\<rparr>)
      else if up_closed u then (Ended, u)
      else (Waiting, u))"

definition up_close :: "'m uplink \<Rightarrow> 'm uplink" where
  "up_close u = u\<lparr>up_closed := True\<rparr>"

section \<open>The window invariant\<close>

text \<open>
  How many messages have been retired: the window holds the sequence numbers
  \<open>base u + 1 .. next_seq u\<close> in order. Relative to the list of all messages ever admitted, the
  window is the tail after \<open>base\<close>.
\<close>

definition base :: "'m uplink \<Rightarrow> nat" where
  "base u = next_seq u - length (pending u)"

definition uplink_inv :: "'m uplink \<Rightarrow> bool" where
  "uplink_inv u \<longleftrightarrow>
     length (pending u) \<le> next_seq u \<and>
     (\<forall>i < length (pending u). e_seq (pending u ! i) = base u + i + 1) \<and>
     cursor u \<le> length (pending u) \<and>
     up_bytes u = sum_list (map e_bytes (pending u))"

lemma uplink_invD [invs]:
  assumes "uplink_inv u"
  shows "length (pending u) \<le> next_seq u" "base u + length (pending u) = next_seq u"
    "i < length (pending u) \<Longrightarrow> e_seq (pending u ! i) = base u + i + 1"
    "cursor u \<le> length (pending u)" "up_bytes u = sum_list (map e_bytes (pending u))"
  using assms by (auto simp: uplink_inv_def base_def)

lemma with_limits_inv [intro]: "uplink_inv (with_limits mb mm)"
  by (simp add: uplink_inv_def with_limits_def)

lemma push_cases:
  obtains (closed) "up_closed u" "push enc m u = (Inl UpClosed, u)"
  | (full) "\<not> up_closed u" "up_is_full u" "push enc m u = (Inl (Full m), u)"
  | (admitted) "\<not> up_closed u" "\<not> up_is_full u" "push enc m u =
      (Inr (next_seq u + 1), u\<lparr>next_seq := next_seq u + 1, up_bytes := up_bytes u + enc m,
        pending := pending u @ [\<lparr>e_seq = next_seq u + 1, e_msg = m, e_bytes = enc m\<rparr>]\<rparr>)"
  by (cases "up_closed u"; cases "up_is_full u") (simp_all add: push_def Let_def)

lemma push_inv:
  assumes "uplink_inv u" "push enc m u = (r, u')"
  shows "uplink_inv u'"
  using push_cases [of u enc m]
proof cases
  case admitted
  with assms show ?thesis by (auto simp: uplink_inv_def base_def nth_append not_less)
qed (use assms in simp_all)

text \<open>The loop frees exactly the prefix of sequence numbers up to \<open>seq\<close>.\<close>

lemma ack_loop_eq:
  assumes "\<forall>i < length es. e_seq (es ! i) = b + i + 1" "sum_list (map e_bytes es) \<le> bytes"
  shows "ack_loop seq es bytes freed =
    (let k = min (seq - b) (length es) in (freed + k, drop k es, bytes - sum_list (map e_bytes (take k es))))"
  using assms
proof (induction es arbitrary: b bytes freed)
  case (Cons en es)
  have en: "e_seq en = b + 1" using Cons.prems(1) by force
  have rest: "\<forall>i < length es. e_seq (es ! i) = (b + 1) + i + 1" using Cons.prems(1) by force
  show ?case
  proof (cases "seq \<le> b")
    case False
    then have "min (seq - b) (length (en # es)) = Suc (min (seq - (b + 1)) (length es))" by auto
    with False Cons.IH [OF rest, of "bytes - e_bytes en" "freed + 1"] Cons.prems(2) en show ?thesis
      by (simp add: Let_def)
  qed (simp add: en Let_def)
qed simp

lemma ack_eq:
  assumes "uplink_inv u"
  shows "ack seq u =
    (if next_seq u < seq then u
     else u\<lparr>pending := drop (seq - base u) (pending u),
            up_bytes := sum_list (map e_bytes (drop (seq - base u) (pending u))),
            cursor := cursor u - min (seq - base u) (length (pending u))\<rparr>)"
proof (cases "next_seq u < seq")
  case False
  let ?k = "min (seq - base u) (length (pending u))"
  have drop: "drop ?k (pending u) = drop (seq - base u) (pending u)" by (simp add: min_def)
  have sum: "up_bytes u - sum_list (map e_bytes (take ?k (pending u))) = sum_list (map e_bytes (drop ?k (pending u)))"
  proof -
    have "sum_list (map e_bytes (take ?k (pending u))) + sum_list (map e_bytes (drop ?k (pending u))) = up_bytes u"
      using uplink_invD(5) [OF assms] by (metis append_take_drop_id map_append sum_list_append)
    then show ?thesis by linarith
  qed
  have loop: "ack_loop seq (pending u) (up_bytes u) 0 =
      (?k, drop (seq - base u) (pending u), sum_list (map e_bytes (drop (seq - base u) (pending u))))"
    using ack_loop_eq [of "pending u" "base u" "up_bytes u" seq 0] uplink_invD(3,5) [OF assms] sum drop
    by (simp add: Let_def)
  show ?thesis
  proof (cases "?k = 0")
    case True
    then have "drop (seq - base u) (pending u) = pending u" using drop by (metis drop0)
    then show ?thesis using False loop True uplink_invD(5) [OF assms] by (simp add: ack_def)
  qed (use False in \<open>auto simp: ack_def loop min_def\<close>)
qed (simp add: ack_def)

lemma ack_base:
  assumes "uplink_inv u" "seq \<le> next_seq u"
  shows "base (ack seq u) = max (base u) seq" "next_seq (ack seq u) = next_seq u" "uplink_inv (ack seq u)"
proof -
  note inv = uplink_invD [OF assms(1)]
  show b: "base (ack seq u) = max (base u) seq" and n: "next_seq (ack seq u) = next_seq u"
    using assms inv(1,2) by (auto simp: ack_eq base_def max_def)
  show "uplink_inv (ack seq u)"
    using assms inv b by (auto simp: uplink_inv_def ack_eq max_def)
qed

lemma ack_inv: "uplink_inv u \<Longrightarrow> uplink_inv (ack seq u)"
  using ack_base(3) [of u seq] by (cases "seq \<le> next_seq u") (simp_all add: ack_eq)

lemma rewind_inv: "uplink_inv u \<Longrightarrow> uplink_inv (snd (rewind u))"
  by (auto simp: rewind_def uplink_inv_def base_def)

lemma next_unsent_inv: "uplink_inv u \<Longrightarrow> uplink_inv (snd (next_unsent ep u))"
  by (auto simp: next_unsent_def uplink_inv_def base_def)

lemma up_close_inv: "uplink_inv u \<Longrightarrow> uplink_inv (up_close u)"
  by (auto simp: up_close_def uplink_inv_def base_def)

section \<open>Histories of a window\<close>

text \<open>The operations producers, writers and acknowledgements perform, in any order.\<close>

datatype 'm up_op = OpPush 'm | OpAck nat | OpRewind | OpNext nat | OpClose

text \<open>The window together with the list of all messages it ever admitted and the highest acknowledgement.\<close>

fun up_exec :: "('m \<Rightarrow> nat) \<Rightarrow> 'm up_op \<Rightarrow> 'm uplink \<times> 'm list \<times> nat \<Rightarrow> 'm uplink \<times> 'm list \<times> nat" where
  "up_exec enc (OpPush m) (u, hist, hi) =
     (case push enc m u of (Inr _, u') \<Rightarrow> (u', hist @ [m], hi) | (Inl _, u') \<Rightarrow> (u', hist, hi))"
| "up_exec enc (OpAck n) (u, hist, hi) = (ack n u, hist, if n \<le> next_seq u then max hi n else hi)"
| "up_exec enc OpRewind (u, hist, hi) = (snd (rewind u), hist, hi)"
| "up_exec enc (OpNext ep) (u, hist, hi) = (snd (next_unsent ep u), hist, hi)"
| "up_exec enc OpClose (u, hist, hi) = (up_close u, hist, hi)"

definition window_ok :: "nat \<Rightarrow> nat \<Rightarrow> 'm uplink \<times> 'm list \<times> nat \<Rightarrow> bool" where
  "window_ok mb mm x =
     (case x of (u, hist, hi) \<Rightarrow>
        uplink_inv u \<and> max_bytes u = mb \<and> max_messages u = mm \<and>
        next_seq u = length hist \<and> base u = hi \<and> map e_msg (pending u) = drop hi hist \<and>
        length (pending u) \<le> mm \<and>
        (pending u \<noteq> [] \<longrightarrow> sum_list (map e_bytes (butlast (pending u))) < mb))"

lemma sum_butlast_drop:
  "xs \<noteq> [] \<Longrightarrow> sum_list (map f (butlast xs)) < m \<Longrightarrow> drop k xs \<noteq> [] \<Longrightarrow>
   sum_list (map f (butlast (drop k xs))) < m" for f :: "'a \<Rightarrow> nat"
proof (induction xs arbitrary: k)
  case (Cons x xs)
  then show ?case by (cases k; cases xs) auto
qed simp

lemma window_ok_push:
  assumes "window_ok mb mm (u, hist, hi)"
  shows "window_ok mb mm (up_exec enc (OpPush m) (u, hist, hi))"
  using push_cases [of u enc m]
proof cases
  case admitted
  have "uplink_inv u" using assms by (simp add: window_ok_def)
  note inv' = push_inv [OF this admitted(3)] and inv = uplink_invD [OF this]
  show ?thesis using assms admitted inv' inv
    by (auto simp: window_ok_def up_is_full_def not_le base_def)
qed (use assms in simp_all)

lemma window_ok_exec:
  assumes "window_ok mb mm x"
  shows "window_ok mb mm (up_exec enc op' x)"
proof -
  obtain u hist hi where x: "x = (u, hist, hi)" by (cases x)
  have inv: "uplink_inv u" using assms by (simp add: x window_ok_def)
  show ?thesis
  proof (cases op')
    case (OpPush m)
    then show ?thesis using window_ok_push assms by (simp add: x)
  next
    case (OpAck n)
    show ?thesis
    proof (cases "n \<le> next_seq u")
      case True
      note a = ack_base [OF inv True]
      have "map e_msg (pending (ack n u)) = drop (max hi n) hist"
        using True assms by (auto simp: x window_ok_def ack_eq max_def simp flip: drop_map)
      moreover have "length (pending (ack n u)) \<le> mm"
        using True assms by (auto simp: x window_ok_def ack_eq)
      moreover have "pending (ack n u) \<noteq> [] \<longrightarrow> sum_list (map e_bytes (butlast (pending (ack n u)))) < mb"
        using True assms sum_butlast_drop [of "pending u" e_bytes mb "n - base u"]
        by (cases "pending u = []") (auto simp: x window_ok_def ack_eq)
      moreover have "max_bytes (ack n u) = mb" "max_messages (ack n u) = mm"
        using assms by (simp_all add: x window_ok_def ack_eq)
      ultimately show ?thesis using assms OpAck True a by (simp add: x window_ok_def)
    next
      case False
      then show ?thesis using assms OpAck by (simp add: x ack_def)
    qed
  next
    case OpRewind
    then show ?thesis using assms rewind_inv [OF inv] by (auto simp: x window_ok_def rewind_def base_def)
  next
    case (OpNext ep)
    then show ?thesis using assms next_unsent_inv [OF inv, of ep] by (auto simp: x window_ok_def next_unsent_def base_def)
  next
    case OpClose
    then show ?thesis using assms up_close_inv [OF inv] by (auto simp: x window_ok_def up_close_def base_def)
  qed
qed

text \<open>
  C20: nothing leaves the window until it is acknowledged. After any sequence of operations on a
  fresh window: the window holds exactly the messages admitted after the highest credible
  acknowledgement, in admission order and under consecutive sequence numbers; the byte count is
  the sum over the window; the window never exceeds its message limit, and all but its newest
  message stay below the byte limit.
\<close>

theorem uplink_retains_unacknowledged:
  assumes "fold (up_exec enc) ops (with_limits mb mm, [], 0) = (u, hist, hi)"
  shows "map e_msg (pending u) = drop hi hist \<and>
    map e_seq (pending u) = [hi + 1..<length hist + 1] \<and> hi \<le> length hist \<and>
    cursor u \<le> length (pending u) \<and>
    up_bytes u = sum_list (map e_bytes (pending u)) \<and> length (pending u) \<le> mm \<and>
    (pending u \<noteq> [] \<longrightarrow> sum_list (map e_bytes (butlast (pending u))) < mb)"
proof -
  have "window_ok mb mm x \<Longrightarrow> window_ok mb mm (fold (up_exec enc) ops x)" for x
  proof (induction ops arbitrary: x)
    case (Cons op' ops)
    then show ?case using window_ok_exec [OF Cons.prems, of enc op'] by simp
  qed simp
  moreover have "window_ok mb mm (with_limits mb mm, [], 0)"
    by (simp add: window_ok_def with_limits_inv) (simp add: with_limits_def base_def)
  ultimately have ok: "window_ok mb mm (u, hist, hi)" using assms by metis
  then have inv: "uplink_inv u" by (simp add: window_ok_def)
  have "map e_seq (pending u) = [hi + 1..<length hist + 1]"
    using ok uplink_invD(2,3) [OF inv] by (intro nth_equalityI) (auto simp: window_ok_def simp del: upt_Suc)
  with ok uplink_invD [OF inv] show ?thesis by (auto simp: window_ok_def)
qed

theorem uplink_retains_unacknowledged_witness:
  "map e_msg (pending (fst (fold (up_exec (\<lambda>_. 10)) [OpPush ''a'', OpPush ''b'', OpRewind, OpNext 1, OpPush ''c'', OpAck 1, OpAck 9, OpRewind]
     (with_limits 25 4, [], 0)))) = [''b'', ''c'']"
proof -
  let ?x = "fold (up_exec (\<lambda>_. 10)) [OpPush ''a'', OpPush ''b'', OpRewind, OpNext 1, OpPush ''c'', OpAck 1, OpAck 9, OpRewind]
     (with_limits 25 4, [], 0)"
  have "snd ?x = ([''a'', ''b'', ''c''], 1)"
    by (simp add: with_limits_def push_def up_is_full_def rewind_def next_unsent_def ack_def)
  then have "?x = (fst ?x, [''a'', ''b'', ''c''], 1)" by (metis prod.collapse)
  from uplink_retains_unacknowledged [OF this] show ?thesis by simp
qed

section \<open>The writer loop ends\<close>

text \<open>What the turns of the writer of session \<open>ep\<close> return while other operations happen in between.\<close>

definition up_apply :: "('m \<Rightarrow> nat) \<Rightarrow> 'm up_op \<Rightarrow> 'm uplink \<Rightarrow> 'm uplink" where
  "up_apply enc op' u = fst (up_exec enc op' (u, [], 0))"

fun turns :: "('m \<Rightarrow> nat) \<Rightarrow> nat \<Rightarrow> 'm up_op list \<Rightarrow> 'm uplink \<Rightarrow> 'm unsent list" where
  "turns enc ep [] u = []"
| "turns enc ep (op' # ops) u =
     (if op' = OpNext ep then [fst (next_unsent ep u)] else []) @ turns enc ep ops (up_apply enc op' u)"

text \<open>How many messages that writer can still write.\<close>

definition unwritten :: "nat \<Rightarrow> 'm uplink \<Rightarrow> nat" where
  "unwritten ep u = (if epoch u = ep then length (pending u) - cursor u else 0)"

lemma up_apply_closed:
  assumes "uplink_inv u" "up_closed u" "ep \<le> epoch u"
  shows "uplink_inv (up_apply enc op' u) \<and> up_closed (up_apply enc op' u) \<and> ep \<le> epoch (up_apply enc op' u) \<and>
    unwritten ep (up_apply enc op' u) \<le> unwritten ep u"
proof (cases op')
  case (OpPush m)
  then show ?thesis using assms by (simp add: up_apply_def push_def)
next
  case (OpAck n)
  then show ?thesis using assms ack_inv [OF assms(1)] uplink_invD(4) [OF assms(1)]
    by (auto simp: up_apply_def ack_eq unwritten_def)
next
  case OpRewind
  then show ?thesis using assms rewind_inv [OF assms(1)] by (auto simp: up_apply_def unwritten_def rewind_def)
next
  case (OpNext e)
  then show ?thesis using assms next_unsent_inv [OF assms(1), of e] by (auto simp: up_apply_def unwritten_def next_unsent_def)
next
  case OpClose
  then show ?thesis using assms up_close_inv [OF assms(1)] by (auto simp: up_apply_def unwritten_def up_close_def)
qed

definition is_next :: "'m unsent \<Rightarrow> bool" where
  "is_next r = (case r of Next _ \<Rightarrow> True | _ \<Rightarrow> False)"

lemma turn_closed:
  assumes "up_closed u"
  shows "fst (next_unsent ep u) \<noteq> Waiting"
    "is_next (fst (next_unsent ep u)) \<Longrightarrow> unwritten ep (up_apply enc (OpNext ep) u) < unwritten ep u"
    "\<not> is_next (fst (next_unsent ep u)) \<Longrightarrow> fst (next_unsent ep u) = Ended \<and> unwritten ep u = 0"
  using assms by (auto simp: next_unsent_def up_apply_def unwritten_def is_next_def split: if_splits)

lemma ended_stays:
  assumes "uplink_inv u" "up_closed u" "ep \<le> epoch u" "unwritten ep u = 0"
  shows "set (turns enc ep ops u) \<subseteq> {Ended}"
  using assms
proof (induction ops arbitrary: u)
  case (Cons op' ops)
  have "\<not> is_next (fst (next_unsent ep u))" using turn_closed(2) [of u ep enc] Cons.prems by fastforce
  then have "fst (next_unsent ep u) = Ended" using turn_closed(3) [OF Cons.prems(2)] by blast
  moreover have "set (turns enc ep ops (up_apply enc op' u)) \<subseteq> {Ended}"
    using up_apply_closed [OF Cons.prems(1-3), of enc op'] Cons.prems(4) by (intro Cons.IH) auto
  ultimately show ?case by auto
qed simp

lemma turns_bounded:
  assumes "uplink_inv u" "up_closed u" "ep \<le> epoch u"
  shows "length (filter is_next (turns enc ep ops u)) \<le> unwritten ep u \<and> Waiting \<notin> set (turns enc ep ops u)"
  using assms
proof (induction ops arbitrary: u)
  case (Cons op' ops)
  note a = up_apply_closed [OF Cons.prems, of enc op'] and t = turn_closed [OF Cons.prems(2), of ep]
  show ?case using Cons.IH [of "up_apply enc op' u"] a t(1) t(2) [of enc] by (fastforce simp: le_less_trans)
qed simp

lemma turns_shape:
  assumes "uplink_inv u" "up_closed u" "ep \<le> epoch u"
  shows "set (dropWhile is_next (turns enc ep ops u)) \<subseteq> {Ended}"
  using assms
proof (induction ops arbitrary: u)
  case (Cons op' ops)
  note a = up_apply_closed [OF Cons.prems, of enc op']
  have IH: "set (dropWhile is_next (turns enc ep ops (up_apply enc op' u))) \<subseteq> {Ended}" using a by (intro Cons.IH) auto
  show ?case
  proof (cases "op' = OpNext ep \<and> \<not> is_next (fst (next_unsent ep u))")
    case True
    then have "fst (next_unsent ep u) = Ended" "unwritten ep u = 0" using turn_closed(3) [OF Cons.prems(2)] by blast+
    moreover have "set (turns enc ep ops (up_apply enc op' u)) \<subseteq> {Ended}" using a calculation(2) by (intro ended_stays) auto
    ultimately show ?thesis using True by (simp add: is_next_def)
  qed (use IH in auto)
qed simp

text \<open>
  C21: the writer of a session ends. Once the window is closed, its loop writes at most the messages that
  were still unwritten and never waits, whatever acknowledgements, pushes, later sessions and turns of other
  writers happen in between; one turn more than that finds the end, and so does every turn after it.
\<close>

theorem writer_terminates:
  assumes "uplink_inv u" "up_closed u" "epoch u = ep"
  shows "length (filter is_next (turns enc ep ops u)) \<le> length (pending u) - cursor u \<and> Waiting \<notin> set (turns enc ep ops u) \<and>
    (length (pending u) - cursor u < length (turns enc ep ops u) \<longrightarrow> last (turns enc ep ops u) = Ended)"
proof -
  have b: "length (filter is_next (turns enc ep ops u)) \<le> length (pending u) - cursor u" "Waiting \<notin> set (turns enc ep ops u)"
    using turns_bounded [of u ep enc ops] assms by (simp_all add: unwritten_def)
  moreover have "last (turns enc ep ops u) = Ended" if "length (pending u) - cursor u < length (turns enc ep ops u)"
  proof -
    let ?ts = "turns enc ep ops u"
    have "\<not> (\<forall>r \<in> set ?ts. is_next r)" using b(1) that by (metis filter_True not_le)
    then have "dropWhile is_next ?ts \<noteq> []" by (simp add: dropWhile_eq_Nil_conv)
    moreover have "last ?ts = last (dropWhile is_next ?ts)"
      using calculation by (metis last_appendR takeWhile_dropWhile_id)
    ultimately show ?thesis using turns_shape [of u ep enc ops] assms last_in_set by (metis dual_order.refl empty_iff insert_iff subsetD)
  qed
  ultimately show ?thesis by blast
qed

theorem writer_terminates_witness:
  "turns (\<lambda>_. 1) 1 [OpNext 1, OpAck 1, OpPush ''c'', OpNext 1, OpNext 1]
     ((with_limits 9 9)\<lparr>next_seq := 2, epoch := 1, up_closed := True, up_bytes := 2,
       pending := [\<lparr>e_seq = 1, e_msg = ''a'', e_bytes = 1\<rparr>, \<lparr>e_seq = 2, e_msg = ''b'', e_bytes = 1\<rparr>]\<rparr>)
     = [Next (1, ''a''), Next (2, ''b''), Ended]"
  (is "turns ?enc 1 ?ops ?u = _")
proof -
  have ev: "length (turns ?enc 1 ?ops ?u) = 3" "take 2 (turns ?enc 1 ?ops ?u) = [Next (1, ''a''), Next (2, ''b'')]"
    by (simp_all add: with_limits_def next_unsent_def up_apply_def ack_def push_def)
  have "uplink_inv ?u" by (auto simp: uplink_inv_def base_def with_limits_def less_Suc_eq nth_Cons')
  from writer_terminates [OF this, of 1 ?enc ?ops] ev(1) have "last (turns ?enc 1 ?ops ?u) = Ended" by (simp add: with_limits_def)
  then have "turns ?enc 1 ?ops ?u ! 2 = Ended" using ev(1) by (simp add: last_conv_nth)
  then show ?thesis using ev take_Suc_conv_app_nth [of 2 "turns ?enc 1 ?ops ?u"] by (simp add: numeral_3_eq_3)
qed

end
