(* ===== verification/Delivery.thy ===== *)
theory Delivery
  imports Fencing Controller_Props Uplink "HOL-Library.Sublist"
begin

text \<open>
  The agent's uplink window, the streams of its sessions and the controller, composed: what the agent
  admits to its window reaches the controller's handlers exactly once and in order, although sessions
  die with messages in flight, acknowledgements get lost and the window is replayed.

  A session's stream is a queue in each direction; it may be cut at any time, and then delivers only a
  prefix of what was written to it. The process of an agent is one value of \<open>incarnation\<close>, drawn
  by \<open>uuid\<close>; no other process uses the agent's identifier meanwhile (the controller warns when one does).
  \<open>wd_sent\<close> and \<open>wd_applied\<close> record the messages the window admitted and the numbered messages the
  controller applied.
\<close>

section \<open>The abstract log\<close>

text \<open>A reliable ordered log: messages are appended, and the next one not yet delivered is delivered.\<close>

inductive log_step :: "'m list \<times> 'm list \<Rightarrow> 'm list \<times> 'm list \<Rightarrow> bool" where
  append: "log_step (sent, got) (sent @ [m], got)"
| deliver: "got = take (length got) sent \<Longrightarrow> length got < length sent \<Longrightarrow> log_step (sent, got) (sent, got @ [sent ! length got])"
| idle: "log_step x x"

section \<open>The composed system\<close>

record wire =
  wi_queue :: "(nat \<times> agent_payload) list"
  wi_open :: bool

record 'h world =
  wd_up :: "agent_payload uplink"
  wd_writer :: "(nat \<times> nat) option"
  wd_wires :: "(nat, wire) hashmap"
  wd_ctl :: "'h inner"
  wd_sent :: "agent_payload list"
  wd_applied :: "agent_payload list"

datatype world_event =
    WSend agent_payload
  | WClose
  | WConnect clock register_msg "string option"
  | WOpen nat
  | WWrite
  | WHeartbeat nat
  | WStop bool
  | WCut nat nat
  | WDeliver clock nat
  | WRecv
  | WEnv event

definition world_init :: "nat \<Rightarrow> nat \<Rightarrow> 'h inner \<Rightarrow> 'h world" where
  "world_init mb mm s = \<lparr>wd_up = with_limits mb mm, wd_writer = None, wd_wires = [], wd_ctl = s, wd_sent = [], wd_applied = []\<rparr>"

text \<open>Writing to a session's stream: a stream that was cut takes nothing.\<close>

definition wire_put :: "nat \<Rightarrow> nat \<times> agent_payload \<Rightarrow> 'h world \<Rightarrow> 'h world" where
  "wire_put n msg w =
     (case map_of (wd_wires w) n of
        Some wi \<Rightarrow> if wi_open wi then w\<lparr>wd_wires := AList.update n (wi\<lparr>wi_queue := wi_queue wi @ [msg]\<rparr>) (wd_wires w)\<rparr> else w
      | None \<Rightarrow> w)"

text \<open>\<open>SessionWriter::spawn\<close> and one turn of its loop.\<close>

definition spawn_writer :: "nat \<Rightarrow> 'h world \<Rightarrow> 'h world" where
  "spawn_writer n w = (case rewind (wd_up w) of (ep, u) \<Rightarrow> w\<lparr>wd_up := u, wd_writer := Some (ep, n)\<rparr>)"

definition writer_turn :: "'h world \<Rightarrow> 'h world" where
  "writer_turn w =
     (case wd_writer w of
        None \<Rightarrow> w
      | Some (ep, n) \<Rightarrow>
          (case next_unsent ep (wd_up w) of
             (Next msg, u) \<Rightarrow> wire_put n msg (w\<lparr>wd_up := u\<rparr>)
           | (Ended, u) \<Rightarrow> w\<lparr>wd_writer := None\<rparr>
           | (Waiting, u) \<Rightarrow> w))"

text \<open>\<open>SessionWriter::stop\<close>; \<open>mid\<close> when the writer had taken a message that it never wrote.\<close>

definition stop_writer :: "bool \<Rightarrow> 'h world \<Rightarrow> 'h world" where
  "stop_writer mid w =
     (case wd_writer w of
        None \<Rightarrow> w
      | Some (ep, n) \<Rightarrow> w\<lparr>wd_up := (if mid then snd (next_unsent ep (wd_up w)) else wd_up w), wd_writer := None\<rparr>)"

text \<open>
  The session loop reads one item of its downlink. An acknowledgement retires window entries and an error ends
  the session; what the other messages make the agent send is any sequence of \<open>WSend\<close> events.
\<close>

definition read_downlink :: "'h services \<Rightarrow> 'h world \<Rightarrow> 'h world" where
  "read_downlink sv w =
     (case wd_writer w of
        None \<Rightarrow> w
      | Some (ep, n) \<Rightarrow>
          (case map_of (in_downlinks (wd_ctl w)) n of
             None \<Rightarrow> w
           | Some d \<Rightarrow>
               (case dl_queue d of
                  [] \<Rightarrow> w
                | item # _ \<Rightarrow>
                    let w1 = w\<lparr>wd_ctl := ctl_step sv (EDownRecv n) (wd_ctl w)\<rparr>
                    in (case item of
                          Down (UplinkAck k) \<Rightarrow> w1\<lparr>wd_up := ack k (wd_up w)\<rparr>
                        | Status _ \<Rightarrow> stop_writer False w1
                        | _ \<Rightarrow> w1))))"

text \<open>
  The controller's pump of session \<open>n\<close> reads one message; a refused message ends the stream.
\<close>

definition pump_session :: "'h services \<Rightarrow> string \<Rightarrow> clock \<Rightarrow> nat \<Rightarrow> 'h world \<Rightarrow> 'h world" where
  "pump_session sv aid ck n w =
     (case map_of (wd_wires w) n of
        None \<Rightarrow> w
      | Some wi \<Rightarrow>
          (case wi_queue wi of
             [] \<Rightarrow> w
           | msg # rest \<Rightarrow>
               let verdict = fst (admit_msg ck aid n (fst msg) (wd_ctl w))
               in w\<lparr>wd_ctl := ctl_step sv (EUplink ck aid n msg) (wd_ctl w),
                    wd_wires := AList.update n (if verdict = Stale then \<lparr>wi_queue = [], wi_open = False\<rparr> else wi\<lparr>wi_queue := rest\<rparr>) (wd_wires w),
                    wd_applied := (if verdict = Apply \<and> 0 < fst msg then wd_applied w @ [snd msg] else wd_applied w)\<rparr>))"

fun world_step :: "'h services \<Rightarrow> (agent_payload \<Rightarrow> nat) \<Rightarrow> string \<Rightarrow> world_event \<Rightarrow> 'h world \<Rightarrow> 'h world" where
  "world_step sv enc aid (WSend m) w =
     (case push enc m (wd_up w) of
        (Inr _, u) \<Rightarrow> w\<lparr>wd_up := u, wd_sent := wd_sent w @ [m]\<rparr>
      | (Inl _, _) \<Rightarrow> w)"
| "world_step sv enc aid WClose w = w\<lparr>wd_up := up_close (wd_up w)\<rparr>"
| "world_step sv enc aid (WConnect ck reg peer) w =
     (let s = wd_ctl w; s' = ctl_step sv (EConnect ck (RegisterMsg reg) peer) s
      in w\<lparr>wd_ctl := s',
           wd_wires := (if in_session_counter s' = in_session_counter s then wd_wires w
                        else AList.update (in_session_counter s') \<lparr>wi_queue = [], wi_open = True\<rparr> (wd_wires w))\<rparr>)"
| "world_step sv enc aid (WOpen n) w =
     (if contains_key (wd_wires w) n \<and> wd_writer w = None then spawn_writer n w else w)"
| "world_step sv enc aid WWrite w = writer_turn w"
| "world_step sv enc aid (WHeartbeat vus) w =
     (case wd_writer w of None \<Rightarrow> w | Some (_, n) \<Rightarrow> wire_put n (0, Heartbeat vus) w)"
| "world_step sv enc aid (WStop mid) w = stop_writer mid w"
| "world_step sv enc aid (WCut n k) w =
     (case map_of (wd_wires w) n of
        None \<Rightarrow> w
      | Some wi \<Rightarrow> w\<lparr>wd_wires := AList.update n \<lparr>wi_queue = take k (wi_queue wi), wi_open = False\<rparr> (wd_wires w)\<rparr>)"
| "world_step sv enc aid (WDeliver ck n) w = pump_session sv aid ck n w"
| "world_step sv enc aid WRecv w = read_downlink sv w"
| "world_step sv enc aid (WEnv e) w = w\<lparr>wd_ctl := ctl_step sv e (wd_ctl w)\<rparr>"

text \<open>
  The events that can happen: the agent registers as itself, and what else reaches the controller comes
  from other agents, users, timers and the network.
\<close>

fun from_elsewhere :: "string \<Rightarrow> nat set \<Rightarrow> event \<Rightarrow> bool" where
  "from_elsewhere aid S (EConnect _ (RegisterMsg reg) _) \<longleftrightarrow> rg_agent_id reg \<noteq> aid"
| "from_elsewhere aid S (EUplink _ aid' n _) \<longleftrightarrow> n \<notin> S"
| "from_elsewhere aid S _ \<longleftrightarrow> True"

fun world_allows :: "string \<Rightarrow> string \<Rightarrow> world_event \<Rightarrow> 'h world \<Rightarrow> bool" where
  "world_allows aid inc (WConnect _ reg _) w \<longleftrightarrow> rg_agent_id reg = aid \<and> rg_incarnation reg = inc"
| "world_allows aid inc (WEnv e) w \<longleftrightarrow> from_elsewhere aid (fst ` set (wd_wires w)) e \<and> fresh_ids e (wd_ctl w)"
| "world_allows aid inc _ w \<longleftrightarrow> True"

definition fresh_process :: "string \<Rightarrow> string \<Rightarrow> 'h inner \<Rightarrow> bool" where
  "fresh_process aid inc s \<longleftrightarrow> (\<forall>e. map_of (in_agents s) aid = Some e \<longrightarrow> ae_incarnation e \<noteq> inc)"

inductive world_reachable ::
  "'h services \<Rightarrow> (agent_payload \<Rightarrow> nat) \<Rightarrow> string \<Rightarrow> string \<Rightarrow> 'h world \<Rightarrow> bool" for sv enc aid inc where
  start: "reachable sv cid liveness s \<Longrightarrow> fresh_process aid inc s \<Longrightarrow> world_reachable sv enc aid inc (world_init mb mm s)"
| step: "world_reachable sv enc aid inc w \<Longrightarrow> world_allows aid inc e w \<Longrightarrow> world_reachable sv enc aid inc (world_step sv enc aid e w)"

section \<open>Streams without gaps\<close>

text \<open>
  \<open>contig q ks\<close>: delivering the messages with indices \<open>ks\<close> to a receiver that has the first \<open>q\<close> never skips one;
  \<open>reach q ks\<close> is how many it then has.
\<close>

fun contig :: "nat \<Rightarrow> nat list \<Rightarrow> bool" where
  "contig q [] \<longleftrightarrow> True"
| "contig q (k # ks) \<longleftrightarrow> k \<le> q \<and> contig (max q (k + 1)) ks"

fun reach :: "nat \<Rightarrow> nat list \<Rightarrow> nat" where
  "reach q [] = q"
| "reach q (k # ks) = reach (max q (k + 1)) ks"

lemma contig_append: "contig q (xs @ ys) \<longleftrightarrow> contig q xs \<and> contig (reach q xs) ys"
  by (induction xs arbitrary: q) auto

lemma reach_append: "reach q (xs @ ys) = reach (reach q xs) ys"
  by (induction xs arbitrary: q) auto

lemma reach_ge: "q \<le> reach q xs"
proof (induction xs arbitrary: q)
  case (Cons x xs)
  show ?case using Cons.IH [of "max q (x + 1)"] by simp
qed simp

lemma reach_mono: "q \<le> q' \<Longrightarrow> reach q xs \<le> reach q' xs"
  by (induction xs arbitrary: q q') auto

lemma contig_mono: "q \<le> q' \<Longrightarrow> contig q xs \<Longrightarrow> contig q' xs"
proof (induction xs arbitrary: q q')
  case (Cons x xs)
  then show ?case by (auto intro: Cons.IH [of "max q (Suc x)"])
qed simp

definition indices :: "(nat \<times> agent_payload) list \<Rightarrow> nat list" where
  "indices ms = map (\<lambda>(s, _). s - 1) (filter (\<lambda>(s, _). 0 < s) ms)"

lemma indices_simps [simp]:
  "indices [] = []" "indices ((s, m) # ms) = (if 0 < s then (s - 1) # indices ms else indices ms)"
  "indices (xs @ ys) = indices xs @ indices ys"
  by (simp_all add: indices_def)

definition wire_ok :: "agent_payload list \<Rightarrow> nat \<Rightarrow> (nat \<times> agent_payload) list \<Rightarrow> bool" where
  "wire_ok sent q ms \<longleftrightarrow>
     contig q (indices ms) \<and> (\<forall>s m. (s, m) \<in> set ms \<longrightarrow> 0 < s \<longrightarrow> s \<le> length sent \<and> m = sent ! (s - 1))"

lemma wire_ok_Nil [simp]: "wire_ok sent q []"
  by (simp add: wire_ok_def)

lemma wire_ok_mono:
  assumes "wire_ok sent q ms" "q \<le> q'" "prefix sent sent'"
  shows "wire_ok sent' q' ms"
proof -
  obtain more where "sent' = sent @ more" using assms(3) by (auto simp: prefix_def)
  then show ?thesis using assms(1) contig_mono [OF assms(2)] by (fastforce simp: wire_ok_def nth_append)
qed

lemma wire_ok_take: "wire_ok sent q ms \<Longrightarrow> wire_ok sent q (take k ms)"
proof -
  assume ok: "wire_ok sent q ms"
  have "indices ms = indices (take k ms) @ indices (drop k ms)" unfolding indices_simps(3) [symmetric] by simp
  then have "contig q (indices (take k ms))" using ok by (simp add: wire_ok_def contig_append)
  then show ?thesis using ok by (auto simp: wire_ok_def dest: in_set_takeD)
qed

lemma wire_ok_put:
  assumes "wire_ok sent q ms" "s \<le> reach q (indices ms) + 1" "0 < s \<Longrightarrow> s \<le> length sent \<and> m = sent ! (s - 1)"
  shows "wire_ok sent q (ms @ [(s, m)])"
  using assms by (auto simp: wire_ok_def contig_append)

section \<open>The controller's side\<close>

definition cursor_of :: "string \<Rightarrow> string \<Rightarrow> 'h inner \<Rightarrow> nat" where
  "cursor_of aid inc s = (case fence s aid of Some (i, q, _) \<Rightarrow> if i = inc then q else 0 | None \<Rightarrow> 0)"

text \<open>The sessions \<open>S\<close> are those of this process, whoever else is registered.\<close>

definition tied :: "string \<Rightarrow> string \<Rightarrow> nat set \<Rightarrow> 'h inner \<Rightarrow> bool" where
  "tied aid inc S s \<longleftrightarrow>
     (\<forall>aid' i q n m. fence s aid' = Some (i, q, n, m) \<longrightarrow> n = m \<and> (n \<in> S \<longleftrightarrow> aid' = aid \<and> i = inc)) \<and>
     (\<forall>n\<in>S. n \<le> in_session_counter s)"

lemma tiedD:
  assumes "tied aid inc S s"
  shows "fence s aid' = Some (i, q, n, m) \<Longrightarrow> n = m" "fence s aid' = Some (i, q, n, m) \<Longrightarrow> n \<in> S \<longleftrightarrow> aid' = aid \<and> i = inc"
    "n \<in> S \<Longrightarrow> n \<le> in_session_counter s"
  using assms unfolding tied_def by blast+

definition untouched :: "string \<Rightarrow> string \<Rightarrow> nat set \<Rightarrow> 'h inner \<Rightarrow> 'h inner \<Rightarrow> bool" where
  "untouched aid inc S s s' \<longleftrightarrow>
     tied aid inc S s' \<and> cursor_of aid inc s' = cursor_of aid inc s \<and> (\<forall>n\<in>S. set (acks s' n) \<subseteq> set (acks s n))"

lemma calm_untouched: "calm s s' \<Longrightarrow> tied aid inc S s \<Longrightarrow> untouched aid inc S s s'"
  by (simp add: calm_def untouched_def tied_def cursor_of_def)

lemma entry_fence: "map_of (in_agents s) aid = Some e \<Longrightarrow> fence s aid = Some (ae_incarnation e, ae_last_seq e, ae_session e, ae_sender e)"
  by (simp add: fence_def ident_def)

lemma pump_calm_after:
  assumes "admit_msg ck aid n (fst msg) s = (a, s')"
  shows "calm s' (pump sv ck aid n msg s)"
  by (cases a) (simp_all add: pump_def handle_agent_message_def assms)

lemma admit_stale:
  "admit_msg ck aid n seq s = (Stale, s') \<Longrightarrow> s' = s"
  by (auto simp: admit_msg_def Let_def split: option.splits if_splits)

lemma elsewhere_uplink:
  assumes "tied aid inc S s" "n \<notin> S"
  shows "untouched aid inc S s (pump sv ck aid' n msg s)"
proof -
  obtain a s' where a: "admit_msg ck aid' n (fst msg) s = (a, s')" by (metis surj_pair)
  have "untouched aid inc S s s'"
  proof (cases "\<exists>e. map_of (in_agents s) aid' = Some e \<and> ae_session e = n")
    case False
    then have "s' = s" using a by (auto simp: admit_msg_def split: option.splits)
    then show ?thesis using calm_untouched [OF calm_refl assms(1)] by simp
  next
    case True
    then obtain e where e: "map_of (in_agents s) aid' = Some e" "ae_session e = n" by blast
    note f = entry_fence [OF e(1), unfolded e(2)] and c = admit_current [OF e a]
    have m: "ae_sender e = n" and own: "\<not> (aid' = aid \<and> ae_incarnation e = inc)"
      using tiedD(1,2) [OF assms(1) f] assms(2) by auto
    have "tied aid inc S s'"
      using assms own m tiedD [OF assms(1)] unfolding tied_def c(1,2) by (auto simp: fun_upd_def)
    moreover have "cursor_of aid inc s' = cursor_of aid inc s" using own f by (auto simp: cursor_of_def c(1))
    moreover have "acks s' k = acks s k" if "k \<in> S" for k using c(4) [of k] that assms(2) m by auto
    ultimately show ?thesis by (simp add: untouched_def)
  qed
  moreover have "calm s' (pump sv ck aid' n msg s)" by (rule pump_calm_after [OF a])
  ultimately show ?thesis unfolding untouched_def calm_def tied_def cursor_of_def by simp
qed

lemma elsewhere_connect:
  assumes "tied aid inc S s" "\<And>reg. first = RegisterMsg reg \<Longrightarrow> rg_agent_id reg \<noteq> aid"
  shows "untouched aid inc S s (snd (open_session sv ck first peer s))"
proof (cases "\<exists>reg. first = RegisterMsg reg \<and> rg_protocol_version reg = PROTOCOL_VERSION \<and> rg_agent_id reg \<noteq> []")
  case True
  then obtain reg where reg: "first = RegisterMsg reg" "rg_protocol_version reg = PROTOCOL_VERSION" "rg_agent_id reg \<noteq> []" by blast
  note eff = open_session_effect [OF reg(2,3) refl refl, of sv ck peer s]
  have other: "rg_agent_id reg \<noteq> aid" using assms(2) reg(1) .
  have new: "in_session_counter s + 1 \<notin> S" using tiedD(3) [OF assms(1)] by fastforce
  have "tied aid inc S (snd (open_session sv ck first peer s))"
    using assms(1) other new tiedD(3) [OF assms(1)] unfolding tied_def reg(1) eff(1,3) by (auto intro: le_SucI)
  moreover have "acks (snd (open_session sv ck first peer s)) n = acks s n" if "n \<in> S" for n
    using that new unfolding reg(1) eff(2) by auto
  moreover have "cursor_of aid inc (snd (open_session sv ck first peer s)) = cursor_of aid inc s"
    using other unfolding cursor_of_def reg(1) eff(1) by simp
  ultimately show ?thesis by (simp add: untouched_def)
next
  case False
  then show ?thesis using open_session_refused [of first sv ck peer s] calm_untouched [OF calm_refl assms(1)] by auto
qed

lemma elsewhere_downlink:
  assumes "tied aid inc S s" "set (filter is_ack (dl_queue d')) \<subseteq> set (acks s ch)"
  shows "untouched aid inc S s (s\<lparr>in_downlinks := AList.update ch d' (in_downlinks s)\<rparr>)"
  using assms by (auto simp: untouched_def tied_def cursor_of_def fence_def acks_def)

lemma recv_untouched:
  assumes "tied aid inc S s" shows "untouched aid inc S s (ctl_step sv (EDownRecv ch) s)"
proof (cases "map_of (in_downlinks s) ch")
  case (Some d)
  have "set (tl (dl_queue d)) \<subseteq> set (dl_queue d)" by (cases "dl_queue d") auto
  then have "set (filter is_ack (dl_queue (d\<lparr>dl_queue := tl (dl_queue d)\<rparr>))) \<subseteq> set (acks s ch)" by (auto simp: acks_def Some)
  then show ?thesis using elsewhere_downlink [OF assms] Some by simp
qed (use calm_untouched [OF calm_refl assms] in simp)

theorem elsewhere_step:
  assumes "tied aid inc S s" "from_elsewhere aid S e" "no_acks (in_tasks s)"
  shows "untouched aid inc S s (ctl_step sv e s)"
proof (cases e)
  case (EConnect ck first peer)
  have "rg_agent_id reg \<noteq> aid" if "first = RegisterMsg reg" for reg using assms(2) EConnect that by simp
  then show ?thesis unfolding EConnect ctl_step.simps by (rule elsewhere_connect [OF assms(1)])
next
  case (EUplink ck aid' n msg)
  then show ?thesis using elsewhere_uplink [OF assms(1)] assms(2) by simp
next
  case (EDownRecv ch)
  then show ?thesis using recv_untouched [OF assms(1)] by simp
qed (rule calm_untouched [OF step_calm [OF assms(3)] assms(1)]; simp)+

section \<open>The invariant of the composition\<close>

lemma ack_progress:
  assumes "uplink_inv u" "k \<le> next_seq u"
  shows "base (ack k u) + cursor (ack k u) = max (base u + cursor u) k"
proof -
  have "cursor (ack k u) = cursor u - (k - base u)"
    using assms uplink_invD(2,4) [OF assms(1)] by (simp add: ack_eq min_def) linarith
  then show ?thesis unfolding ack_base(1) [OF assms] by auto
qed

lemma next_unsent_progress:
  assumes "uplink_inv u" "next_unsent ep u = (Next (q, m), u')"
  shows "q = base u + cursor u + 1" "m = e_msg (uplink.pending u ! cursor u)" "cursor u < length (uplink.pending u)"
    "base u' = base u" "cursor u' = cursor u + 1" "next_seq u' = next_seq u" "uplink.pending u' = uplink.pending u"
  using assms uplink_invD(3) [OF assms(1)] by (auto simp: next_unsent_def base_def split: if_splits)

lemma next_unsent_keeps:
  "base (snd (next_unsent ep u)) = base u" "next_seq (snd (next_unsent ep u)) = next_seq u"
  "uplink.pending (snd (next_unsent ep u)) = uplink.pending u"
  by (simp_all add: next_unsent_def base_def)

definition window_holds :: "agent_payload list \<Rightarrow> nat \<Rightarrow> agent_payload uplink \<Rightarrow> bool" where
  "window_holds sent q u \<longleftrightarrow>
     uplink_inv u \<and> next_seq u = length sent \<and> map e_msg (uplink.pending u) = drop (base u) sent \<and> base u \<le> q"

text \<open>The position of a running writer: what it writes next is at most one past what its stream will deliver.\<close>

definition writer_ok :: "nat \<Rightarrow> 'h world \<Rightarrow> bool" where
  "writer_ok q w \<longleftrightarrow>
     (\<forall>ep n wi. wd_writer w = Some (ep, n) \<longrightarrow> map_of (wd_wires w) n = Some wi \<longrightarrow> wi_open wi \<longrightarrow>
        base (wd_up w) + cursor (wd_up w) \<le> reach q (indices (wi_queue wi)))"

definition writer_known :: "'h world \<Rightarrow> bool" where
  "writer_known w \<longleftrightarrow> (\<forall>ep n. wd_writer w = Some (ep, n) \<longrightarrow> n \<in> fst ` set (wd_wires w))"

definition acks_ok :: "nat \<Rightarrow> nat set \<Rightarrow> 'h inner \<Rightarrow> bool" where
  "acks_ok q S s \<longleftrightarrow> (\<forall>n\<in>S. \<forall>k. Down (UplinkAck k) \<in> set (acks s n) \<longrightarrow> k \<le> q)"

definition wires_ok :: "agent_payload list \<Rightarrow> nat \<Rightarrow> (nat, wire) hashmap \<Rightarrow> bool" where
  "wires_ok sent q wires \<longleftrightarrow> (\<forall>n wi. map_of wires n = Some wi \<longrightarrow> wire_ok sent q (wi_queue wi))"

definition world_inv :: "string \<Rightarrow> string \<Rightarrow> 'h world \<Rightarrow> bool" where
  "world_inv aid inc w \<longleftrightarrow>
     (let q = cursor_of aid inc (wd_ctl w); S = fst ` set (wd_wires w) in
        ctl_inv (wd_ctl w) \<and> no_acks (in_tasks (wd_ctl w)) \<and> tied aid inc S (wd_ctl w) \<and>
        window_holds (wd_sent w) q (wd_up w) \<and> q \<le> length (wd_sent w) \<and> wd_applied w = take q (wd_sent w) \<and>
        wires_ok (wd_sent w) q (wd_wires w) \<and> acks_ok q S (wd_ctl w) \<and> writer_ok q w)"

lemma world_invI:
  assumes "q = cursor_of aid inc (wd_ctl w)" "ctl_inv (wd_ctl w)" "no_acks (in_tasks (wd_ctl w))" "tied aid inc (fst ` set (wd_wires w)) (wd_ctl w)"
    "window_holds (wd_sent w) q (wd_up w)" "q \<le> length (wd_sent w)" "wd_applied w = take q (wd_sent w)"
    "wires_ok (wd_sent w) q (wd_wires w)" "acks_ok q (fst ` set (wd_wires w)) (wd_ctl w)" "writer_ok q w"
  shows "world_inv aid inc w"
  using assms by (simp add: world_inv_def Let_def)

lemma world_invD:
  assumes "world_inv aid inc w" "q = cursor_of aid inc (wd_ctl w)"
  shows "ctl_inv (wd_ctl w)" "no_acks (in_tasks (wd_ctl w))" "tied aid inc (fst ` set (wd_wires w)) (wd_ctl w)"
    "window_holds (wd_sent w) q (wd_up w)" "q \<le> length (wd_sent w)" "wd_applied w = take q (wd_sent w)"
    "wires_ok (wd_sent w) q (wd_wires w)" "acks_ok q (fst ` set (wd_wires w)) (wd_ctl w)" "writer_ok q w"
  using assms by (simp_all add: world_inv_def Let_def)

lemma wires_ok_mono: "wires_ok sent q wires \<Longrightarrow> q \<le> q' \<Longrightarrow> prefix sent sent' \<Longrightarrow> wires_ok sent' q' wires"
  unfolding wires_ok_def using wire_ok_mono by blast

lemma wires_ok_update: "wires_ok sent q wires \<Longrightarrow> wire_ok sent q (wi_queue wi) \<Longrightarrow> wires_ok sent q (AList.update n wi wires)"
  by (auto simp: wires_ok_def split: if_splits)

lemma dom_wires_update [simp]: "fst ` set (AList.update n wi wires) = insert n (fst ` set wires)"
  by (simp add: dom_update)

lemma key_of: "map_of m k = Some v \<Longrightarrow> k \<in> fst ` set m"
  by (force dest: map_of_SomeD)

section \<open>Steps of the agent\<close>

lemma send_step:
  assumes inv: "world_inv aid inc w" and p: "push enc m (wd_up w) = (Inr k, u)"
  shows "world_inv aid inc (w\<lparr>wd_up := u, wd_sent := wd_sent w @ [m]\<rparr>)"
proof -
  note i = world_invD [OF inv refl]
  have u: "u = (wd_up w)\<lparr>next_seq := next_seq (wd_up w) + 1, up_bytes := up_bytes (wd_up w) + enc m,
      pending := uplink.pending (wd_up w) @ [\<lparr>e_seq = next_seq (wd_up w) + 1, e_msg = m, e_bytes = enc m\<rparr>]\<rparr>"
    using p by (cases rule: push_cases [of "wd_up w" enc m]) auto
  have w: "uplink_inv (wd_up w)" "next_seq (wd_up w) = length (wd_sent w)" "base (wd_up w) \<le> length (wd_sent w)"
    using i(4,5) by (auto simp: window_holds_def)
  have b: "base u = base (wd_up w)" "cursor u = cursor (wd_up w)" using uplink_invD(1) [OF w(1)] by (simp_all add: u base_def)
  have "window_holds (wd_sent w @ [m]) (cursor_of aid inc (wd_ctl w)) u"
    using i(4) push_inv [OF w(1) p] w(3) b by (simp add: window_holds_def) (simp add: u)
  then show ?thesis using i b wires_ok_mono [OF i(7)]
    by (intro world_invI [OF refl]) (auto simp: writer_ok_def)
qed

lemma same_window:
  assumes "world_inv aid inc w" "uplink_inv u" "next_seq u = next_seq (wd_up w)" "uplink.pending u = uplink.pending (wd_up w)"
    "base u = base (wd_up w)" "cursor u \<le> cursor (wd_up w) \<or> wr = None" "wr = wd_writer w \<or> wr = None"
  shows "world_inv aid inc (w\<lparr>wd_up := u, wd_writer := wr\<rparr>)"
proof -
  note i = world_invD [OF assms(1) refl]
  have "window_holds (wd_sent w) (cursor_of aid inc (wd_ctl w)) u" using i(4) assms(2-5) by (simp add: window_holds_def)
  moreover have "writer_ok (cursor_of aid inc (wd_ctl w)) (w\<lparr>wd_up := u, wd_writer := wr\<rparr>)"
    unfolding writer_ok_def
  proof (intro allI impI)
    fix ep n wi
    assume a: "wd_writer (w\<lparr>wd_up := u, wd_writer := wr\<rparr>) = Some (ep, n)" "map_of (wd_wires (w\<lparr>wd_up := u, wd_writer := wr\<rparr>)) n = Some wi" "wi_open wi"
    then have "wd_writer w = Some (ep, n)" "map_of (wd_wires w) n = Some wi" using assms(7) by auto
    then have "base (wd_up w) + cursor (wd_up w) \<le> reach (cursor_of aid inc (wd_ctl w)) (indices (wi_queue wi))"
      using i(9) a(3) unfolding writer_ok_def by blast
    then show "base (wd_up (w\<lparr>wd_up := u, wd_writer := wr\<rparr>)) + cursor (wd_up (w\<lparr>wd_up := u, wd_writer := wr\<rparr>)) \<le>
        reach (cursor_of aid inc (wd_ctl w)) (indices (wi_queue wi))"
      using a(1) assms(5,6) by auto
  qed
  ultimately show ?thesis using i by (intro world_invI [OF refl]) simp_all
qed

lemma open_step:
  assumes inv: "world_inv aid inc w"
  shows "world_inv aid inc (spawn_writer n w)"
proof -
  note i = world_invD [OF inv refl]
  have "uplink_inv (wd_up w)" using i(4) by (simp add: window_holds_def)
  moreover have "rewind (wd_up w) = (epoch (wd_up w) + 1, (wd_up w)\<lparr>epoch := epoch (wd_up w) + 1, cursor := 0\<rparr>)" by (simp add: rewind_def)
  ultimately have "window_holds (wd_sent w) (cursor_of aid inc (wd_ctl w)) (snd (rewind (wd_up w)))"
    using i(4) rewind_inv [of "wd_up w"] by (auto simp: window_holds_def base_def)
  moreover have "base (wd_up w) \<le> reach (cursor_of aid inc (wd_ctl w)) ks" for ks
    using i(4) reach_ge [of _ ks] order_trans by (auto simp: window_holds_def)
  ultimately show ?thesis using i
    by (intro world_invI [OF refl]) (simp_all add: spawn_writer_def rewind_def writer_ok_def base_def)
qed

lemma wire_put_step:
  assumes inv: "world_inv aid inc w" and msg: "0 < s \<Longrightarrow> s \<le> length (wd_sent w) \<and> m = wd_sent w ! (s - 1)"
    and reach: "\<And>wi. map_of (wd_wires w) n = Some wi \<Longrightarrow> wi_open wi \<Longrightarrow> s \<le> reach (cursor_of aid inc (wd_ctl w)) (indices (wi_queue wi)) + 1"
  shows "world_inv aid inc (wire_put n (s, m) w)"
proof (cases "map_of (wd_wires w) n")
  case (Some wi)
  note i = world_invD [OF inv refl]
  show ?thesis
  proof (cases "wi_open wi")
    case True
    let ?wi = "wi\<lparr>wi_queue := wi_queue wi @ [(s, m)]\<rparr>" and ?q = "cursor_of aid inc (wd_ctl w)"
    have "wire_ok (wd_sent w) ?q (wi_queue ?wi)"
      using i(7) Some reach [OF Some True] msg by (auto simp: wires_ok_def intro: wire_ok_put)
    moreover have "reach ?q (indices (wi_queue wi)) \<le> reach ?q (indices (wi_queue ?wi))" by (simp add: reach_append reach_ge)
    ultimately show ?thesis using i Some True key_of [OF Some]
      by (intro world_invI [OF refl])
        (auto simp: wire_put_def writer_ok_def insert_absorb wires_ok_update intro: order_trans split: if_splits)
  qed (use Some inv in \<open>simp add: wire_put_def\<close>)
qed (use inv in \<open>simp add: wire_put_def\<close>)

lemma write_step:
  assumes inv: "world_inv aid inc w" shows "world_inv aid inc (writer_turn w)"
proof (cases "wd_writer w")
  case (Some x)
  obtain ep n where x: "x = (ep, n)" by (cases x)
  note i = world_invD [OF inv refl]
  have u: "uplink_inv (wd_up w)" "next_seq (wd_up w) = length (wd_sent w)" "map e_msg (uplink.pending (wd_up w)) = drop (base (wd_up w)) (wd_sent w)"
    using i(4) by (simp_all add: window_holds_def)
  obtain r u' where nu: "next_unsent ep (wd_up w) = (r, u')" by (metis surj_pair)
  show ?thesis
  proof (cases r)
    case (Next msg)
    obtain s m where msg: "msg = (s, m)" by (cases msg)
    note p = next_unsent_progress [OF u(1) nu [unfolded Next msg]]
    let ?q = "cursor_of aid inc (wd_ctl w)"
    have "m = wd_sent w ! (s - 1)"
      using p(1-3) u(3) by (metis add_diff_cancel_right' length_map nth_drop nth_map uplink_invD(2) [OF u(1)] add_leD1 le_add1 u(2))
    moreover have "s \<le> length (wd_sent w)" using p(1,3) uplink_invD(2) [OF u(1)] u(2) by simp
    ultimately have m: "0 < s \<Longrightarrow> s \<le> length (wd_sent w) \<and> m = wd_sent w ! (s - 1)" by simp
    show ?thesis
    proof (cases "\<exists>wi. map_of (wd_wires w) n = Some wi \<and> wi_open wi")
      case True
      then obtain wi where wi: "map_of (wd_wires w) n = Some wi" "wi_open wi" by blast
      have le: "base (wd_up w) + cursor (wd_up w) \<le> reach ?q (indices (wi_queue wi))"
        using i(9) Some x wi by (auto simp: writer_ok_def)
      let ?w = "wire_put n (s, m) w"
      have put: "world_inv aid inc ?w" by (rule wire_put_step [OF inv m]) (use wi le p(1) in auto)
      have eq: "writer_turn w = ?w\<lparr>wd_up := u'\<rparr>" by (simp add: writer_turn_def Some x nu Next msg wire_put_def wi)
      note j = world_invD [OF put refl]
      have same: "wd_ctl ?w = wd_ctl w" "wd_sent ?w = wd_sent w" "wd_up ?w = wd_up w" "wd_writer ?w = wd_writer w"
        by (simp_all add: wire_put_def wi)
      have "window_holds (wd_sent w) ?q u'" using i(4) p(4,6,7) next_unsent_inv [OF u(1), of ep] nu by (simp add: window_holds_def)
      moreover have "writer_ok ?q (?w\<lparr>wd_up := u'\<rparr>)"
        using p(1,4,5) le wi Some x by (auto simp: writer_ok_def wire_put_def reach_append)
      ultimately show ?thesis unfolding eq using j same by (intro world_invI [OF refl]) simp_all
    next
      case False
      have "writer_turn w = w\<lparr>wd_up := u'\<rparr>" using False by (auto simp: writer_turn_def Some x nu Next msg wire_put_def split: option.split)
      moreover have "window_holds (wd_sent w) ?q u'" using i(4) p(4,6,7) next_unsent_inv [OF u(1), of ep] nu by (simp add: window_holds_def)
      moreover have "writer_ok ?q (w\<lparr>wd_up := u'\<rparr>)" using False Some x by (auto simp: writer_ok_def)
      ultimately show ?thesis using i by (intro world_invI [OF refl]) simp_all
    qed
  next
    case Ended
    have "writer_ok q (w\<lparr>wd_writer := None\<rparr>)" for q by (simp add: writer_ok_def)
    then show ?thesis using i by (intro world_invI [OF refl]) (simp_all add: writer_turn_def Some x nu Ended)
  qed (use inv in \<open>simp add: writer_turn_def Some x nu\<close>)
qed (use inv in \<open>simp add: writer_turn_def\<close>)

lemma stop_step:
  assumes "world_inv aid inc w" shows "world_inv aid inc (stop_writer mid w)"
proof (cases "wd_writer w")
  case (Some x)
  obtain ep n where x: "x = (ep, n)" by (cases x)
  have u: "uplink_inv (wd_up w)" using world_invD(4) [OF assms refl] by (simp add: window_holds_def)
  let ?u = "if mid then snd (next_unsent ep (wd_up w)) else wd_up w"
  have "world_inv aid inc (w\<lparr>wd_up := ?u, wd_writer := None\<rparr>)"
    by (rule same_window [OF assms]) (use u next_unsent_inv [OF u] in \<open>simp_all add: next_unsent_keeps\<close>)
  then show ?thesis by (simp add: stop_writer_def Some x split del: if_split)
qed (use assms in \<open>simp add: stop_writer_def\<close>)

lemma cut_step:
  assumes inv: "world_inv aid inc w" and n: "map_of (wd_wires w) n = Some wi"
  shows "world_inv aid inc (w\<lparr>wd_wires := AList.update n \<lparr>wi_queue = take k (wi_queue wi), wi_open = False\<rparr> (wd_wires w)\<rparr>)"
proof -
  note i = world_invD [OF inv refl]
  have "wire_ok (wd_sent w) (cursor_of aid inc (wd_ctl w)) (take k (wi_queue wi))"
    using i(7) n by (auto simp: wires_ok_def intro: wire_ok_take)
  then show ?thesis using i key_of [OF n]
    by (intro world_invI [OF refl]) (auto simp: insert_absorb wires_ok_update writer_ok_def split: if_splits)
qed

section \<open>Steps that involve the controller\<close>

lemma sessions_bounded: "ctl_inv s \<Longrightarrow> fence s aid = Some (i, q, n, m) \<Longrightarrow> n = m \<and> n \<le> in_session_counter s"
  by (auto simp: ctl_inv_def fence_def ident_def entry_ok_def dest: base_invD(6))

lemma ctl_change:
  assumes inv: "world_inv aid inc w" and s: "untouched aid inc (fst ` set (wd_wires w)) (wd_ctl w) s" "ctl_inv s" "no_acks (in_tasks s)"
  shows "world_inv aid inc (w\<lparr>wd_ctl := s\<rparr>)"
proof -
  note i = world_invD [OF inv refl]
  have q: "cursor_of aid inc s = cursor_of aid inc (wd_ctl w)" using s(1) by (simp add: untouched_def)
  have "acks_ok (cursor_of aid inc s) (fst ` set (wd_wires w)) s" using i(8) s(1) unfolding acks_ok_def untouched_def by (metis subsetD)
  then show ?thesis using i s by (intro world_invI [OF refl]) (simp_all add: q untouched_def writer_ok_def)
qed

lemma ctl_kept:
  assumes "world_inv aid inc w" "fresh_ids e (wd_ctl w)"
  shows "ctl_inv (ctl_step sv e (wd_ctl w))" "no_acks (in_tasks (ctl_step sv e (wd_ctl w)))"
  using world_invD(1,2) [OF assms(1) refl] step_inv assms(2) step_no_acks by blast+

lemma env_step:
  assumes "world_inv aid inc w" "from_elsewhere aid (fst ` set (wd_wires w)) e" "fresh_ids e (wd_ctl w)"
  shows "world_inv aid inc (w\<lparr>wd_ctl := ctl_step sv e (wd_ctl w)\<rparr>)"
  using ctl_change [OF assms(1) elsewhere_step ctl_kept] world_invD(2,3) [OF assms(1) refl] assms by blast

lemma acknowledged:
  assumes inv: "world_inv aid inc w" and k: "k \<le> cursor_of aid inc (wd_ctl w)"
  shows "world_inv aid inc (w\<lparr>wd_up := ack k (wd_up w)\<rparr>)"
proof -
  note i = world_invD [OF inv refl]
  let ?q = "cursor_of aid inc (wd_ctl w)"
  have u: "uplink_inv (wd_up w)" "k \<le> next_seq (wd_up w)" using i(4,5) k by (auto simp: window_holds_def)
  note a = ack_base [OF u] and p = ack_progress [OF u]
  have "map e_msg (uplink.pending (ack k (wd_up w))) = drop (max (base (wd_up w)) k) (wd_sent w)"
    using u i(4) by (auto simp: window_holds_def ack_eq max_def simp flip: drop_map)
  then have "window_holds (wd_sent w) ?q (ack k (wd_up w))" using i(4) a k by (simp add: window_holds_def)
  moreover have "writer_ok ?q (w\<lparr>wd_up := ack k (wd_up w)\<rparr>)"
    using i(9) order_trans [OF k reach_ge] p by (auto simp: writer_ok_def)
  ultimately show ?thesis using i by (intro world_invI [OF refl]) simp_all
qed

lemma read_step:
  assumes inv: "world_inv aid inc w" and dom: "writer_known w"
  shows "world_inv aid inc (read_downlink sv w)"
proof (cases "\<exists>ep n d item rest. wd_writer w = Some (ep, n) \<and> map_of (in_downlinks (wd_ctl w)) n = Some d \<and> dl_queue d = item # rest")
  case True
  then obtain ep n d item rest where x: "wd_writer w = Some (ep, n)" "map_of (in_downlinks (wd_ctl w)) n = Some d" "dl_queue d = item # rest"
    by blast
  note i = world_invD [OF inv refl]
  define s where "s = ctl_step sv (EDownRecv n) (wd_ctl w)"
  let ?w = "w\<lparr>wd_ctl := s\<rparr>"
  have un: "untouched aid inc (fst ` set (wd_wires w)) (wd_ctl w) s" unfolding s_def by (rule recv_untouched [OF i(3)])
  have w: "world_inv aid inc ?w"
    unfolding s_def by (rule ctl_change [OF inv un [unfolded s_def] ctl_kept [OF inv]]) simp_all
  have "world_inv aid inc (?w\<lparr>wd_up := ack k (wd_up w)\<rparr>)" if "item = Down (UplinkAck k)" for k
  proof -
    have "Down (UplinkAck k) \<in> set (acks (wd_ctl w) n)" using that x by (simp add: acks_def)
    then have "k \<le> cursor_of aid inc (wd_ctl ?w)" using i(8) dom x(1) un by (auto simp: acks_ok_def untouched_def writer_known_def)
    from acknowledged [OF w this] show ?thesis by simp
  qed
  then show ?thesis using w stop_step [OF w]
    unfolding read_downlink_def x option.case prod.case list.case Let_def s_def [symmetric]
    by (auto split: down_item.split ctrl_msg.split)
qed (use inv in \<open>auto simp: read_downlink_def Let_def split: option.split list.split\<close>)

lemma connect_step:
  assumes inv: "world_inv aid inc w" and known: "writer_known w" and reg: "rg_agent_id reg = aid" "rg_incarnation reg = inc"
  shows "world_inv aid inc (world_step sv enc aid (WConnect ck reg peer) w)"
proof (cases "rg_protocol_version reg = PROTOCOL_VERSION \<and> rg_agent_id reg \<noteq> []")
  case False
  then have "snd (open_session sv ck (RegisterMsg reg) peer (wd_ctl w)) = wd_ctl w" by (intro open_session_refused) auto
  then show ?thesis using inv by simp
next
  case True
  note i = world_invD [OF inv refl]
  define s where "s = wd_ctl w"
  define s' where "s' = snd (open_session sv ck (RegisterMsg reg) peer s)"
  define n where "n = in_session_counter s + 1"
  let ?S = "fst ` set (wd_wires w)"
  note eff = open_session_effect [OF conjunct1 [OF True] conjunct2 [OF True] s'_def n_def, unfolded reg]
  have q: "cursor_of aid inc s' = cursor_of aid inc s"
    unfolding cursor_of_def eff(1) by (auto split: option.split)
  have new: "n \<notin> ?S" using tiedD(3) [OF i(3)] by (fastforce simp: n_def s_def)
  have others: "k = l \<and> k \<notin> insert n ?S" if "fence s aid' = Some (x, y, k, l)" "aid' \<noteq> aid" for aid' x y k l
    using tiedD(1,2) [OF i(3) that(1) [unfolded s_def]] sessions_bounded [OF i(1) that(1) [unfolded s_def]] that(2)
    by (simp add: s_def n_def)
  have "k \<le> n" if "k \<in> insert n ?S" for k
    using that tiedD(3) [OF i(3), of k] unfolding insert_iff n_def s_def by (elim disjE) simp_all
  then have "tied aid inc (insert n ?S) s'" unfolding tied_def eff(1,3) using others by (simp add: all_conj_distrib)
  moreover have "acks_ok (cursor_of aid inc s) (insert n ?S) s'" using i(8) new by (auto simp: acks_ok_def eff(2) s_def)
  moreover have "world_step sv enc aid (WConnect ck reg peer) w =
      w\<lparr>wd_ctl := s', wd_wires := AList.update n \<lparr>wi_queue = [], wi_open = True\<rparr> (wd_wires w)\<rparr>"
    using eff(3) by (simp add: Let_def s_def [symmetric] s'_def [symmetric] n_def)
  moreover have "ctl_inv s'" "no_acks (in_tasks s')" using ctl_kept [OF inv, of "EConnect ck (RegisterMsg reg) peer" sv] by (simp_all add: s'_def s_def)
  moreover have "writer_ok (cursor_of aid inc s) (w\<lparr>wd_ctl := s', wd_wires := AList.update n \<lparr>wi_queue = [], wi_open = True\<rparr> (wd_wires w)\<rparr>)"
    using i(9) known new unfolding writer_ok_def writer_known_def by (auto simp: s_def)
  ultimately show ?thesis using i
    by (intro world_invI [of "cursor_of aid inc s"]) (simp_all add: q wires_ok_update s_def)
qed

lemma deliver_step:
  assumes inv: "world_inv aid inc w" and n: "map_of (wd_wires w) n = Some wi" and msg: "wi_queue wi = (sq, m) # rest"
  shows "world_inv aid inc (pump_session sv aid ck n w)"
    "log_step (wd_sent w, wd_applied w) (wd_sent (pump_session sv aid ck n w), wd_applied (pump_session sv aid ck n w))"
proof -
  note i = world_invD [OF inv refl]
  define s where "s = wd_ctl w"
  let ?S = "fst ` set (wd_wires w)" and ?q = "cursor_of aid inc s"
  have S: "n \<in> ?S" by (rule key_of [OF n])
  obtain a s1 where a: "admit_msg ck aid n sq s = (a, s1)" by (metis surj_pair)
  define s' where "s' = pump sv ck aid n (sq, m) s"
  have after: "calm s1 s'" unfolding s'_def by (rule pump_calm_after) (simp add: a)
  have kept: "ctl_inv s'" "no_acks (in_tasks s')" using ctl_kept [OF inv, of "EUplink ck aid n (sq, m)" sv] by (simp_all add: s'_def s_def)
  have w: "wire_ok (wd_sent w) ?q ((sq, m) # rest)" using i(7) n unfolding wires_ok_def s_def msg [symmetric] by blast
  have eq: "pump_session sv aid ck n w = w\<lparr>wd_ctl := s',
      wd_wires := AList.update n (if a = Stale then \<lparr>wi_queue = [], wi_open = False\<rparr> else wi\<lparr>wi_queue := rest\<rparr>) (wd_wires w),
      wd_applied := (if a = Apply \<and> 0 < sq then wd_applied w @ [m] else wd_applied w)\<rparr>"
    by (simp add: pump_session_def n msg s_def [symmetric] a s'_def Let_def)
  show "world_inv aid inc (pump_session sv aid ck n w)"
    "log_step (wd_sent w, wd_applied w) (wd_sent (pump_session sv aid ck n w), wd_applied (pump_session sv aid ck n w))"
  proof (atomize (full), cases "a = Stale")
    case True
    have "calm s s'" using after admit_stale [OF a [unfolded True]] by simp
    then have w1: "world_inv aid inc (w\<lparr>wd_ctl := s'\<rparr>)"
      using ctl_change [OF inv calm_untouched [OF _ i(3)] kept] by (simp add: s_def)
    have "world_inv aid inc (pump_session sv aid ck n w)"
      using cut_step [OF w1, of n wi 0] n by (simp add: eq True)
    then show "world_inv aid inc (pump_session sv aid ck n w) \<and>
        log_step (wd_sent w, wd_applied w) (wd_sent (pump_session sv aid ck n w), wd_applied (pump_session sv aid ck n w))"
      by (simp add: eq True log_step.idle)
  next
    case False
    then obtain e where e: "map_of (in_agents s) aid = Some e" "ae_session e = n"
      using a by (auto simp: admit_msg_def Let_def split: option.splits if_splits)
    note f = entry_fence [OF e(1), unfolded e(2)] and c = admit_current [OF e a]
    have inc: "ae_incarnation e = inc" "ae_sender e = n" using tiedD(1,2) [OF i(3) f [unfolded s_def]] S by simp_all
    have q: "?q = ae_last_seq e" using f inc by (simp add: cursor_of_def)
    have q': "cursor_of aid inc s' = max ?q sq" using after inc q by (simp add: cursor_of_def calm_def c(1))
    have sq: "sq \<le> ?q + 1" "0 < sq \<Longrightarrow> sq \<le> length (wd_sent w) \<and> m = wd_sent w ! (sq - 1)"
      using w by (auto simp: wire_ok_def split: if_splits)
    have ap: "a = Apply \<and> 0 < sq \<longleftrightarrow> ?q < sq" using c(6) q by auto
    have applied: "(if a = Apply \<and> 0 < sq then wd_applied w @ [m] else wd_applied w) = take (max ?q sq) (wd_sent w)"
      unfolding ap using sq i(6) by (auto simp: s_def take_Suc_conv_app_nth max_def le_Suc_eq not_less)
    have step: "log_step (wd_sent w, wd_applied w) (wd_sent w, if a = Apply \<and> 0 < sq then wd_applied w @ [m] else wd_applied w)"
    proof (cases "?q < sq")
      case True
      then have "length (wd_applied w) = ?q" "m = wd_sent w ! ?q" "?q < length (wd_sent w)" using sq i(5,6) by (auto simp: s_def le_Suc_eq)
      then have "log_step (wd_sent w, wd_applied w) (wd_sent w, wd_applied w @ [m])"
        using log_step.deliver [of "wd_applied w" "wd_sent w"] i(6) by (simp add: s_def)
      then show ?thesis unfolding ap using True by simp
    qed (simp add: ap log_step.idle)
    have fences: "fence s' = (fence s)(aid := Some (inc, max ?q sq, n, n))" "acks s' = acks s1" "in_session_counter s' = in_session_counter s"
      using after c(1,2) inc q by (simp_all add: calm_def)
    have "tied aid inc ?S s'" using i(3) S unfolding tied_def fences by (auto simp: s_def)
    moreover have "acks_ok (max ?q sq) ?S s'"
      using i(8) c(4) c(5) inc q unfolding acks_ok_def fences s_def [symmetric] by (metis down_item.inject(1) ctrl_msg.inject(5) insert_iff le_max_iff_disj order_refl subsetD)
    moreover have "window_holds (wd_sent w) (max ?q sq) (wd_up w)" using i(4) by (simp add: window_holds_def s_def le_max_iff_disj)
    moreover have rest: "wire_ok (wd_sent w) (max ?q sq) rest" using w by (auto simp: wire_ok_def split: if_splits)
    moreover have "sq \<le> length (wd_sent w)" using sq(2) by (cases "sq = 0") simp_all
    moreover have "wires_ok (wd_sent w) (max ?q sq) (wd_wires w)" using wires_ok_mono [OF i(7)] by (simp add: s_def)
    moreover have "writer_ok (max ?q sq) (w\<lparr>wd_ctl := s', wd_wires := AList.update n (wi\<lparr>wi_queue := rest\<rparr>) (wd_wires w), wd_applied := x\<rparr>)" for x
    proof -
      have "reach ?q (indices ((sq, m) # rest)) = reach (max ?q sq) (indices rest)" by simp
      moreover have "reach ?q ks \<le> reach (max ?q sq) ks" for ks by (rule reach_mono) simp
      ultimately show ?thesis using i(9) n msg unfolding writer_ok_def s_def [symmetric] by (auto intro: order_trans)
    qed
    ultimately have "world_inv aid inc (pump_session sv aid ck n w)"
      using kept i S False sq unfolding eq applied
      by (intro world_invI [of "max ?q sq"]) (simp_all add: q' insert_absorb wires_ok_update s_def)
    then show "world_inv aid inc (pump_session sv aid ck n w) \<and>
        log_step (wd_sent w, wd_applied w) (wd_sent (pump_session sv aid ck n w), wd_applied (pump_session sv aid ck n w))"
      using step by (simp add: eq)
  qed
qed

section \<open>Every step refines the log\<close>

lemma known_step:
  assumes "writer_known w" shows "writer_known (world_step sv enc aid e w)"
proof (cases e)
  case (WConnect ck reg peer)
  then show ?thesis using assms by (auto simp: writer_known_def Let_def)
next
  case (WOpen n)
  then show ?thesis using assms
    by (auto simp: writer_known_def spawn_writer_def rewind_def contains_key_def dest: key_of)
next
  case WWrite
  then show ?thesis using assms
    by (auto simp: writer_known_def writer_turn_def wire_put_def split: option.split prod.split unsent.split)
next
  case (WHeartbeat vus)
  then show ?thesis using assms by (auto simp: writer_known_def wire_put_def split: option.split prod.split)
next
  case WRecv
  then show ?thesis using assms
    by (auto simp: writer_known_def read_downlink_def Let_def stop_writer_def split: option.split prod.split list.split down_item.split ctrl_msg.split)
qed (use assms in \<open>auto simp: writer_known_def stop_writer_def pump_session_def Let_def split: option.split prod.split sum.split list.split\<close>)

lemma world_step_inv:
  assumes inv: "world_inv aid inc w" "writer_known w" and e: "world_allows aid inc e w"
  shows "world_inv aid inc (world_step sv enc aid e w)"
proof (cases e)
  case (WSend m)
  obtain r u where p: "push enc m (wd_up w) = (r, u)" by (metis surj_pair)
  show ?thesis using send_step [OF inv(1)] p inv(1) by (cases r) (simp_all add: WSend)
next
  case WClose
  have u: "uplink_inv (wd_up w)" using world_invD(4) [OF inv(1) refl] by (simp add: window_holds_def)
  have "world_inv aid inc (w\<lparr>wd_up := up_close (wd_up w), wd_writer := wd_writer w\<rparr>)"
    by (rule same_window [OF inv(1) up_close_inv [OF u]]) (simp_all add: up_close_def base_def)
  then show ?thesis by (simp add: WClose)
next
  case (WHeartbeat vus)
  then show ?thesis using inv(1) wire_put_step [OF inv(1), of 0] by (auto split: option.split prod.split)
next
  case (WDeliver ck n)
  show ?thesis
  proof (cases "\<exists>wi sq m rest. map_of (wd_wires w) n = Some wi \<and> wi_queue wi = (sq, m) # rest")
    case True
    then show ?thesis using deliver_step(1) [OF inv(1)] WDeliver by fastforce
  next
    case False
    then have "pump_session sv aid ck n w = w" by (auto simp: pump_session_def Let_def split: option.split list.split prod.split)
    then show ?thesis using inv(1) WDeliver by simp
  qed
qed (use inv e connect_step [OF inv] open_step write_step stop_step cut_step read_step env_step in \<open>auto split: option.split simp del: ctl_step.simps\<close>)

theorem world_reachable_inv: "world_reachable sv enc aid inc w \<Longrightarrow> world_inv aid inc w \<and> writer_known w"
proof (induction rule: world_reachable.induct)
  case (start cid liveness s mb mm)
  have c: "ctl_inv s" using reachable_inv [OF start(1)] .
  have "no_acks (in_tasks s)" using start(1) by (rule reachable_no_acks)
  moreover have none: "fence s aid \<noteq> Some (inc, q, n, m)" for q n m using start(2) by (auto simp: fence_def ident_def fresh_process_def)
  then have "cursor_of aid inc s = 0" by (auto simp: cursor_of_def split: option.split)
  moreover have "tied aid inc {} s" using none sessions_bounded [OF c] by (auto simp: tied_def)
  ultimately show ?case using c with_limits_inv [of mb mm]
    by (auto simp: world_inv_def world_init_def window_holds_def wires_ok_def acks_ok_def writer_ok_def writer_known_def with_limits_def base_def)
next
  case (step w e)
  then show ?case using world_step_inv known_step by blast
qed

lemma other_events_log:
  assumes "\<And>ck n. e \<noteq> WDeliver ck n"
  shows "log_step (wd_sent w, wd_applied w) (wd_sent (world_step sv enc aid e w), wd_applied (world_step sv enc aid e w))"
proof (cases e)
  case (WSend m)
  then show ?thesis by (auto intro: log_step.intros split: prod.split sum.split)
qed (use assms in \<open>auto intro: log_step.idle simp: Let_def spawn_writer_def rewind_def writer_turn_def wire_put_def stop_writer_def read_downlink_def
  split: option.split prod.split unsent.split list.split down_item.split ctrl_msg.split\<close>)

text \<open>An agent that connects, sends one message and has it written to its stream.\<close>

abbreviation "demo_msg \<equiv> AssignmentReady ''r0'' 0"
abbreviation "demo_reach \<equiv> world_reachable demo_services (\<lambda>_. 1) ''a1'' ''i''"

definition demo_world :: "agent_payload uplink \<Rightarrow> (nat \<times> nat) option \<Rightarrow> (nat \<times> agent_payload) list \<Rightarrow> agent_payload list \<Rightarrow> string world" where
  "demo_world u wr q sent =
     \<lparr>wd_up = u, wd_writer = wr, wd_wires = [(1, \<lparr>wi_queue = q, wi_open = True\<rparr>)], wd_ctl = demo_state demo_entry [] [greeting] [],
      wd_sent = sent, wd_applied = []\<rparr>"

lemma demo_reach_connected: "demo_reach (demo_world (with_limits 9 9) None [] [])"
proof -
  have "demo_reach (world_init 9 9 (controller_new [] 0))"
    by (rule world_reachable.start [OF reachable.start]) (simp add: fresh_process_def controller_new_def)
  from world_reachable.step [OF this, of "WConnect clock0 demo_register None"] show ?thesis
    by (simp add: controller_new_def open_session_def demo_register_def PROTOCOL_VERSION_def Let_def world_init_def demo_world_def
      register_agent_def new_entry_def reserve_after_def non_empty_def clock0_def demo_state_def demo_entry_def greeting_def)
qed

abbreviation "demo_window c \<equiv> (with_limits 9 9 :: agent_payload uplink)\<lparr>next_seq := 1, uplink.pending := [\<lparr>e_seq = 1, e_msg = demo_msg, e_bytes = 1\<rparr>],
  cursor := c, up_bytes := 1, epoch := 1\<rparr>"

lemma demo_reach_written: "demo_reach (demo_world (demo_window 1) (Some (1, 1)) [(1, demo_msg)] [demo_msg])"
proof -
  have "demo_reach (demo_world (with_limits 9 9 \<lparr>epoch := 1\<rparr>) (Some (1, 1)) [] [])"
    using world_reachable.step [OF demo_reach_connected, of "WOpen 1"]
    by (simp add: demo_world_def spawn_writer_def rewind_def contains_key_def with_limits_def)
  from world_reachable.step [OF this, of "WSend demo_msg"]
  have "demo_reach (demo_world (demo_window 0) (Some (1, 1)) [] [demo_msg])"
    by (simp add: demo_world_def push_def up_is_full_def with_limits_def Let_def)
  from world_reachable.step [OF this, of WWrite] show ?thesis
    by (simp add: demo_world_def writer_turn_def next_unsent_def wire_put_def with_limits_def)
qed

text \<open>
  C1: the window, the sessions and the controller together refine a reliable ordered log. Whatever happens -
  sessions die with messages in flight, acknowledgements are lost, the window is replayed, other agents and
  users act - each step appends a message to the log, delivers exactly the next undelivered message, or
  leaves the log alone; and the messages the controller has not applied are all still in the window.
\<close>

theorem delivery_refines_log:
  assumes "world_reachable sv enc aid inc w" "world_allows aid inc e w"
  shows "log_step (wd_sent w, wd_applied w) (wd_sent (world_step sv enc aid e w), wd_applied (world_step sv enc aid e w)) \<and>
    prefix (wd_applied w) (wd_sent w) \<and>
    suffix (drop (length (wd_applied w)) (wd_sent w)) (map e_msg (uplink.pending (wd_up w)))"
proof -
  have inv: "world_inv aid inc w" using world_reachable_inv [OF assms(1)] by simp
  note i = world_invD [OF inv refl]
  have "log_step (wd_sent w, wd_applied w) (wd_sent (world_step sv enc aid e w), wd_applied (world_step sv enc aid e w))"
  proof (cases "\<exists>ck n. e = WDeliver ck n")
    case True
    then obtain ck n where e: "e = WDeliver ck n" by blast
    show ?thesis
    proof (cases "\<exists>wi sq m rest. map_of (wd_wires w) n = Some wi \<and> wi_queue wi = (sq, m) # rest")
      case True
      then show ?thesis using deliver_step(2) [OF inv] e by fastforce
    next
      case False
      then have "pump_session sv aid ck n w = w" by (auto simp: pump_session_def Let_def split: option.split list.split prod.split)
      then show ?thesis using e by (simp add: log_step.idle)
    qed
  qed (rule other_events_log, blast)
  moreover have "prefix (wd_applied w) (wd_sent w)" using i(6) by (simp add: take_is_prefix)
  moreover have "suffix (drop (length (wd_applied w)) (wd_sent w)) (map e_msg (uplink.pending (wd_up w)))"
  proof -
    have "length (wd_applied w) = cursor_of aid inc (wd_ctl w)" using i(5,6) by simp
    then have "drop (length (wd_applied w)) (wd_sent w) = drop (length (wd_applied w) - base (wd_up w)) (drop (base (wd_up w)) (wd_sent w))"
      using i(4) by (simp add: window_holds_def)
    moreover have "drop (base (wd_up w)) (wd_sent w) = map e_msg (uplink.pending (wd_up w))" using i(4) by (simp add: window_holds_def)
    ultimately show ?thesis by (metis suffix_drop)
  qed
  ultimately show ?thesis by blast
qed

theorem delivery_refines_log_witness:
  "log_step ([demo_msg], []) ([demo_msg], [demo_msg]) \<and>
   wd_applied (world_step demo_services (\<lambda>_. 1) ''a1'' (WDeliver clock0 1) (demo_world (demo_window 1) (Some (1, 1)) [(1, demo_msg)] [demo_msg]))
     = [demo_msg]"
  using delivery_refines_log [OF demo_reach_written, of "WDeliver clock0 1"]
  by (simp add: demo_world_def pump_session_def demo_state_def admit_msg_def demo_entry_def Let_def)

end
