(* ===== verification/Engine_Run.thy ===== *)
theory Engine_Run
  imports Thresholds Summary Executor_Spec Metrics
begin

text \<open>
  One run of the engine (\<open>loadr-core/src/engine.rs\<close>): its construction from a plan, the handle through which
  it is observed and controlled, and \<open>Engine::run\<close> from its start to its verdict. Each \<open>await\<close> of
  \<open>run\<close> is an input; what plugins, scripts and data sources answer is an argument.
\<close>

section \<open>Handles\<close>

datatype engine_status = EngPending | EngRunning | EngStopping | EngFinished bool

text \<open>
  A \<open>tokio::sync::watch\<close> channel, with the number of its receivers: \<open>send\<close> fails, and stores nothing, when
  there is none.
\<close>

record 'a watch =
  wt_value :: 'a
  wt_receivers :: nat

definition watch_send :: "'a \<Rightarrow> 'a watch \<Rightarrow> 'a watch" where
  "watch_send v w = (if wt_receivers w = 0 then w else w\<lparr>wt_value := v\<rparr>)"

record run_handle =
  rh_run_id :: string
  rh_snapshot :: snapshot
  rh_status :: engine_status
  rh_soft_stop :: bool
  rh_hard_stop :: bool
  rh_pause :: "bool watch"
  rh_stop_reason :: "string option"
  rh_scale :: "(string, u64 watch) hashmap"

definition handle_stop :: "string \<Rightarrow> run_handle \<Rightarrow> run_handle" where
  "handle_stop reason h = h\<lparr>rh_stop_reason := Some reason, rh_soft_stop := True\<rparr>"

definition handle_kill :: "string \<Rightarrow> run_handle \<Rightarrow> run_handle" where
  "handle_kill reason h = h\<lparr>rh_stop_reason := Some reason, rh_soft_stop := True, rh_hard_stop := True\<rparr>"

definition handle_pause :: "bool \<Rightarrow> run_handle \<Rightarrow> run_handle" where
  "handle_pause paused h = h\<lparr>rh_pause := watch_send paused (rh_pause h)\<rparr>"

definition is_paused :: "run_handle \<Rightarrow> bool" where
  "is_paused h = wt_value (rh_pause h)"

definition handle_scale :: "string \<Rightarrow> u64 \<Rightarrow> run_handle \<Rightarrow> (string, unit) result \<times> run_handle" where
  "handle_scale scenario vus h =
     (case map_of (rh_scale h) scenario of
        Some tx \<Rightarrow> (Inr (), h\<lparr>rh_scale := AList.update scenario (watch_send vus tx) (rh_scale h)\<rparr>)
      | None \<Rightarrow>
          (Inl (''scenario `'' @ scenario @ ''` is not externally controlled (available: '' @
                join '', '' (map fst (rh_scale h)) @ '')''), h))"

definition externally_controlled_scenarios :: "run_handle \<Rightarrow> string list" where
  "externally_controlled_scenarios h = map fst (rh_scale h)"

definition snapshot_find :: "string \<Rightarrow> snapshot \<Rightarrow> series_snapshot option" where
  "snapshot_find metric sn = find (\<lambda>s. ss_metric s = metric) (sn_series sn)"

section \<open>Construction\<close>

datatype engine_error =
    EngVariable string string
  | EngSecretEnv string string
  | EngSecretFile string string
  | EngSecretSource string
  | EngMetric register_error
  | EngScenario string spec_error
  | EngData string
  | EngThreshold compile_error
  | EngProgram string
  | EngNoScenarios
  | EngOutput string
  | EngScript string
  | EngOther string

record secret_source =
  sec_env :: "string option"
  sec_file :: "string option"

record custom_metric =
  mdf_kind :: metric_kind
  mdf_time :: bool
  mdf_description :: "string option"

record scenario_def =
  sd_load :: scenario
  sd_start_time :: "duration option"
  sd_graceful_stop :: "duration option"
  sd_graceful_ramp_down :: "duration option"

record 'v test_plan =
  tp_name :: "string option"
  tp_tags :: tags
  tp_variables :: "(string \<times> 'v) list"
  tp_secrets :: "(string \<times> secret_source) list"
  tp_metrics :: "(string \<times> custom_metric) list"
  tp_thresholds :: "(string \<times> threshold_list) list"
  tp_scenarios :: "(string \<times> scenario_def) list"

text \<open>
  What construction asks of the process: its environment, files, the resolution of a variable, the loading
  of the data sources and the compilation of a scenario's steps.
\<close>

record 'v setup_services =
  su_env :: "string \<Rightarrow> string option"
  su_read_file :: "string \<Rightarrow> (string, string) result"
  su_resolve :: "'v \<Rightarrow> (string, 'v) result"
  su_load_data :: "placement \<Rightarrow> (string, unit) result"
  su_compile :: "string \<Rightarrow> (string, unit) result"
  su_humantime :: humantime_parse

record scenario_run_spec =
  srs_name :: string
  srs_spec :: exec_spec
  srs_start_time :: duration
  srs_graceful_stop :: duration
  srs_graceful_ramp_down :: duration

record 'v engine =
  eng_plan_name :: "string option"
  eng_scenarios :: "scenario_run_spec list"
  eng_thresholds :: "compiled_threshold list"
  eng_gauge_tags :: tags
  eng_variables :: "(string \<times> 'v) list"
  eng_secrets :: "(string, string) hashmap"
  eng_registry :: registry
  eng_placement :: placement
  eng_external :: "string list"
  eng_handle :: run_handle

fun resolve_variables :: "'v setup_services \<Rightarrow> (string \<times> 'v) list \<Rightarrow> (engine_error, (string \<times> 'v) list) result" where
  "resolve_variables su [] = Inr []"
| "resolve_variables su ((name, value) # rest) =
     (case su_resolve su value of
        Inl e \<Rightarrow> Inl (EngVariable name e)
      | Inr v \<Rightarrow> map_sum id (\<lambda>vs. (name, v) # vs) (resolve_variables su rest))"

definition secret_value :: "'v setup_services \<Rightarrow> string \<Rightarrow> secret_source \<Rightarrow> (engine_error, string) result" where
  "secret_value su name source =
     (case sec_env source of
        Some var \<Rightarrow> (case su_env su var of Some v \<Rightarrow> Inr v | None \<Rightarrow> Inl (EngSecretEnv name var))
      | None \<Rightarrow>
          (case sec_file source of
             Some file \<Rightarrow> (case su_read_file su file of Inl e \<Rightarrow> Inl (EngSecretFile file e) | Inr text \<Rightarrow> Inr (trim text))
           | None \<Rightarrow> Inl (EngSecretSource name)))"

fun load_secrets :: "'v setup_services \<Rightarrow> (string \<times> secret_source) list \<Rightarrow> (string, string) hashmap \<Rightarrow> (engine_error, (string, string) hashmap) result" where
  "load_secrets su [] acc = Inr acc"
| "load_secrets su ((name, source) # rest) acc =
     (case secret_value su name source of
        Inl e \<Rightarrow> Inl e
      | Inr v \<Rightarrow> load_secrets su rest (AList.update name v acc))"

fun register_metrics :: "(string \<times> custom_metric) list \<Rightarrow> registry \<Rightarrow> (engine_error, registry) result" where
  "register_metrics [] reg = Inr reg"
| "register_metrics ((name, d) # rest) reg =
     (case register name (mdf_kind d) (mdf_time d) (mdf_description d) reg of
        (Inl e, _) \<Rightarrow> Inl (EngMetric e)
      | (Inr _, reg') \<Rightarrow> register_metrics rest reg')"

definition is_externally_controlled :: "exec_spec \<Rightarrow> bool" where
  "is_externally_controlled spec = (case spec of ExternallyControlled _ _ \<Rightarrow> True | _ \<Rightarrow> False)"

text \<open>
  The scenarios in plan order with their share of the load; the externally controlled ones each get a scale
  channel, whose receiver the engine keeps.
\<close>

fun prepare_scenarios ::
  "'v setup_services \<Rightarrow> (u64 \<times> u64) option \<Rightarrow> (string \<times> scenario_def) list
     \<Rightarrow> (engine_error, scenario_run_spec list) result panicky" where
  "prepare_scenarios su part [] = Some (Inr [])"
| "prepare_scenarios su part ((name, sc) # rest) =
     (case executor_spec (sd_load sc) of
        Inl e \<Rightarrow> Some (Inl (EngScenario name e))
      | Inr full \<Rightarrow>
          Option.bind (case part of None \<Rightarrow> Some full | Some (index, cnt) \<Rightarrow> partition_spec full index cnt) (\<lambda>spec.
          case su_compile su name of
            Inl e \<Rightarrow> Some (Inl (EngProgram e))
          | Inr _ \<Rightarrow>
              map_option (map_sum id (\<lambda>out.
                \<lparr>srs_name = name, srs_spec = spec,
                 srs_start_time = (case sd_start_time sc of None \<Rightarrow> 0 | Some d \<Rightarrow> d),
                 srs_graceful_stop = (case sd_graceful_stop sc of None \<Rightarrow> from_secs 30 | Some d \<Rightarrow> d),
                 srs_graceful_ramp_down = (case sd_graceful_ramp_down sc of None \<Rightarrow> from_secs 30 | Some d \<Rightarrow> d)\<rparr> # out))
                (prepare_scenarios su part rest)))"

definition external_names :: "scenario_run_spec list \<Rightarrow> string list" where
  "external_names scs = map srs_name (filter (\<lambda>sc. is_externally_controlled (srs_spec sc)) scs)"

definition new_handle :: "string \<Rightarrow> string list \<Rightarrow> run_handle" where
  "new_handle run_id externals =
     \<lparr>rh_run_id = run_id, rh_snapshot = \<lparr>sn_timestamp = 0, sn_elapsed_secs = 0, sn_interval_secs = 0, sn_series = []\<rparr>,
      rh_status = EngPending, rh_soft_stop = False, rh_hard_stop = False, rh_pause = \<lparr>wt_value = False, wt_receivers = 0\<rparr>,
      rh_stop_reason = None, rh_scale = foldr (\<lambda>name. AList.update name \<lparr>wt_value = 0, wt_receivers = 1\<rparr>) (rev externals) []\<rparr>"

text \<open>\<open>Engine::new\<close>; \<open>run_id\<close> is the one of the options, or a fresh one.\<close>

definition engine_new ::
  "'v setup_services \<Rightarrow> 'v test_plan \<Rightarrow> string \<Rightarrow> (u64 \<times> u64) option \<Rightarrow> (string \<times> string) list
     \<Rightarrow> (engine_error, 'v engine) result panicky" where
  "engine_new su plan run_id part extra_tags =
     (case resolve_variables su (tp_variables plan) of Inl e \<Rightarrow> Some (Inl e) | Inr variables \<Rightarrow>
      (case load_secrets su (tp_secrets plan) [] of Inl e \<Rightarrow> Some (Inl e) | Inr secrets \<Rightarrow>
      (case register_metrics (tp_metrics plan) with_builtins of Inl e \<Rightarrow> Some (Inl e) | Inr reg \<Rightarrow>
      Option.bind (vu_placement (map (map_prod id sd_load) (tp_scenarios plan)) part) (\<lambda>r. case r of Inl (name, e) \<Rightarrow> Some (Inl (EngScenario name e)) | Inr placement \<Rightarrow>
      (case su_load_data su placement of Inl e \<Rightarrow> Some (Inl (EngData e)) | Inr _ \<Rightarrow>
      Option.bind (compile_thresholds (su_humantime su) (tp_thresholds plan)) (\<lambda>r. case r of Inl e \<Rightarrow> Some (Inl (EngThreshold e)) | Inr thresholds \<Rightarrow>
      Option.bind (prepare_scenarios su part (tp_scenarios plan)) (\<lambda>r. case r of Inl e \<Rightarrow> Some (Inl e) | Inr scenarios \<Rightarrow>
      Some (if scenarios = [] then Inl EngNoScenarios
            else Inr \<lparr>eng_plan_name = tp_name plan, eng_scenarios = scenarios, eng_thresholds = thresholds,
                      eng_gauge_tags = fold (\<lambda>(k, v). tag_insert k v) extra_tags (tp_tags plan),
                      eng_variables = variables, eng_secrets = secrets, eng_registry = reg, eng_placement = placement,
                      eng_external = external_names scenarios, eng_handle = new_handle run_id (external_names scenarios)\<rparr>))))))))"

section \<open>A run\<close>

record run_result =
  rr_passed :: bool
  rr_aborted :: "string option"

datatype engine_phase =
    PhOutputs
  | PhSetup
  | PhRunning
  | PhDraining "string option"
  | PhFinishing "string option"
  | PhReturned "(engine_error, run_result) result"

text \<open>The task that drives \<open>Engine::run\<close>, and how many of its 35 second safety nets are armed.\<close>

record engine_task =
  et_phase :: engine_phase
  et_timers :: nat

text \<open>
  What \<open>run\<close> awaits: the outputs to start, \<open>setup()\<close> (\<open>None\<close> without a script), the scenarios to end, an
  abort request, a soft stop, a safety net to expire, and the aggregator's result after \<open>teardown()\<close>, which says
  whether all thresholds passed.
\<close>

datatype engine_input =
    InOutputs "string option"
  | InSetup "(string, unit) result option"
  | InAllDone
  | InAbort string
  | InSoftStop
  | InTimer
  | InAggregated "(string, bool) result"

definition run_begin :: "run_handle \<Rightarrow> engine_task \<times> run_handle" where
  "run_begin h = (\<lparr>et_phase = PhOutputs, et_timers = 0\<rparr>, h\<lparr>rh_status := EngRunning\<rparr>)"

text \<open>When the engine is dropped, the receivers of its scale channels go with it.\<close>

definition drop_receivers :: "run_handle \<Rightarrow> run_handle" where
  "drop_receivers h = h\<lparr>rh_pause := (rh_pause h)\<lparr>wt_receivers := 0\<rparr>, rh_scale := map (\<lambda>(k, w). (k, w\<lparr>wt_receivers := 0\<rparr>)) (rh_scale h)\<rparr>"

definition run_return :: "(engine_error, run_result) result \<Rightarrow> engine_task \<Rightarrow> run_handle \<Rightarrow> engine_task \<times> run_handle" where
  "run_return r t h = (t\<lparr>et_phase := PhReturned r\<rparr>, drop_receivers h)"

definition scenarios_done :: "string option \<Rightarrow> engine_task \<Rightarrow> run_handle \<Rightarrow> engine_task \<times> run_handle" where
  "scenarios_done aborted t h =
     (t\<lparr>et_phase := PhFinishing (if aborted = None then rh_stop_reason h else aborted)\<rparr>,
      h\<lparr>rh_pause := (rh_pause h)\<lparr>wt_receivers := 0\<rparr>\<rparr>)"

definition outputs_started :: "string option \<Rightarrow> engine_task \<Rightarrow> run_handle \<Rightarrow> engine_task \<times> run_handle" where
  "outputs_started failure t h =
     (case failure of
        Some e \<Rightarrow> run_return (Inl (EngOutput e)) t h
      | None \<Rightarrow> (t\<lparr>et_phase := PhSetup\<rparr>, h))"

text \<open>After \<open>setup()\<close> each of the \<open>n\<close> scenarios is spawned with a subscription to the pause channel.\<close>

definition setup_done :: "nat \<Rightarrow> (string, unit) result option \<Rightarrow> engine_task \<Rightarrow> run_handle \<Rightarrow> engine_task \<times> run_handle" where
  "setup_done n outcome t h =
     (case outcome of
        Some (Inl e) \<Rightarrow> run_return (Inl (EngScript (''setup() failed: '' @ e))) t (handle_kill (''setup() failed: '' @ e) h)
      | _ \<Rightarrow> (t\<lparr>et_phase := PhRunning\<rparr>, h\<lparr>rh_pause := (rh_pause h)\<lparr>wt_receivers := n\<rparr>\<rparr>))"

definition abort_requested :: "string \<Rightarrow> engine_task \<Rightarrow> run_handle \<Rightarrow> engine_task \<times> run_handle" where
  "abort_requested reason t h =
     (\<lparr>et_phase = PhDraining (Some reason), et_timers = et_timers t + 1\<rparr>,
      h\<lparr>rh_stop_reason := Some reason, rh_status := EngStopping, rh_soft_stop := True\<rparr>)"

definition soft_stopped :: "engine_task \<Rightarrow> run_handle \<Rightarrow> engine_task \<times> run_handle" where
  "soft_stopped t h =
     (if rh_soft_stop h then (\<lparr>et_phase = PhDraining None, et_timers = et_timers t + 1\<rparr>, h\<lparr>rh_status := EngStopping\<rparr>) else (t, h))"

definition aggregated :: "string option \<Rightarrow> (string, bool) result \<Rightarrow> engine_task \<Rightarrow> run_handle \<Rightarrow> engine_task \<times> run_handle" where
  "aggregated aborted outcome t h =
     (case outcome of
        Inl e \<Rightarrow> run_return (Inl (EngOther (''aggregator task panicked: '' @ e))) t h
      | Inr passed \<Rightarrow>
          run_return (Inr \<lparr>rr_passed = passed, rr_aborted = aborted\<rparr>) t (h\<lparr>rh_status := EngFinished (passed \<and> aborted = None)\<rparr>))"

text \<open>\<open>Engine::run\<close>, from one input to the next \<open>await\<close>.\<close>

definition run_step :: "nat \<Rightarrow> engine_input \<Rightarrow> engine_task \<Rightarrow> run_handle \<Rightarrow> engine_task \<times> run_handle" where
  "run_step n inp t h =
     (case (et_phase t, inp) of
        (PhOutputs, InOutputs failure) \<Rightarrow> outputs_started failure t h
      | (PhSetup, InSetup outcome) \<Rightarrow> setup_done n outcome t h
      | (PhRunning, InAllDone) \<Rightarrow> scenarios_done None t h
      | (PhRunning, InAbort reason) \<Rightarrow> abort_requested reason t h
      | (PhRunning, InSoftStop) \<Rightarrow> soft_stopped t h
      | (PhDraining aborted, InAllDone) \<Rightarrow> scenarios_done aborted t h
      | (PhFinishing aborted, InAggregated outcome) \<Rightarrow> aggregated aborted outcome t h
      | (_, InTimer) \<Rightarrow> if 0 < et_timers t then (t\<lparr>et_timers := et_timers t - 1\<rparr>, h\<lparr>rh_hard_stop := True\<rparr>) else (t, h)
      | _ \<Rightarrow> (t, h))"

lemmas run_step_defs = run_step_def outputs_started_def setup_done_def abort_requested_def soft_stopped_def aggregated_def
  run_return_def scenarios_done_def handle_kill_def

section \<open>The verdict\<close>

text \<open>A run that is bound not to end as finished: it was told to stop while its scenarios could still run.\<close>

fun condemned :: "engine_phase \<Rightarrow> run_handle \<Rightarrow> bool" where
  "condemned (PhFinishing aborted) h \<longleftrightarrow> aborted \<noteq> None"
| "condemned (PhReturned r) h \<longleftrightarrow> (case r of Inl _ \<Rightarrow> True | Inr res \<Rightarrow> rr_aborted res \<noteq> None)"
| "condemned _ h \<longleftrightarrow> rh_stop_reason h \<noteq> None"

lemma drop_receivers_fields [simp]:
  "rh_stop_reason (drop_receivers h) = rh_stop_reason h" "rh_status (drop_receivers h) = rh_status h"
  "rh_run_id (drop_receivers h) = rh_run_id h" "rh_soft_stop (drop_receivers h) = rh_soft_stop h"
  by (simp_all add: drop_receivers_def)

lemma condemned_step:
  assumes "run_step n inp t h = (t', h')" "condemned (et_phase t) h" shows "condemned (et_phase t') h'"
  using assms by (auto simp: run_step_defs
    split: engine_phase.splits engine_input.splits option.splits sum.splits if_splits)

text \<open>How far a run has come; it never goes back.\<close>

fun status_rank :: "engine_status \<Rightarrow> nat" where
  "status_rank EngPending = 0"
| "status_rank EngRunning = 1"
| "status_rank EngStopping = 2"
| "status_rank (EngFinished _) = 3"

text \<open>The status a run shows in each phase of \<open>Engine::run\<close>.\<close>

fun phase_status :: "engine_phase \<Rightarrow> engine_status \<Rightarrow> bool" where
  "phase_status (PhFinishing aborted) st \<longleftrightarrow> st = EngRunning \<or> st = EngStopping"
| "phase_status (PhDraining aborted) st \<longleftrightarrow> st = EngStopping"
| "phase_status (PhReturned (Inl e)) st \<longleftrightarrow> st = EngRunning \<or> st = EngStopping"
| "phase_status (PhReturned (Inr r)) st \<longleftrightarrow> st = EngFinished (rr_passed r \<and> rr_aborted r = None)"
| "phase_status _ st \<longleftrightarrow> st = EngRunning"

lemma phase_status_step:
  assumes "run_step n inp t h = (t', h')" "phase_status (et_phase t) (rh_status h)" shows "phase_status (et_phase t') (rh_status h')"
  using assms by (auto simp: run_step_defs
    split: engine_phase.splits engine_input.splits option.splits sum.splits if_splits)

lemma status_rank_step:
  assumes "run_step n inp t h = (t', h')" "phase_status (et_phase t) (rh_status h)"
  shows "status_rank (rh_status h) \<le> status_rank (rh_status h')"
  using assms by (auto simp: run_step_defs
    split: engine_phase.splits engine_input.splits option.splits sum.splits if_splits)

end
