(* ===== verification/Agent.thy ===== *)
theory Agent
  imports Engine_Run Controller_State Uplink
begin

text \<open>
  The load agent (\<open>loadr-agent/src/agent.rs\<close>): the run that occupies it, the preparation and run tasks
  it spawns, and the session loop that serves the controller. A function of the source that never awaits is one
  step; a task advances from one \<open>await\<close> to the next. The flags, start channels and handles that tasks share
  live in stores, named by position.
\<close>

section \<open>State\<close>

text \<open>A \<open>tokio::sync::oneshot\<close> channel, as its receiver sees it.\<close>

datatype oneshot = OsEmpty | OsSent int | OsClosed

record active_run =
  ar_run_id :: string
  ar_handle :: nat
  ar_start_tx :: "nat option"

datatype run_phase = Preparing string nat "int option" | Armed active_run

fun phase_run_id :: "run_phase \<Rightarrow> string" where
  "phase_run_id (Preparing run_id _ _) = run_id"
| "phase_run_id (Armed run) = ar_run_id run"

text \<open>
  The tasks: a preparation on the blocking pool with its cancel flag, the report that ends it, and the stages
  of a run with its handle and number of scenarios.
\<close>

datatype agent_task =
    Preparation assignment nat
  | PrepReport agent_payload
  | RunWaits string nat nat nat
  | RunSleeps string nat nat int
  | RunStarts string nat nat
  | RunEngine string nat nat engine_task
  | RunEnds string nat run_event
  | TaskOver

record agent =
  ag_current :: "run_phase option"
  ag_registered :: bool
  ag_uplink :: "agent_payload uplink"
  ag_flags :: "bool list"
  ag_starts :: "oneshot list"
  ag_handles :: "run_handle list"
  ag_tasks :: "agent_task list"
  ag_shut_down :: bool

text \<open>
  What the agent is configured with and asks of its process; loading a plan also tells whether it has a
  \<open>js\<close> block.
\<close>

record 'v agent_services =
  cf_agent_id :: string
  cf_agent_name :: string
  cf_labels :: "(string, string) hashmap"
  cf_cores :: nat
  cf_version :: string
  cf_revision :: string
  cf_incarnation :: string
  cf_work_dir :: string
  cf_create_dir :: "string \<Rightarrow> (string, unit) result"
  cf_io :: "string \<Rightarrow> bool"
  cf_utf8 :: "string \<Rightarrow> (string, string) result"
  cf_load :: "string \<Rightarrow> string \<Rightarrow> string option \<Rightarrow> (string, 'v test_plan \<times> bool) result"
  cf_protocols :: "'v test_plan \<Rightarrow> string \<Rightarrow> (string, unit) result"
  cf_script :: "('v test_plan \<Rightarrow> string \<Rightarrow> (string, unit) result) option"
  cf_data_sources :: "('v test_plan \<Rightarrow> string \<Rightarrow> (string, unit) result) option"
  cf_setup :: "'v setup_services"
  cf_path_text :: "path_error \<Rightarrow> string"
  cf_engine_text :: "engine_error \<Rightarrow> string"
  cf_join_text :: string
  cf_encoded_len :: "agent_payload \<Rightarrow> nat"

definition agent_init :: "agent_payload uplink \<Rightarrow> agent" where
  "agent_init u =
     \<lparr>ag_current = None, ag_registered = False, ag_uplink = u, ag_flags = [], ag_starts = [], ag_handles = [], ag_tasks = [],
      ag_shut_down = False\<rparr>"

text \<open>Storing into the slot drops what it held; with an armed run, its start channel closes.\<close>

definition close_start :: "nat \<Rightarrow> oneshot list \<Rightarrow> oneshot list" where
  "close_start c starts = (if starts ! c = OsEmpty then starts[c := OsClosed] else starts)"

definition set_current :: "run_phase option \<Rightarrow> agent \<Rightarrow> agent" where
  "set_current p a =
     a\<lparr>ag_current := p,
       ag_starts := (case ag_current a of
                       Some (Armed run) \<Rightarrow> (case ar_start_tx run of Some c \<Rightarrow> close_start c (ag_starts a) | None \<Rightarrow> ag_starts a)
                     | _ \<Rightarrow> ag_starts a)\<rparr>"

definition upd_handle :: "nat \<Rightarrow> (run_handle \<Rightarrow> run_handle) \<Rightarrow> agent \<Rightarrow> agent" where
  "upd_handle h f a = a\<lparr>ag_handles := (ag_handles a)[h := f (ag_handles a ! h)]\<rparr>"

definition set_task :: "nat \<Rightarrow> agent_task \<Rightarrow> agent \<Rightarrow> agent" where
  "set_task i t a = a\<lparr>ag_tasks := (ag_tasks a)[i := t]\<rparr>"

section \<open>Messages\<close>

definition run_event_msg :: "string \<Rightarrow> string \<Rightarrow> string \<Rightarrow> string \<Rightarrow> run_event" where
  "run_event_msg run_id kind detail summary_json =
     \<lparr>ev_run_id = run_id, ev_kind = kind, ev_detail = detail, ev_summary_json = summary_json\<rparr>"

definition register_message :: "'v agent_services \<Rightarrow> agent \<Rightarrow> register_msg" where
  "register_message sv a =
     \<lparr>rg_agent_id = cf_agent_id sv, rg_agent_name = cf_agent_name sv, rg_protocol_version = PROTOCOL_VERSION,
      rg_loadr_version = cf_version sv, rg_cpu_cores = cf_cores sv, rg_labels = cf_labels sv,
      rg_resume_run_id = (case ag_current a of None \<Rightarrow> [] | Some p \<Rightarrow> phase_run_id p),
      rg_build_revision = cf_revision sv, rg_incarnation = cf_incarnation sv\<rparr>"

record heartbeat =
  hb_active_vus :: nat
  hb_cpu_load :: f64
  hb_run_id :: string
  hb_run_state :: string

fun engine_state_text :: "engine_status \<Rightarrow> string" where
  "engine_state_text EngPending = ''pending''"
| "engine_state_text EngRunning = ''running''"
| "engine_state_text EngStopping = ''stopping''"
| "engine_state_text (EngFinished _) = ''finished''"

definition live_vus :: "run_handle \<Rightarrow> f64" where
  "live_vus h = (case Option.bind (snapshot_find ''vus'' (rh_snapshot h)) (\<lambda>s. av_last (ss_agg s)) of None \<Rightarrow> 0 | Some v \<Rightarrow> v)"

definition make_heartbeat :: "agent \<Rightarrow> heartbeat" where
  "make_heartbeat a =
     (case ag_current a of
        Some (Preparing run_id _ _) \<Rightarrow> \<lparr>hb_active_vus = 0, hb_cpu_load = 0, hb_run_id = run_id, hb_run_state = ''preparing''\<rparr>
      | Some (Armed run) \<Rightarrow>
          let h = ag_handles a ! ar_handle run
          in \<lparr>hb_active_vus = f64_to_u64 (f64_max (live_vus h) (Fin 0)), hb_cpu_load = 0,
              hb_run_id = ar_run_id run, hb_run_state = engine_state_text (rh_status h)\<rparr>
      | None \<Rightarrow> \<lparr>hb_active_vus = 0, hb_cpu_load = 0, hb_run_id = [], hb_run_state = ''idle''\<rparr>)"

definition try_report :: "'v agent_services \<Rightarrow> agent_payload \<Rightarrow> agent \<Rightarrow> agent" where
  "try_report sv msg a = a\<lparr>ag_uplink := snd (try_enqueue (cf_encoded_len sv) msg (ag_uplink a))\<rparr>"

definition enqueue_control_ack ::
  "'v agent_services \<Rightarrow> string \<times> string \<times> string \<times> u64 \<times> nat \<Rightarrow> (string, unit) result \<Rightarrow> agent \<Rightarrow> agent" where
  "enqueue_control_ack sv c res =
     (case c of (run_id, action, scenario, value, command_id) \<Rightarrow>
        try_report sv (ControlAck
          \<lparr>ca_run_id = run_id, ca_command_id = command_id, ca_action = action, ca_scenario = scenario, ca_value = value,
           ca_applied = is_ok res, ca_detail = (case res of Inr _ \<Rightarrow> [] | Inl detail \<Rightarrow> detail)\<rparr>))"

section \<open>Assignments\<close>

definition is_finished :: "engine_status \<Rightarrow> bool" where
  "is_finished st = (case st of EngFinished _ \<Rightarrow> True | _ \<Rightarrow> False)"

definition arm_assignment :: "'v agent_services \<Rightarrow> assignment \<Rightarrow> agent \<Rightarrow> (string, unit) result \<times> agent" where
  "arm_assignment sv x a =
     (if as_partition_count x = 0 \<or> as_partition_count x \<le> as_partition_index x
      then (Inl (''invalid partition '' @ show_nat (as_partition_index x) @ ''/'' @ show_nat (as_partition_count x)), a)
      else case validate_run_id (as_run_id x) of
             Inl e \<Rightarrow> (Inl (cf_path_text sv e), a)
           | Inr _ \<Rightarrow>
               let accepted = (set_current (Some (Preparing (as_run_id x) (length (ag_flags a)) None)) a)
                     \<lparr>ag_flags := ag_flags a @ [False], ag_tasks := ag_tasks a @ [Preparation x (length (ag_flags a))]\<rparr>
               in case ag_current a of
                    None \<Rightarrow> (Inr (), accepted)
                  | Some p \<Rightarrow>
                      if phase_run_id p = as_run_id x then (Inr (), a)
                      else case p of
                             Preparing run_id _ _ \<Rightarrow> (Inl (''agent is busy with run '' @ run_id), a)
                           | Armed run \<Rightarrow>
                               if \<not> is_finished (rh_status (ag_handles a ! ar_handle run))
                               then (Inl (''agent is busy with run '' @ ar_run_id run), a)
                               else (Inr (), accepted))"

definition handle_assignment :: "'v agent_services \<Rightarrow> assignment \<Rightarrow> agent \<Rightarrow> agent" where
  "handle_assignment sv x a =
     (case arm_assignment sv x a of
        (Inr _, a') \<Rightarrow> a'
      | (Inl detail, a') \<Rightarrow> try_report sv (Event (run_event_msg (as_run_id x) ''prep_failed'' detail [])) a')"

definition prepare_engine :: "'v agent_services \<Rightarrow> assignment \<Rightarrow> (string, 'v engine) result panicky" where
  "prepare_engine sv x =
     (let run_dir = path_join (cf_work_dir sv) (as_run_id x)
      in case cf_create_dir sv run_dir of Inl e \<Rightarrow> Some (Inl (''cannot create '' @ run_dir @ '': '' @ e)) | Inr _ \<Rightarrow>
        (case fst (materialize_files (cf_io sv) run_dir (as_files x)) of Inl e \<Rightarrow> Some (Inl (cf_path_text sv e)) | Inr _ \<Rightarrow>
        (case cf_utf8 sv (as_plan_yaml x) of Inl e \<Rightarrow> Some (Inl (''plan is not valid UTF-8: '' @ e)) | Inr yaml \<Rightarrow>
        (case cf_load sv yaml run_dir (if as_env x = [] then None else Some (as_env x)) of Inl e \<Rightarrow> Some (Inl (''invalid plan: '' @ e)) | Inr (plan, js) \<Rightarrow>
        (case cf_protocols sv plan run_dir of Inl e \<Rightarrow> Some (Inl e) | Inr _ \<Rightarrow>
        (case (case cf_data_sources sv of None \<Rightarrow> Inr () | Some factory \<Rightarrow> factory plan run_dir) of Inl e \<Rightarrow> Some (Inl e) | Inr _ \<Rightarrow>
        (case (if js then (case cf_script sv of
                             Some factory \<Rightarrow> factory plan run_dir
                           | None \<Rightarrow> Inl ''plan uses JavaScript but this agent has no script engine'')
               else Inr ()) of Inl e \<Rightarrow> Some (Inl e) | Inr _ \<Rightarrow>
        map_option (map_sum (\<lambda>e. ''engine setup failed: '' @ cf_engine_text sv e) id)
          (engine_new (cf_setup sv) plan (as_run_id x) (Some (of_nat (as_partition_index x), of_nat (as_partition_count x)))
             [(''instance'', cf_agent_name sv)]))))))))"

definition prepares :: "string \<Rightarrow> agent \<Rightarrow> bool" where
  "prepares run_id a = (case ag_current a of Some (Preparing rid _ _) \<Rightarrow> rid = run_id | _ \<Rightarrow> False)"

definition latched_start :: "agent \<Rightarrow> int option" where
  "latched_start a = (case ag_current a of Some (Preparing _ _ pending_start) \<Rightarrow> pending_start | _ \<Rightarrow> None)"

text \<open>
  The end of preparation: the guarded transition to an armed run with its start channel, whose run task is
  spawned before readiness is reported.
\<close>

definition arm_run :: "nat \<Rightarrow> assignment \<Rightarrow> 'v engine \<Rightarrow> agent \<Rightarrow> agent" where
  "arm_run i x eng a =
     (let h = length (ag_handles a); c = length (ag_starts a);
          (cell, start_tx) = (case latched_start a of Some start_ms \<Rightarrow> (OsSent start_ms, None) | None \<Rightarrow> (OsEmpty, Some c));
          a1 = set_current (Some (Armed \<lparr>ar_run_id = as_run_id x, ar_handle = h, ar_start_tx = start_tx\<rparr>)) a
      in a1\<lparr>ag_handles := ag_handles a @ [eng_handle eng], ag_starts := ag_starts a1 @ [cell],
            ag_tasks := (ag_tasks a)[i := PrepReport (AssignmentReady (as_run_id x) (as_partition_index x))]
              @ [RunWaits (as_run_id x) h (length (eng_scenarios eng)) c]\<rparr>)"

definition finish_preparation :: "nat \<Rightarrow> assignment \<Rightarrow> nat \<Rightarrow> (string, 'v engine) result \<Rightarrow> agent \<Rightarrow> agent" where
  "finish_preparation i x flag res a =
     (case res of
        Inl detail \<Rightarrow>
          let a1 = (if prepares (as_run_id x) a then set_current None a else a)
          in set_task i (if ag_flags a ! flag then TaskOver
                         else PrepReport (Event (run_event_msg (as_run_id x) ''prep_failed'' detail []))) a1
      | Inr eng \<Rightarrow>
          if \<not> prepares (as_run_id x) a then set_task i TaskOver a
          else if ag_flags a ! flag then set_task i TaskOver (set_current None a)
          else arm_run i x eng a)"

definition prepare_assignment :: "'v agent_services \<Rightarrow> nat \<Rightarrow> assignment \<Rightarrow> nat \<Rightarrow> agent \<Rightarrow> agent" where
  "prepare_assignment sv i x flag a =
     finish_preparation i x flag
       (case prepare_engine sv x of None \<Rightarrow> Inl (''assignment preparation panicked: '' @ cf_join_text sv) | Some r \<Rightarrow> r) a"

section \<open>Runs\<close>

text \<open>\<open>clear\<close> of \<open>spawn_run\<close>: it frees the slot only of an armed run with that identifier.\<close>

definition clear_run :: "string \<Rightarrow> agent \<Rightarrow> agent" where
  "clear_run run_id a =
     (case ag_current a of
        Some (Armed run) \<Rightarrow> if ar_run_id run = run_id then set_current None a else a
      | _ \<Rightarrow> a)"

definition end_event :: "'v agent_services \<Rightarrow> string \<Rightarrow> string \<Rightarrow> (engine_error, run_result) result \<Rightarrow> run_event" where
  "end_event sv run_id summary_json res =
     (case res of
        Inr r \<Rightarrow>
          (case rr_aborted r of
             Some reason \<Rightarrow> run_event_msg run_id ''aborted'' reason summary_json
           | None \<Rightarrow> run_event_msg run_id ''finished'' [] summary_json)
      | Inl e \<Rightarrow> run_event_msg run_id ''failed'' (cf_engine_text sv e) [])"

text \<open>
  One poll of a task parked on the uplink, its start channel or its timer; \<open>now\<close> is the clock in milliseconds.
\<close>

definition poll_report :: "'v agent_services \<Rightarrow> agent_payload \<Rightarrow> agent \<Rightarrow> bool \<times> agent" where
  "poll_report sv msg a =
     (case enqueue_poll (cf_encoded_len sv) msg (ag_uplink a) of
        (Inr _, u) \<Rightarrow> (True, a\<lparr>ag_uplink := u\<rparr>)
      | (Inl _, u) \<Rightarrow> (False, a\<lparr>ag_uplink := u\<rparr>))"

definition started_msg :: "string \<Rightarrow> agent_payload" where
  "started_msg run_id = Event (run_event_msg run_id ''started'' [] [])"

definition poll_task :: "'v agent_services \<Rightarrow> int \<Rightarrow> nat \<Rightarrow> agent \<Rightarrow> agent" where
  "poll_task sv now i a =
     (case ag_tasks a ! i of
        PrepReport msg \<Rightarrow> (case poll_report sv msg a of (True, a') \<Rightarrow> set_task i TaskOver a' | (False, a') \<Rightarrow> a')
      | RunWaits run_id h n c \<Rightarrow>
          (case ag_starts a ! c of
             OsEmpty \<Rightarrow> a
           | OsClosed \<Rightarrow> set_task i TaskOver (clear_run run_id (upd_handle h drop_receivers a))
           | OsSent start_ms \<Rightarrow> set_task i (if now < start_ms then RunSleeps run_id h n start_ms else RunStarts run_id h n) a)
      | RunSleeps run_id h n start_ms \<Rightarrow> if now < start_ms then a else set_task i (RunStarts run_id h n) a
      | RunStarts run_id h n \<Rightarrow>
          (case poll_report sv (started_msg run_id) a of
             (True, a') \<Rightarrow>
               (case run_begin (ag_handles a' ! h) of (t, hd') \<Rightarrow> set_task i (RunEngine run_id h n t) (upd_handle h (\<lambda>_. hd') a'))
           | (False, a') \<Rightarrow> a')
      | RunEnds run_id h ev \<Rightarrow>
          (case poll_report sv (Event ev) a of
             (True, a') \<Rightarrow> set_task i TaskOver (clear_run run_id a')
           | (False, a') \<Rightarrow> a')
      | _ \<Rightarrow> a)"

text \<open>The engine of a run task gets an input; when \<open>run\<close> returns, its outcome is to be reported.\<close>

definition engine_event :: "'v agent_services \<Rightarrow> nat \<Rightarrow> engine_input \<Rightarrow> string \<Rightarrow> agent \<Rightarrow> agent" where
  "engine_event sv i inp summary_json a =
     (case ag_tasks a ! i of
        RunEngine run_id h n t \<Rightarrow>
          (case run_step n inp t (ag_handles a ! h) of (t', hd') \<Rightarrow>
             let a' = upd_handle h (\<lambda>_. hd') a
             in case et_phase t' of
                  PhReturned res \<Rightarrow> set_task i (RunEnds run_id h (end_event sv run_id summary_json res)) a'
                | _ \<Rightarrow> set_task i (RunEngine run_id h n t') a')
      | _ \<Rightarrow> a)"

text \<open>
  \<open>DeltaOutput::on_delta\<close>, the engine's metrics on their way to the window; \<open>None\<close> when the delta cannot be
  serialized. \<open>Inl\<close> is the message a final flush is parked with.
\<close>

definition on_delta ::
  "'v agent_services \<Rightarrow> string \<Rightarrow> string option \<Rightarrow> bool \<Rightarrow> agent_payload uplink \<Rightarrow> (agent_payload, bool) result \<times> agent_payload uplink" where
  "on_delta sv run_id delta_json final u =
     (if \<not> final \<and> up_is_full u then (Inr False, u)
      else case delta_json of
             None \<Rightarrow> (Inr True, u)
           | Some j \<Rightarrow>
               if final then (case enqueue_poll (cf_encoded_len sv) (Metrics run_id j) u of
                                (Inr _, u') \<Rightarrow> (Inr True, u')
                              | (Inl msg, u') \<Rightarrow> (Inl msg, u'))
               else (case try_enqueue (cf_encoded_len sv) (Metrics run_id j) u of (ok, u') \<Rightarrow> (Inr ok, u')))"

definition send_delta :: "'v agent_services \<Rightarrow> nat \<Rightarrow> string option \<Rightarrow> bool \<Rightarrow> agent \<Rightarrow> agent" where
  "send_delta sv i delta_json final a =
     (case ag_tasks a ! i of
        RunEngine run_id h n t \<Rightarrow> a\<lparr>ag_uplink := snd (on_delta sv run_id delta_json final (ag_uplink a))\<rparr>
      | _ \<Rightarrow> a)"

section \<open>The session loop\<close>

definition handle_start :: "string \<Rightarrow> int \<Rightarrow> agent \<Rightarrow> agent" where
  "handle_start run_id start_ms a =
     (case ag_current a of
        Some (Armed run) \<Rightarrow>
          if ar_run_id run = run_id
          then (case ar_start_tx run of
                  Some c \<Rightarrow> a\<lparr>ag_current := Some (Armed (run\<lparr>ar_start_tx := None\<rparr>)), ag_starts := (ag_starts a)[c := OsSent start_ms]\<rparr>
                | None \<Rightarrow> a)
          else a
      | Some (Preparing rid flag pending_start) \<Rightarrow>
          if rid = run_id then a\<lparr>ag_current := Some (Preparing rid flag (Some start_ms))\<rparr> else a
      | None \<Rightarrow> a)"

datatype control_action = CancelPrep nat | Disarm nat | Drive nat | StillPreparing | UnknownRunAction

definition stopish :: "string \<Rightarrow> bool" where
  "stopish action \<longleftrightarrow> action = ''stop'' \<or> action = ''kill''"

definition control_action_of :: "string \<Rightarrow> string \<Rightarrow> agent \<Rightarrow> control_action" where
  "control_action_of run_id action a =
     (case ag_current a of
        Some (Preparing rid flag _) \<Rightarrow>
          if rid = run_id then (if stopish action then CancelPrep flag else StillPreparing) else UnknownRunAction
      | Some (Armed run) \<Rightarrow>
          if ar_run_id run = run_id
          then (if stopish action \<and> ar_start_tx run \<noteq> None then Disarm (ar_handle run) else Drive (ar_handle run))
          else UnknownRunAction
      | None \<Rightarrow> UnknownRunAction)"

definition drive :: "string \<Rightarrow> string \<Rightarrow> u64 \<Rightarrow> run_handle \<Rightarrow> (string, unit) result \<times> run_handle" where
  "drive action scenario value h =
     (if action = ''stop'' then (Inr (), handle_stop ''controller requested stop'' h)
      else if action = ''kill'' then (Inr (), handle_kill ''controller requested kill'' h)
      else if action = ''pause'' then (Inr (), handle_pause True h)
      else if action = ''resume'' then (Inr (), handle_pause False h)
      else if action = ''scale'' then handle_scale scenario value h
      else (Inl (''unknown control action `'' @ action @ ''`''), h))"

definition handle_control :: "'v agent_services \<Rightarrow> string \<times> string \<times> string \<times> u64 \<times> nat \<Rightarrow> agent \<Rightarrow> agent" where
  "handle_control sv c a =
     (case c of (run_id, action, scenario, value, command_id) \<Rightarrow>
        case control_action_of run_id action a of
          CancelPrep flag \<Rightarrow> enqueue_control_ack sv c (Inr ()) (set_current None (a\<lparr>ag_flags := (ag_flags a)[flag := True]\<rparr>))
        | Disarm h \<Rightarrow>
            enqueue_control_ack sv c (Inr ())
              (upd_handle h (handle_kill ''controller requested stop before start'') (set_current None a))
        | StillPreparing \<Rightarrow> enqueue_control_ack sv c (Inl ''run is still preparing on this agent'') a
        | UnknownRunAction \<Rightarrow> enqueue_control_ack sv c (Inl ''run is not active on this agent'') a
        | Drive h \<Rightarrow>
            (case drive action scenario value (ag_handles a ! h) of (res, hd') \<Rightarrow>
               enqueue_control_ack sv c res (upd_handle h (\<lambda>_. hd') a)))"

fun handle_controller_message :: "'v agent_services \<Rightarrow> ctrl_msg \<Rightarrow> agent \<Rightarrow> agent" where
  "handle_controller_message sv (Registered controller_id version greeting) a = a\<lparr>ag_registered := True\<rparr>"
| "handle_controller_message sv (Assignment x) a = handle_assignment sv x a"
| "handle_controller_message sv (Start run_id start_ms) a = handle_start run_id start_ms a"
| "handle_controller_message sv (Control run_id action scenario value command_id) a =
     handle_control sv (run_id, action, scenario, value, command_id) a"
| "handle_controller_message sv (UplinkAck k) a = a\<lparr>ag_uplink := ack k (ag_uplink a)\<rparr>"

text \<open>The end of \<open>Agent::run\<close>: the run in the slot is told to stop and the window is closed.\<close>

definition shut_down :: "agent \<Rightarrow> agent" where
  "shut_down a =
     (let a1 = set_current None a;
          a2 = (case ag_current a of
                  Some (Preparing _ flag _) \<Rightarrow> a1\<lparr>ag_flags := (ag_flags a1)[flag := True]\<rparr>
                | Some (Armed run) \<Rightarrow> upd_handle (ar_handle run) (handle_kill ''agent shutting down'') a1
                | None \<Rightarrow> a1)
      in a2\<lparr>ag_uplink := up_close (ag_uplink a2), ag_shut_down := True\<rparr>)"

text \<open>
  Everything that happens to an agent: a session opens, its loop reads a message, its writer takes one from the
  window, a preparation returns what the process then answers, a task is polled, an engine goes on or flushes metrics, the agent shuts down.
\<close>

datatype 'v agent_event =
    AOpen
  | ADown ctrl_msg
  | AWrite nat
  | APrepared nat "'v agent_services"
  | APoll int nat
  | AEngine nat engine_input string
  | ADelta nat "string option" bool
  | AShutDown

fun agent_step :: "'v agent_services \<Rightarrow> 'v agent_event \<Rightarrow> agent \<Rightarrow> agent" where
  "agent_step sv AOpen a = a\<lparr>ag_registered := False, ag_uplink := snd (rewind (ag_uplink a))\<rparr>"
| "agent_step sv (ADown cm) a = (if ag_shut_down a then a else handle_controller_message sv cm a)"
| "agent_step sv (AWrite ep) a = a\<lparr>ag_uplink := snd (next_unsent ep (ag_uplink a))\<rparr>"
| "agent_step sv (APrepared i process) a =
     (if i < length (ag_tasks a)
      then (case ag_tasks a ! i of Preparation x flag \<Rightarrow> prepare_assignment process i x flag a | _ \<Rightarrow> a) else a)"
| "agent_step sv (APoll now i) a = (if i < length (ag_tasks a) then poll_task sv now i a else a)"
| "agent_step sv (AEngine i inp summary_json) a = (if i < length (ag_tasks a) then engine_event sv i inp summary_json a else a)"
| "agent_step sv (ADelta i delta_json final) a = (if i < length (ag_tasks a) then send_delta sv i delta_json final a else a)"
| "agent_step sv AShutDown a = (if ag_shut_down a then a else shut_down a)"

end
