(* ===== verification/Agent_Inv.thy ===== *)
theory Agent_Inv
  imports Agent
begin

text \<open>
  What holds of an agent however its tasks and messages interleave: which task holds the slot, that no task
  waits on a channel nobody can complete, and what a run has reported. The controller sends a run to an agent
  again only when no task for it is left there or the slot still has it.
\<close>

section \<open>Executions\<close>

datatype key = KRun string | KHandle nat | KStart nat | KFlag nat

text \<open>What a task owns: the run it works for and its places in the stores.\<close>

fun task_keys :: "agent_task \<Rightarrow> key set" where
  "task_keys (Preparation x f) = {KRun (as_run_id x), KFlag f}"
| "task_keys (RunWaits r h n c) = {KRun r, KHandle h, KStart c}"
| "task_keys (RunSleeps r h n ms) = {KRun r, KHandle h}"
| "task_keys (RunStarts r h n) = {KRun r, KHandle h}"
| "task_keys (RunEngine r h n t) = {KRun r, KHandle h}"
| "task_keys (RunEnds r h ev) = {KRun r, KHandle h}"
| "task_keys _ = {}"

definition holds_run :: "string \<Rightarrow> agent \<Rightarrow> bool" where
  "holds_run r a = (case ag_current a of None \<Rightarrow> False | Some p \<Rightarrow> phase_run_id p = r)"

fun agent_allows :: "'v agent_event \<Rightarrow> agent \<Rightarrow> bool" where
  "agent_allows (ADown (Assignment x)) a \<longleftrightarrow> holds_run (as_run_id x) a \<or> (\<forall>t \<in> set (ag_tasks a). KRun (as_run_id x) \<notin> task_keys t)"
| "agent_allows _ a \<longleftrightarrow> True"

text \<open>The lifecycle events of a run, by its handle, that a step puts into the window.\<close>

definition admits :: "'v agent_services \<Rightarrow> agent_payload \<Rightarrow> agent \<Rightarrow> bool" where
  "admits sv msg a = is_ok (fst (push (cf_encoded_len sv) msg (ag_uplink a)))"

fun reports :: "'v agent_services \<Rightarrow> 'v agent_event \<Rightarrow> agent \<Rightarrow> (nat \<times> string) list" where
  "reports sv (APoll now i) a =
     (if i < length (ag_tasks a)
      then (case ag_tasks a ! i of
              RunStarts r h n \<Rightarrow> if admits sv (started_msg r) a then [(h, ''started'')] else []
            | RunEnds r h ev \<Rightarrow> if admits sv (Event ev) a then [(h, ev_kind ev)] else []
            | _ \<Rightarrow> [])
      else [])"
| "reports sv _ a = []"

inductive agent_path :: "'v agent_services \<Rightarrow> agent \<Rightarrow> agent \<Rightarrow> (nat \<times> string) list \<Rightarrow> bool" for sv a\<^sub>0 where
  here: "agent_path sv a\<^sub>0 a\<^sub>0 []"
| step: "agent_path sv a\<^sub>0 a lg \<Longrightarrow> agent_allows e a \<Longrightarrow> agent_path sv a\<^sub>0 (agent_step sv e a) (lg @ reports sv e a)"

section \<open>The slot and its holder\<close>

text \<open>A task that must hold the slot, and what the slot then shows.\<close>

fun must_hold :: "agent \<Rightarrow> agent_task \<Rightarrow> bool" where
  "must_hold a (Preparation x f) \<longleftrightarrow> \<not> ag_flags a ! f"
| "must_hold a (RunWaits r h n c) \<longleftrightarrow> ag_starts a ! c = OsEmpty \<or> (ag_starts a ! c \<noteq> OsClosed \<and> \<not> ag_shut_down a)"
| "must_hold a (RunEnds r h ev) \<longleftrightarrow> \<not> ag_shut_down a \<and> \<not> is_finished (rh_status (ag_handles a ! h))"
| "must_hold a (PrepReport m) \<longleftrightarrow> False"
| "must_hold a TaskOver \<longleftrightarrow> False"
| "must_hold a _ \<longleftrightarrow> \<not> ag_shut_down a"

fun holds_slot :: "agent \<Rightarrow> agent_task \<Rightarrow> bool" where
  "holds_slot a (Preparation x f) \<longleftrightarrow> (\<exists>ps. ag_current a = Some (Preparing (as_run_id x) f ps)) \<and> \<not> ag_flags a ! f"
| "holds_slot a (RunWaits r h n c) \<longleftrightarrow>
     ag_starts a ! c \<noteq> OsClosed \<and>
     ag_current a = Some (Armed \<lparr>ar_run_id = r, ar_handle = h, ar_start_tx = (if ag_starts a ! c = OsEmpty then Some c else None)\<rparr>)"
| "holds_slot a (RunSleeps r h n ms) \<longleftrightarrow> ag_current a = Some (Armed \<lparr>ar_run_id = r, ar_handle = h, ar_start_tx = None\<rparr>)"
| "holds_slot a (RunStarts r h n) \<longleftrightarrow> ag_current a = Some (Armed \<lparr>ar_run_id = r, ar_handle = h, ar_start_tx = None\<rparr>)"
| "holds_slot a (RunEngine r h n t) \<longleftrightarrow> ag_current a = Some (Armed \<lparr>ar_run_id = r, ar_handle = h, ar_start_tx = None\<rparr>)"
| "holds_slot a (RunEnds r h ev) \<longleftrightarrow> ag_current a = Some (Armed \<lparr>ar_run_id = r, ar_handle = h, ar_start_tx = None\<rparr>)"
| "holds_slot a _ \<longleftrightarrow> False"

definition end_kinds :: "string list" where
  "end_kinds = [''finished'', ''aborted'', ''failed'']"

fun task_status :: "agent \<Rightarrow> agent_task \<Rightarrow> bool" where
  "task_status a (RunEngine r h n t) \<longleftrightarrow> phase_status (et_phase t) (rh_status (ag_handles a ! h)) \<and> (\<forall>res. et_phase t \<noteq> PhReturned res)"
| "task_status a (RunEnds r h ev) \<longleftrightarrow> ev_kind ev \<in> set end_kinds"
| "task_status a (RunWaits r h n c) \<longleftrightarrow> rh_status (ag_handles a ! h) = EngPending"
| "task_status a (RunSleeps r h n ms) \<longleftrightarrow> rh_status (ag_handles a ! h) = EngPending"
| "task_status a (RunStarts r h n) \<longleftrightarrow> rh_status (ag_handles a ! h) = EngPending"
| "task_status a _ \<longleftrightarrow> True"

fun key_bound :: "agent \<Rightarrow> key \<Rightarrow> bool" where
  "key_bound a (KRun r) \<longleftrightarrow> True"
| "key_bound a (KHandle h) \<longleftrightarrow> h < length (ag_handles a)"
| "key_bound a (KStart c) \<longleftrightarrow> c < length (ag_starts a)"
| "key_bound a (KFlag f) \<longleftrightarrow> f < length (ag_flags a)"

definition atask_ok :: "agent \<Rightarrow> agent_task \<Rightarrow> bool" where
  "atask_ok a t \<longleftrightarrow> (\<forall>k \<in> task_keys t. key_bound a k) \<and> task_status a t \<and> (must_hold a t \<longrightarrow> holds_slot a t)"

definition disjoint_keys :: "agent_task list \<Rightarrow> bool" where
  "disjoint_keys ts \<longleftrightarrow> (\<forall>i < length ts. \<forall>j < length ts. i \<noteq> j \<longrightarrow> task_keys (ts ! i) \<inter> task_keys (ts ! j) = {})"

definition agent_inv :: "agent \<Rightarrow> bool" where
  "agent_inv a \<longleftrightarrow>
     disjoint_keys (ag_tasks a) \<and> (\<forall>t \<in> set (ag_tasks a). atask_ok a t) \<and>
     (ag_current a \<noteq> None \<longrightarrow> \<not> ag_shut_down a \<and> (\<exists>t \<in> set (ag_tasks a). holds_slot a t))"

lemma disjoint_keys_update:
  assumes "disjoint_keys ts" "task_keys t \<subseteq> task_keys (ts ! i)" shows "disjoint_keys (ts[i := t])"
  unfolding disjoint_keys_def
proof (intro allI impI)
  fix j k
  assume "j < length (ts[i := t])" "k < length (ts[i := t])" "j \<noteq> k"
  then have "task_keys (ts ! j) \<inter> task_keys (ts ! k) = {}" "j < length ts" "k < length ts" using assms(1) by (auto simp: disjoint_keys_def)
  then show "task_keys (ts[i := t] ! j) \<inter> task_keys (ts[i := t] ! k) = {}"
    using assms(2) \<open>j \<noteq> k\<close> by (cases "i = j"; cases "i = k") auto
qed

lemma disjoint_keys_append:
  assumes "disjoint_keys ts" "\<And>u. u \<in> set ts \<Longrightarrow> task_keys u \<inter> task_keys t = {}" shows "disjoint_keys (ts @ [t])"
  using assms unfolding disjoint_keys_def by (auto simp: nth_append less_Suc_eq dest: nth_mem)

text \<open>Every task that holds the slot owns the run in it, so there is at most one.\<close>

lemma holds_slot_run: "holds_slot a t \<Longrightarrow> \<exists>p. ag_current a = Some p \<and> KRun (phase_run_id p) \<in> task_keys t"
  by (cases t) auto

lemma holder_unique:
  assumes "agent_inv a" "i < length (ag_tasks a)" "j < length (ag_tasks a)" "holds_slot a (ag_tasks a ! i)" "holds_slot a (ag_tasks a ! j)"
  shows "i = j"
  using assms holds_slot_run [OF assms(4)] holds_slot_run [OF assms(5)] unfolding agent_inv_def disjoint_keys_def by fastforce

lemma key_owner:
  assumes "agent_inv a" "i < length (ag_tasks a)" "j < length (ag_tasks a)" "k \<in> task_keys (ag_tasks a ! i)" "k \<in> task_keys (ag_tasks a ! j)"
  shows "i = j"
  using assms unfolding agent_inv_def disjoint_keys_def by blast

lemma inv_task:
  assumes "agent_inv a" "i < length (ag_tasks a)" shows "atask_ok a (ag_tasks a ! i)"
  using assms by (auto simp: agent_inv_def)

text \<open>Two states that agree on everything a task can see outside the keys of one of them.\<close>

fun same_at :: "agent \<Rightarrow> agent \<Rightarrow> key \<Rightarrow> bool" where
  "same_at a b (KRun r) \<longleftrightarrow> True"
| "same_at a b (KHandle h) \<longleftrightarrow> rh_status (ag_handles b ! h) = rh_status (ag_handles a ! h)"
| "same_at a b (KStart c) \<longleftrightarrow> ag_starts b ! c = ag_starts a ! c"
| "same_at a b (KFlag f) \<longleftrightarrow> ag_flags b ! f = ag_flags a ! f"

definition same_lengths :: "agent \<Rightarrow> agent \<Rightarrow> bool" where
  "same_lengths a b \<longleftrightarrow> length (ag_handles b) = length (ag_handles a) \<and> length (ag_starts b) = length (ag_starts a) \<and>
     length (ag_flags b) = length (ag_flags a) \<and> ag_shut_down b = ag_shut_down a"

lemma same_at_task:
  assumes "\<forall>k \<in> task_keys t. same_at a b k" "same_lengths a b"
  shows "task_status b t \<longleftrightarrow> task_status a t" "must_hold b t \<longleftrightarrow> must_hold a t"
    "ag_current b = ag_current a \<Longrightarrow> holds_slot b t \<longleftrightarrow> holds_slot a t"
    "(\<forall>k \<in> task_keys t. key_bound b k) \<longleftrightarrow> (\<forall>k \<in> task_keys t. key_bound a k)"
  using assms by (cases t; auto simp: same_lengths_def)+

lemma same_task_ok:
  assumes "\<forall>k \<in> task_keys t. same_at a b k" "same_lengths a b" "ag_current b = ag_current a" "atask_ok a t" shows "atask_ok b t"
  using assms same_at_task [OF assms(1,2)] by (simp add: atask_ok_def)

lemma inv_same:
  assumes "agent_inv a" "\<And>k. same_at a b k" "same_lengths a b" "ag_current b = ag_current a" "ag_tasks b = ag_tasks a"
  shows "agent_inv b"
  using assms same_at_task [of _ a b] same_task_ok [of _ a b] unfolding agent_inv_def by (auto simp: same_lengths_def)

text \<open>One task takes a step: it may change what it owns, and the slot if it holds it.\<close>

lemma inv_update:
  assumes inv: "agent_inv a" and i: "i < length (ag_tasks a)" and ts: "ag_tasks b = (ag_tasks a)[i := t]"
    and keys: "task_keys t \<subseteq> task_keys (ag_tasks a ! i)" and lens: "same_lengths a b"
    and same: "\<And>k. k \<notin> task_keys (ag_tasks a ! i) \<Longrightarrow> same_at a b k" and ok: "atask_ok b t"
    and cur: "ag_current b \<noteq> ag_current a \<Longrightarrow> holds_slot a (ag_tasks a ! i)"
    and keep: "holds_slot a (ag_tasks a ! i) \<Longrightarrow> ag_current b \<noteq> None \<Longrightarrow> holds_slot b t"
  shows "agent_inv b"
proof -
  have dis: "task_keys (ag_tasks a ! j) \<inter> task_keys (ag_tasks a ! i) = {}" if "j < length (ag_tasks a)" "j \<noteq> i" for j
    using inv i that by (auto simp: agent_inv_def disjoint_keys_def)
  have other: "\<forall>k \<in> task_keys (ag_tasks a ! j). same_at a b k" if "j < length (ag_tasks a)" "j \<noteq> i" for j
    using dis [OF that] same by blast
  have "atask_ok b (ag_tasks a ! j)" if j: "j < length (ag_tasks a)" "j \<noteq> i" for j
  proof (cases "ag_current b = ag_current a")
    case True
    then show ?thesis using same_task_ok [OF other [OF j] lens] inv_task [OF inv j(1)] by simp
  next
    case False
    then have "\<not> holds_slot a (ag_tasks a ! j)" using cur holder_unique [OF inv i j(1)] j(2) by blast
    then show ?thesis using inv_task [OF inv j(1)] same_at_task [OF other [OF j] lens] by (simp add: atask_ok_def)
  qed
  then have all: "\<forall>u \<in> set (ag_tasks b). atask_ok b u" using ok i by (auto simp: ts in_set_conv_nth nth_list_update)
  have slot: "\<not> ag_shut_down b \<and> (\<exists>u \<in> set (ag_tasks b). holds_slot b u)" if c: "ag_current b \<noteq> None"
  proof (cases "holds_slot a (ag_tasks a ! i)")
    case True
    then have "holds_slot b t" "ag_current a \<noteq> None" using keep c holds_slot_run by blast+
    then show ?thesis using inv lens i by (auto simp: agent_inv_def same_lengths_def ts intro: set_update_memI)
  next
    case False
    then have eq: "ag_current b = ag_current a" using cur by blast
    then obtain j where j: "j < length (ag_tasks a)" "holds_slot a (ag_tasks a ! j)"
      using inv c by (auto simp: agent_inv_def in_set_conv_nth)
    then have "j \<noteq> i" using False by blast
    then have "holds_slot b (ag_tasks b ! j)" using j same_at_task(3) [OF other lens eq] by (simp add: ts)
    then show ?thesis using inv lens eq c j(1) by (auto simp: agent_inv_def same_lengths_def ts intro!: bexI [of _ "ag_tasks b ! j"])
  qed
  show ?thesis unfolding agent_inv_def using all slot disjoint_keys_update [OF _ keys] inv by (simp add: ts agent_inv_def)
qed

text \<open>The tasks stay as they are and what one of them owns changes.\<close>

lemma inv_keep:
  assumes "agent_inv a" "i < length (ag_tasks a)" "ag_tasks b = ag_tasks a" "same_lengths a b"
    "\<And>k. k \<notin> task_keys (ag_tasks a ! i) \<Longrightarrow> same_at a b k" "atask_ok b (ag_tasks a ! i)" "holds_slot a (ag_tasks a ! i)"
    "ag_current b \<noteq> None \<Longrightarrow> holds_slot b (ag_tasks a ! i)"
  shows "agent_inv b"
  using assms by (intro inv_update [OF assms(1,2), of b "ag_tasks a ! i"]) simp_all

section \<open>Every step keeps the invariant\<close>

lemma nth_update_if: "xs[i := v] ! j = (if i = j \<and> j < length xs then v else xs ! j)"
  by (cases "i < length xs"; cases "i = j") (simp_all add: list_update_beyond)

lemma same_atI:
  assumes "\<And>h. rh_status (ag_handles b ! h) = rh_status (ag_handles a ! h)" "\<And>c. ag_starts b ! c = ag_starts a ! c"
    "\<And>f. ag_flags b ! f = ag_flags a ! f"
  shows "same_at a b k"
  using assms by (cases k) simp_all

lemma inv_uplink: "agent_inv a \<Longrightarrow> agent_inv (a\<lparr>ag_uplink := u\<rparr>)"
  by (erule inv_same) (simp_all add: same_lengths_def same_atI)

lemma inv_registered: "agent_inv a \<Longrightarrow> agent_inv (a\<lparr>ag_registered := v\<rparr>)"
  by (erule inv_same) (simp_all add: same_lengths_def same_atI)

lemma status_update:
  assumes "\<And>x. rh_status (f x) = rh_status x" shows "rh_status (hs[h := f (hs ! h)] ! k) = rh_status (hs ! k)"
  using assms by (simp add: nth_update_if)

lemma inv_handle: "agent_inv a \<Longrightarrow> (\<And>x. rh_status (f x) = rh_status x) \<Longrightarrow> agent_inv (upd_handle h f a)"
  by (erule inv_same) (auto simp: same_lengths_def upd_handle_def status_update intro!: same_atI)

lemma inv_report: "agent_inv a \<Longrightarrow> agent_inv (try_report sv m a)" "agent_inv a \<Longrightarrow> agent_inv (enqueue_control_ack sv c r a)"
  by (simp_all add: inv_uplink try_report_def enqueue_control_ack_def split: prod.split)

lemma drive_status: "drive action sc v h = (r, h') \<Longrightarrow> rh_status h' = rh_status h"
  by (auto simp: drive_def handle_stop_def handle_kill_def handle_pause_def handle_scale_def split: if_splits option.splits)

lemma poll_report_inv: "poll_report sv m a = (d, b) \<Longrightarrow> agent_inv a \<Longrightarrow> agent_inv b"
  by (auto simp: poll_report_def inv_uplink split: prod.splits sum.splits)

lemma poll_report_frame:
  assumes "poll_report sv m a = (d, b)"
  shows "ag_tasks b = ag_tasks a" "ag_current b = ag_current a" "ag_handles b = ag_handles a" "ag_starts b = ag_starts a"
    "ag_flags b = ag_flags a" "ag_shut_down b = ag_shut_down a"
  using assms by (auto simp: poll_report_def split: prod.splits sum.splits)

lemma set_task_fields [simp]:
  "ag_tasks (set_task i t a) = (ag_tasks a)[i := t]" "ag_current (set_task i t a) = ag_current a" "ag_handles (set_task i t a) = ag_handles a"
  "ag_starts (set_task i t a) = ag_starts a" "ag_flags (set_task i t a) = ag_flags a" "ag_shut_down (set_task i t a) = ag_shut_down a"
  "ag_uplink (set_task i t a) = ag_uplink a"
  by (simp_all add: set_task_def)

lemma upd_handle_fields [simp]:
  "ag_tasks (upd_handle h f a) = ag_tasks a" "ag_current (upd_handle h f a) = ag_current a"
  "ag_handles (upd_handle h f a) = (ag_handles a)[h := f (ag_handles a ! h)]"
  "ag_starts (upd_handle h f a) = ag_starts a" "ag_flags (upd_handle h f a) = ag_flags a" "ag_shut_down (upd_handle h f a) = ag_shut_down a"
  "ag_uplink (upd_handle h f a) = ag_uplink a"
  by (simp_all add: upd_handle_def)

lemma set_current_fields [simp]:
  "ag_tasks (set_current p a) = ag_tasks a" "ag_current (set_current p a) = p" "ag_handles (set_current p a) = ag_handles a"
  "ag_flags (set_current p a) = ag_flags a" "ag_shut_down (set_current p a) = ag_shut_down a" "ag_uplink (set_current p a) = ag_uplink a"
  "length (ag_starts (set_current p a)) = length (ag_starts a)"
  by (auto simp: set_current_def close_start_def split: option.split run_phase.split)

lemma holder:
  assumes "agent_inv a" "ag_current a = Some p"
  obtains i where "i < length (ag_tasks a)" "holds_slot a (ag_tasks a ! i)" "atask_ok a (ag_tasks a ! i)" "\<not> ag_shut_down a"
proof -
  obtain t where "t \<in> set (ag_tasks a)" "holds_slot a t" "\<not> ag_shut_down a" "atask_ok a t" using assms by (auto simp: agent_inv_def)
  then show ?thesis using that by (auto simp: in_set_conv_nth)
qed

text \<open>A task that ends: the slot is freed if it held it.\<close>

lemma clear_run_inv:
  assumes inv: "agent_inv a" and i: "i < length (ag_tasks a)" and r: "KRun r \<in> task_keys (ag_tasks a ! i)"
    and run: "\<And>x f. ag_tasks a ! i \<noteq> Preparation x f"
    and own: "holds_slot a (ag_tasks a ! i) \<Longrightarrow> \<exists>run. ag_current a = Some (Armed run) \<and> ar_start_tx run = None"
  shows "agent_inv (set_task i TaskOver (clear_run r a))"
proof -
  have holds: "holds_slot a (ag_tasks a ! i)" if c: "ag_current a = Some (Armed run)" "ar_run_id run = r" for run
  proof -
    obtain j where j: "j < length (ag_tasks a)" "holds_slot a (ag_tasks a ! j)" using holder [OF inv c(1)] by blast
    then have "KRun r \<in> task_keys (ag_tasks a ! j)" using holds_slot_run [OF j(2)] c by simp
    then have "j = i" using key_owner [OF inv j(1) i] r by simp
    then show ?thesis using j by simp
  qed
  have nr: "\<not> holds_slot a (ag_tasks a ! i)" if "\<not> (\<exists>run. ag_current a = Some (Armed run) \<and> ar_run_id run = r)"
    using that r run by (cases "ag_tasks a ! i") auto
  show ?thesis
    by (rule inv_update [OF inv i, of _ TaskOver])
      (use holds nr own in \<open>auto simp: clear_run_def set_current_def same_lengths_def atask_ok_def split: option.splits run_phase.splits if_splits intro!: same_atI\<close>)
qed

lemma poll_task_inv:
  assumes inv: "agent_inv a" and i: "i < length (ag_tasks a)" shows "agent_inv (poll_task sv now i a)"
proof (cases "ag_tasks a ! i")
  case (PrepReport m)
  obtain d b where p: "poll_report sv m a = (d, b)" by (metis surj_pair)
  note f = poll_report_frame [OF p]
  have "agent_inv (set_task i TaskOver b)"
    by (rule inv_update [OF poll_report_inv [OF p inv], of i _ TaskOver])
      (use i in \<open>auto simp: f same_lengths_def atask_ok_def PrepReport intro!: same_atI\<close>)
  then show ?thesis using PrepReport p poll_report_inv [OF p inv] by (simp add: poll_task_def split: bool.split)
next
  case (RunWaits r h n c)
  note ok = inv_task [OF inv i, unfolded RunWaits]
  show ?thesis
  proof (cases "ag_starts a ! c")
    case OsEmpty
    then show ?thesis using inv RunWaits by (simp add: poll_task_def)
  next
    case (OsSent ms)
    have "agent_inv (set_task i (if now < ms then RunSleeps r h n ms else RunStarts r h n) a)"
      by (rule inv_update [OF inv i, of _ "if now < ms then RunSleeps r h n ms else RunStarts r h n"])
        (use ok OsSent in \<open>auto simp: RunWaits same_lengths_def atask_ok_def intro!: same_atI\<close>)
    then show ?thesis using RunWaits OsSent by (simp add: poll_task_def)
  next
    case OsClosed
    have d: "agent_inv (upd_handle h drop_receivers a)" by (rule inv_handle [OF inv]) simp
    have "agent_inv (set_task i TaskOver (clear_run r (upd_handle h drop_receivers a)))"
      by (rule clear_run_inv [OF d]) (use i OsClosed in \<open>auto simp: RunWaits\<close>)
    then show ?thesis using RunWaits OsClosed by (simp add: poll_task_def)
  qed
next
  case (RunSleeps r h n ms)
  note ok = inv_task [OF inv i, unfolded RunSleeps]
  have "agent_inv (set_task i (RunStarts r h n) a)"
    by (rule inv_update [OF inv i, of _ "RunStarts r h n"]) (use ok in \<open>auto simp: RunSleeps same_lengths_def atask_ok_def intro!: same_atI\<close>)
  then show ?thesis using inv RunSleeps by (simp add: poll_task_def)
next
  case (RunStarts r h n)
  obtain d b where p: "poll_report sv (started_msg r) a = (d, b)" by (metis surj_pair)
  note f = poll_report_frame [OF p] and ok = inv_task [OF inv i, unfolded RunStarts]
  let ?t = "RunEngine r h n \<lparr>et_phase = PhOutputs, et_timers = 0\<rparr>"
  have b: "agent_inv b" by (rule poll_report_inv [OF p inv])
  have same: "same_at b (set_task i ?t (upd_handle h (\<lambda>x. x\<lparr>rh_status := EngRunning\<rparr>) b)) k" if "k \<notin> task_keys (ag_tasks b ! i)" for k
    using that by (cases k) (auto simp: f RunStarts nth_list_update)
  have "agent_inv (set_task i ?t (upd_handle h (\<lambda>x. x\<lparr>rh_status := EngRunning\<rparr>) b))"
    by (rule inv_update [OF b, of i _ ?t]) (use i ok same in \<open>auto simp: f RunStarts same_lengths_def atask_ok_def\<close>)
  then show ?thesis using RunStarts p b by (simp add: poll_task_def run_begin_def upd_handle_def split: bool.split)
next
  case (RunEnds r h ev)
  obtain d b where p: "poll_report sv (Event ev) a = (d, b)" by (metis surj_pair)
  note f = poll_report_frame [OF p]
  have b: "agent_inv b" by (rule poll_report_inv [OF p inv])
  have "agent_inv (set_task i TaskOver (clear_run r b))" by (rule clear_run_inv [OF b]) (use i in \<open>auto simp: f RunEnds\<close>)
  then show ?thesis using RunEnds p b by (simp add: poll_task_def split: bool.split)
qed (use inv in \<open>simp_all add: poll_task_def\<close>)

lemma engine_event_inv:
  assumes inv: "agent_inv a" and i: "i < length (ag_tasks a)" shows "agent_inv (engine_event sv i inp json a)"
proof (cases "ag_tasks a ! i")
  case (RunEngine r h n t)
  obtain t' hd' where st: "run_step n inp t (ag_handles a ! h) = (t', hd')" by (metis surj_pair)
  note ok = inv_task [OF inv i, unfolded RunEngine]
  let ?u = "case et_phase t' of PhReturned res \<Rightarrow> RunEnds r h (end_event sv r json res) | _ \<Rightarrow> RunEngine r h n t'"
  have status: "phase_status (et_phase t') (rh_status hd')" using phase_status_step [OF st] ok by (simp add: atask_ok_def)
  have same: "same_at a (set_task i ?u (upd_handle h (\<lambda>_. hd') a)) k" if "k \<notin> task_keys (ag_tasks a ! i)" for k
    using that by (cases k) (auto simp: RunEngine)
  have kind: "ev_kind (end_event sv r json res) \<in> set end_kinds" for res
    by (auto simp: end_event_def end_kinds_def run_event_msg_def split: sum.split option.split)
  have "agent_inv (set_task i ?u (upd_handle h (\<lambda>_. hd') a))"
    by (rule inv_update [OF inv i, of _ ?u])
      (use ok same status kind in \<open>auto simp: RunEngine same_lengths_def atask_ok_def split: engine_phase.split\<close>)
  then show ?thesis using RunEngine st by (cases "et_phase t'") (simp_all add: engine_event_def Let_def)
qed (use inv in \<open>simp_all add: engine_event_def\<close>)

text \<open>The end of a preparation.\<close>

lemma prepares_holder:
  assumes inv: "agent_inv a" and i: "i < length (ag_tasks a)" "ag_tasks a ! i = Preparation x f" and p: "prepares (as_run_id x) a"
  shows "holds_slot a (ag_tasks a ! i)"
proof -
  obtain ps f' where c: "ag_current a = Some (Preparing (as_run_id x) f' ps)" using p by (auto simp: prepares_def split: option.splits run_phase.splits)
  then obtain j where j: "j < length (ag_tasks a)" "holds_slot a (ag_tasks a ! j)" using holder [OF inv] by blast
  then have "KRun (as_run_id x) \<in> task_keys (ag_tasks a ! j)" using holds_slot_run [OF j(2)] c by simp
  then have "j = i" using key_owner [OF inv j(1) i(1), of "KRun (as_run_id x)"] i(2) by simp
  then show ?thesis using j by simp
qed

lemma set_current_preparing: "prepares r a \<Longrightarrow> set_current p a = a\<lparr>ag_current := p\<rparr>"
  by (auto simp: prepares_def set_current_def split: option.splits run_phase.splits)

lemma drop_preparation:
  assumes inv: "agent_inv a" and i: "i < length (ag_tasks a)" "ag_tasks a ! i = Preparation x f" and t: "task_keys t = {}"
  shows "agent_inv (set_task i t (if prepares (as_run_id x) a then set_current None a else a))"
proof -
  have n: "\<not> holds_slot a (ag_tasks a ! i)" if "\<not> prepares (as_run_id x) a" using that i(2) by (auto simp: prepares_def)
  have "atask_ok b t" for b using t by (cases t) (auto simp: atask_ok_def)
  then show ?thesis
    by (intro inv_update [OF inv i(1), of _ t])
      (use n prepares_holder [OF inv i] t in \<open>auto simp: same_lengths_def set_current_preparing split: if_splits intro!: same_atI\<close>)
qed

lemma keys_fresh:
  assumes "agent_inv a" "t \<in> set (ag_tasks a)"
  shows "KHandle (length (ag_handles a)) \<notin> task_keys t" "KStart (length (ag_starts a)) \<notin> task_keys t" "KFlag (length (ag_flags a)) \<notin> task_keys t"
  using assms unfolding agent_inv_def atask_ok_def by fastforce+

lemma atask_ok_grow:
  assumes "atask_ok a t" "\<not> holds_slot a t" "ag_shut_down b = ag_shut_down a"
    "ag_handles b = ag_handles a @ hs" "ag_starts b = ag_starts a @ ss" "ag_flags b = ag_flags a @ fs"
  shows "atask_ok b t"
  using assms by (cases t) (auto simp: atask_ok_def nth_append)

lemma new_handle_status: "engine_new su plan r p x = Some (Inr eng) \<Longrightarrow> rh_status (eng_handle eng) = EngPending"
  by (auto simp: engine_new_def new_handle_def Let_def split: sum.splits prod.splits if_splits Option.bind_splits)

lemma mapped_ok: "map_sum f id r = Inr v \<longleftrightarrow> r = Inr v"
  by (cases r) auto

lemma prepare_engine_status: "prepare_engine sv x = Some (Inr eng) \<Longrightarrow> rh_status (eng_handle eng) = EngPending"
  by (auto simp: prepare_engine_def Let_def mapped_ok dest!: new_handle_status split: sum.splits prod.splits if_splits option.splits)

lemma arm_run_inv:
  assumes inv: "agent_inv a" and i: "i < length (ag_tasks a)" "ag_tasks a ! i = Preparation x f" and p: "prepares (as_run_id x) a"
    and pend: "rh_status (eng_handle eng) = EngPending"
  shows "agent_inv (arm_run i x eng a)"
proof -
  let ?h = "length (ag_handles a)" and ?c = "length (ag_starts a)"
  let ?t = "RunWaits (as_run_id x) ?h (length (eng_scenarios eng)) ?c"
  let ?r = "PrepReport (AssignmentReady (as_run_id x) (as_partition_index x))"
  define b where "b = arm_run i x eng a"
  have hold: "holds_slot a (ag_tasks a ! i)" by (rule prepares_holder [OF inv i p])
  then have ns: "\<not> ag_shut_down a" using inv holds_slot_run [OF hold] by (auto simp: agent_inv_def)
  obtain cell where cell: "cell \<noteq> OsClosed"
    and b: "ag_tasks b = (ag_tasks a)[i := ?r] @ [?t]" "ag_handles b = ag_handles a @ [eng_handle eng]" "ag_starts b = ag_starts a @ [cell]"
      "ag_flags b = ag_flags a @ []" "ag_shut_down b = ag_shut_down a"
      "ag_current b = Some (Armed \<lparr>ar_run_id = as_run_id x, ar_handle = ?h, ar_start_tx = (if cell = OsEmpty then Some ?c else None)\<rparr>)"
    using p that [of "case latched_start a of None \<Rightarrow> OsEmpty | Some ms \<Rightarrow> OsSent ms"]
    by (cases "latched_start a") (simp_all add: b_def arm_run_def Let_def set_current_preparing)
  have old: "atask_ok b (ag_tasks a ! j)" if j: "j < length (ag_tasks a)" "j \<noteq> i" for j
    using atask_ok_grow [OF inv_task [OF inv j(1)] _ b(5,2-4)] holder_unique [OF inv i(1) j(1) hold] j(2) by blast
  have "holds_slot b ?t" using cell by (simp add: b)
  then have new: "atask_ok b ?t" "\<exists>u \<in> set (ag_tasks b). holds_slot b u" using pend by (simp_all add: atask_ok_def b)
  have "atask_ok b ?r" by (simp add: atask_ok_def)
  then have "\<forall>u \<in> set (ag_tasks b). atask_ok b u" using old new(1) i(1) unfolding b(1) by (auto simp: in_set_conv_nth nth_append nth_list_update)
  moreover have "disjoint_keys (ag_tasks b)" unfolding b(1)
  proof (rule disjoint_keys_append)
    show "disjoint_keys ((ag_tasks a)[i := ?r])" using inv by (intro disjoint_keys_update) (simp_all add: agent_inv_def)
    fix u
    assume "u \<in> set ((ag_tasks a)[i := ?r])"
    then obtain j where j: "j < length (ag_tasks a)" "u = (ag_tasks a)[i := ?r] ! j" by (auto simp: in_set_conv_nth)
    show "task_keys u \<inter> task_keys ?t = {}"
    proof (cases "j = i")
      case False
      then have u: "u = ag_tasks a ! j" and "task_keys u \<inter> task_keys (ag_tasks a ! i) = {}" using inv i(1) j by (auto simp: agent_inv_def disjoint_keys_def)
      then show ?thesis using keys_fresh [OF inv, of u] j(1) i(2) by auto
    qed (use j i(1) in simp)
  qed
  ultimately show ?thesis using new(2) ns b(5) unfolding agent_inv_def b_def by simp
qed

lemma finish_preparation_inv:
  assumes inv: "agent_inv a" and i: "i < length (ag_tasks a)" "ag_tasks a ! i = Preparation x f"
    and pend: "\<And>eng. res = Inr eng \<Longrightarrow> rh_status (eng_handle eng) = EngPending"
  shows "agent_inv (finish_preparation i x f res a)"
  using drop_preparation [OF inv i, of TaskOver] drop_preparation [OF inv i, of "PrepReport _"] arm_run_inv [OF inv i] pend
  by (auto simp: finish_preparation_def Let_def split: sum.split if_splits)

lemma prepare_assignment_inv:
  assumes "agent_inv a" "i < length (ag_tasks a)" "ag_tasks a ! i = Preparation x f"
  shows "agent_inv (prepare_assignment sv i x f a)"
  unfolding prepare_assignment_def
  by (rule finish_preparation_inv [OF assms]) (auto split: option.splits intro: prepare_engine_status)

text \<open>Messages of the controller.\<close>

lemma handle_start_inv:
  assumes inv: "agent_inv a" shows "agent_inv (handle_start r ms a)"
proof (cases "ag_current a")
  case (Some p)
  obtain i where i: "i < length (ag_tasks a)" "holds_slot a (ag_tasks a ! i)" "atask_ok a (ag_tasks a ! i)" using holder [OF inv Some] by blast
  have eq: "ag_tasks a = (ag_tasks a)[i := ag_tasks a ! i]" by simp
  show ?thesis
  proof (cases p)
    case (Preparing r' f ps)
    then obtain x where x: "ag_tasks a ! i = Preparation x f" "as_run_id x = r'" "\<not> ag_flags a ! f" using i(2) Some by (cases "ag_tasks a ! i") auto
    have "agent_inv (a\<lparr>ag_current := Some (Preparing r' f (Some ms))\<rparr>)"
      by (rule inv_keep [OF inv i(1)])
        (use i x in \<open>auto simp: same_lengths_def atask_ok_def intro!: same_atI\<close>)
    then show ?thesis using inv Some Preparing by (cases "r' = r") (simp_all add: handle_start_def)
  next
    case (Armed run)
    show ?thesis
    proof (cases "ar_start_tx run")
      case None
      then show ?thesis using inv Some Armed by (simp add: handle_start_def)
    next
      case (Some c)
      then obtain n where t: "ag_tasks a ! i = RunWaits (ar_run_id run) (ar_handle run) n c" "ag_starts a ! c = OsEmpty"
        using i(2) \<open>ag_current a = Some p\<close> Armed by (cases "ag_tasks a ! i") (auto split: if_splits)
      let ?b = "a\<lparr>ag_current := Some (Armed (run\<lparr>ar_start_tx := None\<rparr>)), ag_starts := (ag_starts a)[c := OsSent ms]\<rparr>"
      have same: "same_at a ?b k" if "k \<notin> task_keys (ag_tasks a ! i)" for k using that t by (cases k) auto
      have "agent_inv ?b"
        by (rule inv_keep [OF inv i(1)]) (use i t same in \<open>auto simp: same_lengths_def atask_ok_def\<close>)
      then show ?thesis using inv Some \<open>ag_current a = Some p\<close> Armed by (simp add: handle_start_def)
    qed
  qed
qed (use inv in \<open>simp add: handle_start_def\<close>)

lemma cancel_inv:
  assumes inv: "agent_inv a" and c: "ag_current a = Some (Preparing r f ps)"
  shows "agent_inv (set_current None (a\<lparr>ag_flags := (ag_flags a)[f := True]\<rparr>))"
proof -
  obtain i where i: "i < length (ag_tasks a)" "holds_slot a (ag_tasks a ! i)" "atask_ok a (ag_tasks a ! i)" using holder [OF inv c] by blast
  obtain x where x: "ag_tasks a ! i = Preparation x f" using i(2) c by (cases "ag_tasks a ! i") auto
  let ?b = "set_current None (a\<lparr>ag_flags := (ag_flags a)[f := True]\<rparr>)"
  have same: "same_at a ?b k" if "k \<notin> task_keys (ag_tasks a ! i)" for k using that x c by (cases k) (auto simp: set_current_def)
  show ?thesis by (rule inv_keep [OF inv i(1)]) (use i x same in \<open>auto simp: same_lengths_def atask_ok_def\<close>)
qed

lemma disarm_inv:
  assumes inv: "agent_inv a" and c: "ag_current a = Some (Armed run)" "ar_start_tx run \<noteq> None"
  shows "agent_inv (set_current None a)"
proof -
  obtain i where i: "i < length (ag_tasks a)" "holds_slot a (ag_tasks a ! i)" "atask_ok a (ag_tasks a ! i)" using holder [OF inv c(1)] by blast
  obtain n c' where t: "ag_tasks a ! i = RunWaits (ar_run_id run) (ar_handle run) n c'" "ag_starts a ! c' = OsEmpty" "ar_start_tx run = Some c'"
    using i(2) c by (cases "ag_tasks a ! i") (auto split: if_splits)
  have same: "same_at a (set_current None a) k" if "k \<notin> task_keys (ag_tasks a ! i)" for k
    using that t c by (cases k) (auto simp: set_current_def close_start_def)
  have "must_hold (set_current None a) (ag_tasks a ! i) = False" using t c i(3) by (simp add: set_current_def close_start_def atask_ok_def)
  then show ?thesis
    by (intro inv_keep [OF inv i(1)]) (use i t same in \<open>auto simp: same_lengths_def atask_ok_def\<close>)
qed

lemma handle_control_inv:
  assumes inv: "agent_inv a" shows "agent_inv (handle_control sv c a)"
proof -
  obtain r act sc v cid where c: "c = (r, act, sc, v, cid)" by (cases c)
  have kill: "rh_status (handle_kill x h) = rh_status h" for x h by (simp add: handle_kill_def)
  show ?thesis
  proof (cases "control_action_of r act a")
    case (CancelPrep f)
    then show ?thesis using cancel_inv [OF inv]
      by (auto simp: c handle_control_def control_action_of_def inv_report split: option.splits run_phase.splits if_splits)
  next
    case (Disarm h)
    then have "agent_inv (set_current None a)"
      by (auto simp: control_action_of_def split: option.splits run_phase.splits if_splits intro: disarm_inv [OF inv])
    then show ?thesis using Disarm by (simp add: c handle_control_def inv_report inv_handle kill)
  next
    case (Drive h)
    obtain res hd' where d: "drive act sc v (ag_handles a ! h) = (res, hd')" by (metis surj_pair)
    have "upd_handle h (\<lambda>_. hd') a = upd_handle h (\<lambda>x. if x = ag_handles a ! h then hd' else x) a" by (simp add: upd_handle_def)
    moreover have "agent_inv (upd_handle h (\<lambda>x. if x = ag_handles a ! h then hd' else x) a)"
      by (rule inv_handle [OF inv]) (use drive_status [OF d] in auto)
    ultimately show ?thesis using Drive d by (simp add: c handle_control_def inv_report)
  qed (use inv in \<open>simp_all add: c handle_control_def inv_report\<close>)
qed

lemma is_finished_simps [simp]: "\<not> is_finished EngPending" "\<not> is_finished EngRunning" "\<not> is_finished EngStopping" "is_finished (EngFinished p)"
  by (simp_all add: is_finished_def)

lemma not_finished: "phase_status ph st \<Longrightarrow> \<forall>res. ph \<noteq> PhReturned res \<Longrightarrow> \<not> is_finished st"
  by (cases ph) auto

lemma accept_inv:
  assumes inv: "agent_inv a" and run: "\<forall>t \<in> set (ag_tasks a). KRun (as_run_id x) \<notin> task_keys t" and up: "\<not> ag_shut_down a"
    and free: "\<And>t. t \<in> set (ag_tasks a) \<Longrightarrow> \<not> must_hold a t"
  shows "agent_inv ((set_current (Some (Preparing (as_run_id x) (length (ag_flags a)) None)) a)
    \<lparr>ag_flags := ag_flags a @ [False], ag_tasks := ag_tasks a @ [Preparation x (length (ag_flags a))]\<rparr>)" (is "agent_inv ?b")
proof -
  have starts: "\<forall>c < length (ag_starts a). ag_starts ?b ! c = ag_starts a ! c \<or> ag_starts ?b ! c = OsClosed"
    by (auto simp: set_current_def close_start_def nth_update_if split: option.split run_phase.split)
  have old: "atask_ok ?b t" if t: "t \<in> set (ag_tasks a)" for t
  proof -
    have ok: "atask_ok a t" using inv t by (simp add: agent_inv_def)
    have "\<not> must_hold ?b t"
      using free [OF t] ok starts by (cases t) (force simp: atask_ok_def nth_append)+
    moreover have "task_status ?b t \<and> (\<forall>k \<in> task_keys t. key_bound ?b k)" using ok by (cases t) (auto simp: atask_ok_def)
    ultimately show ?thesis by (simp add: atask_ok_def)
  qed
  have new: "holds_slot ?b (Preparation x (length (ag_flags a)))" by simp
  have "disjoint_keys (ag_tasks ?b)"
    using inv run keys_fresh [OF inv] by (auto simp: agent_inv_def intro!: disjoint_keys_append)
  then show ?thesis using old new up unfolding agent_inv_def by (auto simp: atask_ok_def)
qed

lemma handle_assignment_inv:
  assumes inv: "agent_inv a" and allows: "holds_run (as_run_id x) a \<or> (\<forall>t \<in> set (ag_tasks a). KRun (as_run_id x) \<notin> task_keys t)"
    and up: "\<not> ag_shut_down a"
  shows "agent_inv (handle_assignment sv x a)"
proof -
  have free: "\<not> must_hold a t"
    if "ag_current a = None \<or> (\<exists>run. ag_current a = Some (Armed run) \<and> is_finished (rh_status (ag_handles a ! ar_handle run)))" "t \<in> set (ag_tasks a)" for t
  proof -
    have "atask_ok a t" using inv that(2) by (simp add: agent_inv_def)
    then show ?thesis using that(1) by (cases t) (auto simp: atask_ok_def dest: not_finished split: if_splits)
  qed
  have "agent_inv (snd (arm_assignment sv x a))"
    using inv allows accept_inv [OF inv _ up free]
    by (auto simp: arm_assignment_def Let_def holds_run_def split: sum.split option.splits run_phase.splits)
  then show ?thesis by (auto simp: handle_assignment_def inv_report split: prod.split sum.split)
qed

lemma shut_down_inv:
  assumes inv: "agent_inv a" and up: "\<not> ag_shut_down a" shows "agent_inv (shut_down a)"
proof -
  have "atask_ok (shut_down a) t" if t: "t \<in> set (ag_tasks a)" for t
  proof -
    have "atask_ok a t" using inv t by (simp add: agent_inv_def)
    then show ?thesis
      by (cases t; cases "ag_current a")
        (auto simp: atask_ok_def shut_down_def Let_def set_current_def close_start_def nth_update_if handle_kill_def up
          split: option.splits run_phase.splits if_splits)
  qed
  moreover have "ag_tasks (shut_down a) = ag_tasks a" "ag_current (shut_down a) = None"
    by (auto simp: shut_down_def Let_def split: option.split run_phase.split)
  ultimately show ?thesis using inv by (simp add: agent_inv_def)
qed

lemma agent_step_inv:
  assumes inv: "agent_inv a" and e: "agent_allows e a" shows "agent_inv (agent_step sv e a)"
proof (cases e)
  case AOpen
  then show ?thesis using inv_registered [OF inv_uplink [OF inv]] inv_uplink [OF inv_registered [OF inv]] by simp
next
  case (ADown cm)
  then show ?thesis using inv e handle_assignment_inv [OF inv]
    by (cases cm) (auto simp: inv_registered inv_uplink handle_start_inv handle_control_inv)
next
  case (APrepared i process)
  then show ?thesis using inv prepare_assignment_inv [OF inv] by (auto split: agent_task.split)
next
  case (ADelta i j final)
  then show ?thesis using inv by (auto simp: send_delta_def inv_uplink split: agent_task.split)
qed (use inv in \<open>simp_all add: inv_uplink poll_task_inv engine_event_inv shut_down_inv\<close>)

lemma agent_path_inv:
  assumes "agent_path sv a\<^sub>0 a lg" "agent_inv a\<^sub>0" shows "agent_inv a"
  using assms by (induction rule: agent_path.induct) (auto intro: agent_step_inv)

lemma agent_init_inv: "agent_inv (agent_init u)"
  by (simp add: agent_inv_def agent_init_def disjoint_keys_def)

end
