(* ===== verification/Agent_Props.thy ===== *)
theory Agent_Props
  imports Agent_Inv
begin

text \<open>
  The agent as the controller relies on it: one engine at a time, no run parked out of reach, one report of each
  kind per run, and a stop that is honoured.
\<close>

section \<open>How a run's task goes on\<close>

definition waiting :: "agent_task \<Rightarrow> bool" where
  "waiting t = (case t of RunWaits _ _ _ _ \<Rightarrow> True | RunSleeps _ _ _ _ \<Rightarrow> True | RunStarts _ _ _ \<Rightarrow> True | _ \<Rightarrow> False)"

lemma waiting_simps [simp]:
  "waiting (RunWaits r h n c)" "waiting (RunSleeps r h n ms)" "waiting (RunStarts r h n)" "\<not> waiting (RunEngine r h n t)" "\<not> waiting (RunEnds r h ev)"
  "\<not> waiting (Preparation x f)" "\<not> waiting (PrepReport m)" "\<not> waiting TaskOver"
  by (simp_all add: waiting_def)

definition kept_stop :: "agent \<Rightarrow> agent \<Rightarrow> nat \<Rightarrow> bool" where
  "kept_stop a b h \<longleftrightarrow> (rh_stop_reason (ag_handles a ! h) \<noteq> None \<longrightarrow> rh_stop_reason (ag_handles b ! h) \<noteq> None)"

fun outcome_kind :: "(engine_error, run_result) result \<Rightarrow> string" where
  "outcome_kind (Inl e) = ''failed''"
| "outcome_kind (Inr res) = (if rr_aborted res = None then ''finished'' else ''aborted'')"

lemma end_event_kind: "ev_kind (end_event sv r j res) = outcome_kind res"
  by (cases res) (auto simp: end_event_def run_event_msg_def split: option.split)

text \<open>A step that starts no engine and ends no task, seen from one run.\<close>

inductive next_task :: "agent \<Rightarrow> agent \<Rightarrow> nat \<Rightarrow> agent_task \<Rightarrow> agent_task \<Rightarrow> bool" for a b h where
  kept: "kept_stop a b h \<Longrightarrow> next_task a b h t t"
| waits: "kept_stop a b h \<Longrightarrow> waiting t \<Longrightarrow> waiting t' \<Longrightarrow> next_task a b h t t'"
| engine: "run_step n inp s (ag_handles a ! h) = (s', ag_handles b ! h) \<Longrightarrow> next_task a b h (RunEngine r h n s) (RunEngine r h n s')"
| ends: "run_step n inp s (ag_handles a ! h) = (s', ag_handles b ! h) \<Longrightarrow> et_phase s' = PhReturned res
    \<Longrightarrow> ev_kind ev = outcome_kind res \<Longrightarrow> next_task a b h (RunEngine r h n s) (RunEnds r h ev)"

definition goes_on :: "agent \<Rightarrow> agent \<Rightarrow> bool" where
  "goes_on a b \<longleftrightarrow>
     length (ag_handles a) \<le> length (ag_handles b) \<and>
     (\<forall>t' \<in> set (ag_tasks b). \<forall>h. KHandle h \<in> task_keys t' \<longrightarrow>
        (h = length (ag_handles a) \<and> h < length (ag_handles b) \<and> waiting t') \<or> (\<exists>t \<in> set (ag_tasks a). KHandle h \<in> task_keys t \<and> next_task a b h t t'))"

lemma goes_on_kept:
  assumes "length (ag_handles a) \<le> length (ag_handles b)"
    "\<And>t h. t \<in> set (ag_tasks b) \<Longrightarrow> KHandle h \<in> task_keys t \<Longrightarrow>
      t \<in> set (ag_tasks a) \<and> kept_stop a b h \<or> h = length (ag_handles a) \<and> h < length (ag_handles b) \<and> waiting t"
  shows "goes_on a b"
  unfolding goes_on_def using assms by (meson next_task.kept)

lemma goes_on_same: "ag_tasks b = ag_tasks a \<Longrightarrow> ag_handles b = ag_handles a \<Longrightarrow> goes_on a b"
  by (rule goes_on_kept) (simp_all add: kept_stop_def)

lemma goes_on_drop:
  assumes "ag_tasks b = (ag_tasks a)[i := t]" "task_keys t = {}" "length (ag_handles b) = length (ag_handles a)" "\<And>h. kept_stop a b h"
  shows "goes_on a b"
  using assms by (intro goes_on_kept) (auto simp: in_set_conv_nth nth_update_if split: if_splits)

lemma goes_on_waits:
  assumes "ag_tasks b = (ag_tasks a)[i := t]" "i < length (ag_tasks a)" "waiting (ag_tasks a ! i)" "waiting t"
    "\<And>h. KHandle h \<in> task_keys t \<Longrightarrow> KHandle h \<in> task_keys (ag_tasks a ! i)" "ag_handles b = ag_handles a"
  shows "goes_on a b"
proof -
  have k: "kept_stop a b h" for h using assms(6) by (simp add: kept_stop_def)
  have "\<exists>u \<in> set (ag_tasks a). KHandle h \<in> task_keys u \<and> next_task a b h u t'" if t': "t' \<in> set (ag_tasks b)" "KHandle h \<in> task_keys t'" for t' h
  proof (cases "t' = t")
    case True
    then show ?thesis using assms t' k by (intro bexI [of _ "ag_tasks a ! i"]) (auto intro: next_task.waits)
  next
    case False
    then have "t' \<in> set (ag_tasks a)" using t'(1) assms(1) by (auto dest: set_update_subset_insert [THEN subsetD])
    then show ?thesis using k t'(2) by (auto intro: next_task.kept)
  qed
  then show ?thesis using assms(6) by (auto simp: goes_on_def)
qed

text \<open>Every step but the two that report.\<close>

definition reporting :: "'v agent_event \<Rightarrow> agent \<Rightarrow> bool" where
  "reporting e a = (case e of
     APoll now i \<Rightarrow> i < length (ag_tasks a) \<and> (case ag_tasks a ! i of RunStarts _ _ _ \<Rightarrow> True | RunEnds _ _ _ \<Rightarrow> True | _ \<Rightarrow> False)
   | _ \<Rightarrow> False)"

lemma kept_upd_handle: "(\<And>x. rh_stop_reason x \<noteq> None \<Longrightarrow> rh_stop_reason (f x) \<noteq> None) \<Longrightarrow> ag_handles b = (ag_handles a)[k := f (ag_handles a ! k)] \<Longrightarrow> kept_stop a b h"
  by (auto simp: kept_stop_def nth_update_if)

lemma clear_run_fields [simp]:
  "ag_tasks (clear_run r a) = ag_tasks a" "ag_handles (clear_run r a) = ag_handles a" "ag_uplink (clear_run r a) = ag_uplink a"
  by (auto simp: clear_run_def split: option.split run_phase.split)

lemma goes_on_poll:
  assumes i: "i < length (ag_tasks a)" and quiet: "\<not> reporting (APoll now i) a" shows "goes_on a (poll_task sv now i a)"
proof (cases "ag_tasks a ! i")
  case (PrepReport m)
  obtain d b where p: "poll_report sv m a = (d, b)" by (metis surj_pair)
  note f = poll_report_frame [OF p]
  show ?thesis
  proof (cases d)
    case True
    then show ?thesis using p f PrepReport by (intro goes_on_drop [of _ _ i TaskOver]) (simp_all add: poll_task_def kept_stop_def)
  next
    case False
    then show ?thesis using p f PrepReport by (intro goes_on_same) (simp_all add: poll_task_def)
  qed
next
  case (RunWaits r h n c)
  show ?thesis
  proof (cases "ag_starts a ! c")
    case OsEmpty
    then show ?thesis using RunWaits by (intro goes_on_same) (simp_all add: poll_task_def)
  next
    case (OsSent ms)
    then show ?thesis using RunWaits i
      by (intro goes_on_waits [of _ _ i "if now < ms then RunSleeps r h n ms else RunStarts r h n"]) (auto simp: poll_task_def split: if_splits)
  next
    case OsClosed
    then show ?thesis using RunWaits
      by (intro goes_on_drop [of _ _ i TaskOver] kept_upd_handle [of drop_receivers _ _ h]) (simp_all add: poll_task_def)
  qed
next
  case (RunSleeps r h n ms)
  show ?thesis
  proof (cases "now < ms")
    case True
    then show ?thesis using RunSleeps by (intro goes_on_same) (simp_all add: poll_task_def)
  next
    case False
    then show ?thesis using RunSleeps i by (intro goes_on_waits [of _ _ i "RunStarts r h n"]) (simp_all add: poll_task_def)
  qed
qed (use quiet i in \<open>auto simp: poll_task_def reporting_def intro: goes_on_same\<close>)

lemma goes_on_engine:
  assumes inv: "agent_inv a" and i: "i < length (ag_tasks a)" shows "goes_on a (engine_event sv i inp j a)"
proof (cases "ag_tasks a ! i")
  case (RunEngine r h n s)
  obtain s' hd' where st: "run_step n inp s (ag_handles a ! h) = (s', hd')" by (metis surj_pair)
  define t where "t = (case et_phase s' of PhReturned res \<Rightarrow> RunEnds r h (end_event sv r j res) | _ \<Rightarrow> RunEngine r h n s')"
  define b where "b = engine_event sv i inp j a"
  have h: "h < length (ag_handles a)" using inv_task [OF inv i] RunEngine by (simp add: atask_ok_def)
  have b: "ag_tasks b = (ag_tasks a)[i := t]" "ag_handles b = (ag_handles a)[h := hd']"
    using RunEngine st by (simp_all add: b_def engine_event_def Let_def t_def split: engine_phase.split)
  have new: "next_task a b h (ag_tasks a ! i) t" and keys: "task_keys t = {KRun r, KHandle h}"
    using st h by (auto simp: RunEngine t_def b(2) split: engine_phase.split intro!: next_task.engine next_task.ends end_event_kind)
  have "\<exists>u \<in> set (ag_tasks a). KHandle k \<in> task_keys u \<and> next_task a b k u t'" if t': "t' \<in> set (ag_tasks b)" "KHandle k \<in> task_keys t'" for t' k
  proof (cases "k = h")
    case True
    obtain m where m: "m < length (ag_tasks a)" "t' = (ag_tasks a)[i := t] ! m" using t'(1) by (auto simp: b(1) in_set_conv_nth)
    have "m = i"
      using key_owner [OF inv m(1) i, of "KHandle h"] m t'(2) True RunEngine by (auto simp: nth_update_if split: if_splits)
    then show ?thesis using m new True RunEngine i by (auto intro!: bexI [OF _ nth_mem [OF i]])
  next
    case False
    then have "t' \<noteq> t" using t'(2) keys by auto
    then have "t' \<in> set (ag_tasks a)" using t'(1) b(1) by (auto dest: set_update_subset_insert [THEN subsetD])
    moreover have "kept_stop a b k" using False by (simp add: kept_stop_def b(2))
    ultimately show ?thesis using t'(2) by (auto intro: next_task.kept)
  qed
  then show ?thesis using b(2) unfolding goes_on_def b_def [symmetric] by auto
qed (auto simp: engine_event_def intro: goes_on_same)

lemma goes_on_arm:
  assumes inv: "agent_inv a" shows "goes_on a (arm_run i x eng a)"
proof (rule goes_on_kept)
  fix t h
  assume t: "t \<in> set (ag_tasks (arm_run i x eng a))" "KHandle h \<in> task_keys t"
  have old: "h < length (ag_handles a)" if "t \<in> set (ag_tasks a)" using inv that t(2) by (force simp: agent_inv_def atask_ok_def)
  have ts: "set (ag_tasks (arm_run i x eng a)) \<subseteq> insert (PrepReport (AssignmentReady (as_run_id x) (as_partition_index x)))
    (insert (RunWaits (as_run_id x) (length (ag_handles a)) (length (eng_scenarios eng)) (length (ag_starts a))) (set (ag_tasks a)))"
    by (auto simp: arm_run_def Let_def split: option.split dest: set_update_subset_insert [THEN subsetD])
  have hs: "ag_handles (arm_run i x eng a) = ag_handles a @ [eng_handle eng]" by (simp add: arm_run_def Let_def split: prod.split)
  show "t \<in> set (ag_tasks a) \<and> kept_stop a (arm_run i x eng a) h \<or>
      h = length (ag_handles a) \<and> h < length (ag_handles (arm_run i x eng a)) \<and> waiting t"
    using subsetD [OF ts t(1)] t(2) old by (auto simp: kept_stop_def hs nth_append)
qed (simp add: arm_run_def Let_def split: prod.split)

lemma goes_on_prepare:
  assumes inv: "agent_inv a" shows "goes_on a (prepare_assignment sv i x f a)"
proof -
  have drop: "goes_on a (set_task i t b)" if "task_keys t = {}" "b = a \<or> b = set_current None a" for t b
    using that by (intro goes_on_drop [of _ _ i t]) (auto simp: kept_stop_def)
  have "goes_on a (finish_preparation i x f res a)" for res :: "(string, 'a engine) result"
    by (cases res; cases "prepares (as_run_id x) a"; cases "ag_flags a ! f") (simp_all add: finish_preparation_def drop goes_on_arm [OF inv])
  then show ?thesis by (simp add: prepare_assignment_def)
qed

lemma drive_keeps_stop: "drive act sc v h = (r, h') \<Longrightarrow> rh_stop_reason h \<noteq> None \<Longrightarrow> rh_stop_reason h' \<noteq> None"
  by (auto simp: drive_def handle_stop_def handle_kill_def handle_pause_def handle_scale_def split: if_splits option.splits)

lemma try_report_fields [simp]:
  "ag_tasks (try_report sv m a) = ag_tasks a" "ag_handles (try_report sv m a) = ag_handles a" "ag_current (try_report sv m a) = ag_current a"
  "ag_tasks (enqueue_control_ack sv c r a) = ag_tasks a" "ag_handles (enqueue_control_ack sv c r a) = ag_handles a"
  "ag_current (enqueue_control_ack sv c r a) = ag_current a"
  by (simp_all add: try_report_def enqueue_control_ack_def split: prod.split)

lemma goes_on_down: "goes_on a (handle_controller_message sv cm a)"
proof (cases cm)
  case (Assignment x)
  have "ag_handles (handle_assignment sv x a) = ag_handles a" "\<exists>x' f. set (ag_tasks (handle_assignment sv x a)) \<subseteq> insert (Preparation x' f) (set (ag_tasks a))"
    by (auto simp: handle_assignment_def arm_assignment_def Let_def split: sum.split option.split run_phase.split)
  then show ?thesis using Assignment by (intro goes_on_kept) (auto simp: kept_stop_def)
next
  case (Start r ms)
  then show ?thesis by (auto simp: handle_start_def split: option.split run_phase.split intro: goes_on_same)
next
  case (Control r act sc v cid)
  have t: "ag_tasks (handle_control sv (r, act, sc, v, cid) a) = ag_tasks a"
    by (auto simp: handle_control_def split: control_action.split prod.split)
  have "length (ag_handles (handle_control sv (r, act, sc, v, cid) a)) = length (ag_handles a) \<and> kept_stop a (handle_control sv (r, act, sc, v, cid) a) h" for h
    by (auto simp: handle_control_def kept_stop_def nth_update_if handle_kill_def dest: drive_keeps_stop split: control_action.split prod.split)
  then show ?thesis using t Control by (intro goes_on_kept) auto
qed (auto intro: goes_on_same)

lemma goes_on_step:
  assumes inv: "agent_inv a" and quiet: "\<not> reporting e a" shows "goes_on a (agent_step sv e a)"
proof (cases e)
  case (APrepared i process)
  then show ?thesis using goes_on_prepare [OF inv] by (auto split: agent_task.split intro: goes_on_same)
next
  case (ADelta i j final)
  then show ?thesis by (auto simp: send_delta_def split: agent_task.split intro: goes_on_same)
next
  case AShutDown
  have "ag_tasks (shut_down a) = ag_tasks a" "length (ag_handles (shut_down a)) = length (ag_handles a)" "kept_stop a (shut_down a) h" for h
    by (auto simp: shut_down_def Let_def kept_stop_def nth_update_if handle_kill_def split: option.split run_phase.split)
  then show ?thesis using AShutDown by (auto intro: goes_on_kept goes_on_same)
qed (use quiet goes_on_poll goes_on_engine [OF inv] goes_on_down in \<open>auto intro: goes_on_same\<close>)

section \<open>The steps that report\<close>

lemma push_outcome:
  "push enc m u = (Inl UpClosed, u) \<and> up_closed u \<or> push enc m u = (Inl (Full m), u) \<and> \<not> up_closed u \<or>
   (\<exists>k u'. push enc m u = (Inr k, u') \<and> \<not> up_closed u \<and> \<not> up_closed u')"
  by (auto simp: push_def Let_def)

text \<open>A parked report is admitted, refused because the window has closed, or stays parked.\<close>

lemma poll_report_cases:
  obtains (admitted) u where "poll_report sv m a = (True, a\<lparr>ag_uplink := u\<rparr>)" "admits sv m a" "\<not> up_closed (ag_uplink a)" "\<not> up_closed u"
  | (closed) "poll_report sv m a = (True, a)" "\<not> admits sv m a" "up_closed (ag_uplink a)"
  | (parked) "poll_report sv m a = (False, a)" "\<not> admits sv m a" "\<not> up_closed (ag_uplink a)"
  using push_outcome [of "cf_encoded_len sv" m "ag_uplink a"]
  by (auto simp: poll_report_def enqueue_poll_def admits_def)

lemma poll_starts:
  assumes "ag_tasks a ! i = RunStarts r h n"
  obtains (begun) b where "poll_task sv now i a = b" "ag_tasks b = (ag_tasks a)[i := RunEngine r h n \<lparr>et_phase = PhOutputs, et_timers = 0\<rparr>]"
      "ag_handles b = (ag_handles a)[h := (ag_handles a ! h)\<lparr>rh_status := EngRunning\<rparr>]"
      "up_closed (ag_uplink b) = up_closed (ag_uplink a)" "admits sv (started_msg r) a = (\<not> up_closed (ag_uplink a))"
  | (parked) "poll_task sv now i a = a" "\<not> admits sv (started_msg r) a"
proof (cases rule: poll_report_cases [of sv "started_msg r" a])
  case (admitted u)
  then show ?thesis using begun [OF refl] assms by (simp add: poll_task_def run_begin_def)
next
  case closed
  then show ?thesis using begun [OF refl] assms by (simp add: poll_task_def run_begin_def)
next
  case parked
  then show ?thesis using that(2) assms by (simp add: poll_task_def)
qed

lemma poll_ends:
  assumes "ag_tasks a ! i = RunEnds r h ev"
  obtains (over) b where "poll_task sv now i a = b" "ag_tasks b = (ag_tasks a)[i := TaskOver]" "ag_handles b = ag_handles a"
      "up_closed (ag_uplink b) = up_closed (ag_uplink a)" "admits sv (Event ev) a = (\<not> up_closed (ag_uplink a))"
  | (parked) "poll_task sv now i a = a" "\<not> admits sv (Event ev) a"
proof (cases rule: poll_report_cases [of sv "Event ev" a])
  case (admitted u)
  then show ?thesis using over [OF refl] assms by (simp add: poll_task_def)
next
  case closed
  then show ?thesis using over [OF refl] assms by (simp add: poll_task_def)
next
  case parked
  then show ?thesis using that(2) assms by (simp add: poll_task_def)
qed

section \<open>What a run has reported\<close>

definition of_run :: "nat \<Rightarrow> (nat \<times> string) list \<Rightarrow> string list" where
  "of_run h lg = map snd (filter (\<lambda>(k, _). k = h) lg)"

lemma of_run_simps [simp]:
  "of_run h [] = []" "of_run h (lg @ lg') = of_run h lg @ of_run h lg'" "of_run h [(k, v)] = (if k = h then [v] else [])"
  by (simp_all add: of_run_def)

definition well_reported :: "string list \<Rightarrow> bool" where
  "well_reported l \<longleftrightarrow> l = [] \<or> l = [''started''] \<or> (\<exists>k \<in> set end_kinds. l = [''started'', k])"

definition task_log :: "agent \<Rightarrow> agent_task \<Rightarrow> string list \<Rightarrow> bool" where
  "task_log a t l \<longleftrightarrow> (if waiting t then l = [] else l = [''started''] \<or> l = [] \<and> up_closed (ag_uplink a))"

definition log_ok :: "agent \<Rightarrow> (nat \<times> string) list \<Rightarrow> bool" where
  "log_ok a lg \<longleftrightarrow>
     (\<forall>h. well_reported (of_run h lg)) \<and> (\<forall>h. length (ag_handles a) \<le> h \<longrightarrow> of_run h lg = []) \<and>
     (\<forall>t \<in> set (ag_tasks a). \<forall>h. KHandle h \<in> task_keys t \<longrightarrow> task_log a t (of_run h lg))"

lemma next_task_stage: "next_task a b h t t' \<Longrightarrow> waiting t' = waiting t"
  by (induction rule: next_task.induct) auto

lemma uplink_closed_ops:
  "up_closed (ack k u) = up_closed u" "up_closed (snd (rewind u)) = up_closed u" "up_closed (snd (next_unsent ep u)) = up_closed u"
  "up_closed (snd (push enc m u)) = up_closed u" "up_closed (snd (try_enqueue enc m u)) = up_closed u"
  "up_closed (snd (enqueue_poll enc m u)) = up_closed u" "up_closed (snd (on_delta sv r j final u)) = up_closed u"
  by (auto simp: ack_def rewind_def next_unsent_def push_def try_enqueue_def enqueue_poll_def on_delta_def Let_def
    split: prod.split sum.split option.split rejected.split)

lemma log_ok_goes_on:
  assumes "log_ok a lg" "goes_on a b" "up_closed (ag_uplink a) \<Longrightarrow> up_closed (ag_uplink b)" shows "log_ok b lg"
proof -
  have "task_log b t' (of_run h lg)" if t': "t' \<in> set (ag_tasks b)" "KHandle h \<in> task_keys t'" for t' h
  proof -
    consider "h = length (ag_handles a)" "waiting t'" | t where "t \<in> set (ag_tasks a)" "KHandle h \<in> task_keys t" "next_task a b h t t'"
      using assms(2) t' unfolding goes_on_def by blast
    then show ?thesis
    proof cases
      case 1
      then show ?thesis using assms(1) by (simp add: log_ok_def task_log_def)
    next
      case 2
      then have "task_log a t (of_run h lg)" using assms(1) by (simp add: log_ok_def)
      then show ?thesis using assms(3) next_task_stage [OF 2(3)] by (auto simp: task_log_def split: if_splits)
    qed
  qed
  then show ?thesis using assms(1,2) by (auto simp: log_ok_def goes_on_def)
qed

lemma closed_step: "up_closed (ag_uplink a) \<Longrightarrow> up_closed (ag_uplink (agent_step sv e a))"
proof (cases e)
  case (ADown cm)
  assume c: "up_closed (ag_uplink a)"
  have r: "up_closed (ag_uplink b) \<Longrightarrow> up_closed (ag_uplink (try_report sv m b))" "up_closed (ag_uplink b) \<Longrightarrow> up_closed (ag_uplink (enqueue_control_ack sv q r b))" for m b q r
    by (simp_all add: try_report_def enqueue_control_ack_def uplink_closed_ops split: prod.split)
  show ?thesis using c ADown
    by (cases cm) (auto simp: uplink_closed_ops handle_assignment_def arm_assignment_def handle_start_def handle_control_def Let_def
      intro!: r split: sum.split option.split run_phase.split control_action.split prod.split)
next
  case (APoll now i)
  assume c: "up_closed (ag_uplink a)"
  then have "poll_report sv m a = (d, b) \<Longrightarrow> up_closed (ag_uplink b)" for m d b
    using uplink_closed_ops(6) [of "cf_encoded_len sv" m "ag_uplink a"] by (auto simp: poll_report_def split: prod.splits sum.splits)
  then show ?thesis using c APoll by (auto simp: poll_task_def split: agent_task.split prod.split bool.split oneshot.split)
next
  case (APrepared i process)
  assume "up_closed (ag_uplink a)"
  then show ?thesis using APrepared
    by (auto simp: prepare_assignment_def finish_preparation_def arm_run_def Let_def split: agent_task.split sum.split prod.split)
qed (auto simp: uplink_closed_ops engine_event_def send_delta_def shut_down_def up_close_def Let_def
  split: agent_task.split prod.split engine_phase.split option.split run_phase.split)

lemma task_handle: "KHandle h \<in> task_keys (RunStarts r h' n) \<longleftrightarrow> h = h'" "KHandle h \<in> task_keys (RunEnds r h' ev) \<longleftrightarrow> h = h'"
  by auto

text \<open>A reporting step, once more from the side of the log: only the run that reports changes.\<close>

lemma log_ok_report:
  assumes inv: "agent_inv a" and ok: "log_ok a lg" and i: "i < length (ag_tasks a)" "KHandle h \<in> task_keys (ag_tasks a ! i)"
    and b: "ag_tasks b = (ag_tasks a)[i := t]" "length (ag_handles b) = length (ag_handles a)" "up_closed (ag_uplink b) = up_closed (ag_uplink a)"
    and t: "\<And>k. KHandle k \<in> task_keys t \<Longrightarrow> k = h \<and> task_log b t (of_run h lg @ l)"
    and new: "well_reported (of_run h lg @ l)" "\<And>k. of_run k lg' = (if k = h then l else [])"
  shows "log_ok b (lg @ lg')"
proof -
  have "task_log b t' (of_run k (lg @ lg'))" if t': "t' \<in> set (ag_tasks b)" "KHandle k \<in> task_keys t'" for t' k
  proof -
    obtain m where m: "m < length (ag_tasks a)" "t' = (ag_tasks a)[i := t] ! m" using t'(1) by (auto simp: b(1) in_set_conv_nth)
    show ?thesis
    proof (cases "m = i")
      case True
      then show ?thesis using t [of k] t'(2) m i(1) new(2) by simp
    next
      case False
      then have u: "t' = ag_tasks a ! m" "k \<noteq> h" using m t'(2) key_owner [OF inv m(1) i(1), of "KHandle h"] i(2) by auto
      have "task_log a t' (of_run k lg)" using ok u(1) m(1) t'(2) by (simp add: log_ok_def)
      then show ?thesis using u(2) b(3) new(2) by (simp add: task_log_def)
    qed
  qed
  moreover have "h < length (ag_handles a)" using inv_task [OF inv i(1)] i(2) by (auto simp: atask_ok_def)
  ultimately show ?thesis using ok b(2) new unfolding log_ok_def by auto
qed

lemma log_ok_step:
  assumes inv: "agent_inv a" and ok: "log_ok a lg" shows "log_ok (agent_step sv e a) (lg @ reports sv e a)"
proof (cases "reporting e a")
  case False
  then have "reports sv e a = []" by (cases e) (auto simp: reporting_def split: agent_task.splits)
  then show ?thesis using log_ok_goes_on [OF ok goes_on_step [OF inv False] closed_step] by simp
next
  case True
  then obtain now i where e: "e = APoll now i" and i: "i < length (ag_tasks a)"
    and t: "(\<exists>r h n. ag_tasks a ! i = RunStarts r h n) \<or> (\<exists>r h ev. ag_tasks a ! i = RunEnds r h ev)"
    by (cases e) (auto simp: reporting_def split: agent_task.splits)
  have same: "log_ok a (lg @ [])" using ok by simp
  from t show ?thesis
  proof (elim disjE exE)
    fix r h n
    assume t: "ag_tasks a ! i = RunStarts r h n"
    have l: "of_run h lg = []" using ok nth_mem [OF i] t by (fastforce simp: log_ok_def task_log_def)
    from t show ?thesis
    proof (cases rule: poll_starts [where sv = sv and now = now])
      case (begun b)
      let ?l = "if admits sv (started_msg r) a then [''started''] else []"
      have "log_ok b (lg @ map (Pair h) ?l)"
        by (rule log_ok_report [OF inv ok i, of h _ "RunEngine r h n \<lparr>et_phase = PhOutputs, et_timers = 0\<rparr>" ?l])
          (use begun l t in \<open>auto simp: task_log_def well_reported_def of_run_def\<close>)
      then show ?thesis using begun t i e by (simp split: if_splits)
    next
      case parked
      then show ?thesis using same t i e by simp
    qed
  next
    fix r h ev
    assume t: "ag_tasks a ! i = RunEnds r h ev"
    have l: "task_log a (RunEnds r h ev) (of_run h lg)" using ok nth_mem [OF i] t by (fastforce simp: log_ok_def)
    have k: "ev_kind ev \<in> set end_kinds" using inv_task [OF inv i] t by (simp add: atask_ok_def)
    from t show ?thesis
    proof (cases rule: poll_ends [where sv = sv and now = now])
      case (over b)
      let ?l = "if admits sv (Event ev) a then [ev_kind ev] else []"
      have "log_ok b (lg @ map (Pair h) ?l)"
        by (rule log_ok_report [OF inv ok i, of h _ TaskOver ?l])
          (use over l t k in \<open>auto simp: task_log_def well_reported_def of_run_def\<close>)
      then show ?thesis using over t i e by (simp split: if_splits)
    next
      case parked
      then show ?thesis using same t i e by simp
    qed
  qed
qed

lemma agent_path_log:
  assumes "agent_path sv a\<^sub>0 a lg" "agent_inv a\<^sub>0" "log_ok a\<^sub>0 []" shows "log_ok a lg"
  using assms by (induction rule: agent_path.induct) (auto intro: log_ok_step agent_path_inv)

section \<open>Stops\<close>

definition doomed_task :: "agent \<Rightarrow> nat \<Rightarrow> agent_task \<Rightarrow> bool" where
  "doomed_task a h t \<longleftrightarrow> (case t of
     RunEngine r k n s \<Rightarrow> condemned (et_phase s) (ag_handles a ! h)
   | RunEnds r k ev \<Rightarrow> ev_kind ev \<noteq> ''finished''
   | _ \<Rightarrow> rh_stop_reason (ag_handles a ! h) \<noteq> None)"

text \<open>A run that will not end as finished.\<close>

definition doomed :: "nat \<Rightarrow> agent \<Rightarrow> bool" where
  "doomed h a \<longleftrightarrow> h < length (ag_handles a) \<and> (\<forall>t \<in> set (ag_tasks a). KHandle h \<in> task_keys t \<longrightarrow> doomed_task a h t)"

lemma condemned_kept:
  "condemned ph x \<Longrightarrow> (rh_stop_reason x \<noteq> None \<longrightarrow> rh_stop_reason y \<noteq> None) \<Longrightarrow> condemned ph y"
  by (cases ph) auto

lemma condemned_early:
  "rh_stop_reason x \<noteq> None \<Longrightarrow> \<forall>aborted. ph \<noteq> PhFinishing aborted \<Longrightarrow> \<forall>res. ph \<noteq> PhReturned res \<Longrightarrow> condemned ph x"
  by (cases ph) auto

lemma doomed_next:
  assumes "next_task a b h t t'" "doomed_task a h t" shows "doomed_task b h t'"
  using assms
proof (induction rule: next_task.induct)
  case (kept t)
  then show ?case by (auto simp: doomed_task_def kept_stop_def split: agent_task.splits intro: condemned_kept)
next
  case (waits t t')
  then show ?case by (auto simp: doomed_task_def kept_stop_def split: agent_task.splits)
next
  case (engine n inp s s' r)
  then show ?case using condemned_step [OF engine(1)] by (simp add: doomed_task_def)
next
  case (ends n inp s s' res ev r)
  then have "condemned (PhReturned res) (ag_handles b ! h)" using condemned_step [OF ends(1)] by (simp add: doomed_task_def)
  then show ?case using ends(3) by (cases res) (auto simp: doomed_task_def)
qed

lemma doomed_kept:
  assumes "doomed h a" "length (ag_handles b) = length (ag_handles a)" "\<And>k. rh_stop_reason (ag_handles b ! k) = rh_stop_reason (ag_handles a ! k)"
    "\<And>t. t \<in> set (ag_tasks b) \<Longrightarrow> KHandle h \<in> task_keys t \<Longrightarrow> t \<in> set (ag_tasks a) \<or> doomed_task b h t"
  shows "doomed h b"
proof -
  have "doomed_task b h t" if t: "t \<in> set (ag_tasks b)" "KHandle h \<in> task_keys t" for t
  proof (cases "t \<in> set (ag_tasks a)")
    case True
    then have "doomed_task a h t" using assms(1) t(2) by (simp add: doomed_def)
    then show ?thesis using doomed_next [OF next_task.kept [of a b h t]] assms(3) by (simp add: kept_stop_def)
  qed (use assms(4) [OF t] in blast)
  then show ?thesis using assms(1,2) by (simp add: doomed_def)
qed

lemma doomed_goes_on:
  assumes "goes_on a b" "doomed h a" shows "doomed h b"
proof -
  have "doomed_task b h t'" if t': "t' \<in> set (ag_tasks b)" "KHandle h \<in> task_keys t'" for t'
  proof -
    obtain t where "t \<in> set (ag_tasks a)" "KHandle h \<in> task_keys t" "next_task a b h t t'"
      using assms t' unfolding goes_on_def doomed_def by blast
    then show ?thesis using assms(2) doomed_next by (auto simp: doomed_def)
  qed
  then show ?thesis using assms by (auto simp: doomed_def goes_on_def)
qed

lemma doomed_step:
  assumes inv: "agent_inv a" and d: "doomed h a"
  shows "doomed h (agent_step sv e a) \<and> (h, ''finished'') \<notin> set (reports sv e a)"
proof (cases "reporting e a")
  case False
  then have "reports sv e a = []" by (cases e) (auto simp: reporting_def split: agent_task.splits)
  moreover have "doomed h (agent_step sv e a)"
    using doomed_goes_on [OF goes_on_step [OF inv False] d] by simp
  ultimately show ?thesis by simp
next
  case True
  then obtain now i where e: "e = APoll now i" and i: "i < length (ag_tasks a)"
    and t: "(\<exists>r h n. ag_tasks a ! i = RunStarts r h n) \<or> (\<exists>r h ev. ag_tasks a ! i = RunEnds r h ev)"
    by (cases e) (auto simp: reporting_def split: agent_task.splits)
  from t show ?thesis
  proof (elim disjE exE)
    fix r k n
    assume t: "ag_tasks a ! i = RunStarts r k n"
    from t have "doomed h (poll_task sv now i a)"
    proof (cases rule: poll_starts [where sv = sv and now = now])
      case (begun b)
      have "rh_stop_reason (ag_handles a ! h) \<noteq> None" if "k = h" using d nth_mem [OF i] t that by (fastforce simp: doomed_def doomed_task_def)
      then have "doomed h b" using begun
        by (intro doomed_kept [OF d]) (auto simp: nth_update_if doomed_task_def split: if_splits dest!: set_update_subset_insert [THEN subsetD])
      then show ?thesis using begun by simp
    qed (use d in simp)
    then show ?thesis using t i e by simp
  next
    fix r k ev
    assume t: "ag_tasks a ! i = RunEnds r k ev"
    from t have "doomed h (poll_task sv now i a)"
    proof (cases rule: poll_ends [where sv = sv and now = now])
      case (over b)
      then have "doomed h b" by (intro doomed_kept [OF d]) (auto dest!: set_update_subset_insert [THEN subsetD])
      then show ?thesis using over by simp
    qed (use d in simp)
    moreover have "ev_kind ev \<noteq> ''finished''" if "k = h" using d nth_mem [OF i] t that by (fastforce simp: doomed_def doomed_task_def)
    ultimately show ?thesis using t i e by auto
  qed
qed

lemma doomed_path:
  assumes "agent_path sv a b lg" "agent_inv a" "doomed h a" shows "doomed h b \<and> (h, ''finished'') \<notin> set lg"
  using assms
proof (induction rule: agent_path.induct)
  case (step b lg e)
  then show ?case using doomed_step [OF agent_path_inv [OF step(1)]] by auto
qed simp

section \<open>Properties\<close>

text \<open>An agent with one constant-VU scenario, followed from its assignment to its running engine.\<close>

definition demo_plan_def :: "unit test_plan" where
  "demo_plan_def =
     \<lparr>tp_name = None, tp_tags = [], tp_variables = [], tp_secrets = [], tp_metrics = [], tp_thresholds = [],
      tp_scenarios = [(''main'', \<lparr>sd_load = example_scenario, sd_start_time = None, sd_graceful_stop = None, sd_graceful_ramp_down = None\<rparr>)]\<rparr>"

definition demo_setup :: "unit setup_services" where
  "demo_setup =
     \<lparr>su_env = (\<lambda>_. None), su_read_file = (\<lambda>_. Inl []), su_resolve = Inr, su_load_data = (\<lambda>_. Inr ()), su_compile = (\<lambda>_. Inr ()),
      su_humantime = ns_parse\<rparr>"

definition demo_agent :: "unit agent_services" where
  "demo_agent =
     \<lparr>cf_agent_id = ''a1'', cf_agent_name = ''a1'', cf_labels = [], cf_cores = 1, cf_version = [], cf_revision = [], cf_incarnation = ''i'',
      cf_work_dir = ''w'', cf_create_dir = (\<lambda>_. Inr ()), cf_io = (\<lambda>_. True), cf_utf8 = Inr, cf_load = (\<lambda>_ _ _. Inr (demo_plan_def, False)),
      cf_protocols = (\<lambda>_ _. Inr ()), cf_script = None, cf_data_sources = None, cf_setup = demo_setup, cf_path_text = (\<lambda>_. []),
      cf_engine_text = (\<lambda>_. []), cf_join_text = [], cf_encoded_len = (\<lambda>_. 1)\<rparr>"

definition demo_assignment :: assignment where
  "demo_assignment = \<lparr>as_run_id = ''r1'', as_plan_yaml = [], as_partition_index = 0, as_partition_count = 1, as_files = [], as_env = []\<rparr>"

definition demo_engine :: "unit engine" where
  "demo_engine = projr (the (prepare_engine demo_agent demo_assignment))"

lemma demo_prepared:
  "prepare_engine demo_agent demo_assignment = Some (Inr demo_engine) \<and> length (eng_scenarios demo_engine) = 1 \<and>
   eng_handle demo_engine = new_handle ''r1'' []"
proof -
  have p: "\<exists>p. vu_placement [(''main'', example_scenario)] (Some (0, 1)) = Some (Inr p)"
    using vu_placement_eq [of "[(''main'', example_scenario)]" "[ConstantVus 10 (from_secs 30)]" 0 1] example_scenario_spec by simp
  have "\<exists>eng. prepare_engine demo_agent demo_assignment = Some (Inr eng) \<and> length (eng_scenarios eng) = 1 \<and> eng_handle eng = new_handle ''r1'' []"
    using p by (auto simp: prepare_engine_def demo_agent_def demo_assignment_def engine_new_def demo_plan_def_def demo_setup_def example_scenario_spec
      partition_spec_def external_names_def is_externally_controlled_def)
  then show ?thesis by (auto simp: demo_engine_def)
qed

abbreviation "demo_handle \<equiv> new_handle ''r1'' []"
abbreviation "demo_slot c \<equiv> Some (Armed \<lparr>ar_run_id = ''r1'', ar_handle = 0, ar_start_tx = c\<rparr>)"
abbreviation "demo_ready \<equiv> PrepReport (AssignmentReady ''r1'' 0)"

definition demo_at :: "run_phase option \<Rightarrow> oneshot list \<Rightarrow> run_handle list \<Rightarrow> agent_task list \<Rightarrow> agent_payload uplink \<Rightarrow> agent" where
  "demo_at c starts hs ts u =
     \<lparr>ag_current = c, ag_registered = False, ag_uplink = u, ag_flags = [False], ag_starts = starts, ag_handles = hs, ag_tasks = ts,
      ag_shut_down = False\<rparr>"

abbreviation "demo_from \<equiv> agent_path demo_agent (agent_init (with_limits 9 9))"
abbreviation "demo_parked \<equiv> demo_at (demo_slot (Some 0)) [OsEmpty] [demo_handle] [demo_ready, RunWaits ''r1'' 0 1 0] (with_limits 9 9)"

lemma demo_parked: "demo_from demo_parked []"
proof -
  have "demo_from (demo_at (Some (Preparing ''r1'' 0 None)) [] [] [Preparation demo_assignment 0] (with_limits 9 9)) []"
    using agent_path.step [OF agent_path.here, of "ADown (Assignment demo_assignment)" "agent_init (with_limits 9 9)" demo_agent]
    by (simp add: agent_init_def demo_at_def handle_assignment_def arm_assignment_def demo_assignment_def validate_run_id_def set_current_def)
  from agent_path.step [OF this, of "APrepared 0 demo_agent"] demo_prepared show ?thesis
    by (simp add: demo_at_def prepare_assignment_def finish_preparation_def prepares_def arm_run_def latched_start_def set_current_def Let_def
      demo_assignment_def)
qed

abbreviation "demo_started_window \<equiv> (with_limits 9 9 :: agent_payload uplink)
  \<lparr>next_seq := 1, uplink.pending := [\<lparr>e_seq = 1, e_msg = started_msg ''r1'', e_bytes = 1\<rparr>], up_bytes := 1\<rparr>"
abbreviation "demo_running \<equiv> demo_at (demo_slot None) [OsSent 5] [demo_handle\<lparr>rh_status := EngRunning\<rparr>]
  [demo_ready, RunEngine ''r1'' 0 1 \<lparr>et_phase = PhOutputs, et_timers = 0\<rparr>] demo_started_window"

lemma demo_running: "demo_from demo_running [(0, ''started'')]"
proof -
  have "demo_from (demo_at (demo_slot None) [OsSent 5] [demo_handle] [demo_ready, RunWaits ''r1'' 0 1 0] (with_limits 9 9)) []"
    using agent_path.step [OF demo_parked, of "ADown (Start ''r1'' 5)"] by (simp add: demo_at_def handle_start_def)
  from agent_path.step [OF this, of "APoll 7 1"]
  have "demo_from (demo_at (demo_slot None) [OsSent 5] [demo_handle] [demo_ready, RunStarts ''r1'' 0 1] (with_limits 9 9)) []"
    by (simp add: demo_at_def poll_task_def set_task_def)
  from agent_path.step [OF this, of "APoll 7 1"] show ?thesis
    by (simp add: demo_at_def poll_task_def set_task_def poll_report_def enqueue_poll_def push_def up_is_full_def with_limits_def Let_def
      demo_agent_def run_begin_def upd_handle_def admits_def)
qed







text \<open>
  C8: a stop is honoured. Once the agent has handled a stop or kill for the run in its slot, and the
  engine's scenarios had not all ended by then, that run is never reported as finished.
\<close>

theorem stop_honoured:
  assumes "agent_path sv (agent_init u) a lg" "ag_current a = Some (Armed run)" "stopish act" "h = ar_handle run"
    and "\<And>r n t. RunEngine r h n t \<in> set (ag_tasks a) \<Longrightarrow> \<forall>aborted. et_phase t \<noteq> PhFinishing aborted"
    and "\<And>r ev. RunEnds r h ev \<notin> set (ag_tasks a)"
    and "agent_path sv (agent_step sv (ADown (Control (ar_run_id run) act sc v cid)) a) b lg'"
  shows "(h, ''finished'') \<notin> set lg'"
proof -
  have inv: "agent_inv a" using agent_path_inv [OF assms(1) agent_init_inv] .
  obtain i where i: "i < length (ag_tasks a)" "holds_slot a (ag_tasks a ! i)" "atask_ok a (ag_tasks a ! i)" "\<not> ag_shut_down a" using holder [OF inv assms(2)] by blast
  have h: "h < length (ag_handles a)" using i(2,3) assms(2,4) by (cases "ag_tasks a ! i") (auto simp: atask_ok_def)
  define c where "c = handle_control sv (ar_run_id run, act, sc, v, cid) a"
  have c: "ag_tasks c = ag_tasks a" "length (ag_handles c) = length (ag_handles a)" "rh_stop_reason (ag_handles c ! h) \<noteq> None"
    using assms(2,3,4) h by (auto simp: c_def handle_control_def control_action_of_def drive_def stopish_def handle_kill_def handle_stop_def)
  have "doomed_task c h t" if t: "t \<in> set (ag_tasks a)" "KHandle h \<in> task_keys t" for t
  proof -
    have "task_status a t" using inv t(1) by (simp add: agent_inv_def atask_ok_def)
    then show ?thesis using t c(3) assms(5,6)
      by (auto simp: doomed_task_def intro!: condemned_early split: agent_task.split)
  qed
  then have "doomed h c" using c h by (simp add: doomed_def)
  moreover have "agent_step sv (ADown (Control (ar_run_id run) act sc v cid)) a = c" using i(4) by (simp add: c_def)
  ultimately show ?thesis using doomed_path [OF assms(7)] agent_step_inv [OF inv, of "ADown (Control (ar_run_id run) act sc v cid)" sv] by simp
qed

fun agent_exec :: "'v agent_services \<Rightarrow> 'v agent_event list \<Rightarrow> agent \<Rightarrow> agent \<times> (nat \<times> string) list" where
  "agent_exec sv [] a = (a, [])"
| "agent_exec sv (e # es) a = (case agent_exec sv es (agent_step sv e a) of (b, lg) \<Rightarrow> (b, reports sv e a @ lg))"

lemma agent_path_trans:
  assumes "agent_path sv b c lg'" "agent_path sv a b lg" shows "agent_path sv a c (lg @ lg')"
  using assms
proof (induction rule: agent_path.induct)
  case (step c lg' e)
  then show ?case using agent_path.step [of sv a c "lg @ lg'" e] by simp
qed simp

lemma agent_exec_path:
  assumes "\<And>e a. e \<in> set es \<Longrightarrow> agent_allows e a" shows "agent_path sv a (fst (agent_exec sv es a)) (snd (agent_exec sv es a))"
  using assms
proof (induction es arbitrary: a)
  case (Cons e es)
  have "agent_path sv a (agent_step sv e a) ([] @ reports sv e a)" by (rule agent_path.step [OF agent_path.here]) (simp add: Cons.prems)
  from agent_path_trans [OF Cons.IH [of "agent_step sv e a"] this] show ?case
    using Cons.prems by (cases "agent_exec sv es (agent_step sv e a)") simp
qed (simp add: agent_path.here)

abbreviation "demo_stop \<equiv> ADown (Control ''r1'' ''stop'' [] 0 0)"
abbreviation "demo_wind_down \<equiv> [AEngine 1 (InOutputs None) [], AEngine 1 (InSetup None) [], AEngine 1 InSoftStop [], AEngine 1 InAllDone [],
  AEngine 1 (InAggregated (Inr True)) [], APoll 7 1]"

theorem stop_honoured_witness:
  "snd (agent_exec demo_agent demo_wind_down (agent_step demo_agent demo_stop demo_running)) = [(0, ''aborted'')] \<and>
   (0, ''finished'') \<notin> set (snd (agent_exec demo_agent demo_wind_down (agent_step demo_agent demo_stop demo_running)))"
proof
  show "snd (agent_exec demo_agent demo_wind_down (agent_step demo_agent demo_stop demo_running)) = [(0, ''aborted'')]"
    by (simp add: demo_at_def handle_control_def control_action_of_def drive_def handle_stop_def enqueue_control_ack_def try_report_def upd_handle_def
      engine_event_def run_step_defs set_task_def admits_def push_def up_is_full_def with_limits_def Let_def
      demo_agent_def try_enqueue_def end_event_def run_event_msg_def new_handle_def drop_receivers_def)
  show "(0, ''finished'') \<notin> set (snd (agent_exec demo_agent demo_wind_down (agent_step demo_agent demo_stop demo_running)))"
  proof (rule stop_honoured [OF demo_running])
    let ?run = "\<lparr>ar_run_id = ''r1'', ar_handle = 0, ar_start_tx = None\<rparr>"
    show "ag_current demo_running = Some (Armed ?run)" "stopish ''stop''" "0 = ar_handle ?run" by (simp_all add: demo_at_def stopish_def)
    show "agent_path demo_agent (agent_step demo_agent (ADown (Control (ar_run_id ?run) ''stop'' [] 0 0)) demo_running)
      (fst (agent_exec demo_agent demo_wind_down (agent_step demo_agent demo_stop demo_running)))
      (snd (agent_exec demo_agent demo_wind_down (agent_step demo_agent demo_stop demo_running)))"
      unfolding active_run.select_convs by (rule agent_exec_path) auto
  qed (auto simp: demo_at_def)
qed

end
