(* ===== verification/Template.thy ===== *)
theory Template
  imports Rust_Str Prelude
begin

text \<open>
  Interpolation templates (\<open>loadr-config/src/template.rs\<close>): \<open>Template::parse\<close> with its brace balancing and
  its escape, rendering with a resolver, and the rendering of the string leaves of a JSON value. Text is a
  list of bytes; the parser's three special bytes are ASCII and never occur inside a longer UTF-8 character, so
  advancing byte by byte is the same as advancing character by character.
\<close>

section \<open>Parsing\<close>

datatype template_error = Unterminated nat | EmptyExpr nat | Unresolved string

datatype part = Lit string | Expr string

record template =
  tpl_parts :: "part list"
  tpl_source :: string

text \<open>The inner loop of \<open>Template::parse\<close>: the expression up to the brace that closes it, and what follows.\<close>

fun scan_expr :: "nat \<Rightarrow> string \<Rightarrow> (string \<times> string) option" where
  "scan_expr depth [] = None"
| "scan_expr depth (c # s) =
     (if c = CHR ''{'' then map_option (apfst (Cons c)) (scan_expr (depth + 1) s)
      else if c = CHR ''}'' then
        (if depth - 1 = 0 then Some ([], s) else map_option (apfst (Cons c)) (scan_expr (depth - 1) s))
      else map_option (apfst (Cons c)) (scan_expr depth s))"

definition flush :: "string \<Rightarrow> part list" where
  "flush lit = (if lit = [] then [] else [Lit lit])"

lemma scan_expr_shorter: "scan_expr depth s = Some (e, rest) \<Longrightarrow> length rest < length s"
  by (induction depth s arbitrary: e rest rule: scan_expr.induct) (fastforce split: if_splits)+

function parse_loop :: "nat \<Rightarrow> string \<Rightarrow> string \<Rightarrow> part list \<Rightarrow> (template_error, part list) result" where
  "parse_loop i s lit parts =
     (if s = [] then Inr (parts @ flush lit)
      else if prefix ''$${'' s then parse_loop (i + 3) (drop 3 s) (lit @ ''${'') parts
      else if prefix ''${'' s then
        (case scan_expr 1 (drop 2 s) of
           None \<Rightarrow> Inl (Unterminated i)
         | Some (raw, rest) \<Rightarrow>
             (if trim raw = [] then Inl (EmptyExpr i)
              else parse_loop (i + 2 + length raw + 1) rest [] (parts @ flush lit @ [Expr (trim raw)])))
      else parse_loop (i + 1) (tl s) (lit @ [hd s]) parts)"
  by pat_completeness auto
termination
  by (relation "measure (\<lambda>(i, s, lit, parts). length s)") (auto dest!: scan_expr_shorter)

declare parse_loop.simps [simp del]

definition parse_template :: "string \<Rightarrow> (template_error, template) result" where
  "parse_template s =
     (case parse_loop 0 s [] [] of
        Inl e \<Rightarrow> Inl e
      | Inr parts \<Rightarrow> Inr \<lparr>tpl_parts = parts, tpl_source = s\<rparr>)"

fun is_lit :: "part \<Rightarrow> bool" where
  "is_lit (Lit _) = True"
| "is_lit (Expr _) = False"

definition is_literal :: "template \<Rightarrow> bool" where
  "is_literal t \<longleftrightarrow> list_all is_lit (tpl_parts t)"

fun expr_of :: "part \<Rightarrow> string option" where
  "expr_of (Lit _) = None"
| "expr_of (Expr e) = Some e"

definition expressions :: "template \<Rightarrow> string list" where
  "expressions t = List.map_filter expr_of (tpl_parts t)"

section \<open>Rendering\<close>

text \<open>The resolver is a closure that may change its captured state, here \<open>'s\<close>.\<close>

fun render_parts ::
  "(string \<Rightarrow> 's \<Rightarrow> string option \<times> 's) \<Rightarrow> part list \<Rightarrow> string \<Rightarrow> 's \<Rightarrow> (template_error, string) result \<times> 's" where
  "render_parts resolve [] out s = (Inr out, s)"
| "render_parts resolve (Lit l # ps) out s = render_parts resolve ps (out @ l) s"
| "render_parts resolve (Expr e # ps) out s =
     (case resolve e s of
        (Some v, s') \<Rightarrow> render_parts resolve ps (out @ v) s'
      | (None, s') \<Rightarrow> (Inl (Unresolved e), s'))"

definition render :: "template \<Rightarrow> (string \<Rightarrow> 's \<Rightarrow> string option \<times> 's) \<Rightarrow> 's \<Rightarrow> (template_error, string) result \<times> 's" where
  "render t resolve s = render_parts resolve (tpl_parts t) [] s"

text \<open>
  A JSON value as \<open>serde_json::Value\<close> holds it: a number is an integer or a float, an object lists its entries
  in the order its map iterates them, which is by key.
\<close>

datatype json =
    JNull
  | JBool bool
  | JInt int
  | JFloat f64
  | JString string
  | JArray "json list"
  | JObject "(string \<times> json) list"

text \<open>\<open>render_json_value\<close>; \<open>from_str\<close> is the JSON parser of \<open>serde_json\<close>.\<close>

fun render_json_value ::
  "(string \<Rightarrow> json option) \<Rightarrow> (string \<Rightarrow> 's \<Rightarrow> string option \<times> 's) \<Rightarrow> json \<Rightarrow> 's \<Rightarrow> (template_error, json) result \<times> 's"
and render_json_list ::
  "(string \<Rightarrow> json option) \<Rightarrow> (string \<Rightarrow> 's \<Rightarrow> string option \<times> 's) \<Rightarrow> json list \<Rightarrow> 's \<Rightarrow> (template_error, json list) result \<times> 's"
and render_json_fields ::
  "(string \<Rightarrow> json option) \<Rightarrow> (string \<Rightarrow> 's \<Rightarrow> string option \<times> 's) \<Rightarrow> (string \<times> json) list \<Rightarrow> (string \<times> json) list \<Rightarrow> 's
     \<Rightarrow> (template_error, (string \<times> json) list) result \<times> 's" where
  "render_json_value from_str resolve (JString str) s =
     (case parse_template str of
        Inl e \<Rightarrow> (Inl e, s)
      | Inr t \<Rightarrow>
          if is_literal t then (Inr (JString str), s)
          else
            (case render t resolve s of
               (Inl e, s') \<Rightarrow> (Inl e, s')
             | (Inr rendered, s') \<Rightarrow>
                 if length (tpl_parts t) = 1
                 then (Inr (case from_str rendered of Some v \<Rightarrow> v | None \<Rightarrow> JString rendered), s')
                 else (Inr (JString rendered), s')))"
| "render_json_value from_str resolve (JArray items) s =
     (case render_json_list from_str resolve items s of
        (Inl e, s') \<Rightarrow> (Inl e, s')
      | (Inr vs, s') \<Rightarrow> (Inr (JArray vs), s'))"
| "render_json_value from_str resolve (JObject fs) s =
     (case render_json_fields from_str resolve fs [] s of
        (Inl e, s') \<Rightarrow> (Inl e, s')
      | (Inr gs, s') \<Rightarrow> (Inr (JObject gs), s'))"
| "render_json_value from_str resolve v s = (Inr v, s)"
| "render_json_list from_str resolve [] s = (Inr [], s)"
| "render_json_list from_str resolve (v # vs) s =
     (case render_json_value from_str resolve v s of
        (Inl e, s') \<Rightarrow> (Inl e, s')
      | (Inr w, s') \<Rightarrow>
          (case render_json_list from_str resolve vs s' of
             (Inl e, s'') \<Rightarrow> (Inl e, s'')
           | (Inr ws, s'') \<Rightarrow> (Inr (w # ws), s'')))"
| "render_json_fields from_str resolve [] out s = (Inr out, s)"
| "render_json_fields from_str resolve ((k, v) # fs) out s =
     (case render_json_value from_str resolve v s of
        (Inl e, s') \<Rightarrow> (Inl e, s')
      | (Inr w, s') \<Rightarrow> render_json_fields from_str resolve fs (AList.update k w out) s')"

section \<open>What a template is\<close>

text \<open>
  The text of a template: a literal with \<open>${\<close> escaped, an expression between its braces. A list of parts is a
  template's when literals are not empty, not adjacent and do not end in a dollar sign before an expression, and
  expressions are trimmed, not empty and balanced.
\<close>

fun escape :: "string \<Rightarrow> string" where
  "escape (c # d # s) = (if c = CHR ''$'' \<and> d = CHR ''{'' then ''$${'' @ escape s else c # escape (d # s))"
| "escape s = s"

fun part_text :: "part \<Rightarrow> string" where
  "part_text (Lit l) = escape l"
| "part_text (Expr e) = ''${'' @ e @ ''}''"

definition unparse :: "part list \<Rightarrow> string" where
  "unparse ps = concat (map part_text ps)"

fun depth_after :: "nat \<Rightarrow> string \<Rightarrow> nat option" where
  "depth_after d [] = Some d"
| "depth_after d (c # s) =
     (if c = CHR ''{'' then depth_after (d + 1) s
      else if c = CHR ''}'' then (if d - 1 = 0 then None else depth_after (d - 1) s)
      else depth_after d s)"

definition template_expr_ok :: "string \<Rightarrow> bool" where
  "template_expr_ok e \<longleftrightarrow> e \<noteq> [] \<and> trimmed e \<and> depth_after 1 e = Some 1"

fun parts_ok :: "part list \<Rightarrow> bool" where
  "parts_ok [] = True"
| "parts_ok (Lit l # ps) =
     (l \<noteq> [] \<and> (case ps of [] \<Rightarrow> True | Lit _ # _ \<Rightarrow> False | Expr _ # _ \<Rightarrow> last l \<noteq> CHR ''$'') \<and> parts_ok ps)"
| "parts_ok (Expr e # ps) = (template_expr_ok e \<and> parts_ok ps)"

lemma depth_after_append: "depth_after d (a @ b) = Option.bind (depth_after d a) (\<lambda>d'. depth_after d' b)"
  by (induction d a rule: depth_after.induct) auto

lemma depth_after_ws: "list_all is_ws s \<Longrightarrow> depth_after d s = Some d"
  by (induction s) (auto simp: is_ws_def)

lemma scan_expr_iff:
  "0 < d \<Longrightarrow> scan_expr d s = Some (raw, rest) \<longleftrightarrow> s = raw @ CHR ''}'' # rest \<and> depth_after d raw = Some 1"
proof (induction d s arbitrary: raw rule: scan_expr.induct)
  case (2 d c s)
  show ?case
  proof (cases raw)
    case Nil
    then show ?thesis using 2 by (auto split: if_splits)
  next
    case (Cons x xs)
    then show ?thesis using 2 by (auto split: if_splits)
  qed
qed auto

lemma trim_split: "\<exists>a b. s = a @ trim s @ b \<and> list_all is_ws a \<and> list_all is_ws b"
proof -
  define t where "t = dropWhile is_ws s"
  have "s = takeWhile is_ws s @ t" by (simp add: t_def)
  moreover have "t = rev (dropWhile is_ws (rev t)) @ rev (takeWhile is_ws (rev t))"
    by (metis rev_append rev_rev_ident takeWhile_dropWhile_id)
  moreover have "trim s = rev (dropWhile is_ws (rev t))"
    by (simp add: trim_def trim_start_def trim_end_def t_def)
  moreover have "list_all is_ws (takeWhile is_ws u)" for u by (auto simp: list_all_iff dest: set_takeWhileD)
  ultimately show ?thesis
    by (metis list_all_rev)
qed

lemma depth_after_trim: "depth_after d (trim s) = depth_after d s"
proof -
  obtain a b where s: "s = a @ trim s @ b" and ws: "list_all is_ws a" "list_all is_ws b"
    using trim_split by blast
  have "depth_after d s = Option.bind (Option.bind (depth_after d a) (\<lambda>d. depth_after d (trim s))) (\<lambda>d. depth_after d b)"
    by (subst s) (simp add: depth_after_append Option.bind_assoc)
  then show ?thesis by (simp add: depth_after_ws [OF ws(1)] depth_after_ws [OF ws(2)])
qed

section \<open>Printing and parsing\<close>

lemma parse_loop_parts: "parse_loop i s lit parts = map_sum id ((@) parts) (parse_loop i s lit [])"
proof (induction "length s" arbitrary: i s lit parts rule: less_induct)
  case less
  show ?case
  proof (cases "s = [] \<or> prefix ''$${'' s \<or> \<not> prefix ''${'' s")
    case True
    then show ?thesis
      using less [of "drop 3 s" "i + 3" "lit @ ''${''" parts] less [of "tl s" "i + 1" "lit @ [hd s]" parts]
      by (subst (1 2) parse_loop.simps) (auto dest: prefix_length_le)
  next
    case False
    have "parse_loop j rest [] (parts @ qs) = map_sum id ((@) parts) (parse_loop j rest [] qs)"
      if "scan_expr 1 (drop 2 s) = Some (raw, rest)" for raw rest j qs
    proof -
      have "length rest < length s" using scan_expr_shorter [OF that] by simp
      from less [OF this, of j "[]" "parts @ qs"] less [OF this, of j "[]" qs] show ?thesis
        by (cases "parse_loop j rest [] []") simp_all
    qed
    with False show ?thesis
      by (subst (1 2) parse_loop.simps) (auto split: option.split)
  qed
qed

lemma escape_hd: "escape (d # s) = d # tl (escape (d # s))"
  by (cases s) auto

lemma escape_no_open: "l \<noteq> [] \<Longrightarrow> last l \<noteq> CHR ''$'' \<or> rest = [] \<Longrightarrow> \<not> prefix ''${'' (escape l @ rest)"
proof (cases l rule: escape.cases)
  case (1 c d s)
  then show ?thesis by (simp, subst escape_hd) auto
qed auto

lemma parse_loop_escape:
  "l = [] \<or> last l \<noteq> CHR ''$'' \<or> rest = [] \<Longrightarrow>
   parse_loop i (escape l @ rest) lit parts = parse_loop (i + length (escape l)) rest (lit @ l) parts"
proof (induction l arbitrary: i lit rule: escape.induct)
  case (1 c d s)
  show ?case
  proof (cases "c = CHR ''$'' \<and> d = CHR ''{''")
    case True
    with 1(1) [of "i + 3" "lit @ ''${''"] 1(3) show ?thesis
      by (subst parse_loop.simps) (auto split: if_splits simp: eval_nat_numeral)
  next
    case False
    have "\<not> prefix ''$${'' (c # escape (d # s) @ rest)"
      using escape_no_open [of "d # s" rest] 1(3) by auto
    moreover have "\<not> prefix ''${'' (c # escape (d # s) @ rest)"
      using False by (subst escape_hd) auto
    ultimately show ?thesis
      using False 1(2) [of "i + 1" "lit @ [c]"] 1(3)
      by (subst parse_loop.simps) (auto split: if_splits)
  qed
next
  case "2_1"
  then show ?case by simp
next
  case "2_2"
  then show ?case by (subst parse_loop.simps) auto
qed

lemma parse_loop_expr:
  assumes "template_expr_ok e"
  shows "parse_loop i (''${'' @ e @ ''}'' @ rest) lit [] =
    map_sum id ((@) (flush lit @ [Expr e])) (parse_loop (i + length e + 3) rest [] [])"
proof -
  have "scan_expr 1 (e @ CHR ''}'' # rest) = Some (e, rest)"
    using assms by (simp add: scan_expr_iff template_expr_ok_def)
  then show ?thesis
    using assms by (subst parse_loop.simps) (simp add: template_expr_ok_def parse_loop_parts [of _ _ _ "_ @ _"] eval_nat_numeral)
qed

text \<open>Printing the parts of a template and parsing the text gives the parts back.\<close>

lemma parse_unparse: "parts_ok ps \<Longrightarrow> parse_loop i (unparse ps) [] [] = Inr ps"
proof (induction ps arbitrary: i rule: parts_ok.induct)
  case 1
  show ?case by (subst parse_loop.simps) (simp add: unparse_def flush_def)
next
  case (3 e ps)
  then show ?case using parse_loop_expr [of e i "unparse ps" "[]"] by (simp add: unparse_def flush_def)
next
  case (2 l ps)
  show ?case
  proof (cases ps)
    case Nil
    with 2 parse_loop_escape [of l "[]" i "[]" "[]"] show ?thesis
      by (simp add: unparse_def) (subst parse_loop.simps, simp add: flush_def)
  next
    case (Cons p qs)
    then obtain e where p: "p = Expr e" using 2 by (cases p) auto
    have step: "parse_loop i (unparse (Lit l # ps)) [] [] = parse_loop (i + length (escape l)) (unparse ps) l []"
      using 2 Cons p parse_loop_escape [of l "unparse ps" i "[]" "[]"] by (simp add: unparse_def)
    have shape: "unparse ps = ''${'' @ e @ ''}'' @ unparse qs" by (simp add: Cons p unparse_def)
    have ok: "template_expr_ok e" "l \<noteq> []" using 2 by (simp_all add: Cons p)
    have "parse_loop j (unparse ps) [] [] = Inr ps" for j using 2 by (simp add: Cons p)
    then have front: "map_sum id ((@) [Expr e]) (parse_loop (j + length e + 3) (unparse qs) [] []) = Inr (Expr e # qs)" for j
      using parse_loop_expr [OF ok(1), of j "unparse qs" "[]"] unfolding shape by (simp add: Cons p flush_def)
    have rest: "parse_loop (j + length e + 3) (unparse qs) [] [] = Inr qs" for j
      by (cases "parse_loop (j + length e + 3) (unparse qs) [] []") (use front [of j] in simp_all)
    show ?thesis
      unfolding step shape parse_loop_expr [OF ok(1)] rest using ok(2) by (simp add: Cons p flush_def)
  qed
qed

text \<open>Whatever is accepted has the parts of a template.\<close>

lemma parts_ok_flush:
  "parts_ok ps \<Longrightarrow> lit = [] \<or> last lit \<noteq> CHR ''$'' \<Longrightarrow> template_expr_ok e \<Longrightarrow> parts_ok (flush lit @ Expr e # ps)"
  by (auto simp: flush_def)

lemma parse_loop_ok:
  "parse_loop i s lit [] = Inr ps \<Longrightarrow> lit = [] \<or> last lit \<noteq> CHR ''$'' \<or> \<not> prefix ''${'' s \<Longrightarrow> parts_ok ps"
proof (induction "length s" arbitrary: i s lit ps rule: less_induct)
  case less
  consider "s = []" | "prefix ''$${'' s" | "s \<noteq> []" "\<not> prefix ''$${'' s" "prefix ''${'' s"
    | "s \<noteq> []" "\<not> prefix ''$${'' s" "\<not> prefix ''${'' s" by blast
  then show ?case
  proof cases
    case 1
    with less.prems(1) show ?thesis by (subst (asm) parse_loop.simps) (auto simp: flush_def)
  next
    case 2
    then have len: "3 \<le> length s" using prefix_length_le [of "''$${''" s] by simp
    with 2 have rec: "parse_loop (i + 3) (drop 3 s) (lit @ ''${'') [] = Inr ps"
      using less.prems(1) by (subst (asm) parse_loop.simps) (auto split: if_splits)
    show ?thesis by (rule less.hyps [OF _ rec]) (use len in auto)
  next
    case 3
    then obtain raw rest where scan: "scan_expr 1 (drop 2 s) = Some (raw, rest)" and raw: "trim raw \<noteq> []"
      and qs: "parse_loop (i + 2 + length raw + 1) rest [] (flush lit @ [Expr (trim raw)]) = Inr ps"
      using less.prems(1) by (subst (asm) parse_loop.simps) (auto split: option.splits if_splits)
    obtain rs where rs: "parse_loop (i + 2 + length raw + 1) rest [] [] = Inr rs" "ps = flush lit @ Expr (trim raw) # rs"
      using qs by (subst (asm) parse_loop_parts) (cases "parse_loop (i + 2 + length raw + 1) rest [] []", simp_all)
    have "length rest < length s" using scan_expr_shorter [OF scan] by simp
    from less.hyps [OF this rs(1)] have "parts_ok rs" by simp
    moreover have "template_expr_ok (trim raw)"
      using scan raw by (simp add: template_expr_ok_def depth_after_trim scan_expr_iff)
    ultimately show ?thesis using less.prems(2) 3 by (simp add: rs(2) parts_ok_flush)
  next
    case 4
    then have rec: "parse_loop (i + 1) (tl s) (lit @ [hd s]) [] = Inr ps"
      using less.prems(1) unfolding parse_loop.simps [of i s] by simp
    have "hd s \<noteq> CHR ''$'' \<or> \<not> prefix ''${'' (tl s)" using 4 by (cases s) auto
    with 4 less.hyps [OF _ rec] show ?thesis by simp
  qed
qed

text \<open>
  C33: the templates \<open>Template::parse\<close> accepts are exactly the texts of well-formed parts: a list of parts comes
  out of the parser if and only if its literals are not empty, not adjacent and do not end in a dollar sign before
  an expression and its expressions are trimmed, not empty and balanced; and printing those parts, with every
  \<open>${\<close> of a literal escaped, parses back to the same parts.
\<close>

theorem template_roundtrip:
  "((\<exists>s t. parse_template s = Inr t \<and> tpl_parts t = ps) \<longleftrightarrow> parts_ok ps) \<and>
   (parts_ok ps \<longrightarrow> parse_template (unparse ps) = Inr \<lparr>tpl_parts = ps, tpl_source = unparse ps\<rparr>)"
proof -
  have "parse_template (unparse ps) = Inr \<lparr>tpl_parts = ps, tpl_source = unparse ps\<rparr>" if "parts_ok ps"
    using parse_unparse [OF that, of 0] by (simp add: parse_template_def)
  moreover have "parts_ok (tpl_parts t)" if "parse_template s = Inr t" for s t
    using that parse_loop_ok [of 0 s "[]"] by (auto simp: parse_template_def split: sum.splits)
  ultimately show ?thesis by (metis template.select_convs(1))
qed

theorem template_roundtrip_witness:
  "parse_template (unparse [Lit ''a$${'', Expr ''x{}'', Lit ''$'']) =
     Inr \<lparr>tpl_parts = [Lit ''a$${'', Expr ''x{}'', Lit ''$''], tpl_source = ''a$$${${x{}}$''\<rparr>"
  using template_roundtrip [of "[Lit ''a$${'', Expr ''x{}'', Lit ''$'']"]
  by (simp add: template_expr_ok_def trimmed_def is_ws_def unparse_def)

end
