(* ===== verification/Protocol.thy ===== *)
theory Protocol
  imports Template Durations
begin

text \<open>
  The protocol abstraction (\<open>loadr-core/src/protocol.rs\<close>): prepared requests, responses and what counts as a
  failed one, the registry of handlers and the choice of a protocol for a request. Handlers are values of a type
  \<open>'h\<close>; executing one is an argument of the flow that calls it. Bodies are byte strings.
\<close>

record timings =
  dns_ms :: f64
  connect_ms :: f64
  tls_ms :: f64
  sending_ms :: f64
  waiting_ms :: f64
  receiving_ms :: f64
  duration_ms :: f64
  blocked_ms :: f64

definition timings_default :: timings where
  "timings_default =
     \<lparr>dns_ms = 0, connect_ms = 0, tls_ms = 0, sending_ms = 0, waiting_ms = 0, receiving_ms = 0, duration_ms = 0, blocked_ms = 0\<rparr>"

record ws_frame =
  wf_payload :: string
  wf_binary :: bool
  wf_delay :: "duration option"

record ws_request =
  ws_subprotocols :: "string list"
  ws_send :: "ws_frame list"
  ws_receive_count :: "nat option"
  ws_receive_until :: "string option"
  ws_session_duration :: "duration option"

record socket_request =
  so_payload :: string
  so_read_bytes :: "nat option"
  so_read_until_close :: bool
  so_read_timeout :: "duration option"

text \<open>The options of a request; those of a gRPC call are opaque (\<open>'g\<close>).\<close>

record 'g request_options =
  ro_ws :: "ws_request option"
  ro_grpc :: "'g option"
  ro_socket :: "socket_request option"
  ro_plugin :: "json option"

definition options_default :: "'g request_options" where
  "options_default = \<lparr>ro_ws = None, ro_grpc = None, ro_socket = None, ro_plugin = None\<rparr>"

record 'g prepared_request =
  pq_name :: string
  pq_protocol :: string
  pq_method :: string
  pq_url :: string
  pq_headers :: "(string \<times> string) list"
  pq_body :: string
  pq_timeout :: duration
  pq_follow_redirects :: bool
  pq_max_redirects :: nat
  pq_options :: "'g request_options"

text \<open>The outcome of a descriptor-aware gRPC check, without its detail text.\<close>

record protobuf_outcome =
  po_id :: nat
  po_pass :: bool
  po_actual_code :: "int option"
  po_missing :: bool

record protocol_response =
  rs_status :: int
  rs_status_text :: string
  rs_headers :: "(string \<times> string) list"
  rs_body :: string
  rs_timings :: timings
  rs_bytes_sent :: nat
  rs_bytes_received :: nat
  rs_protocol_version :: string
  rs_error :: "string option"
  rs_url :: string
  rs_extras :: json
  rs_protobuf_outcomes :: "protobuf_outcome list"

definition response_default :: protocol_response where
  "response_default =
     \<lparr>rs_status = 0, rs_status_text = [], rs_headers = [], rs_body = [], rs_timings = timings_default, rs_bytes_sent = 0,
      rs_bytes_received = 0, rs_protocol_version = [], rs_error = None, rs_url = [], rs_extras = JNull,
      rs_protobuf_outcomes = []\<rparr>"

definition eq_ignore_ascii_case :: "string \<Rightarrow> string \<Rightarrow> bool" where
  "eq_ignore_ascii_case a b \<longleftrightarrow> to_ascii_lowercase a = to_ascii_lowercase b"

definition header :: "string \<Rightarrow> protocol_response \<Rightarrow> string option" where
  "header name r = map_option snd (find (\<lambda>(k, _). eq_ignore_ascii_case k name) (rs_headers r))"

definition response_failed :: "protocol_response \<Rightarrow> bool" where
  "response_failed r \<longleftrightarrow>
     (if rs_error r \<noteq> None then True
      else if prefix ''HTTP'' (rs_protocol_version r) then 400 \<le> rs_status r
      else if rs_protocol_version r = ''grpc'' then rs_status r \<noteq> 0
      else False)"

section \<open>Handlers and schemes\<close>

type_synonym 'h protocol_registry = "(string, 'h) hashmap"

definition register_handler :: "('h \<Rightarrow> string) \<Rightarrow> 'h \<Rightarrow> 'h protocol_registry \<Rightarrow> 'h protocol_registry" where
  "register_handler name h reg = AList.update (name h) h reg"

definition register_alias :: "string \<Rightarrow> string \<Rightarrow> 'h protocol_registry \<Rightarrow> 'h protocol_registry" where
  "register_alias alias target reg =
     (case map_of reg target of Some h \<Rightarrow> AList.update alias h reg | None \<Rightarrow> reg)"

text \<open>The process-wide scheme aliases of loaded plugins.\<close>

type_synonym scheme_aliases = "(string, string) hashmap"

definition register_plugin_schemes :: "string \<Rightarrow> string list \<Rightarrow> scheme_aliases \<Rightarrow> scheme_aliases" where
  "register_plugin_schemes protocol schemes aliases =
     fold (\<lambda>scheme. AList.update (to_ascii_lowercase scheme) protocol) schemes aliases"

definition plugin_scheme :: "string \<Rightarrow> scheme_aliases \<Rightarrow> string option" where
  "plugin_scheme scheme aliases = map_of aliases (to_ascii_lowercase scheme)"

definition url_scheme :: "string \<Rightarrow> string" where
  "url_scheme url = (case find_str ''://'' url of Some i \<Rightarrow> take i url | None \<Rightarrow> url)"

definition infer :: "scheme_aliases \<Rightarrow> string option \<Rightarrow> string \<Rightarrow> string" where
  "infer aliases explicit url =
     (case explicit of
        Some p \<Rightarrow>
          if p = ''https'' then ''http''
          else if p = ''websocket'' \<or> p = ''wss'' then ''ws''
          else if p = ''sses'' then ''sse''
          else (case plugin_scheme p aliases of Some q \<Rightarrow> q | None \<Rightarrow> p)
      | None \<Rightarrow>
          let scheme = url_scheme url in
          if scheme = ''http'' \<or> scheme = ''https'' then ''http''
          else if scheme = ''ws'' \<or> scheme = ''wss'' then ''ws''
          else if scheme = ''grpc'' \<or> scheme = ''grpcs'' then ''grpc''
          else if scheme = ''sse'' \<or> scheme = ''sses'' then ''sse''
          else if scheme = ''tcp'' then ''tcp''
          else if scheme = ''udp'' then ''udp''
          else if scheme = ''noop'' then ''noop''
          else (case plugin_scheme scheme aliases of Some q \<Rightarrow> q | None \<Rightarrow> ''http''))"

text \<open>Built-in schemes cannot be taken over by a plugin.\<close>

lemma infer_builtin:
  assumes "url_scheme url \<in> {''http'', ''https'', ''ws'', ''wss'', ''grpc'', ''grpcs'', ''sse'', ''sses'', ''tcp'', ''udp'', ''noop''}"
  shows "infer (register_plugin_schemes protocol schemes aliases) None url = infer aliases None url"
  using assms by (elim insertE emptyE) (simp_all add: infer_def Let_def)

end
