(* ===== verification/Data_Feeds.thy ===== *)
theory Data_Feeds
  imports Protocol
begin

text \<open>
  Data parameterisation (\<open>loadr-core/src/data.rs\<close>): loading the sources of a test, the feeder state of a VU and of
  its parallel branches, and \<open>next_row\<close>. The atomics that several VUs share (the cursor of a shared source, the
  sequence counters of plugin rows) are explicit cells of the loaded feeds; every operation here runs without
  an await, and touches one atomic at most once, so it is one step. Plugins, the file readers and the random
  generator are arguments.
\<close>

type_synonym row = "(string, string) hashmap"

datatype data_mode = SharedMode | PerVu
datatype on_eof = Recycle | StopAtEof
datatype pick_strategy = Sequential | RandomPick | Shuffle

datatype data_source =
    CsvSource string data_mode on_eof pick_strategy "char option" bool
  | JsonSource string data_mode on_eof pick_strategy
  | InlineSource "(string, json) hashmap list" data_mode on_eof pick_strategy
  | PluginSource string json bool

record row_identity =
  ri_vu :: nat
  ri_iteration :: nat
  ri_scenario :: string
  ri_request :: "string option"

record plugin_row_ctx =
  pc_source :: string
  pc_vu :: nat
  pc_iteration :: nat
  pc_seq :: nat
  pc_scenario :: string
  pc_request :: "string option"
  pc_ts_ms :: nat

datatype plugin_row_result = PluginRow row | PluginExhausted

record result_payload =
  rp_source :: string
  rp_vu :: nat
  rp_iteration :: nat
  rp_seq :: nat
  rp_scenario :: string
  rp_request :: "string option"
  rp_row :: row
  rp_response :: protocol_response

record memory_feed =
  mf_rows :: "row list"
  mf_mode :: data_mode
  mf_on_eof :: on_eof
  mf_pick :: pick_strategy
  mf_shared_cursor :: nat

datatype 'p feed = Memory memory_feed | PluginFeed 'p bool "string option"

record 'p pending_row =
  pe_source :: string
  pe_seq :: nat
  pe_row :: row
  pe_plugin :: 'p
  pe_blocking :: bool

text \<open>
  \<open>VuFeedState\<close>: \<open>plugin_sequences\<close> is the address of the map that the branches of one VU share,
  \<open>local_sequences\<close> a cache of the addresses of its counters.
\<close>

record 'p vu_feed_state =
  fs_cursors :: "(string, nat) hashmap"
  fs_shuffles :: "(string, nat list) hashmap"
  fs_plugin_sequences :: nat
  fs_local_sequences :: "(string, nat) hashmap"
  fs_pending :: "'p pending_row list"

text \<open>The loaded feeds, with the cells shared between VUs and branches and the plugins' own state \<open>'w\<close>.\<close>

record ('p, 'w) data_feeds =
  df_feeds :: "(string, 'p feed) hashmap"
  df_has_on_demand :: bool
  df_reports_results :: bool
  df_maps :: "(string, nat) hashmap list"
  df_slots :: "nat list"
  df_plugins :: 'w

datatype next_row_error = UnknownSource string | Exhausted string | PluginError string string

text \<open>The interface of a \<open>DataSourcePlugin\<close> and of the VU's random generator.\<close>

record ('p, 'w) plugin_ops =
  po_set_placement :: "nat \<times> nat \<Rightarrow> 'p \<Rightarrow> 'p"
  po_init :: "(string \<times> json) list \<Rightarrow> 'p \<Rightarrow> (string, 'p) result"
  po_next_row :: "'p \<Rightarrow> plugin_row_ctx \<Rightarrow> 'w \<Rightarrow> (string, plugin_row_result) result \<times> 'w"
  po_wants_results :: "'p \<Rightarrow> bool"
  po_on_result :: "'p \<Rightarrow> string \<Rightarrow> 'w \<Rightarrow> 'w"

record 'g rng_ops =
  rg_range :: "nat \<Rightarrow> 'g \<Rightarrow> nat \<times> 'g"
  rg_shuffle :: "nat list \<Rightarrow> 'g \<Rightarrow> nat list \<times> 'g"

text \<open>What the generator documents: a pick lies in its range, a shuffle permutes.\<close>

definition rng_laws :: "'g rng_ops \<Rightarrow> bool" where
  "rng_laws rg \<longleftrightarrow>
     (\<forall>n g. 0 < n \<longrightarrow> fst (rg_range rg n g) < n) \<and> (\<forall>xs g. mset (fst (rg_shuffle rg xs g)) = mset xs)"

section \<open>Loading\<close>

record file_ops =
  fo_csv :: "string \<Rightarrow> char option \<Rightarrow> bool \<Rightarrow> (string, string list \<times> string list list) result"
  fo_json :: "string \<Rightarrow> (string, json) result"
  fo_show_json :: "json \<Rightarrow> string"

datatype data_error = DataError string string

definition json_to_string :: "(json \<Rightarrow> string) \<Rightarrow> json \<Rightarrow> string" where
  "json_to_string show_json v = (case v of JString s \<Rightarrow> s | _ \<Rightarrow> show_json v)"

definition make_feed :: "row list \<Rightarrow> data_mode \<Rightarrow> on_eof \<Rightarrow> pick_strategy \<Rightarrow> 'p feed" where
  "make_feed rows mode eof pick =
     Memory \<lparr>mf_rows = rows, mf_mode = mode, mf_on_eof = eof, mf_pick = pick, mf_shared_cursor = 0\<rparr>"

text \<open>One record of a CSV file: a field past the headers is named by its position.\<close>

definition csv_row :: "string list \<Rightarrow> string list \<Rightarrow> row" where
  "csv_row headers cells =
     fold (\<lambda>(i, field). AList.update (if i < length headers then headers ! i else ''col'' @ show_nat i) field)
       (enumerate 0 cells) []"

definition object_row :: "(json \<Rightarrow> string) \<Rightarrow> (string \<times> json) list \<Rightarrow> row" where
  "object_row show_json fs = fold (\<lambda>(k, v). AList.update k (json_to_string show_json v)) fs []"

fun json_row :: "(json \<Rightarrow> string) \<Rightarrow> json \<Rightarrow> (string, row) result" where
  "json_row show_json (JObject fs) = Inr (object_row show_json fs)"
| "json_row show_json _ = Inl ''each JSON data row must be an object''"

text \<open>The configurations of every plugin's sources, in the order the sources are declared.\<close>

fun plugin_groups ::
  "(string \<times> data_source) list \<Rightarrow> (string \<times> (string \<times> json) list) list \<Rightarrow> (string \<times> (string \<times> json) list) list" where
  "plugin_groups [] gs = gs"
| "plugin_groups ((name, PluginSource plugin config _) # ss) gs =
     plugin_groups ss
       (AList.update plugin (AList.update name config (case map_of gs plugin of Some g \<Rightarrow> g | None \<Rightarrow> [])) gs)"
| "plugin_groups (_ # ss) gs = plugin_groups ss gs"

fun init_plugins ::
  "('p, 'w) plugin_ops \<Rightarrow> nat \<times> nat \<Rightarrow> (string \<times> (string \<times> json) list) list \<Rightarrow> (string, 'p) hashmap \<Rightarrow> (string, 'p) hashmap
     \<Rightarrow> (data_error, (string, 'p) hashmap) result" where
  "init_plugins po placement [] plugins initialized = Inr initialized"
| "init_plugins po placement ((name, configs) # gs) plugins initialized =
     (case map_of plugins name of
        None \<Rightarrow> Inl (DataError name ''plugin is not loaded or does not provide the data_source capability'')
      | Some plugin \<Rightarrow>
          (case po_init po configs (po_set_placement po placement plugin) of
             Inl message \<Rightarrow> Inl (DataError name message)
           | Inr plugin' \<Rightarrow>
               init_plugins po placement gs (AList.delete name plugins) (AList.update name plugin' initialized)))"

text \<open>The feed of one source; \<open>None\<close> is the panic of a plugin that was not initialised.\<close>

fun load_feed ::
  "('p, 'w) plugin_ops \<Rightarrow> file_ops \<Rightarrow> (string, 'p) hashmap \<Rightarrow> string \<Rightarrow> data_source \<Rightarrow> (data_error, 'p feed) result panicky" where
  "load_feed po fo initialized name (PluginSource plugin_name _ blocking) =
     map_option (\<lambda>p. Inr (PluginFeed p blocking (if po_wants_results po p then Some name else None)))
       (map_of initialized plugin_name)"
| "load_feed po fo initialized name (CsvSource path mode eof pick delimiter has_header) =
     Some (case fo_csv fo path delimiter has_header of
             Inl e \<Rightarrow> Inl (DataError name e)
           | Inr (headers, records) \<Rightarrow>
               if records = [] then Inl (DataError name ''CSV has no data rows'')
               else Inr (make_feed (map (csv_row (if has_header then headers else [])) records) mode eof pick))"
| "load_feed po fo initialized name (JsonSource path mode eof pick) =
     Some (case fo_json fo path of
             Inl e \<Rightarrow> Inl (DataError name e)
           | Inr (JArray items) \<Rightarrow>
               (case collect_results (json_row (fo_show_json fo)) items of
                  Inl e \<Rightarrow> Inl (DataError name e)
                | Inr rows \<Rightarrow>
                    if rows = [] then Inl (DataError name ''JSON data source is empty'')
                    else Inr (make_feed rows mode eof pick))
           | Inr _ \<Rightarrow> Inl (DataError name ''JSON data source must be an array of objects''))"
| "load_feed po fo initialized name (InlineSource rows mode eof pick) =
     Some (if rows = [] then Inl (DataError name ''inline data has no rows'')
           else Inr (make_feed (map (object_row (fo_show_json fo)) rows) mode eof pick))"

fun load_feeds ::
  "('p, 'w) plugin_ops \<Rightarrow> file_ops \<Rightarrow> (string, 'p) hashmap \<Rightarrow> (string \<times> data_source) list \<Rightarrow> (string, 'p feed) hashmap
     \<Rightarrow> (data_error, (string, 'p feed) hashmap) result panicky" where
  "load_feeds po fo initialized [] feeds = Some (Inr feeds)"
| "load_feeds po fo initialized ((name, source) # ss) feeds =
     (case load_feed po fo initialized name source of
        None \<Rightarrow> None
      | Some (Inl e) \<Rightarrow> Some (Inl e)
      | Some (Inr feed) \<Rightarrow> load_feeds po fo initialized ss (AList.update name feed feeds))"

fun is_plugin_feed :: "'p feed \<Rightarrow> bool" where
  "is_plugin_feed (PluginFeed _ _ _) = True"
| "is_plugin_feed (Memory _) = False"

fun feed_reports :: "('p, 'w) plugin_ops \<Rightarrow> 'p feed \<Rightarrow> bool" where
  "feed_reports po (PluginFeed p _ _) = po_wants_results po p"
| "feed_reports po (Memory _) = False"

definition load ::
  "('p, 'w) plugin_ops \<Rightarrow> file_ops \<Rightarrow> (string \<times> data_source) list \<Rightarrow> (string, 'p) hashmap \<Rightarrow> nat \<times> nat \<Rightarrow> 'w
     \<Rightarrow> (data_error, ('p, 'w) data_feeds) result panicky" where
  "load po fo sources plugins placement w =
     (case init_plugins po placement (plugin_groups sources []) plugins [] of
        Inl e \<Rightarrow> Some (Inl e)
      | Inr initialized \<Rightarrow>
          (case load_feeds po fo initialized sources [] of
             None \<Rightarrow> None
           | Some (Inl e) \<Rightarrow> Some (Inl e)
           | Some (Inr feeds) \<Rightarrow>
               Some (Inr \<lparr>df_feeds = feeds, df_has_on_demand = list_ex (is_plugin_feed \<circ> snd) feeds,
                          df_reports_results = list_ex (feed_reports po \<circ> snd) feeds, df_maps = [], df_slots = [],
                          df_plugins = w\<rparr>)))"

definition is_on_demand :: "('p, 'w) data_feeds \<Rightarrow> string \<Rightarrow> bool" where
  "is_on_demand d name \<longleftrightarrow> (case map_of (df_feeds d) name of Some (PluginFeed _ _ _) \<Rightarrow> True | _ \<Rightarrow> False)"

section \<open>The feeder state of a VU\<close>

text \<open>\<open>VuFeedState::new\<close> allocates the map its branches will share.\<close>

definition feed_state_new :: "('p, 'w) data_feeds \<Rightarrow> 'p vu_feed_state \<times> ('p, 'w) data_feeds" where
  "feed_state_new d =
     (\<lparr>fs_cursors = [], fs_shuffles = [], fs_plugin_sequences = length (df_maps d), fs_local_sequences = [], fs_pending = []\<rparr>,
      d\<lparr>df_maps := df_maps d @ [[]]\<rparr>)"

definition fork_for_parallel :: "'p vu_feed_state \<Rightarrow> 'p vu_feed_state" where
  "fork_for_parallel st =
     \<lparr>fs_cursors = [], fs_shuffles = [], fs_plugin_sequences = fs_plugin_sequences st, fs_local_sequences = [], fs_pending = []\<rparr>"

definition clear_pending :: "'p vu_feed_state \<Rightarrow> 'p vu_feed_state" where
  "clear_pending st = st\<lparr>fs_pending := []\<rparr>"

text \<open>The slot a source's rows are numbered with: the cached one, the shared one, or a new one.\<close>

definition find_slot ::
  "string \<Rightarrow> 'p vu_feed_state \<Rightarrow> ('p, 'w) data_feeds \<Rightarrow> nat \<times> 'p vu_feed_state \<times> ('p, 'w) data_feeds" where
  "find_slot source st d =
     (case map_of (fs_local_sequences st) source of
        Some slot \<Rightarrow> (slot, st, d)
      | None \<Rightarrow>
          let shared = df_maps d ! fs_plugin_sequences st;
              (slot, d') =
                (case map_of shared source of
                   Some slot \<Rightarrow> (slot, d)
                 | None \<Rightarrow>
                     (length (df_slots d),
                      d\<lparr>df_slots := df_slots d @ [0],
                        df_maps := (df_maps d)[fs_plugin_sequences st := AList.update source (length (df_slots d)) shared]\<rparr>))
          in (slot, st\<lparr>fs_local_sequences := AList.update source slot (fs_local_sequences st)\<rparr>, d'))"

definition next_plugin_seq ::
  "string \<Rightarrow> 'p vu_feed_state \<Rightarrow> ('p, 'w) data_feeds \<Rightarrow> nat \<times> 'p vu_feed_state \<times> ('p, 'w) data_feeds" where
  "next_plugin_seq source st d =
     (let (slot, st', d') = find_slot source st d
      in (df_slots d' ! slot, st', d'\<lparr>df_slots := (df_slots d')[slot := df_slots d' ! slot + 1]\<rparr>))"

section \<open>The next row\<close>

text \<open>
  \<open>next_row\<close> on a feed held in memory. \<open>None\<close> is a panic: an empty range, or an index outside the rows or the
  order.
\<close>

definition take_cursor ::
  "string \<Rightarrow> memory_feed \<Rightarrow> 'p vu_feed_state \<Rightarrow> nat \<times> memory_feed \<times> 'p vu_feed_state" where
  "take_cursor source feed st =
     (case mf_mode feed of
        SharedMode \<Rightarrow> (mf_shared_cursor feed, feed\<lparr>mf_shared_cursor := mf_shared_cursor feed + 1\<rparr>, st)
      | PerVu \<Rightarrow>
          let c = (case map_of (fs_cursors st) source of Some c \<Rightarrow> c | None \<Rightarrow> 0)
          in (c, feed, st\<lparr>fs_cursors := AList.update source (c + 1) (fs_cursors st)\<rparr>))"

definition shuffle_order ::
  "'g rng_ops \<Rightarrow> string \<Rightarrow> nat \<Rightarrow> 'p vu_feed_state \<Rightarrow> 'g \<Rightarrow> nat list \<times> 'p vu_feed_state \<times> 'g" where
  "shuffle_order rg source len st g =
     (case map_of (fs_shuffles st) source of
        Some order \<Rightarrow> (order, st, g)
      | None \<Rightarrow>
          let (order, g') = rg_shuffle rg [0..<len] g
          in (order, st\<lparr>fs_shuffles := AList.update source order (fs_shuffles st)\<rparr>, g'))"

definition row_at :: "memory_feed \<Rightarrow> nat \<Rightarrow> row panicky" where
  "row_at feed i = (if i < length (mf_rows feed) then Some (mf_rows feed ! i) else None)"

definition next_memory_row ::
  "'g rng_ops \<Rightarrow> string \<Rightarrow> memory_feed \<Rightarrow> 'p vu_feed_state \<Rightarrow> 'g
     \<Rightarrow> ((next_row_error, row) result \<times> memory_feed \<times> 'p vu_feed_state \<times> 'g) panicky" where
  "next_memory_row rg source feed st g =
     (let len = length (mf_rows feed) in
      if mf_pick feed = RandomPick then
        (if len = 0 then None
         else let (i, g') = rg_range rg len g in map_option (\<lambda>r. (Inr r, feed, st, g')) (row_at feed i))
      else
        let (cursor, feed', st') = take_cursor source feed st in
        if len \<le> cursor \<and> mf_on_eof feed = StopAtEof then Some (Inl (Exhausted source), feed', st', g)
        else if mf_pick feed = Shuffle then
          (let (order, st'', g') = shuffle_order rg source len st' g in
           if len = 0 \<or> length order \<le> cursor mod len then None
           else map_option (\<lambda>r. (Inr r, feed', st'', g')) (row_at feed (order ! (cursor mod len))))
        else if len = 0 then None
        else map_option (\<lambda>r. (Inr r, feed', st', g)) (row_at feed (cursor mod len)))"

definition next_plugin_row ::
  "('p, 'w) plugin_ops \<Rightarrow> string \<Rightarrow> 'p \<Rightarrow> bool \<Rightarrow> string option \<Rightarrow> row_identity \<Rightarrow> nat \<Rightarrow> 'p vu_feed_state \<Rightarrow> ('p, 'w) data_feeds
     \<Rightarrow> (next_row_error, row) result \<times> 'p vu_feed_state \<times> ('p, 'w) data_feeds" where
  "next_plugin_row po source plugin blocking name rid now st d =
     (let (seq, st1, d1) = next_plugin_seq source st d;
          ctx = \<lparr>pc_source = source, pc_vu = ri_vu rid, pc_iteration = ri_iteration rid, pc_seq = seq,
                 pc_scenario = ri_scenario rid, pc_request = ri_request rid, pc_ts_ms = now\<rparr>;
          (fetched, w) = po_next_row po plugin ctx (df_plugins d1);
          d2 = d1\<lparr>df_plugins := w\<rparr>
      in (case fetched of
            Inr (PluginRow row) \<Rightarrow>
              (Inr row,
               (case name of
                  Some n \<Rightarrow>
                    st1\<lparr>fs_pending := fs_pending st1 @
                      [\<lparr>pe_source = n, pe_seq = seq, pe_row = row, pe_plugin = plugin, pe_blocking = blocking\<rparr>]\<rparr>
                | None \<Rightarrow> st1),
               d2)
          | Inr PluginExhausted \<Rightarrow> (Inl (Exhausted source), st1, d2)
          | Inl message \<Rightarrow> (Inl (PluginError source message), st1, d2)))"

definition next_row ::
  "('p, 'w) plugin_ops \<Rightarrow> 'g rng_ops \<Rightarrow> string \<Rightarrow> row_identity \<Rightarrow> nat \<Rightarrow> 'p vu_feed_state \<Rightarrow> 'g \<Rightarrow> ('p, 'w) data_feeds
     \<Rightarrow> ((next_row_error, row) result \<times> 'p vu_feed_state \<times> 'g \<times> ('p, 'w) data_feeds) panicky" where
  "next_row po rg source rid now st g d =
     (case map_of (df_feeds d) source of
        None \<Rightarrow> Some (Inl (UnknownSource source), st, g, d)
      | Some (PluginFeed plugin blocking name) \<Rightarrow>
          let (r, st', d') = next_plugin_row po source plugin blocking name rid now st d in Some (r, st', g, d')
      | Some (Memory feed) \<Rightarrow>
          map_option (\<lambda>(r, feed', st', g'). (r, st', g', d\<lparr>df_feeds := AList.update source (Memory feed') (df_feeds d)\<rparr>))
            (next_memory_row rg source feed st g))"

text \<open>
  \<open>report_result\<close>: the rows of a request are reported to their plugins in the order they were pulled; \<open>encode\<close> is
  the serialisation of the payload.
\<close>

fun report_rows ::
  "('p, 'w) plugin_ops \<Rightarrow> (result_payload \<Rightarrow> string option) \<Rightarrow> row_identity \<Rightarrow> protocol_response \<Rightarrow> 'p pending_row list \<Rightarrow> 'w \<Rightarrow> 'w" where
  "report_rows po encode rid response [] w = w"
| "report_rows po encode rid response (e # es) w =
     (case encode \<lparr>rp_source = pe_source e, rp_vu = ri_vu rid, rp_iteration = ri_iteration rid, rp_seq = pe_seq e,
                   rp_scenario = ri_scenario rid, rp_request = ri_request rid, rp_row = pe_row e, rp_response = response\<rparr> of
        Some text \<Rightarrow> report_rows po encode rid response es (po_on_result po (pe_plugin e) text w)
      | None \<Rightarrow> report_rows po encode rid response es w)"

definition report_result ::
  "('p, 'w) plugin_ops \<Rightarrow> (result_payload \<Rightarrow> string option) \<Rightarrow> row_identity \<Rightarrow> protocol_response \<Rightarrow> 'p vu_feed_state
     \<Rightarrow> ('p, 'w) data_feeds \<Rightarrow> 'p vu_feed_state \<times> ('p, 'w) data_feeds" where
  "report_result po encode rid response st d =
     (st\<lparr>fs_pending := []\<rparr>, d\<lparr>df_plugins := report_rows po encode rid response (fs_pending st) (df_plugins d)\<rparr>)"

end
