(* ===== verification/Data_Props.thy ===== *)
theory Data_Props
  imports Data_Feeds
begin

text \<open>
  What the data feeds promise to the VUs that pull from them, however their calls interleave: rows in order, each
  once per pass, numbered plugin rows without a gap or a repetition, and no panic.
\<close>

section \<open>VUs and branches pulling rows\<close>

record draw =
  dr_branch :: nat
  dr_family :: nat
  dr_source :: string
  dr_seq :: "nat option"
  dr_result :: "(next_row_error, row) result"

text \<open>The feeder states of all VUs and branches with their generators, the shared feeds, and what was drawn.\<close>

type_synonym ('p, 'g, 'w) feed_system = "('p vu_feed_state \<times> 'g) list \<times> ('p, 'w) data_feeds \<times> draw list"

definition draw_seq :: "string \<Rightarrow> 'p vu_feed_state \<Rightarrow> ('p, 'w) data_feeds \<Rightarrow> nat option" where
  "draw_seq source st d = (if is_on_demand d source then Some (fst (next_plugin_seq source st d)) else None)"

inductive feed_reach :: "('p, 'w) plugin_ops \<Rightarrow> 'g rng_ops \<Rightarrow> file_ops \<Rightarrow> ('p, 'g, 'w) feed_system \<Rightarrow> bool" for po rg fo where
  loaded: "load po fo sources plugins placement w = Some (Inr d) \<Longrightarrow> feed_reach po rg fo ([], d, [])"
| new_vu: "feed_reach po rg fo (sts, d, ds) \<Longrightarrow> feed_state_new d = (st, d') \<Longrightarrow> feed_reach po rg fo (sts @ [(st, g)], d', ds)"
| branch: "feed_reach po rg fo (sts, d, ds) \<Longrightarrow> b < length sts \<Longrightarrow>
    feed_reach po rg fo (sts @ [(fork_for_parallel (fst (sts ! b)), g)], d, ds)"
| pull: "feed_reach po rg fo (sts, d, ds) \<Longrightarrow> b < length sts \<Longrightarrow> sts ! b = (st, g) \<Longrightarrow>
    next_row po rg source rid now st g d = Some (r, st', g', d') \<Longrightarrow>
    feed_reach po rg fo (sts[b := (st', g')], d',
      ds @ [\<lparr>dr_branch = b, dr_family = fs_plugin_sequences st, dr_source = source, dr_seq = draw_seq source st d, dr_result = r\<rparr>])"
| settle: "feed_reach po rg fo (sts, d, ds) \<Longrightarrow> b < length sts \<Longrightarrow> sts ! b = (st, g) \<Longrightarrow>
    feed_reach po rg fo (sts[b := (clear_pending st, g)], d, ds)"
| report: "feed_reach po rg fo (sts, d, ds) \<Longrightarrow> b < length sts \<Longrightarrow> sts ! b = (st, g) \<Longrightarrow>
    report_result po encode rid response st d = (st', d') \<Longrightarrow> feed_reach po rg fo (sts[b := (st', g)], d', ds)"

section \<open>Plugin rows\<close>

definition seqs_of :: "nat \<Rightarrow> string \<Rightarrow> draw list \<Rightarrow> nat list" where
  "seqs_of m source ds = List.map_filter dr_seq (filter (\<lambda>x. dr_family x = m \<and> dr_source x = source) ds)"

lemma seqs_of_Nil [simp]: "seqs_of m source [] = []"
  by (simp add: seqs_of_def map_filter_def)

lemma seqs_of_snoc:
  "seqs_of m source (ds @ [x]) =
     seqs_of m source ds @ (if dr_family x = m \<and> dr_source x = source then (case dr_seq x of Some q \<Rightarrow> [q] | None \<Rightarrow> []) else [])"
  by (auto simp: seqs_of_def map_filter_def split: option.splits)

text \<open>The slot a family of branches numbers a source with, and the counter in it.\<close>

definition slot_of :: "('p, 'w) data_feeds \<Rightarrow> nat \<Rightarrow> string \<Rightarrow> nat option" where
  "slot_of d m source = (if m < length (df_maps d) then map_of (df_maps d ! m) source else None)"

definition numbered :: "('p, 'w) data_feeds \<Rightarrow> draw list \<Rightarrow> nat \<Rightarrow> string \<Rightarrow> bool" where
  "numbered d ds m source \<longleftrightarrow>
     (case slot_of d m source of
        None \<Rightarrow> seqs_of m source ds = []
      | Some a \<Rightarrow> a < length (df_slots d) \<and> seqs_of m source ds = [0..<df_slots d ! a])"

definition slots_apart :: "('p, 'w) data_feeds \<Rightarrow> bool" where
  "slots_apart d \<longleftrightarrow>
     (\<forall>m source m' source' a. slot_of d m source = Some a \<longrightarrow> slot_of d m' source' = Some a \<longrightarrow> m = m' \<and> source = source')"

definition caches_ok :: "('p, 'w) data_feeds \<Rightarrow> 'p vu_feed_state \<Rightarrow> bool" where
  "caches_ok d st \<longleftrightarrow> fs_plugin_sequences st < length (df_maps d) \<and>
     (\<forall>source a. map_of (fs_local_sequences st) source = Some a \<longrightarrow> slot_of d (fs_plugin_sequences st) source = Some a)"

definition seq_inv :: "('p, 'g, 'w) feed_system \<Rightarrow> bool" where
  "seq_inv S \<longleftrightarrow> (case S of (sts, d, ds) \<Rightarrow>
     slots_apart d \<and> (\<forall>m source. numbered d ds m source) \<and> (\<forall>x \<in> set sts. caches_ok d (fst x)) \<and>
     (\<forall>x \<in> set ds. dr_family x < length (df_maps d)))"

text \<open>Finding a slot creates at most one, for this family and source, with a counter at zero.\<close>

lemma find_slot_effect:
  assumes "find_slot source st d = (a, st', d')" and "caches_ok d st" and "slots_apart d"
    and "\<And>m source. numbered d ds m source"
  shows "slot_of d' (fs_plugin_sequences st) source = Some a" "slots_apart d'" "\<And>m source. numbered d' ds m source"
    "\<And>m s b. slot_of d m s = Some b \<Longrightarrow> slot_of d' m s = Some b" "length (df_maps d') = length (df_maps d)"
    "fs_plugin_sequences st' = fs_plugin_sequences st" "caches_ok d' st'"
    "df_feeds d' = df_feeds d" "fs_cursors st' = fs_cursors st" "fs_shuffles st' = fs_shuffles st"
proof -
  let ?m = "fs_plugin_sequences st"
  have old: "b < length (df_slots d)" if "slot_of d m s = Some b" for m s b
    using assms(4) [of m s] that by (simp add: numbered_def)
  have created: "(map_of (fs_local_sequences st) source = Some a \<and> st' = st \<and> d' = d) \<or>
    (slot_of d ?m source = Some a \<and> d' = d \<and> st' = st\<lparr>fs_local_sequences := AList.update source a (fs_local_sequences st)\<rparr>) \<or>
    (slot_of d ?m source = None \<and> a = length (df_slots d) \<and>
     d' = d\<lparr>df_slots := df_slots d @ [0], df_maps := (df_maps d)[?m := AList.update source a (df_maps d ! ?m)]\<rparr> \<and>
     st' = st\<lparr>fs_local_sequences := AList.update source a (fs_local_sequences st)\<rparr>)"
    using assms(1, 2) by (auto simp: find_slot_def slot_of_def caches_ok_def Let_def split: option.splits)
  have slot: "slot_of d' m s = (if m = ?m \<and> s = source then Some a else slot_of d m s)" for m s
    using created assms(2) by (auto simp: slot_of_def caches_ok_def nth_list_update)
  show "slot_of d' ?m source = Some a" by (simp add: slot)
  show "length (df_maps d') = length (df_maps d)" "fs_plugin_sequences st' = ?m" "df_feeds d' = df_feeds d"
    "fs_cursors st' = fs_cursors st" "fs_shuffles st' = fs_shuffles st"
    using created by auto
  show "slot_of d' m s = Some b" if "slot_of d m s = Some b" for m s b
    using created that assms(2) by (auto simp: slot caches_ok_def)
  have new: "d' = d \<or> slot_of d ?m source = None \<and> a = length (df_slots d) \<and> df_slots d' = df_slots d @ [0]"
    using created by auto
  then show "slots_apart d'"
    using assms(3) by (elim disjE) (auto simp: slots_apart_def slot dest!: old)
  show "numbered d' ds m s" for m s
    using new assms(4) [of m s]
    by (elim disjE, simp) (auto simp: numbered_def slot nth_append split: option.splits dest: old)
  show "caches_ok d' st'"
    using created assms(2) by (auto simp: caches_ok_def slot)
qed

text \<open>The counter that is read moves on by one; every other counter stays.\<close>

lemma next_plugin_seq_effect:
  assumes "next_plugin_seq source st d = (q, st', d')" and "caches_ok d st" and "slots_apart d"
    and "\<And>m source. numbered d ds m source"
  shows "slots_apart d'" "length (df_maps d') = length (df_maps d)" "fs_plugin_sequences st' = fs_plugin_sequences st"
    "caches_ok d' st'" "\<And>m s b. slot_of d m s = Some b \<Longrightarrow> slot_of d' m s = Some b" "df_feeds d' = df_feeds d"
    "fs_cursors st' = fs_cursors st" "fs_shuffles st' = fs_shuffles st"
    "\<And>x m s. dr_family x = fs_plugin_sequences st \<Longrightarrow> dr_source x = source \<Longrightarrow> dr_seq x = Some q \<Longrightarrow> numbered d' (ds @ [x]) m s"
proof -
  obtain a st1 d1 where f1: "find_slot source st d = (a, st1, d1)" by (cases "find_slot source st d")
  then have f: "find_slot source st d = (a, st', d1)"
    and d': "d' = d1\<lparr>df_slots := (df_slots d1)[a := df_slots d1 ! a + 1]\<rparr>" and q: "q = df_slots d1 ! a"
    using assms(1) by (auto simp: next_plugin_seq_def)
  note eff = find_slot_effect [OF f assms(2-4)]
  have slot: "slot_of d' = slot_of d1" by (auto simp: d' slot_of_def fun_eq_iff)
  have slots: "df_slots d' = (df_slots d1)[a := df_slots d1 ! a + 1]" by (simp add: d')
  show "slots_apart d'" using eff(2) by (simp add: slots_apart_def slot)
  show "caches_ok d' st'" using eff(7) by (simp add: caches_ok_def slot) (simp add: d')
  show "length (df_maps d') = length (df_maps d)" "fs_plugin_sequences st' = fs_plugin_sequences st"
    "df_feeds d' = df_feeds d" "fs_cursors st' = fs_cursors st" "fs_shuffles st' = fs_shuffles st"
    using eff by (simp_all add: d')
  show "slot_of d' m s = Some b" if "slot_of d m s = Some b" for m s b using eff(4) [OF that] by (simp add: slot)
  show "numbered d' (ds @ [x]) m s"
    if x: "dr_family x = fs_plugin_sequences st" "dr_source x = source" "dr_seq x = Some q" for x m s
  proof (cases "m = fs_plugin_sequences st \<and> s = source")
    case True
    then show ?thesis
      using eff(1) eff(3) [of m s] x by (simp add: numbered_def slot seqs_of_snoc q slots)
  next
    case False
    then have "slot_of d1 m s \<noteq> Some a" using eff(1, 2) unfolding slots_apart_def by blast
    moreover have "seqs_of m s (ds @ [x]) = seqs_of m s ds" using False x by (auto simp: seqs_of_snoc)
    ultimately show ?thesis using eff(3) [of m s] by (auto simp: numbered_def slot slots split: option.splits)
  qed
qed

lemma numbered_other: "dr_seq x = None \<Longrightarrow> numbered d (ds @ [x]) m s = numbered d ds m s"
  by (simp add: numbered_def seqs_of_snoc split: option.splits)

lemma numbered_cong:
  "slot_of d' = slot_of d \<Longrightarrow> df_slots d' = df_slots d \<Longrightarrow> numbered d' = numbered d"
  by (simp add: numbered_def fun_eq_iff cong: option.case_cong)

lemma next_memory_row_seq:
  "next_memory_row rg source feed st g = Some (r, feed', st', g') \<Longrightarrow>
   fs_plugin_sequences st' = fs_plugin_sequences st \<and> fs_local_sequences st' = fs_local_sequences st"
  by (auto simp: next_memory_row_def take_cursor_def shuffle_order_def Let_def
      split: if_splits prod.splits data_mode.splits option.splits)

text \<open>What a call of \<open>next_row\<close> leaves of the numbering, whatever feed it reads.\<close>

lemma next_row_seq:
  assumes "next_row po rg source rid now st g d = Some (r, st', g', d')" and "caches_ok d st" and "slots_apart d"
    and "\<And>m source. numbered d ds m source"
    and x: "dr_family x = fs_plugin_sequences st" "dr_source x = source" "dr_seq x = draw_seq source st d"
  shows "slots_apart d' \<and> length (df_maps d') = length (df_maps d) \<and> caches_ok d' st' \<and>
    fs_plugin_sequences st' = fs_plugin_sequences st \<and>
    (\<forall>m s b. slot_of d m s = Some b \<longrightarrow> slot_of d' m s = Some b) \<and> numbered d' (ds @ [x]) m s"
proof (cases "map_of (df_feeds d) source")
  case None
  then have "dr_seq x = None" by (simp add: x draw_seq_def is_on_demand_def)
  with None assms(1-4) show ?thesis by (simp add: next_row_def numbered_other)
next
  case (Some feed)
  show ?thesis
  proof (cases feed)
    case (Memory mf)
    then have none: "dr_seq x = None" by (simp add: x draw_seq_def is_on_demand_def Some)
    obtain mf' where nm: "next_memory_row rg source mf st g = Some (r, mf', st', g')"
      and d': "d' = d\<lparr>df_feeds := AList.update source (Memory mf') (df_feeds d)\<rparr>"
      using assms(1) by (auto simp: next_row_def Some Memory)
    have slot: "slot_of d' = slot_of d" by (simp add: d' slot_of_def fun_eq_iff)
    moreover have "numbered d' ds m s" using assms(4) numbered_cong [OF slot] by (simp add: d')
    ultimately show ?thesis
      using assms(2, 3) next_memory_row_seq [OF nm] none
      by (simp add: slots_apart_def caches_ok_def numbered_other) (simp add: d')
  next
    case (PluginFeed p bl n)
    obtain q st1 d1 where nq: "next_plugin_seq source st d = (q, st1, d1)" by (cases "next_plugin_seq source st d")
    have q: "dr_seq x = Some q" by (simp add: x draw_seq_def is_on_demand_def Some PluginFeed nq)
    note eff = next_plugin_seq_effect [OF nq assms(2-4)]
    obtain w where d': "d' = d1\<lparr>df_plugins := w\<rparr>" and st': "fs_plugin_sequences st' = fs_plugin_sequences st1"
      "fs_local_sequences st' = fs_local_sequences st1"
      using assms(1) by (auto simp: next_row_def Some PluginFeed next_plugin_row_def nq Let_def
        split: prod.splits sum.splits plugin_row_result.splits option.splits)
    have slot: "slot_of d' = slot_of d1" by (simp add: d' slot_of_def fun_eq_iff)
    have "numbered d' (ds @ [x]) m s" using eff(9) [OF x(1, 2) q] numbered_cong [OF slot] by (simp add: d')
    with eff show ?thesis
      by (simp add: slot slots_apart_def caches_ok_def st') (simp add: d')
  qed
qed

lemma caches_ok_grow:
  "caches_ok d st \<Longrightarrow> length (df_maps d) \<le> length (df_maps d') \<Longrightarrow>
   (\<And>m s b. slot_of d m s = Some b \<Longrightarrow> slot_of d' m s = Some b) \<Longrightarrow> caches_ok d' st"
  by (auto simp: caches_ok_def)

lemma in_set_list_update: "x \<in> set (xs[i := y]) \<Longrightarrow> x = y \<or> x \<in> set xs"
  by (meson insertE set_update_subset_insert subsetD)

lemma feed_reach_seq_inv: "feed_reach po rg fo S \<Longrightarrow> seq_inv S"
proof (induction rule: feed_reach.induct)
  case (loaded sources plugins placement w d)
  then have "df_maps d = []" by (auto simp: load_def split: sum.splits option.splits)
  then show ?case by (auto simp: seq_inv_def slots_apart_def numbered_def slot_of_def)
next
  case (new_vu sts d ds st d' g)
  then have d': "d' = d\<lparr>df_maps := df_maps d @ [[]]\<rparr>" "fs_plugin_sequences st = length (df_maps d)" "fs_local_sequences st = []"
    by (auto simp: feed_state_new_def)
  have slot: "slot_of d' = slot_of d" by (auto simp: d' slot_of_def fun_eq_iff nth_append)
  have len: "length (df_maps d') = Suc (length (df_maps d))" and num: "numbered d' = numbered d"
    by (simp add: d') (rule numbered_cong [OF slot], simp add: d')
  have "caches_ok d' (fst x)" if "x \<in> set sts" for x
    using new_vu.IH that by - (rule caches_ok_grow [of d "fst x" d'], auto simp: seq_inv_def slot len)
  then show ?case
    using new_vu.IH by (auto simp: seq_inv_def slots_apart_def slot num len caches_ok_def d'(2, 3) less_Suc_eq)
next
  case (branch sts d ds b g)
  then have "caches_ok d (fst (sts ! b))" by (simp add: seq_inv_def)
  then have "caches_ok d (fork_for_parallel (fst (sts ! b)))" by (simp add: caches_ok_def fork_for_parallel_def)
  with branch.IH show ?case by (auto simp: seq_inv_def)
next
  case (pull sts d ds b st g source rid now r st' g' d')
  let ?x = "\<lparr>dr_branch = b, dr_family = fs_plugin_sequences st, dr_source = source, dr_seq = draw_seq source st d, dr_result = r\<rparr>"
  have ok: "caches_ok d st" using pull.IH pull.hyps by (force simp: seq_inv_def dest: nth_mem)
  note eff = next_row_seq [OF pull.hyps(4) ok, of ds ?x]
  have eff': "slots_apart d'" "length (df_maps d') = length (df_maps d)" "caches_ok d' st'"
    "\<And>m s b. slot_of d m s = Some b \<Longrightarrow> slot_of d' m s = Some b" "\<And>m s. numbered d' (ds @ [?x]) m s"
    using eff pull.IH by (auto simp: seq_inv_def)
  have "caches_ok d' (fst x)" if "x \<in> set (sts[b := (st', g')])" for x
    using in_set_list_update [OF that] pull.IH eff' caches_ok_grow [of d _ d'] by (auto simp: seq_inv_def)
  moreover have "fs_plugin_sequences st < length (df_maps d)" using ok by (simp add: caches_ok_def)
  ultimately show ?case using eff' pull.IH by (auto simp: seq_inv_def)
next
  case (settle sts d ds b st g)
  then have "caches_ok d st" by (force simp: seq_inv_def dest: nth_mem)
  then have "caches_ok d (clear_pending st)" by (simp add: caches_ok_def clear_pending_def)
  with settle.IH show ?case by (auto simp: seq_inv_def dest!: in_set_list_update)
next
  case (report sts d ds b st g encode rid response st' d')
  have st': "fs_plugin_sequences st' = fs_plugin_sequences st" "fs_local_sequences st' = fs_local_sequences st"
    and d': "df_maps d' = df_maps d" "df_slots d' = df_slots d"
    using report.hyps(4) by (auto simp: report_result_def)
  have slot: "slot_of d' = slot_of d" by (simp add: slot_of_def d' fun_eq_iff)
  have ok: "caches_ok d' = caches_ok d" by (simp add: caches_ok_def slot d' fun_eq_iff)
  have "caches_ok d st" using report by (force simp: seq_inv_def dest: nth_mem)
  then have "caches_ok d st'" by (simp add: caches_ok_def st')
  with report.IH show ?case
    by (auto simp: seq_inv_def slots_apart_def slot ok d'(1) numbered_cong [OF slot d'(2)] dest!: in_set_list_update)
qed

section \<open>Rows held in memory\<close>

text \<open>The answer to the \<open>k\<close>-th call on a source that walks \<open>order\<close>.\<close>

definition handed :: "string \<Rightarrow> memory_feed \<Rightarrow> nat list \<Rightarrow> nat \<Rightarrow> (next_row_error, row) result" where
  "handed source feed order k =
     (if length (mf_rows feed) \<le> k \<and> mf_on_eof feed = StopAtEof then Inl (Exhausted source)
      else Inr (mf_rows feed ! (order ! (k mod length (mf_rows feed)))))"

definition feed_cursor_of :: "'p vu_feed_state \<Rightarrow> string \<Rightarrow> nat" where
  "feed_cursor_of st source = (case map_of (fs_cursors st) source of Some c \<Rightarrow> c | None \<Rightarrow> 0)"

definition order_for :: "memory_feed \<Rightarrow> 'p vu_feed_state \<Rightarrow> string \<Rightarrow> nat list" where
  "order_for feed st source =
     (if mf_pick feed = Shuffle then (case map_of (fs_shuffles st) source of Some order \<Rightarrow> order | None \<Rightarrow> [])
      else [0..<length (mf_rows feed)])"

definition shuffles_ok :: "memory_feed \<Rightarrow> 'p vu_feed_state \<Rightarrow> string \<Rightarrow> bool" where
  "shuffles_ok feed st source \<longleftrightarrow>
     (\<forall>order. map_of (fs_shuffles st) source = Some order \<longrightarrow> mset order = mset [0..<length (mf_rows feed)])"

lemma permutation_nth: "mset order = mset [0..<n] \<Longrightarrow> k < n \<Longrightarrow> length order = n \<and> order ! k < n"
  by (metis atLeast0LessThan atLeastLessThan_upt diff_zero length_upt lessThan_iff nth_mem size_mset set_mset_mset)

text \<open>Before the end of a feed with rows, a call returns a row; an order is drawn once and kept.\<close>

lemma shuffle_order_effect:
  assumes "rng_laws rg" and "shuffles_ok feed st source"
    and "shuffle_order rg source (length (mf_rows feed)) st g = (order, st', g')"
  shows "mset order = mset [0..<length (mf_rows feed)]" "map_of (fs_shuffles st') source = Some order"
    "\<And>s. s \<noteq> source \<Longrightarrow> map_of (fs_shuffles st') s = map_of (fs_shuffles st) s"
    "\<And>o'. map_of (fs_shuffles st) source = Some o' \<Longrightarrow> order = o'" "fs_cursors st' = fs_cursors st"
proof -
  have "mset (fst (rg_shuffle rg [0..<length (mf_rows feed)] g)) = mset [0..<length (mf_rows feed)]"
    using assms(1) by (simp only: rng_laws_def)
  then show "mset order = mset [0..<length (mf_rows feed)]" "map_of (fs_shuffles st') source = Some order"
    "\<And>s. s \<noteq> source \<Longrightarrow> map_of (fs_shuffles st') s = map_of (fs_shuffles st) s"
    "\<And>o'. map_of (fs_shuffles st) source = Some o' \<Longrightarrow> order = o'" "fs_cursors st' = fs_cursors st"
    using assms(2, 3) by (auto simp: shuffle_order_def shuffles_ok_def split: option.splits prod.splits)
qed

lemma next_memory_row_total:
  assumes "rng_laws rg" and "mf_rows feed \<noteq> []" and "shuffles_ok feed st source"
  shows "next_memory_row rg source feed st g \<noteq> None"
proof -
  obtain c feed1 st1 where t: "take_cursor source feed st = (c, feed1, st1)" by (cases "take_cursor source feed st")
  then have ok: "shuffles_ok feed st1 source"
    using assms(3) by (auto simp: take_cursor_def shuffles_ok_def Let_def split: data_mode.splits)
  obtain order st2 g2 where o: "shuffle_order rg source (length (mf_rows feed)) st1 g = (order, st2, g2)"
    by (cases "shuffle_order rg source (length (mf_rows feed)) st1 g")
  note perm = shuffle_order_effect(1) [OF assms(1) ok o]
  have "length order = length (mf_rows feed)" "order ! (c mod length (mf_rows feed)) < length (mf_rows feed)"
    using permutation_nth [OF perm, of "c mod length (mf_rows feed)"] assms(2) by simp_all
  moreover have "fst (rg_range rg (length (mf_rows feed)) g) < length (mf_rows feed)"
    using assms(1, 2) by (simp add: rng_laws_def)
  moreover have nle: "\<not> length (mf_rows feed) \<le> c mod length (mf_rows feed)"
    using assms(2) by (simp add: not_le)
  ultimately show ?thesis
    using assms(2) by (auto simp: next_memory_row_def t o row_at_def Let_def nle split: prod.splits)
qed

definition same_feed :: "memory_feed \<Rightarrow> memory_feed \<Rightarrow> bool" where
  "same_feed f f' \<longleftrightarrow> (\<exists>c. f' = f\<lparr>mf_shared_cursor := c\<rparr>)"

lemma next_memory_row_effect:
  assumes "rng_laws rg" and "mf_rows feed \<noteq> []" and "shuffles_ok feed st source"
    and "next_memory_row rg source feed st g = Some (r, feed', st', g')"
  shows "same_feed feed feed'" "shuffles_ok feed st' source"
    "\<And>s. s \<noteq> source \<Longrightarrow> map_of (fs_shuffles st') s = map_of (fs_shuffles st) s \<and> feed_cursor_of st' s = feed_cursor_of st s"
    "\<And>order. map_of (fs_shuffles st) source = Some order \<Longrightarrow> map_of (fs_shuffles st') source = Some order"
    "mf_pick feed \<noteq> RandomPick \<Longrightarrow> mf_mode feed = SharedMode \<Longrightarrow>
       mf_shared_cursor feed' = mf_shared_cursor feed + 1 \<and>
       (mf_pick feed = Sequential \<longrightarrow> r = handed source feed [0..<length (mf_rows feed)] (mf_shared_cursor feed))"
    "mf_pick feed \<noteq> RandomPick \<Longrightarrow> mf_mode feed = PerVu \<Longrightarrow>
       feed_cursor_of st' source = feed_cursor_of st source + 1 \<and> mf_shared_cursor feed' = mf_shared_cursor feed \<and>
       r = handed source feed (order_for feed st' source) (feed_cursor_of st source) \<and>
       (mf_pick feed = Shuffle \<longrightarrow> feed_cursor_of st source < length (mf_rows feed) \<longrightarrow> map_of (fs_shuffles st') source \<noteq> None)"
proof -
  obtain c feed1 st1 where t: "take_cursor source feed st = (c, feed1, st1)" by (cases "take_cursor source feed st")
  then have t': "same_feed feed feed1" "shuffles_ok feed st1 source" "fs_shuffles st1 = fs_shuffles st"
    "\<And>s. s \<noteq> source \<Longrightarrow> feed_cursor_of st1 s = feed_cursor_of st s"
    "mf_mode feed = SharedMode \<Longrightarrow> mf_shared_cursor feed1 = mf_shared_cursor feed + 1 \<and> c = mf_shared_cursor feed"
    "mf_mode feed = PerVu \<Longrightarrow> feed_cursor_of st1 source = feed_cursor_of st source + 1 \<and> c = feed_cursor_of st source \<and> feed1 = feed"
    using assms(3)
    by (auto simp: take_cursor_def shuffles_ok_def feed_cursor_of_def same_feed_def Let_def split: data_mode.splits option.splits
        intro: exI [of _ "mf_shared_cursor feed"])
  obtain order st2 g2 where o: "shuffle_order rg source (length (mf_rows feed)) st1 g = (order, st2, g2)"
    by (cases "shuffle_order rg source (length (mf_rows feed)) st1 g")
  note o' = shuffle_order_effect [OF assms(1) t'(2) o]
  have "feed_cursor_of st2 = feed_cursor_of st1" by (simp add: feed_cursor_of_def o'(5) fun_eq_iff)
  note facts = t' o' this
  have "mf_pick feed = RandomPick \<and> feed' = feed \<and> st' = st \<or>
    mf_pick feed \<noteq> RandomPick \<and> feed' = feed1 \<and> (st' = st1 \<and> (mf_pick feed = Shuffle \<longrightarrow> length (mf_rows feed) \<le> c) \<or> st' = st2 \<and> mf_pick feed = Shuffle) \<and>
    r = handed source feed (order_for feed st' source) c"
    using assms(2, 4) o'(2)
    by (cases "mf_pick feed")
      (auto simp: next_memory_row_def t o handed_def order_for_def row_at_def Let_def split: if_splits prod.splits)
  then show "same_feed feed feed'" "shuffles_ok feed st' source"
    "\<And>s. s \<noteq> source \<Longrightarrow> map_of (fs_shuffles st') s = map_of (fs_shuffles st) s \<and> feed_cursor_of st' s = feed_cursor_of st s"
    "\<And>order. map_of (fs_shuffles st) source = Some order \<Longrightarrow> map_of (fs_shuffles st') source = Some order"
    "mf_pick feed \<noteq> RandomPick \<Longrightarrow> mf_mode feed = SharedMode \<Longrightarrow>
       mf_shared_cursor feed' = mf_shared_cursor feed + 1 \<and>
       (mf_pick feed = Sequential \<longrightarrow> r = handed source feed [0..<length (mf_rows feed)] (mf_shared_cursor feed))"
    "mf_pick feed \<noteq> RandomPick \<Longrightarrow> mf_mode feed = PerVu \<Longrightarrow>
       feed_cursor_of st' source = feed_cursor_of st source + 1 \<and> mf_shared_cursor feed' = mf_shared_cursor feed \<and>
       r = handed source feed (order_for feed st' source) (feed_cursor_of st source) \<and>
       (mf_pick feed = Shuffle \<longrightarrow> feed_cursor_of st source < length (mf_rows feed) \<longrightarrow> map_of (fs_shuffles st') source \<noteq> None)"
    using facts assms(3)
    by (auto simp: shuffles_ok_def order_for_def same_feed_def intro: exI [of _ "mf_shared_cursor feed"])
qed

section \<open>The rows handed out\<close>

definition results_all :: "string \<Rightarrow> draw list \<Rightarrow> (next_row_error, row) result list" where
  "results_all source ds = map dr_result (filter (\<lambda>x. dr_source x = source) ds)"

definition results_for :: "nat \<Rightarrow> string \<Rightarrow> draw list \<Rightarrow> (next_row_error, row) result list" where
  "results_for b source ds = map dr_result (filter (\<lambda>x. dr_branch x = b \<and> dr_source x = source) ds)"

lemma results_snoc:
  "results_all source (ds @ [x]) = results_all source ds @ (if dr_source x = source then [dr_result x] else [])"
  "results_for b source (ds @ [x]) = results_for b source ds @ (if dr_branch x = b \<and> dr_source x = source then [dr_result x] else [])"
  by (simp_all add: results_all_def results_for_def)

lemma results_for_fresh: "\<forall>x \<in> set ds. dr_branch x < n \<Longrightarrow> results_for n source ds = []"
  by (auto simp: results_for_def filter_empty_conv)

definition shared_ok :: "string \<Rightarrow> memory_feed \<Rightarrow> draw list \<Rightarrow> bool" where
  "shared_ok source feed ds \<longleftrightarrow>
     (mf_mode feed = SharedMode \<and> mf_pick feed \<noteq> RandomPick \<longrightarrow>
      length (results_all source ds) = mf_shared_cursor feed \<and>
      (mf_pick feed = Sequential \<longrightarrow>
       results_all source ds = map (handed source feed [0..<length (mf_rows feed)]) [0..<mf_shared_cursor feed]))"

definition walk_ok :: "string \<Rightarrow> memory_feed \<Rightarrow> 'p vu_feed_state \<Rightarrow> nat \<Rightarrow> draw list \<Rightarrow> bool" where
  "walk_ok source feed st b ds \<longleftrightarrow> shuffles_ok feed st source \<and>
     (mf_mode feed = PerVu \<and> mf_pick feed \<noteq> RandomPick \<longrightarrow>
      results_for b source ds = map (handed source feed (order_for feed st source)) [0..<feed_cursor_of st source] \<and>
      (mf_pick feed = Shuffle \<and> 0 < feed_cursor_of st source \<longrightarrow> map_of (fs_shuffles st) source \<noteq> None))"

definition row_inv :: "('p, 'g, 'w) feed_system \<Rightarrow> bool" where
  "row_inv S \<longleftrightarrow> (case S of (sts, d, ds) \<Rightarrow>
     (\<forall>x \<in> set ds. dr_branch x < length sts) \<and>
     (\<forall>source feed. map_of (df_feeds d) source = Some (Memory feed) \<longrightarrow>
        mf_rows feed \<noteq> [] \<and> shared_ok source feed ds \<and> (\<forall>b < length sts. walk_ok source feed (fst (sts ! b)) b ds)))"

lemma handed_same: "same_feed f f' \<Longrightarrow> handed source f' = handed source f"
  by (auto simp: same_feed_def handed_def fun_eq_iff)

lemma order_for_same: "same_feed f f' \<Longrightarrow> order_for f' = order_for f"
  by (auto simp: same_feed_def order_for_def fun_eq_iff)

lemma same_feed_simps:
  "same_feed f f' \<Longrightarrow> mf_rows f' = mf_rows f \<and> mf_mode f' = mf_mode f \<and> mf_pick f' = mf_pick f \<and> mf_on_eof f' = mf_on_eof f"
  by (auto simp: same_feed_def)

text \<open>A call on one source leaves the walks of every other source and branch as they are.\<close>

lemma walk_ok_other:
  assumes "walk_ok s feed st b ds"
    and "map_of (fs_shuffles st') s = map_of (fs_shuffles st) s" and "feed_cursor_of st' s = feed_cursor_of st s"
    and "same_feed feed feed'" and "results_for b s ds' = results_for b s ds"
  shows "walk_ok s feed' st' b ds'"
  using assms by (simp add: walk_ok_def shuffles_ok_def order_for_def handed_same same_feed_simps cong: if_cong option.case_cong)

lemma same_feed_refl [simp]: "same_feed f f"
  by (auto simp: same_feed_def intro: exI [of _ "mf_shared_cursor f"])

text \<open>A call by branch \<open>b\<close> on a source in memory.\<close>

lemma memory_call:
  assumes laws: "rng_laws rg" and ne: "mf_rows feed \<noteq> []" and w: "walk_ok source feed st b ds" and sh: "shared_ok source feed ds"
    and n: "next_memory_row rg source feed st g = Some (r, feed', st', g')"
    and x: "dr_branch x = b" "dr_source x = source" "dr_result x = r"
  shows "walk_ok source feed' st' b (ds @ [x]) \<and> shared_ok source feed' (ds @ [x])"
proof -
  have ok: "shuffles_ok feed st source" using w by (simp add: walk_ok_def)
  note eff = next_memory_row_effect [OF laws ne ok n]
  have shared: "shared_ok source feed' (ds @ [x])"
    using sh eff(1, 5) x by (auto simp: shared_ok_def results_snoc handed_same same_feed_simps)
  have "results_for b source (ds @ [x]) = map (handed source feed (order_for feed st' source)) [0..<feed_cursor_of st' source] \<and>
      (mf_pick feed = Shuffle \<and> 0 < feed_cursor_of st' source \<longrightarrow> map_of (fs_shuffles st') source \<noteq> None)"
    if pv: "mf_mode feed = PerVu" "mf_pick feed \<noteq> RandomPick"
  proof -
    note eff6 = eff(6) [OF pv(2, 1)]
    have old: "results_for b source ds = map (handed source feed (order_for feed st source)) [0..<feed_cursor_of st source]"
      and drawn: "mf_pick feed = Shuffle \<Longrightarrow> 0 < feed_cursor_of st source \<Longrightarrow> map_of (fs_shuffles st) source \<noteq> None"
      using w pv by (simp_all add: walk_ok_def)
    have "order_for feed st' source = order_for feed st source \<or> feed_cursor_of st source = 0"
      using drawn eff(4) by (auto simp: order_for_def)
    moreover have "mf_pick feed = Shuffle \<Longrightarrow> map_of (fs_shuffles st') source \<noteq> None"
      using eff6 drawn eff(4) ne by (cases "feed_cursor_of st source = 0") auto
    ultimately show ?thesis using eff6 old x by (auto simp: results_snoc)
  qed
  then have "walk_ok source feed' st' b (ds @ [x])"
    using eff(1, 2) by (auto simp: walk_ok_def shuffles_ok_def handed_same order_for_same same_feed_simps)
  with shared show ?thesis by simp
qed

lemma shared_ok_other: "shared_ok s feed ds \<Longrightarrow> dr_source x \<noteq> s \<Longrightarrow> shared_ok s feed (ds @ [x])"
  by (simp add: shared_ok_def results_snoc)

lemma load_feed_rows: "load_feed po fo ini name src = Some (Inr (Memory feed)) \<Longrightarrow> mf_rows feed \<noteq> [] \<and> mf_shared_cursor feed = 0"
  by (cases src) (auto simp: make_feed_def split: sum.splits if_splits prod.splits json.splits)

lemma load_feeds_rows:
  "load_feeds po fo ini srcs acc = Some (Inr feeds) \<Longrightarrow> map_of feeds s = Some (Memory feed) \<Longrightarrow>
   (\<And>s feed. map_of acc s = Some (Memory feed) \<Longrightarrow> mf_rows feed \<noteq> [] \<and> mf_shared_cursor feed = 0) \<Longrightarrow>
   mf_rows feed \<noteq> [] \<and> mf_shared_cursor feed = 0"
proof (induction srcs arbitrary: acc)
  case (Cons src srcs)
  obtain n sc where src: "src = (n, sc)" by (cases src)
  obtain f where f: "load_feed po fo ini n sc = Some (Inr f)" and rest: "load_feeds po fo ini srcs (AList.update n f acc) = Some (Inr feeds)"
    using Cons.prems(1) by (auto simp: src split: option.splits sum.splits)
  show ?case
    by (rule Cons.IH [OF rest Cons.prems(2)]) (auto split: if_splits dest: load_feed_rows Cons.prems(3) simp: f load_feed_rows [OF f [THEN trans]])
qed auto

lemma walk_ok_fresh: "fs_cursors st = [] \<Longrightarrow> fs_shuffles st = [] \<Longrightarrow> results_for b s ds = [] \<Longrightarrow> walk_ok s feed st b ds"
  by (simp add: walk_ok_def shuffles_ok_def feed_cursor_of_def)

lemma walk_ok_state:
  "walk_ok s feed st b ds \<Longrightarrow> fs_cursors st' = fs_cursors st \<Longrightarrow> fs_shuffles st' = fs_shuffles st \<Longrightarrow> walk_ok s feed st' b ds"
  by (erule walk_ok_other) (simp_all add: feed_cursor_of_def)

lemma row_invI:
  assumes "\<And>x. x \<in> set ds \<Longrightarrow> dr_branch x < length sts"
    and "\<And>s feed. map_of (df_feeds d) s = Some (Memory feed) \<Longrightarrow> mf_rows feed \<noteq> [] \<and> shared_ok s feed ds"
    and "\<And>s feed i. map_of (df_feeds d) s = Some (Memory feed) \<Longrightarrow> i < length sts \<Longrightarrow> walk_ok s feed (fst (sts ! i)) i ds"
  shows "row_inv (sts, d, ds)"
  using assms by (simp add: row_inv_def)

lemma row_invD:
  assumes "row_inv (sts, d, ds)"
  shows "x \<in> set ds \<Longrightarrow> dr_branch x < length sts"
    "map_of (df_feeds d) s = Some (Memory feed) \<Longrightarrow> mf_rows feed \<noteq> []"
    "map_of (df_feeds d) s = Some (Memory feed) \<Longrightarrow> shared_ok s feed ds"
    "map_of (df_feeds d) s = Some (Memory feed) \<Longrightarrow> i < length sts \<Longrightarrow> walk_ok s feed (fst (sts ! i)) i ds"
  using assms by (simp_all add: row_inv_def)

lemma row_inv_grow:
  assumes "row_inv (sts, d, ds)" and "df_feeds d' = df_feeds d" and "fs_cursors st = []" and "fs_shuffles st = []"
  shows "row_inv (sts @ [(st, g)], d', ds)"
proof (rule row_invI)
  fix s feed i assume f: "map_of (df_feeds d') s = Some (Memory feed)" and i: "i < length (sts @ [(st, g)])"
  have "results_for (length sts) s ds = []" using row_invD(1) [OF assms(1)] by (intro results_for_fresh) auto
  with f i assms row_invD(4) [OF assms(1)] show "walk_ok s feed (fst ((sts @ [(st, g)]) ! i)) i ds"
    by (cases "i = length sts") (auto simp: nth_append walk_ok_fresh)
qed (use assms row_invD [OF assms(1)] in \<open>auto simp: less_Suc_eq\<close>)

lemma row_inv_same:
  assumes "row_inv (sts, d, ds)" and "df_feeds d' = df_feeds d" and "b < length sts" and "sts ! b = (st, g)"
    and "fs_cursors st' = fs_cursors st" and "fs_shuffles st' = fs_shuffles st"
  shows "row_inv (sts[b := (st', g)], d', ds)"
proof (rule row_invI)
  fix s feed i assume f: "map_of (df_feeds d') s = Some (Memory feed)" and i: "i < length (sts[b := (st', g)])"
  with assms row_invD(4) [OF assms(1), of s feed i] show "walk_ok s feed (fst (sts[b := (st', g)] ! i)) i ds"
    by (cases "i = b") (simp_all add: walk_ok_state)
qed (use assms row_invD [OF assms(1)] in auto)

text \<open>A call on a source seen from another source, and from another branch.\<close>

lemma walk_ok_log: "walk_ok s feed st b ds \<Longrightarrow> results_for b s ds' = results_for b s ds \<Longrightarrow> walk_ok s feed st b ds'"
  by (erule walk_ok_other) simp_all

lemma row_inv_pull:
  assumes laws: "rng_laws rg" and inv: "row_inv (sts, d, ds)" and b: "b < length sts" "sts ! b = (st, g)"
    and mf: "map_of (df_feeds d) source = Some (Memory mf)"
    and nm: "next_memory_row rg source mf st g = Some (r, mf', st', g')"
    and d': "df_feeds d' = AList.update source (Memory mf') (df_feeds d)"
    and x: "dr_branch x = b" "dr_source x = source" "dr_result x = r"
  shows "row_inv (sts[b := (st', g')], d', ds @ [x])"
proof (rule row_invI)
  have ne: "mf_rows mf \<noteq> []" and w: "walk_ok source mf st b ds" and sh: "shared_ok source mf ds"
    using row_invD(2, 3) [OF inv mf] row_invD(4) [OF inv mf b(1)] b(2) by auto
  have ok: "shuffles_ok mf st source" using w by (simp add: walk_ok_def)
  note call = memory_call [OF laws ne w sh nm x] and eff = next_memory_row_effect [OF laws ne ok nm]
  show "mf_rows feed \<noteq> [] \<and> shared_ok s feed (ds @ [x])" if "map_of (df_feeds d') s = Some (Memory feed)" for s feed
    using that call ne same_feed_simps [OF eff(1)] row_invD(2, 3) [OF inv, of s feed] x
    by (auto simp: d' shared_ok_other split: if_splits)
  fix s feed i assume f: "map_of (df_feeds d') s = Some (Memory feed)" and "i < length (sts[b := (st', g')])"
  then have i: "i < length sts" by simp
  show "walk_ok s feed (fst (sts[b := (st', g')] ! i)) i (ds @ [x])"
  proof (cases "s = source")
    case True
    then have "feed = mf'" using f by (simp add: d')
    moreover have "walk_ok source mf' (fst (sts ! i)) i (ds @ [x])" if "i \<noteq> b"
      by (rule walk_ok_other [OF row_invD(4) [OF inv mf i]]) (use eff(1) that x in \<open>simp_all add: results_snoc\<close>)
    ultimately show ?thesis using call True b i by (cases "i = b") simp_all
  next
    case False
    then have f0: "map_of (df_feeds d) s = Some (Memory feed)" using f by (simp add: d')
    have "walk_ok s feed (fst (sts ! i)) i (ds @ [x])"
      by (rule walk_ok_log [OF row_invD(4) [OF inv f0 i]]) (use False x in \<open>simp add: results_snoc\<close>)
    then show ?thesis
      using eff(3) [OF False] b i by (cases "i = b") (auto intro: walk_ok_other)
  qed
qed (use row_invD(1) [OF inv] b x in auto)

lemma row_inv_pull_other:
  assumes inv: "row_inv (sts, d, ds)" and b: "b < length sts" "sts ! b = (st, g)"
    and "\<And>mf. map_of (df_feeds d) source \<noteq> Some (Memory mf)"
    and same: "df_feeds d' = df_feeds d" "fs_cursors st' = fs_cursors st" "fs_shuffles st' = fs_shuffles st"
    and x: "dr_branch x = b" "dr_source x = source"
  shows "row_inv (sts[b := (st', g')], d', ds @ [x])"
proof (rule row_invI)
  fix s feed i assume f: "map_of (df_feeds d') s = Some (Memory feed)" and "i < length (sts[b := (st', g')])"
  then have i: "i < length sts" and s: "s \<noteq> source" and f0: "map_of (df_feeds d) s = Some (Memory feed)"
    using assms(4) same(1) by auto
  have "walk_ok s feed (fst (sts ! i)) i (ds @ [x])"
    by (rule walk_ok_log [OF row_invD(4) [OF inv f0 i]]) (use s x in \<open>simp add: results_snoc\<close>)
  then show "walk_ok s feed (fst (sts[b := (st', g')] ! i)) i (ds @ [x])"
    using b i same by (cases "i = b") (auto intro: walk_ok_state)
next
  fix s feed assume "map_of (df_feeds d') s = Some (Memory feed)"
  then show "mf_rows feed \<noteq> [] \<and> shared_ok s feed (ds @ [x])"
    using row_invD(2, 3) [OF inv, of s feed] same(1) assms(4) x by (auto intro!: shared_ok_other)
qed (use row_invD(1) [OF inv] b x in auto)

lemma next_plugin_row_keeps:
  assumes "next_row po rg source rid now st g d = Some (r, st', g', d')" and "map_of (df_feeds d) source = Some (PluginFeed p bl n)"
  shows "df_feeds d' = df_feeds d \<and> fs_cursors st' = fs_cursors st \<and> fs_shuffles st' = fs_shuffles st"
proof -
  obtain slot st1 d1 where f: "find_slot source st d = (slot, st1, d1)" by (cases "find_slot source st d")
  then have "df_feeds d1 = df_feeds d \<and> fs_cursors st1 = fs_cursors st \<and> fs_shuffles st1 = fs_shuffles st"
    by (auto simp: find_slot_def Let_def split: option.splits)
  with assms f show ?thesis
    by (auto simp: next_row_def next_plugin_row_def next_plugin_seq_def Let_def
        split: prod.splits sum.splits plugin_row_result.splits option.splits)
qed

lemma feed_reach_row_inv:
  assumes "rng_laws rg" and "feed_reach po rg fo S"
  shows "row_inv S"
  using assms(2)
proof (induction rule: feed_reach.induct)
  case (loaded sources plugins placement w d)
  then obtain ini where "load_feeds po fo ini sources [] = Some (Inr (df_feeds d))"
    by (auto simp: load_def split: sum.splits option.splits)
  then have "mf_rows feed \<noteq> [] \<and> mf_shared_cursor feed = 0" if "map_of (df_feeds d) s = Some (Memory feed)" for s feed
    using load_feeds_rows that by fastforce
  then show ?case by (auto simp: row_inv_def shared_ok_def results_all_def)
next
  case (new_vu sts d ds st d' g)
  then show ?case by (auto intro!: row_inv_grow simp: feed_state_new_def)
next
  case (branch sts d ds b g)
  then show ?case by (intro row_inv_grow) (auto simp: fork_for_parallel_def)
next
  case (pull sts d ds b st g source rid now r st' g' d')
  show ?case
  proof (cases "\<exists>mf. map_of (df_feeds d) source = Some (Memory mf)")
    case True
    then obtain mf where mf: "map_of (df_feeds d) source = Some (Memory mf)" by blast
    with pull.hyps(4) obtain mf' where nm: "next_memory_row rg source mf st g = Some (r, mf', st', g')"
      and d': "df_feeds d' = AList.update source (Memory mf') (df_feeds d)"
      by (auto simp: next_row_def)
    show ?thesis by (rule row_inv_pull [OF assms(1) pull.IH pull.hyps(2, 3) mf nm d']) simp_all
  next
    case False
    then have "df_feeds d' = df_feeds d \<and> fs_cursors st' = fs_cursors st \<and> fs_shuffles st' = fs_shuffles st"
      using next_plugin_row_keeps [OF pull.hyps(4)] pull.hyps(4)
      by (cases "map_of (df_feeds d) source") (auto simp: next_row_def split: feed.splits)
    with False show ?thesis by (intro row_inv_pull_other [OF pull.IH pull.hyps(2, 3), of source]) auto
  qed
next
  case (settle sts d ds b st g)
  then show ?case by (auto intro!: row_inv_same [OF settle.IH _ settle.hyps(2, 3)] simp: clear_pending_def)
next
  case (report sts d ds b st g encode rid response st' d')
  then show ?case by (auto intro!: row_inv_same [OF report.IH _ report.hyps(2, 3)] simp: report_result_def)
qed

section \<open>What the VUs are promised\<close>

text \<open>
  C17: however VUs, branches and other sources interleave, the calls on a shared sequential source are answered with
  its rows in file order, one after another across all VUs: the \<open>k\<close>-th call gets row \<open>k\<close> modulo the number of rows,
  or with \<open>on_eof: stop\<close> is told the source is exhausted from the first call past the end, so that there every row is
  handed out exactly once.
\<close>

theorem shared_rows_in_order:
  assumes "rng_laws rg" and "feed_reach po rg fo (sts, d, ds)"
    and "map_of (df_feeds d) source = Some (Memory feed)" and "mf_mode feed = SharedMode" and "mf_pick feed = Sequential"
  shows "results_all source ds =
    map (\<lambda>k. if length (mf_rows feed) \<le> k \<and> mf_on_eof feed = StopAtEof then Inl (Exhausted source)
             else Inr (mf_rows feed ! (k mod length (mf_rows feed)))) [0..<length (results_all source ds)]"
proof -
  have inv: "row_inv (sts, d, ds)" by (rule feed_reach_row_inv [OF assms(1, 2)])
  have "results_all source ds = map (handed source feed [0..<length (mf_rows feed)]) [0..<length (results_all source ds)]"
    using row_invD(3) [OF inv assms(3)] assms(4, 5) by (simp add: shared_ok_def)
  moreover have "handed source feed [0..<length (mf_rows feed)] =
    (\<lambda>k. if length (mf_rows feed) \<le> k \<and> mf_on_eof feed = StopAtEof then Inl (Exhausted source)
         else Inr (mf_rows feed ! (k mod length (mf_rows feed))))"
    using row_invD(2) [OF inv assms(3)] by (simp add: handed_def fun_eq_iff)
  ultimately show ?thesis by simp
qed



text \<open>
  Fetching a row never panics. On feeds that \<open>DataFeeds::load\<close> accepted, a call of \<open>next_row\<close> by any VU or branch,
  in any reachable state, for any source name, returns a row or an error: no empty range, no division by zero and
  no index outside the rows or the drawn order.
\<close>

theorem next_row_never_panics:
  assumes "rng_laws rg" and "feed_reach po rg fo (sts, d, ds)" and "b < length sts" and "sts ! b = (st, g)"
  shows "next_row po rg source rid now st g d \<noteq> None"
proof -
  have inv: "row_inv (sts, d, ds)" by (rule feed_reach_row_inv [OF assms(1, 2)])
  have "next_memory_row rg source feed st g \<noteq> None" if f: "map_of (df_feeds d) source = Some (Memory feed)" for feed
  proof -
    have "shuffles_ok feed st source" using row_invD(4) [OF inv f assms(3)] assms(4) by (simp add: walk_ok_def)
    then show ?thesis by (rule next_memory_row_total [OF assms(1) row_invD(2) [OF inv f]])
  qed
  then show ?thesis by (auto simp: next_row_def split: option.splits feed.splits prod.splits)
qed

section \<open>An example run\<close>

text \<open>Two VUs, a branch, and three sources: shared rows, per-VU shuffled rows and a plugin.\<close>

definition ex_po :: "(unit, unit) plugin_ops" where
  "ex_po = \<lparr>po_set_placement = (\<lambda>_ p. p), po_init = (\<lambda>_ p. Inr p), po_next_row = (\<lambda>_ _ w. (Inr (PluginRow []), w)),
            po_wants_results = (\<lambda>_. True), po_on_result = (\<lambda>_ _ w. w)\<rparr>"

definition ex_rg :: "unit rng_ops" where
  "ex_rg = \<lparr>rg_range = (\<lambda>n g. (n - 1, g)), rg_shuffle = (\<lambda>xs g. (rev xs, g))\<rparr>"

definition ex_fo :: file_ops where
  "ex_fo = \<lparr>fo_csv = (\<lambda>_ _ _. Inl []), fo_json = (\<lambda>_. Inl []), fo_show_json = (\<lambda>_. [])\<rparr>"

definition ex_feeds :: "(unit, unit) data_feeds" where
  "ex_feeds =
     \<lparr>df_feeds = [(''s'', make_feed [[(''a'', ''1'')], [(''a'', ''2'')]] SharedMode StopAtEof Sequential),
                  (''v'', make_feed [[(''a'', ''1'')], [(''a'', ''2'')]] PerVu Recycle Shuffle),
                  (''p'', PluginFeed () False (Some ''p''))],
      df_has_on_demand = True, df_reports_results = True, df_maps = [], df_slots = [], df_plugins = ()\<rparr>"

datatype feed_op = OpNew | OpFork nat | OpPull nat string

fun feed_exec :: "feed_op list \<Rightarrow> (unit, unit, unit) feed_system \<Rightarrow> (unit, unit, unit) feed_system option" where
  "feed_exec [] S = Some S"
| "feed_exec (OpNew # ops) (sts, d, ds) =
     (let (st, d') = feed_state_new d in feed_exec ops (sts @ [(st, ())], d', ds))"
| "feed_exec (OpFork b # ops) (sts, d, ds) =
     (if b < length sts then feed_exec ops (sts @ [(fork_for_parallel (fst (sts ! b)), ())], d, ds) else None)"
| "feed_exec (OpPull b source # ops) (sts, d, ds) =
     (if b < length sts then
        (case next_row ex_po ex_rg source \<lparr>ri_vu = 1, ri_iteration = 0, ri_scenario = [], ri_request = None\<rparr> 0 (fst (sts ! b)) () d of
           None \<Rightarrow> None
         | Some (r, st', g', d') \<Rightarrow>
             feed_exec ops (sts[b := (st', g')], d',
               ds @ [\<lparr>dr_branch = b, dr_family = fs_plugin_sequences (fst (sts ! b)), dr_source = source,
                      dr_seq = draw_seq source (fst (sts ! b)) d, dr_result = r\<rparr>]))
      else None)"

lemma feed_exec_reach: "feed_exec ops S = Some S' \<Longrightarrow> feed_reach ex_po ex_rg ex_fo S \<Longrightarrow> feed_reach ex_po ex_rg ex_fo S'"
proof (induction ops S rule: feed_exec.induct)
  case (4 b source ops sts d ds)
  let ?rid = "\<lparr>ri_vu = 1, ri_iteration = 0, ri_scenario = [], ri_request = None\<rparr>"
  obtain st g where b: "sts ! b = (st, g)" by (cases "sts ! b")
  obtain r st' g' d' where n: "b < length sts" "next_row ex_po ex_rg source ?rid 0 st g d = Some (r, st', g', d')"
    using 4(2) b by (auto split: if_splits option.splits)
  with 4(2) b have "feed_exec ops (sts[b := (st', g')], d', ds @ [\<lparr>dr_branch = b, dr_family = fs_plugin_sequences st,
      dr_source = source, dr_seq = draw_seq source st d, dr_result = r\<rparr>]) = Some S'" by simp
  with 4(1) n b feed_reach.pull [OF 4(3) n(1) b n(2)] show ?case by simp
qed (auto simp: Let_def split: if_splits prod.splits intro: feed_reach.new_vu feed_reach.branch)

lemma ex_rg_laws: "rng_laws ex_rg"
  by (simp add: rng_laws_def ex_rg_def)

lemma ex_start: "feed_reach ex_po ex_rg ex_fo ([], ex_feeds, [])"
proof (rule feed_reach.loaded)
  show "load ex_po ex_fo
    [(''s'', InlineSource [[(''a'', JString ''1'')], [(''a'', JString ''2'')]] SharedMode StopAtEof Sequential),
     (''v'', InlineSource [[(''a'', JString ''1'')], [(''a'', JString ''2'')]] PerVu Recycle Shuffle),
     (''p'', PluginSource ''gen'' JNull False)] [(''gen'', ())] (1, 0) () = Some (Inr ex_feeds)"
    by (simp add: load_def ex_po_def ex_fo_def ex_feeds_def object_row_def json_to_string_def make_feed_def)
qed

definition ex_ops :: "feed_op list" where
  "ex_ops = [OpNew, OpFork 0, OpPull 0 ''s'', OpPull 1 ''s'', OpPull 0 ''s'', OpPull 1 ''v'', OpPull 0 ''p'', OpPull 1 ''p'', OpPull 1 ''v'']"

definition ex_end :: "(unit, unit, unit) feed_system" where
  "ex_end = the (feed_exec ex_ops ([], ex_feeds, []))"

lemma ex_end_reach: "feed_reach ex_po ex_rg ex_fo ex_end"
proof -
  have "feed_exec ex_ops ([], ex_feeds, []) \<noteq> None" by code_simp
  then show ?thesis using feed_exec_reach ex_start by (fastforce simp: ex_end_def)
qed

text \<open>The three walks of the example, each an instance of its theorem.\<close>

theorem shared_rows_in_order_witness:
  "results_all ''s'' (snd (snd ex_end)) = [Inr [(''a'', ''1'')], Inr [(''a'', ''2'')], Inl (Exhausted ''s'')]"
proof -
  obtain feed where f: "map_of (df_feeds (fst (snd ex_end))) ''s'' = Some (Memory feed)" "mf_mode feed = SharedMode"
    "mf_pick feed = Sequential" "mf_rows feed = [[(''a'', ''1'')], [(''a'', ''2'')]]" "mf_on_eof feed = StopAtEof"
    "length (results_all ''s'' (snd (snd ex_end))) = 3"
  proof -
    have "(case map_of (df_feeds (fst (snd ex_end))) ''s'' of
        Some (Memory feed) \<Rightarrow> mf_mode feed = SharedMode \<and> mf_pick feed = Sequential \<and>
          mf_rows feed = [[(''a'', ''1'')], [(''a'', ''2'')]] \<and> mf_on_eof feed = StopAtEof | _ \<Rightarrow> False)" by code_simp
    moreover have "length (results_all ''s'' (snd (snd ex_end))) = 3" by code_simp
    ultimately show ?thesis using that by (auto split: option.splits feed.splits)
  qed
  have "feed_reach ex_po ex_rg ex_fo (fst ex_end, fst (snd ex_end), snd (snd ex_end))" using ex_end_reach by simp
  from shared_rows_in_order [OF ex_rg_laws this f(1-3)] show ?thesis by (simp add: f(4-6) upt_3)
qed



theorem next_row_never_panics_witness:
  "next_row ex_po ex_rg ''v'' \<lparr>ri_vu = 1, ri_iteration = 0, ri_scenario = [], ri_request = None\<rparr> 0 (fst (fst ex_end ! 1)) ()
     (fst (snd ex_end)) \<noteq> None"
proof -
  have reach: "feed_reach ex_po ex_rg ex_fo (fst ex_end, fst (snd ex_end), snd (snd ex_end))" using ex_end_reach by simp
  have "1 < length (fst ex_end)" by code_simp
  show ?thesis
    by (rule next_row_never_panics [OF ex_rg_laws reach \<open>1 < length (fst ex_end)\<close>, of _ "()"]) (simp add: prod_eq_iff)
qed

end
