(* ===== verification/Pacing.thy ===== *)
theory Pacing
  imports Durations
begin

text \<open>
  Think times and pacing (\<open>loadr-core/src/pacing.rs\<close>), injected latency and the request throttle
  (\<open>loadr-core/src/flow.rs\<close>). The VU's random generator is an argument: a uniform sample of a range and a normal
  sample, \<open>None\<close> when the distribution is rejected.
\<close>

section \<open>Sampled pauses\<close>

datatype think_time_spec =
    ConstantThink duration
  | UniformThink duration duration
  | GaussianThink duration duration

record 'g float_rng =
  fr_uniform :: "f64 \<Rightarrow> f64 \<Rightarrow> 'g \<Rightarrow> f64 \<times> 'g"
  fr_normal :: "f64 \<Rightarrow> f64 \<Rightarrow> 'g \<Rightarrow> f64 option \<times> 'g"

definition sample_think_time :: "'g float_rng \<Rightarrow> think_time_spec \<Rightarrow> 'g \<Rightarrow> duration panicky \<times> 'g" where
  "sample_think_time fr spec g =
     (case spec of
        ConstantThink d \<Rightarrow> (Some d, g)
      | UniformThink mn mx \<Rightarrow>
          let lo = as_secs_f64 mn; hi = as_secs_f64 mx in
          if hi \<le> lo then (Some mn, g)
          else let (x, g') = fr_uniform fr lo hi g in (from_secs_f64 x, g')
      | GaussianThink mean std_dev \<Rightarrow>
          let (s, g') = fr_normal fr (as_secs_f64 mean) (as_secs_f64 std_dev) g;
              sampled = (case s of Some x \<Rightarrow> x | None \<Rightarrow> as_secs_f64 mean)
          in (from_secs_f64 (f64_max sampled 0), g'))"

datatype fault_distribution = FaultUniform | FaultGaussian

record latency_fault =
  lf_jitter :: duration
  lf_distribution :: fault_distribution

definition sample_fault_jitter :: "'g float_rng \<Rightarrow> latency_fault \<Rightarrow> 'g \<Rightarrow> duration panicky \<times> 'g" where
  "sample_fault_jitter fr latency g =
     (let jitter = as_secs_f64 (lf_jitter latency) in
      if jitter \<le> 0 then (Some 0, g)
      else
        (case lf_distribution latency of
           FaultUniform \<Rightarrow> let (x, g') = fr_uniform fr 0 jitter g in (from_secs_f64 x, g')
         | FaultGaussian \<Rightarrow>
             let (s, g') = fr_normal fr 0 jitter g; sampled = (case s of Some x \<Rightarrow> x | None \<Rightarrow> 0)
             in (from_secs_f64 (f64_max sampled 0), g')))"

definition fault_drop_decision :: "'g float_rng \<Rightarrow> f64 \<Rightarrow> 'g \<Rightarrow> bool \<times> 'g" where
  "fault_drop_decision fr rate g =
     (if 0 < rate then let (x, g') = fr_uniform fr 0 1 g in (x < rate, g') else (False, g))"

section \<open>Pacing\<close>

record pacer =
  pa_interval :: f64
  pa_started :: nat
  pa_iterations :: nat

definition pacer_new :: "nat \<Rightarrow> f64 \<Rightarrow> pacer" where
  "pacer_new now rate = \<lparr>pa_interval = 1 / f64_max rate (rnd (1 / 1000000000)), pa_started = now, pa_iterations = 0\<rparr>"

definition next_delay :: "nat \<Rightarrow> pacer \<Rightarrow> duration panicky \<times> pacer" where
  "next_delay now p =
     (let due = pa_interval p * f64_of_nat (pa_iterations p);
          elapsed = as_secs_f64 (now - pa_started p);
          p' = p\<lparr>pa_iterations := pa_iterations p + 1\<rparr>
      in if elapsed < due then (from_secs_f64 (due - elapsed), p') else (Some 0, p'))"

section \<open>The throttle\<close>

text \<open>The interval between slots; \<open>reserve\<close> runs under the lock of the slot.\<close>

definition throttle_interval :: "f64 \<Rightarrow> duration panicky" where
  "throttle_interval rps = from_secs_f64 (1 / f64_max rps (rnd (1 / 1000000000)))"

definition reserve :: "duration \<Rightarrow> nat \<Rightarrow> nat option \<Rightarrow> duration \<times> nat option" where
  "reserve interval now next_slot =
     (let slot = (case next_slot of Some t \<Rightarrow> if now < t then t else now | None \<Rightarrow> now)
      in (slot - now, Some (slot + interval)))"

text \<open>The slots granted to a sequence of reservations made at the given times.\<close>

fun granted :: "duration \<Rightarrow> nat option \<Rightarrow> nat list \<Rightarrow> nat list" where
  "granted interval s [] = []"
| "granted interval s (now # ts) = (let (wait, s') = reserve interval now s in (now + wait) # granted interval s' ts)"

lemma reserve_slot:
  "reserve interval now s = (wait, s') \<Longrightarrow>
   s' = Some (now + wait + interval) \<and> now \<le> now + wait \<and> (\<forall>t. s = Some t \<longrightarrow> t \<le> now + wait)"
  by (auto simp: reserve_def Let_def split: option.splits if_splits)

lemma granted_after: "x \<in> set (granted interval (Some t) ts) \<Longrightarrow> t \<le> x"
proof (induction ts arbitrary: t)
  case (Cons now ts)
  obtain wait s' where r: "reserve interval now (Some t) = (wait, s')" by (cases "reserve interval now (Some t)")
  with reserve_slot [OF r] Cons show ?case by (auto dest: Cons.IH)
qed simp

lemma granted_spaced: "i < j \<Longrightarrow> j < length ts \<Longrightarrow> granted interval s ts ! i + (j - i) * interval \<le> granted interval s ts ! j"
proof (induction ts arbitrary: s i j)
  case (Cons now ts)
  obtain wait s' where r: "reserve interval now s = (wait, s')" by (cases "reserve interval now s")
  have s': "s' = Some (now + wait + interval)" using reserve_slot [OF r] by simp
  have len: "length (granted interval s ts) = length ts" for s
    by (induction ts arbitrary: s) (auto simp: Let_def split: prod.splits)
  obtain k where j: "j = Suc k" "k < length ts" using Cons.prems by (cases j) auto
  have first: "now + wait + interval \<le> granted interval s' ts ! 0" if "ts \<noteq> []"
    using granted_after [of "granted interval s' ts ! 0" interval "now + wait + interval" ts] that len [of s']
    by (simp add: s')
  show ?case
  proof (cases i)
    case 0
    have "now + wait + Suc k * interval \<le> granted interval s' ts ! k"
    proof (cases k)
      case 0
      with first j show ?thesis by auto
    next
      case (Suc l)
      have "granted interval s' ts ! 0 + k * interval \<le> granted interval s' ts ! k"
        using Cons.IH [of 0 k s'] Suc j by simp
      moreover have "ts \<noteq> []" using j(2) by auto
      ultimately show ?thesis using first by (simp add: algebra_simps)
    qed
    with 0 j r show ?thesis by (simp add: algebra_simps)
  next
    case (Suc l)
    with Cons.IH [of l k s'] Cons.prems j r show ?thesis by simp
  qed
qed simp

text \<open>
  C34: the throttle never grants requests faster than its rate: whenever the VUs of a scenario reserve, in whatever
  order the lock admits them, a reservation is granted no earlier than it is made and \<open>n\<close> reservations later no
  earlier than \<open>n\<close> intervals after this one.
\<close>

theorem throttle_spacing:
  assumes "i \<le> j" and "j < length ts"
  shows "ts ! j \<le> granted interval s ts ! j \<and>
    granted interval s ts ! i + (j - i) * interval \<le> granted interval s ts ! j"
proof -
  have "ts ! j \<le> granted interval s ts ! j" using assms(2)
  proof (induction ts arbitrary: s j)
    case (Cons now ts)
    then show ?case by (cases j) (auto simp: Let_def split: prod.splits)
  qed simp
  with granted_spaced [of i j ts interval s] assms show ?thesis by (cases "i = j") auto
qed

theorem throttle_spacing_witness:
  "granted 10 None [3, 4, 30] = [3, 13, 30] \<and> granted 10 None [3, 4, 30] ! 0 + (2 - 0) * 10 \<le> granted 10 None [3, 4, 30] ! 2"
  using throttle_spacing [of 0 2 "[3, 4, 30]" 10 None] by (simp add: reserve_def)

end
