(* ===== verification/Vu_Context.thy ===== *)
theory Vu_Context
  imports Data_Feeds Metrics Vu_Env Pacing
begin

text \<open>
  The context of a virtual user (\<open>loadr-core/src/vu.rs\<close>) and the rendering of templates against it
  (\<open>render_template\<close> and \<open>render_json\<close> of \<open>flow.rs\<close>). One record holds what a VU's task can reach: the fields of
  \<open>VuContext\<close> that the flow reads and writes, whether a script engine is attached, the samples handed to the metrics
  bus, the scenario state shared between VUs, the random generator \<open>'r\<close>, and everything else (script runtime,
  cookies, connections, feeder state, clock, the other VUs) as a value of type \<open>'x\<close> that only the services change.
\<close>

section \<open>State and services\<close>

record shared =
  sh_next_slot :: "nat option"
  sh_round_robin :: "(nat, nat) hashmap"
  sh_barriers :: "(string, nat) hashmap"

record run_context =
  rc_variables :: "(string, json) hashmap"
  rc_secrets :: "(string, string) hashmap"
  rc_env :: "(string, string) hashmap"
  rc_setup_data :: json
  rc_on_demand :: "string list"
  rc_reports_results :: bool

type_synonym emitted = "string \<times> metric_kind \<times> f64 \<times> tags"

record ('r, 'x) vu =
  vu_id :: nat
  vu_scenario :: string
  vu_iteration :: nat
  vu_base_tags :: tags
  vu_tag_cache :: "(string list \<times> (string \<times> string) list \<times> tags) list"
  vu_groups :: "string list"
  vu_vars :: "(string, json) hashmap"
  vu_current_rows :: "(string, row) hashmap"
  vu_current_request :: "string option"
  vu_last_request_failed :: bool
  vu_script :: bool
  vu_emitted :: "emitted list"
  vu_in_flight :: nat
  vu_shared :: shared
  vu_rng :: 'r
  vu_rest :: 'x

datatype script_invocation = ScriptCall string "json list" | ScriptEval string

text \<open>
  What the flow calls outside the modelled code. A script and a protocol handler are handed the whole context; a call
  that waits (a sleep, a barrier) may return with the scenario state changed by other VUs; sampling only changes the
  generator, and the rest only reads or changes \<open>'x\<close>.
\<close>

record ('h, 'g, 'r, 'x) vu_services =
  sv_run_script :: "script_invocation \<Rightarrow> ('r, 'x) vu \<Rightarrow> (string, json) result \<times> ('r, 'x) vu"
  sv_has_function :: "string \<Rightarrow> 'x \<Rightarrow> bool"
  sv_execute :: "'h \<Rightarrow> 'g prepared_request \<Rightarrow> ('r, 'x) vu \<Rightarrow> (string, protocol_response) result \<times> ('r, 'x) vu"
  sv_next_row :: "string \<Rightarrow> row_identity \<Rightarrow> 'r \<times> 'x \<Rightarrow> (next_row_error, row) result \<times> 'r \<times> 'x"
  sv_clear_pending :: "'x \<Rightarrow> 'x"
  sv_report_result :: "row_identity \<Rightarrow> protocol_response \<Rightarrow> 'x \<Rightarrow> 'x"
  sv_sleep :: "duration \<Rightarrow> shared \<times> 'x \<Rightarrow> shared \<times> 'x"
  sv_barrier_wait :: "string \<Rightarrow> nat \<Rightarrow> duration \<Rightarrow> shared \<times> 'x \<Rightarrow> shared \<times> 'x"
  sv_now :: "'x \<Rightarrow> nat \<times> 'x"
  sv_random_range :: "nat \<Rightarrow> 'r \<Rightarrow> nat \<times> 'r"
  sv_random_unit :: "f64 \<Rightarrow> 'r \<Rightarrow> f64 \<times> 'r"
  sv_think :: "think_time_spec \<Rightarrow> 'r \<Rightarrow> duration \<times> 'r"
  sv_fault_jitter :: "latency_fault \<Rightarrow> 'r \<Rightarrow> duration \<times> 'r"
  sv_uuid :: "'x \<Rightarrow> string \<times> 'x"
  sv_child :: "nat \<Rightarrow> ('r, 'x) vu \<Rightarrow> 'r \<times> 'x"
  sv_join :: "('r, 'x) vu list \<Rightarrow> ('r, 'x) vu \<Rightarrow> shared \<times> 'x"
  sv_payload :: "string \<Rightarrow> (string, string) result"
  sv_base64 :: "string \<Rightarrow> (string, string) result"
  sv_from_str :: "string \<Rightarrow> json option"
  sv_show_json :: "json \<Rightarrow> string"
  sv_handlers :: "'h protocol_registry"

definition on_rest :: "('x \<Rightarrow> 'a \<times> 'x) \<Rightarrow> ('r, 'x) vu \<Rightarrow> 'a \<times> ('r, 'x) vu" where
  "on_rest f v = (let (a, x) = f (vu_rest v) in (a, v\<lparr>vu_rest := x\<rparr>))"

definition on_rng :: "('r \<Rightarrow> 'a \<times> 'r) \<Rightarrow> ('r, 'x) vu \<Rightarrow> 'a \<times> ('r, 'x) vu" where
  "on_rng f v = (let (a, g) = f (vu_rng v) in (a, v\<lparr>vu_rng := g\<rparr>))"

definition on_both :: "('r \<times> 'x \<Rightarrow> 'a \<times> 'r \<times> 'x) \<Rightarrow> ('r, 'x) vu \<Rightarrow> 'a \<times> ('r, 'x) vu" where
  "on_both f v = (let (a, g, x) = f (vu_rng v, vu_rest v) in (a, v\<lparr>vu_rng := g, vu_rest := x\<rparr>))"

definition on_world :: "(shared \<times> 'x \<Rightarrow> shared \<times> 'x) \<Rightarrow> ('r, 'x) vu \<Rightarrow> ('r, 'x) vu" where
  "on_world f v = (let (sh, x) = f (vu_shared v, vu_rest v) in v\<lparr>vu_shared := sh, vu_rest := x\<rparr>)"

section \<open>Sample tags\<close>

definition sample_tags :: "(string \<times> string) list \<Rightarrow> ('r, 'x) vu \<Rightarrow> tags" where
  "sample_tags extras v =
     (if extras = [] \<and> vu_groups v = [] then vu_base_tags v
      else fold (\<lambda>(k, val). tag_insert k val) extras
             (if vu_groups v \<noteq> [] then tag_insert ''group'' (''::'' @ join ''::'' (vu_groups v)) (vu_base_tags v)
              else vu_base_tags v))"

text \<open>The cache of tag sets of a VU: emptied when it holds 64 of them.\<close>

definition cached_sample_tags :: "(string \<times> string) list \<Rightarrow> ('r, 'x) vu \<Rightarrow> tags \<times> ('r, 'x) vu" where
  "cached_sample_tags extras v =
     (if extras = [] \<and> vu_groups v = [] then (vu_base_tags v, v)
      else
        (case find (\<lambda>(g, e, _). g = vu_groups v \<and> e = extras) (vu_tag_cache v) of
           Some (_, _, ts) \<Rightarrow> (ts, v)
         | None \<Rightarrow>
             let ts = sample_tags extras v;
                 cache = (if 64 \<le> length (vu_tag_cache v) then [] else vu_tag_cache v)
             in (ts, v\<lparr>vu_tag_cache := cache @ [(vu_groups v, extras, ts)]\<rparr>)))"

text \<open>What the cache holds is what would be computed: the base tags of a VU never change.\<close>

definition cache_ok :: "('r, 'x) vu \<Rightarrow> bool" where
  "cache_ok v \<longleftrightarrow>
     (\<forall>(g, e, ts) \<in> set (vu_tag_cache v). \<not> (e = [] \<and> g = []) \<and> ts = sample_tags e (v\<lparr>vu_groups := g\<rparr>))"

lemma sample_tags_cache [simp]:
  "sample_tags e (v\<lparr>vu_tag_cache := c, vu_groups := g\<rparr>) = sample_tags e (v\<lparr>vu_groups := g\<rparr>)"
  by (simp add: sample_tags_def)

lemma sample_tags_cache_only [simp]: "sample_tags e (v\<lparr>vu_tag_cache := c\<rparr>) = sample_tags e v"
  by (simp add: sample_tags_def)

lemma sample_tags_own [simp]: "sample_tags e (v\<lparr>vu_groups := vu_groups v\<rparr>) = sample_tags e v"
  by (simp add: sample_tags_def)

lemma cached_sample_tags_correct:
  assumes "cache_ok v" and "cached_sample_tags extras v = (ts, v')"
  shows "ts = sample_tags extras v \<and> cache_ok v' \<and> (\<exists>c. v' = v\<lparr>vu_tag_cache := c\<rparr>)"
proof (cases "extras = [] \<and> vu_groups v = []")
  case True
  with assms show ?thesis by (auto simp: cached_sample_tags_def sample_tags_def intro: exI [of _ "vu_tag_cache v"])
next
  case False
  show ?thesis
  proof (cases "find (\<lambda>(g, e, _). g = vu_groups v \<and> e = extras) (vu_tag_cache v)")
    case (Some entry)
    then obtain t where "entry = (vu_groups v, extras, t)" "(vu_groups v, extras, t) \<in> set (vu_tag_cache v)"
      by (auto simp: find_Some_iff dest: nth_mem)
    with assms False Some show ?thesis
      by (force simp: cached_sample_tags_def cache_ok_def intro: exI [of _ "vu_tag_cache v"])
  next
    case None
    with assms False show ?thesis
      by (auto simp: cached_sample_tags_def cache_ok_def Let_def split: if_splits)
  qed
qed

section \<open>Samples\<close>

definition emit_to_bus :: "string \<Rightarrow> metric_kind \<Rightarrow> f64 \<Rightarrow> tags \<Rightarrow> ('r, 'x) vu \<Rightarrow> ('r, 'x) vu" where
  "emit_to_bus metric kind value ts v = v\<lparr>vu_emitted := vu_emitted v @ [(metric, kind, value, ts)]\<rparr>"

definition emit_values :: "(string \<times> metric_kind \<times> f64) list \<Rightarrow> tags \<Rightarrow> ('r, 'x) vu \<Rightarrow> ('r, 'x) vu" where
  "emit_values vals ts v = v\<lparr>vu_emitted := vu_emitted v @ map (\<lambda>(m, k, x). (m, k, x, ts)) vals\<rparr>"

definition emit_rate :: "string \<Rightarrow> bool \<Rightarrow> tags \<Rightarrow> ('r, 'x) vu \<Rightarrow> ('r, 'x) vu" where
  "emit_rate metric b ts v = emit_to_bus metric Rate (if b then 1 else 0) ts v"

section \<open>Iterations, requests and rows\<close>

definition begin_iteration :: "('h, 'g, 'r, 'x) vu_services \<Rightarrow> ('r, 'x) vu \<Rightarrow> ('r, 'x) vu" where
  "begin_iteration sv v =
     v\<lparr>vu_iteration := vu_iteration v + 1, vu_current_rows := [], vu_current_request := None,
       vu_rest := sv_clear_pending sv (vu_rest v)\<rparr>"

definition begin_message :: "run_context \<Rightarrow> ('r, 'x) vu \<Rightarrow> ('r, 'x) vu" where
  "begin_message rc v =
     (if rc_on_demand rc = [] then v
      else v\<lparr>vu_current_rows := filter (\<lambda>(src, _). src \<notin> set (rc_on_demand rc)) (vu_current_rows v)\<rparr>)"

definition begin_vu_request :: "('h, 'g, 'r, 'x) vu_services \<Rightarrow> run_context \<Rightarrow> string \<Rightarrow> ('r, 'x) vu \<Rightarrow> ('r, 'x) vu" where
  "begin_vu_request sv rc name v =
     (if rc_on_demand rc = [] then v
      else begin_message rc (v\<lparr>vu_current_request := Some name, vu_rest := sv_clear_pending sv (vu_rest v)\<rparr>))"

definition row_identity_of :: "string option \<Rightarrow> ('r, 'x) vu \<Rightarrow> row_identity" where
  "row_identity_of req v =
     \<lparr>ri_vu = vu_id v, ri_iteration = vu_iteration v - 1, ri_scenario = vu_scenario v, ri_request = req\<rparr>"

definition data_row :: "('h, 'g, 'r, 'x) vu_services \<Rightarrow> string \<Rightarrow> ('r, 'x) vu \<Rightarrow> (next_row_error, row) result \<times> ('r, 'x) vu" where
  "data_row sv source v =
     (case map_of (vu_current_rows v) source of
        Some r \<Rightarrow> (Inr r, v)
      | None \<Rightarrow>
          (case on_both (sv_next_row sv source (row_identity_of (vu_current_request v) v)) v of
             (Inl e, v') \<Rightarrow> (Inl e, v')
           | (Inr r, v') \<Rightarrow> (Inr r, v'\<lparr>vu_current_rows := AList.update source r (vu_current_rows v')\<rparr>)))"

section \<open>Resolving and rendering\<close>

definition resolve_bare :: "('h, 'g, 'r, 'x) vu_services \<Rightarrow> run_context \<Rightarrow> string \<Rightarrow> ('r, 'x) vu \<Rightarrow> string option" where
  "resolve_bare sv rc expr v =
     (if expr = ''vu'' then Some (show_nat (vu_id v))
      else if expr = ''iteration'' then Some (show_nat (vu_iteration v - 1))
      else if expr = ''scenario'' then Some (vu_scenario v)
      else
        (case map_of (vu_vars v) expr of
           Some x \<Rightarrow> Some (json_to_string (sv_show_json sv) x)
         | None \<Rightarrow> map_option (json_to_string (sv_show_json sv)) (map_of (rc_variables rc) expr)))"

definition resolve_expr ::
  "('h, 'g, 'r, 'x) vu_services \<Rightarrow> run_context \<Rightarrow> string \<Rightarrow> ('r, 'x) vu \<Rightarrow> (next_row_error, string option) result \<times> ('r, 'x) vu" where
  "resolve_expr sv rc expr v =
     (case str_strip_prefix ''env.'' expr of
        Some name \<Rightarrow> (Inr (map_of (rc_env rc) name), v)
      | None \<Rightarrow>
     (case str_strip_prefix ''vars.'' expr of
        Some name \<Rightarrow> (Inr (map_option (json_to_string (sv_show_json sv)) (map_of (rc_variables rc) name)), v)
      | None \<Rightarrow>
     (case str_strip_prefix ''secrets.'' expr of
        Some name \<Rightarrow> (Inr (map_of (rc_secrets rc) name), v)
      | None \<Rightarrow>
     (case str_strip_prefix ''data.'' expr of
        Some rest \<Rightarrow>
          (case split_once CHR ''.'' rest of
             None \<Rightarrow> (Inr None, v)
           | Some (source, column) \<Rightarrow>
               (case data_row sv source v of
                  (Inl e, v') \<Rightarrow> (Inl e, v')
                | (Inr r, v') \<Rightarrow> (Inr (map_of r column), v')))
      | None \<Rightarrow> (Inr (resolve_bare sv rc expr v), v)))))"

datatype prepare_error = DataExhausted | PrepareOther string

text \<open>The \<open>?\<close> operator on a computation that may change the VU.\<close>

definition attempt ::
  "(('r, 'x) vu \<Rightarrow> (prepare_error, 'a) result \<times> ('r, 'x) vu) \<Rightarrow> ('a \<Rightarrow> ('r, 'x) vu \<Rightarrow> (prepare_error, 'b) result \<times> ('r, 'x) vu)
     \<Rightarrow> ('r, 'x) vu \<Rightarrow> (prepare_error, 'b) result \<times> ('r, 'x) vu" where
  "attempt m k v = (case m v of (Inl e, v') \<Rightarrow> (Inl e, v') | (Inr a, v') \<Rightarrow> k a v')"

fun attempt_map ::
  "('a \<Rightarrow> ('r, 'x) vu \<Rightarrow> (prepare_error, 'b) result \<times> ('r, 'x) vu) \<Rightarrow> 'a list \<Rightarrow> ('r, 'x) vu \<Rightarrow> (prepare_error, 'b list) result \<times> ('r, 'x) vu" where
  "attempt_map f [] v = (Inr [], v)"
| "attempt_map f (x # xs) v = attempt (f x) (\<lambda>y. attempt (attempt_map f xs) (\<lambda>ys w. (Inr (y # ys), w))) v"

text \<open>The environment of the process does not change while it runs, so reading it is reading the captured one.\<close>

definition resolve_payload_env :: "run_context \<Rightarrow> string \<Rightarrow> string" where
  "resolve_payload_env rc spec =
     (case rfind_char CHR '':'' spec of
        Some i \<Rightarrow>
          (case drop (i + 1) spec of
             c # name \<Rightarrow>
               if c = CHR ''$''
               then take i spec @ '':'' @ (case map_of (rc_env rc) name of Some val \<Rightarrow> val | None \<Rightarrow> [])
               else spec
           | [] \<Rightarrow> spec)
      | None \<Rightarrow> spec)"

text \<open>The value of one \<open>${...}\<close>.\<close>

definition render_expr ::
  "('h, 'g, 'r, 'x) vu_services \<Rightarrow> run_context \<Rightarrow> string \<Rightarrow> ('r, 'x) vu \<Rightarrow> (prepare_error, string) result \<times> ('r, 'x) vu" where
  "render_expr sv rc expr v =
     (case str_strip_prefix ''payload:'' expr of
        Some spec \<Rightarrow> (map_err PrepareOther (sv_payload sv (resolve_payload_env rc spec)), v)
      | None \<Rightarrow>
     (case str_strip_prefix ''js:'' expr of
        Some code \<Rightarrow>
          if \<not> vu_script v then (Inl (PrepareOther (''`${js: ...}` needs a script engine: '' @ expr)), v)
          else
            (case sv_run_script sv (ScriptEval code) v of
               (Inl e, v') \<Rightarrow> (Inl (PrepareOther e), v')
             | (Inr x, v') \<Rightarrow> (Inr (json_to_string (sv_show_json sv) x), v'))
      | None \<Rightarrow>
          (case resolve_expr sv rc expr v of
             (Inr (Some x), v') \<Rightarrow> (Inr x, v')
           | (Inr None, v') \<Rightarrow> (Inl (PrepareOther (''unresolved template variable `'' @ expr @ ''`'')), v')
           | (Inl (Exhausted _), v') \<Rightarrow> (Inl DataExhausted, v')
           | (Inl (UnknownSource s), v') \<Rightarrow> (Inl (PrepareOther (''unknown data source `'' @ s @ ''`'')), v')
           | (Inl (PluginError s m), v') \<Rightarrow> (Inl (PrepareOther (''data source `'' @ s @ ''`: plugin error: '' @ m)), v'))))"

fun render_template_parts ::
  "('h, 'g, 'r, 'x) vu_services \<Rightarrow> run_context \<Rightarrow> part list \<Rightarrow> string \<Rightarrow> ('r, 'x) vu \<Rightarrow> (prepare_error, string) result \<times> ('r, 'x) vu" where
  "render_template_parts sv rc [] out v = (Inr out, v)"
| "render_template_parts sv rc (Lit l # ps) out v = render_template_parts sv rc ps (out @ l) v"
| "render_template_parts sv rc (Expr e # ps) out v =
     attempt (render_expr sv rc e) (\<lambda>x. render_template_parts sv rc ps (out @ x)) v"

definition render_template ::
  "('h, 'g, 'r, 'x) vu_services \<Rightarrow> run_context \<Rightarrow> template \<Rightarrow> ('r, 'x) vu \<Rightarrow> (prepare_error, string) result \<times> ('r, 'x) vu" where
  "render_template sv rc t v = render_template_parts sv rc (tpl_parts t) [] v"

fun show_template_error :: "template_error \<Rightarrow> string" where
  "show_template_error (Unterminated i) =
     ''unterminated `${` starting at byte '' @ show_nat i @ ''; close it with `}` or escape it as `$${`''"
| "show_template_error (EmptyExpr i) = ''empty `${}` expression at byte '' @ show_nat i"
| "show_template_error (Unresolved e) = ''unresolved template variable `'' @ e @ ''`''"

definition render_str ::
  "('h, 'g, 'r, 'x) vu_services \<Rightarrow> run_context \<Rightarrow> string \<Rightarrow> ('r, 'x) vu \<Rightarrow> (prepare_error, string) result \<times> ('r, 'x) vu" where
  "render_str sv rc s v =
     (case parse_template s of
        Inl e \<Rightarrow> (Inl (PrepareOther (show_template_error e)), v)
      | Inr t \<Rightarrow> render_template sv rc t v)"

definition splice :: "('h, 'g, 'r, 'x) vu_services \<Rightarrow> string \<Rightarrow> json" where
  "splice sv s = (case sv_from_str sv s of Some x \<Rightarrow> x | None \<Rightarrow> JString s)"

fun render_json ::
  "('h, 'g, 'r, 'x) vu_services \<Rightarrow> run_context \<Rightarrow> json \<Rightarrow> ('r, 'x) vu \<Rightarrow> (prepare_error, json) result \<times> ('r, 'x) vu"
and render_items ::
  "('h, 'g, 'r, 'x) vu_services \<Rightarrow> run_context \<Rightarrow> json list \<Rightarrow> ('r, 'x) vu \<Rightarrow> (prepare_error, json list) result \<times> ('r, 'x) vu"
and render_entries ::
  "('h, 'g, 'r, 'x) vu_services \<Rightarrow> run_context \<Rightarrow> (string \<times> json) list \<Rightarrow> (string \<times> json) list \<Rightarrow> ('r, 'x) vu
     \<Rightarrow> (prepare_error, (string \<times> json) list) result \<times> ('r, 'x) vu" where
  "render_json sv rc (JString s) v =
     (case parse_template s of
        Inl e \<Rightarrow> (Inl (PrepareOther (show_template_error e)), v)
      | Inr t \<Rightarrow>
          if is_literal t then (Inr (JString s), v)
          else attempt (render_template sv rc t)
                 (\<lambda>r w. (Inr (if length (tpl_parts t) = 1 then splice sv r else JString r), w)) v)"
| "render_json sv rc (JArray items) v = attempt (render_items sv rc items) (\<lambda>xs w. (Inr (JArray xs), w)) v"
| "render_json sv rc (JObject fs) v = attempt (render_entries sv rc fs []) (\<lambda>xs w. (Inr (JObject xs), w)) v"
| "render_json sv rc x v = (Inr x, v)"
| "render_items sv rc [] v = (Inr [], v)"
| "render_items sv rc (x # xs) v =
     attempt (render_json sv rc x) (\<lambda>y. attempt (render_items sv rc xs) (\<lambda>ys w. (Inr (y # ys), w))) v"
| "render_entries sv rc [] out v = (Inr out, v)"
| "render_entries sv rc ((k, x) # fs) out v =
     attempt (render_json sv rc x) (\<lambda>y. render_entries sv rc fs (AList.update k y out)) v"

end
