(* ===== verification/Conditions.thy ===== *)
theory Conditions
  imports Protocol
begin

text \<open>
  Assertions and checks against a response (\<open>loadr-core/src/conditions.rs\<close>). The compiled regular expressions, JSON
  paths and the XPath evaluator are the functions they are used as. The detail text of a failure only goes to the
  debug log and is left out.
\<close>

datatype failure_action = ContinueOn | AbortIterationOn | AbortScenarioOn | AbortTestOn

record failure_group =
  fg_code :: "int option"
  fg_label :: string

datatype condition_kind =
    StatusIs "int option" "int list option" "(string \<Rightarrow> bool) option"
  | BodyContains string bool
  | BodyMatches "string \<Rightarrow> bool" bool
  | Jsonpath "json \<Rightarrow> json list" "json option" bool
  | ProtobufField "nat option" string "json option" bool "(int, string) hashmap option"
  | Xpath "string \<Rightarrow> (string, string option) result" "string option" bool
  | DurationMax f64
  | SizeIs "nat option" "nat option" "nat option"
  | HeaderIs string "string option" "string option" bool
  | JsCondition string

record condition =
  cn_name :: string
  cn_on_failure :: failure_action
  cn_kind :: condition_kind

record condition_result =
  cr_name :: string
  cr_pass :: bool
  cr_on_failure :: failure_action
  cr_needs_js :: "string option"
  cr_failure_group :: "failure_group option"

definition str_contains :: "string \<Rightarrow> string \<Rightarrow> bool" where
  "str_contains s pat \<longleftrightarrow> find_str pat s \<noteq> None"

text \<open>A match that must exist (and may have to equal a value), or must not exist.\<close>

definition match_passes :: "bool \<Rightarrow> 'a option \<Rightarrow> 'a option \<Rightarrow> bool" where
  "match_passes must_exist equals found =
     (case (must_exist, found) of
        (True, None) \<Rightarrow> False
      | (False, Some _) \<Rightarrow> False
      | (True, Some x) \<Rightarrow> (case equals of Some e \<Rightarrow> x = e | None \<Rightarrow> True)
      | (False, None) \<Rightarrow> True)"

definition header_passes :: "string option \<Rightarrow> string option \<Rightarrow> bool \<Rightarrow> string option \<Rightarrow> bool" where
  "header_passes equals contains must_exist found =
     (match_passes must_exist equals found \<and>
      (case (must_exist, found, contains) of (True, Some x, Some c) \<Rightarrow> str_contains x c | _ \<Rightarrow> True))"

definition size_passes :: "nat option \<Rightarrow> nat option \<Rightarrow> nat option \<Rightarrow> nat \<Rightarrow> bool" where
  "size_passes mn mx equals sz \<longleftrightarrow>
     (case equals of Some e \<Rightarrow> sz = e | None \<Rightarrow> True) \<and>
     (case mn of Some m \<Rightarrow> \<not> sz < m | None \<Rightarrow> True) \<and>
     (case mx of Some m \<Rightarrow> \<not> m < sz | None \<Rightarrow> True)"

definition protobuf_group :: "(int, string) hashmap \<Rightarrow> protobuf_outcome \<Rightarrow> failure_group" where
  "protobuf_group groups o' =
     (if po_missing o' then \<lparr>fg_code = None, fg_label = ''missing''\<rparr>
      else
        (case po_actual_code o' of
           Some code \<Rightarrow>
             (case map_of groups code of
                Some label \<Rightarrow> \<lparr>fg_code = Some code, fg_label = label\<rparr>
              | None \<Rightarrow> \<lparr>fg_code = None, fg_label = ''other''\<rparr>)
         | None \<Rightarrow> \<lparr>fg_code = None, fg_label = ''other''\<rparr>))"

text \<open>Whether a condition passes, what script it defers to, and the group a failure is counted in.\<close>

fun evaluate_kind ::
  "(string \<Rightarrow> json option) \<Rightarrow> protocol_response \<Rightarrow> condition_kind
     \<Rightarrow> bool \<times> string option \<times> failure_group option" where
  "evaluate_kind from_slice r (StatusIs equals one_of matches) =
     ((case equals of Some e \<Rightarrow> rs_status r = e | None \<Rightarrow> True) \<and>
      (case one_of of Some xs \<Rightarrow> rs_status r \<in> set xs | None \<Rightarrow> True) \<and>
      (case matches of Some re \<Rightarrow> re (show_int (rs_status r)) | None \<Rightarrow> True), None, None)"
| "evaluate_kind from_slice r (BodyContains s negate) = (str_contains (rs_body r) s \<noteq> negate, None, None)"
| "evaluate_kind from_slice r (BodyMatches re negate) = (re (rs_body r) \<noteq> negate, None, None)"
| "evaluate_kind from_slice r (Jsonpath query equals must_exist) =
     (let nodes = query (case from_slice (rs_body r) of Some b \<Rightarrow> b | None \<Rightarrow> JNull)
      in match_passes must_exist equals (case nodes of x # _ \<Rightarrow> Some x | [] \<Rightarrow> None), None, None)"
| "evaluate_kind from_slice r (ProtobufField slot field equals must_exist groups) =
     (case Option.bind slot (\<lambda>i. find (\<lambda>o'. po_id o' = i) (rs_protobuf_outcomes r)) of
        Some o' \<Rightarrow> (po_pass o', None, if po_pass o' then None else map_option (\<lambda>g. protobuf_group g o') groups)
      | None \<Rightarrow> (False, None, map_option (\<lambda>_. \<lparr>fg_code = None, fg_label = ''no_response''\<rparr>) groups))"
| "evaluate_kind from_slice r (Xpath eval equals must_exist) =
     ((case eval (rs_body r) of Inl _ \<Rightarrow> False | Inr found \<Rightarrow> match_passes must_exist equals found), None, None)"
| "evaluate_kind from_slice r (DurationMax max_ms) = (\<not> max_ms < duration_ms (rs_timings r), None, None)"
| "evaluate_kind from_slice r (SizeIs mn mx equals) = (size_passes mn mx equals (length (rs_body r)), None, None)"
| "evaluate_kind from_slice r (HeaderIs name equals contains must_exist) =
     (header_passes equals contains must_exist (header name r), None, None)"
| "evaluate_kind from_slice r (JsCondition expression) = (True, Some expression, None)"

definition evaluate_condition ::
  "(string \<Rightarrow> json option) \<Rightarrow> condition \<Rightarrow> protocol_response \<Rightarrow> condition_result" where
  "evaluate_condition from_slice c r =
     (let (pass, js, grp) = evaluate_kind from_slice r (cn_kind c)
      in \<lparr>cr_name = cn_name c, cr_pass = pass, cr_on_failure = cn_on_failure c, cr_needs_js = js, cr_failure_group = grp\<rparr>)"

fun reads_body_kind :: "condition_kind \<Rightarrow> bool" where
  "reads_body_kind (StatusIs _ _ _) = False"
| "reads_body_kind (ProtobufField _ _ _ _ _) = False"
| "reads_body_kind (DurationMax _) = False"
| "reads_body_kind (HeaderIs _ _ _ _) = False"
| "reads_body_kind _ = True"

definition reads_body :: "condition \<Rightarrow> bool" where
  "reads_body c \<longleftrightarrow> reads_body_kind (cn_kind c)"

record protobuf_check =
  pk_id :: nat
  pk_field :: string
  pk_equals :: "json option"
  pk_exists :: bool
  pk_group_failures :: bool

text \<open>\<open>bind_protobuf_check\<close>, over the conditions of a request: slots are numbered in the order of the conditions.\<close>

fun bind_protobuf_check :: "nat \<Rightarrow> condition \<Rightarrow> condition \<times> protobuf_check option" where
  "bind_protobuf_check i c =
     (case cn_kind c of
        ProtobufField _ field equals must_exist groups \<Rightarrow>
          (c\<lparr>cn_kind := ProtobufField (Some i) field equals must_exist groups\<rparr>,
           Some \<lparr>pk_id = i, pk_field = field, pk_equals = equals, pk_exists = must_exist, pk_group_failures = groups \<noteq> None\<rparr>)
      | _ \<Rightarrow> (c, None))"

fun bind_checks :: "condition list \<Rightarrow> protobuf_check list \<Rightarrow> condition list \<times> protobuf_check list" where
  "bind_checks [] checks = ([], checks)"
| "bind_checks (c # cs) checks =
     (let (c', check) = bind_protobuf_check (length checks) c;
          (cs', checks') = bind_checks cs (case check of Some k \<Rightarrow> checks @ [k] | None \<Rightarrow> checks)
      in (c' # cs', checks'))"

text \<open>A condition that does not read the body passes or fails the same whatever the body is.\<close>

lemma evaluate_without_body:
  assumes "\<not> reads_body c"
  shows "evaluate_condition from_slice c (r\<lparr>rs_body := b\<rparr>) = evaluate_condition from_slice c r"
  using assms by (cases "cn_kind c") (simp_all add: evaluate_condition_def reads_body_def header_def cong: option.case_cong)

text \<open>The slots given to the checks of a request are their positions, so outcomes are told apart by slot.\<close>

lemma bind_checks_slots:
  "map pk_id checks = [0..<length checks] \<Longrightarrow> bind_checks cs checks = (cs', checks') \<Longrightarrow> map pk_id checks' = [0..<length checks']"
proof (induction cs arbitrary: checks cs' checks')
  case (Cons c cs)
  define ks where "ks = (case snd (bind_protobuf_check (length checks) c) of Some k \<Rightarrow> checks @ [k] | None \<Rightarrow> checks)"
  have "map pk_id ks = [0..<length ks]"
    using Cons.prems(1) by (cases "cn_kind c") (simp_all add: ks_def)
  moreover have "snd (bind_checks cs ks) = checks'"
    using Cons.prems(2) by (auto simp: ks_def Let_def split: prod.splits)
  ultimately show ?case using Cons.IH by (metis prod.collapse)
qed simp

end
