(* ===== verification/Request.thy ===== *)
theory Request
  imports Vu_Context Conditions
begin

text \<open>
  Compiled requests and their preparation (\<open>loadr-core/src/flow.rs\<close>): JSON bodies compiled into templates, gRPC
  calls and their frames, and \<open>FlowRunner::prepare\<close>, which renders a compiled request into the one a protocol
  handler executes. Response extractors are the functions they are used as.
\<close>

section \<open>Compiled JSON\<close>

datatype compiled_json =
    CLiteral json
  | CString template
  | CSplice template
  | CArray "compiled_json list"
  | CObject "(string \<times> compiled_json) list"

fun cj_is_literal :: "compiled_json \<Rightarrow> bool" where
  "cj_is_literal (CLiteral _) = True"
| "cj_is_literal _ = False"

definition parse_template_for :: "string \<Rightarrow> string \<Rightarrow> (string, template) result" where
  "parse_template_for what s = map_err (\<lambda>e. what @ '': '' @ show_template_error e) (parse_template s)"

fun cj_compile :: "string \<Rightarrow> json \<Rightarrow> (string, compiled_json) result"
and cj_compile_list :: "string \<Rightarrow> json list \<Rightarrow> (string, compiled_json list) result"
and cj_compile_fields :: "string \<Rightarrow> (string \<times> json) list \<Rightarrow> (string, (string \<times> compiled_json) list) result" where
  "cj_compile what (JString s) =
     (case parse_template_for what s of
        Inl e \<Rightarrow> Inl e
      | Inr t \<Rightarrow>
          Inr (if is_literal t then CLiteral (JString s)
               else if length (tpl_parts t) = 1 then CSplice t
               else CString t))"
| "cj_compile what (JArray items) =
     (case cj_compile_list what items of
        Inl e \<Rightarrow> Inl e
      | Inr cs \<Rightarrow> Inr (if list_all cj_is_literal cs then CLiteral (JArray items) else CArray cs))"
| "cj_compile what (JObject fs) =
     (case cj_compile_fields what fs of
        Inl e \<Rightarrow> Inl e
      | Inr cs \<Rightarrow> Inr (if list_all (cj_is_literal \<circ> snd) cs then CLiteral (JObject fs) else CObject cs))"
| "cj_compile what x = Inr (CLiteral x)"
| "cj_compile_list what [] = Inr []"
| "cj_compile_list what (x # xs) =
     (case cj_compile what x of
        Inl e \<Rightarrow> Inl e
      | Inr c \<Rightarrow> (case cj_compile_list what xs of Inl e \<Rightarrow> Inl e | Inr cs \<Rightarrow> Inr (c # cs)))"
| "cj_compile_fields what [] = Inr []"
| "cj_compile_fields what ((k, x) # fs) =
     (case cj_compile what x of
        Inl e \<Rightarrow> Inl e
      | Inr c \<Rightarrow> (case cj_compile_fields what fs of Inl e \<Rightarrow> Inl e | Inr cs \<Rightarrow> Inr ((k, c) # cs)))"

fun cj_render ::
  "('h, 'g, 'r, 'x) vu_services \<Rightarrow> run_context \<Rightarrow> compiled_json \<Rightarrow> ('r, 'x) vu \<Rightarrow> (prepare_error, json) result \<times> ('r, 'x) vu"
and cj_render_list ::
  "('h, 'g, 'r, 'x) vu_services \<Rightarrow> run_context \<Rightarrow> compiled_json list \<Rightarrow> ('r, 'x) vu \<Rightarrow> (prepare_error, json list) result \<times> ('r, 'x) vu"
and cj_render_fields ::
  "('h, 'g, 'r, 'x) vu_services \<Rightarrow> run_context \<Rightarrow> (string \<times> compiled_json) list \<Rightarrow> (string \<times> json) list \<Rightarrow> ('r, 'x) vu
     \<Rightarrow> (prepare_error, (string \<times> json) list) result \<times> ('r, 'x) vu" where
  "cj_render sv rc (CLiteral x) v = (Inr x, v)"
| "cj_render sv rc (CString t) v = attempt (render_template sv rc t) (\<lambda>r w. (Inr (JString r), w)) v"
| "cj_render sv rc (CSplice t) v = attempt (render_template sv rc t) (\<lambda>r w. (Inr (splice sv r), w)) v"
| "cj_render sv rc (CArray cs) v = attempt (cj_render_list sv rc cs) (\<lambda>xs w. (Inr (JArray xs), w)) v"
| "cj_render sv rc (CObject cs) v = attempt (cj_render_fields sv rc cs []) (\<lambda>xs w. (Inr (JObject xs), w)) v"
| "cj_render_list sv rc [] v = (Inr [], v)"
| "cj_render_list sv rc (c # cs) v =
     attempt (cj_render sv rc c) (\<lambda>y. attempt (cj_render_list sv rc cs) (\<lambda>ys w. (Inr (y # ys), w))) v"
| "cj_render_fields sv rc [] out v = (Inr out, v)"
| "cj_render_fields sv rc ((k, c) # cs) out v =
     attempt (cj_render sv rc c) (\<lambda>y. cj_render_fields sv rc cs (AList.update k y out)) v"

section \<open>gRPC calls\<close>

datatype grpc_value = GLiteral json | GDynamic compiled_json
datatype grpc_values = GsLiteral "json list" | GsDynamic "compiled_json list" nat

record grpc_options =
  go_proto_files :: "string list"
  go_proto_includes :: "string list"
  go_reflection :: bool
  go_service :: string
  go_method :: string
  go_message :: "json option"
  go_messages :: "json list"
  go_stream_repeat :: "nat option"
  go_metadata :: "(string \<times> string) list"
  go_channel_pool_size :: "nat option"
  go_transport :: nat

record compiled_grpc =
  cg_proto_files :: "string list"
  cg_proto_includes :: "string list"
  cg_reflection :: bool
  cg_service :: string
  cg_method :: string
  cg_message :: "grpc_value option"
  cg_messages :: grpc_values
  cg_metadata :: "(string \<times> template) list"
  cg_channel_pool_size :: "nat option"
  cg_transport :: nat

record grpc_request =
  gr_proto_files :: "string list"
  gr_proto_includes :: "string list"
  gr_reflection :: bool
  gr_service :: string
  gr_method :: string
  gr_message :: "json option"
  gr_messages :: "json list"
  gr_message_literal :: bool
  gr_metadata :: "(string \<times> string) list"
  gr_channel_pool_size :: "nat option"
  gr_transport :: nat
  gr_discard_response_body :: bool
  gr_protobuf_only_response :: bool
  gr_protobuf_checks :: "protobuf_check list option"

definition grpc_value_compile :: "string \<Rightarrow> json \<Rightarrow> (string, grpc_value) result" where
  "grpc_value_compile what x =
     (case cj_compile what x of
        Inl e \<Rightarrow> Inl e
      | Inr (CLiteral y) \<Rightarrow> Inr (GLiteral y)
      | Inr c \<Rightarrow> Inr (GDynamic c))"

definition grpc_values_compile :: "json list \<Rightarrow> nat \<Rightarrow> string \<Rightarrow> (string, grpc_values) result" where
  "grpc_values_compile vals n what =
     (case cj_compile_list what vals of
        Inl e \<Rightarrow> Inl e
      | Inr cs \<Rightarrow> Inr (if list_all cj_is_literal cs then GsLiteral (concat (replicate n vals)) else GsDynamic cs n))"

fun grpc_values_empty :: "grpc_values \<Rightarrow> bool" where
  "grpc_values_empty (GsLiteral xs) = (xs = [])"
| "grpc_values_empty (GsDynamic cs _) = (cs = [])"

fun grpc_values_literal :: "grpc_values \<Rightarrow> bool" where
  "grpc_values_literal (GsLiteral _) = True"
| "grpc_values_literal (GsDynamic _ _) = False"

fun grpc_value_literal :: "grpc_value \<Rightarrow> bool" where
  "grpc_value_literal (GLiteral _) = True"
| "grpc_value_literal (GDynamic _) = False"

text \<open>\<open>resolve\<close> makes a path of the plan absolute.\<close>

definition grpc_compile :: "(string \<Rightarrow> string) \<Rightarrow> grpc_options \<Rightarrow> (string, compiled_grpc) result" where
  "grpc_compile resolve g =
     (case (case go_message g of
              None \<Rightarrow> Inr None
            | Some m \<Rightarrow> (case grpc_value_compile ''grpc message'' m of Inl e \<Rightarrow> Inl e | Inr c \<Rightarrow> Inr (Some c))) of
        Inl e \<Rightarrow> Inl e
      | Inr message \<Rightarrow>
     (case grpc_values_compile (go_messages g) (case go_stream_repeat g of Some n \<Rightarrow> n | None \<Rightarrow> 1) ''grpc message'' of
        Inl e \<Rightarrow> Inl e
      | Inr messages \<Rightarrow>
     (case collect_results (\<lambda>(k, s). case parse_template_for (''grpc metadata `'' @ k @ ''`'') s of
                                        Inl e \<Rightarrow> Inl e | Inr t \<Rightarrow> Inr (k, t)) (go_metadata g) of
        Inl e \<Rightarrow> Inl e
      | Inr metadata \<Rightarrow>
          Inr \<lparr>cg_proto_files = map resolve (go_proto_files g), cg_proto_includes = map resolve (go_proto_includes g),
               cg_reflection = go_reflection g, cg_service = go_service g, cg_method = go_method g, cg_message = message,
               cg_messages = messages, cg_metadata = metadata, cg_channel_pool_size = go_channel_pool_size g,
               cg_transport = go_transport g\<rparr>)))"

fun grpc_value_render ::
  "('h, 'g, 'r, 'x) vu_services \<Rightarrow> run_context \<Rightarrow> grpc_value \<Rightarrow> ('r, 'x) vu \<Rightarrow> (prepare_error, json) result \<times> ('r, 'x) vu" where
  "grpc_value_render sv rc (GLiteral x) v = (Inr x, v)"
| "grpc_value_render sv rc (GDynamic c) v = cj_render sv rc c v"

text \<open>The frames of a streaming call: every frame after the first evicts the rows of plugin-backed sources.\<close>

fun render_frames ::
  "('h, 'g, 'r, 'x) vu_services \<Rightarrow> run_context \<Rightarrow> compiled_json list \<Rightarrow> json list \<Rightarrow> ('r, 'x) vu \<Rightarrow> (prepare_error, json list) result \<times> ('r, 'x) vu" where
  "render_frames sv rc [] frames v = (Inr frames, v)"
| "render_frames sv rc (c # cs) frames v =
     attempt (cj_render sv rc c) (\<lambda>x. render_frames sv rc cs (frames @ [x]))
       (if frames \<noteq> [] then begin_message rc v else v)"

fun render_messages ::
  "('h, 'g, 'r, 'x) vu_services \<Rightarrow> run_context \<Rightarrow> grpc_values \<Rightarrow> ('r, 'x) vu \<Rightarrow> (prepare_error, json list) result \<times> ('r, 'x) vu" where
  "render_messages sv rc (GsLiteral xs) v = (Inr xs, v)"
| "render_messages sv rc (GsDynamic cs n) v = render_frames sv rc (concat (replicate n cs)) [] v"

definition render_pairs ::
  "('h, 'g, 'r, 'x) vu_services \<Rightarrow> run_context \<Rightarrow> (string \<times> template) list \<Rightarrow> ('r, 'x) vu \<Rightarrow> (prepare_error, (string \<times> string) list) result \<times> ('r, 'x) vu" where
  "render_pairs sv rc = attempt_map (\<lambda>(k, t). attempt (render_template sv rc t) (\<lambda>x w. (Inr (k, x), w)))"

definition grpc_render ::
  "('h, 'g, 'r, 'x) vu_services \<Rightarrow> run_context \<Rightarrow> compiled_grpc \<Rightarrow> json list \<Rightarrow> ('r, 'x) vu \<Rightarrow> (prepare_error, grpc_request) result \<times> ('r, 'x) vu" where
  "grpc_render sv rc g messages =
     attempt (render_pairs sv rc (cg_metadata g)) (\<lambda>metadata.
     attempt (\<lambda>v. case cg_message g of
                    None \<Rightarrow> (Inr None, v)
                  | Some m \<Rightarrow> attempt (grpc_value_render sv rc m) (\<lambda>x w. (Inr (Some x), w)) v) (\<lambda>message w.
       (Inr \<lparr>gr_proto_files = cg_proto_files g, gr_proto_includes = cg_proto_includes g, gr_reflection = cg_reflection g,
             gr_service = cg_service g, gr_method = cg_method g, gr_message = message, gr_messages = messages,
             gr_message_literal =
               (if grpc_values_empty (cg_messages g)
                then (case cg_message g of Some m \<Rightarrow> grpc_value_literal m | None \<Rightarrow> False)
                else grpc_values_literal (cg_messages g)),
             gr_metadata = metadata, gr_channel_pool_size = cg_channel_pool_size g, gr_transport = cg_transport g,
             gr_discard_response_body = False, gr_protobuf_only_response = False, gr_protobuf_checks = None\<rparr>, w)))"

section \<open>Compiled requests\<close>

datatype extract_error = CheckFailed string failure_action | ExtractOther string

record 'r extractor =
  ex_name :: string
  ex_chain_with_check :: bool
  ex_extract :: "protocol_response \<Rightarrow> 'r \<Rightarrow> (extract_error, json) result \<times> 'r"

record compiled_part =
  cp_name :: string
  cp_value :: "template option"
  cp_bytes :: "string option"
  cp_filename :: "string option"
  cp_content_type :: "string option"

datatype compiled_body =
    BodyNone
  | BodyText template
  | BodyJson json
  | BodyBytes string
  | BodyForm "(string \<times> template) list"
  | BodyMultipart "compiled_part list"

datatype ws_message = WsText string | WsDetailed "string option" "string option" "duration option"

record ws_options =
  wo_subprotocols :: "string list"
  wo_send :: "ws_message list"
  wo_receive_count :: "nat option"
  wo_receive_until :: "string option"
  wo_session_duration :: "duration option"

record graphql_options =
  gq_query :: string
  gq_variables :: "json option"
  gq_operation_name :: "string option"

record socket_options =
  sk_send_text :: "string option"
  sk_send_hex :: "string option"
  sk_read_bytes :: "nat option"
  sk_read_until_close :: bool
  sk_read_timeout :: "duration option"

record sse_options =
  se_events :: "nat option"
  se_until :: "string option"
  se_duration :: "duration option"

record sql_options =
  sq_query :: string
  sq_params :: "string list"

record 'r compiled_request =
  cq_name :: "template option"
  cq_display_name :: string
  cq_protocol :: string
  cq_method :: string
  cq_url :: template
  cq_headers :: "(string \<times> template) list"
  cq_params :: "(string \<times> template) list"
  cq_body :: compiled_body
  cq_timeout :: "duration option"
  cq_follow_redirects :: "bool option"
  cq_extract :: "'r extractor list"
  cq_assert :: "condition list"
  cq_checks :: "condition list"
  cq_protobuf_checks :: "protobuf_check list option"
  cq_reads_response_body :: bool
  cq_ws :: "ws_options option"
  cq_grpc :: "compiled_grpc option"
  cq_graphql :: "graphql_options option"
  cq_socket :: "socket_options option"
  cq_sse :: "sse_options option"
  cq_sql :: "sql_options option"
  cq_plugin :: "json option"

record http_defaults =
  ht_base_url :: "string option"
  ht_headers :: "(string \<times> string) list"
  ht_timeout :: duration
  ht_follow_redirects :: bool
  ht_max_redirects :: nat

section \<open>Preparation\<close>

definition hex_digit :: "nat \<Rightarrow> char" where
  "hex_digit d = (if d < 10 then char_of (48 + d) else char_of (55 + d))"

definition url_unreserved :: "char \<Rightarrow> bool" where
  "url_unreserved c \<longleftrightarrow>
     (let n = of_char c :: nat in
      65 \<le> n \<and> n \<le> 90 \<or> 97 \<le> n \<and> n \<le> 122 \<or> 48 \<le> n \<and> n \<le> 57) \<or>
     c = CHR ''-'' \<or> c = CHR ''_'' \<or> c = CHR ''.'' \<or> c = CHR ''~''"

definition urlencode_char :: "char \<Rightarrow> string" where
  "urlencode_char c =
     (if url_unreserved c then [c]
      else if c = CHR '' '' then ''%20''
      else [CHR ''%'', hex_digit (of_char c div 16), hex_digit (of_char c mod 16)])"

definition urlencode :: "string \<Rightarrow> string" where
  "urlencode s = concat (map urlencode_char s)"

definition join_url :: "string \<Rightarrow> string \<Rightarrow> string" where
  "join_url base url =
     rev (dropWhile (\<lambda>c. c = CHR ''/'') (rev base)) @ ''/'' @ dropWhile (\<lambda>c. c = CHR ''/'') url"

definition prepare_url ::
  "('h, 'g, 'r, 'x) vu_services \<Rightarrow> run_context \<Rightarrow> http_defaults \<Rightarrow> 'r compiled_request \<Rightarrow> ('r, 'x) vu \<Rightarrow> (prepare_error, string) result \<times> ('r, 'x) vu" where
  "prepare_url sv rc ht req =
     attempt (render_template sv rc (cq_url req)) (\<lambda>url w.
       case ht_base_url ht of
         Some base \<Rightarrow>
           if str_contains url ''://'' then (Inr url, w)
           else attempt (render_str sv rc base) (\<lambda>b w'. (Inr (join_url b url), w')) w
       | None \<Rightarrow> (Inr url, w))"

definition render_query ::
  "('h, 'g, 'r, 'x) vu_services \<Rightarrow> run_context \<Rightarrow> (string \<times> template) list \<Rightarrow> ('r, 'x) vu \<Rightarrow> (prepare_error, string) result \<times> ('r, 'x) vu" where
  "render_query sv rc ps =
     attempt (attempt_map (\<lambda>(k, t). attempt (render_template sv rc t) (\<lambda>x w. (Inr (urlencode k @ ''='' @ urlencode x), w))) ps)
       (\<lambda>pairs w. (Inr (join ''&'' pairs), w))"

definition prepare_params ::
  "('h, 'g, 'r, 'x) vu_services \<Rightarrow> run_context \<Rightarrow> 'r compiled_request \<Rightarrow> string \<Rightarrow> ('r, 'x) vu \<Rightarrow> (prepare_error, string) result \<times> ('r, 'x) vu" where
  "prepare_params sv rc req url =
     (if cq_params req = [] then (\<lambda>w. (Inr url, w))
      else attempt (render_query sv rc (cq_params req))
             (\<lambda>q w. (Inr (url @ (if CHR ''?'' \<in> set url then ''&'' else ''?'') @ q), w)))"

definition set_header :: "string \<Rightarrow> string \<Rightarrow> (string \<times> string) list \<Rightarrow> (string \<times> string) list" where
  "set_header k x headers = filter (\<lambda>(ek, _). \<not> eq_ignore_ascii_case ek k) headers @ [(k, x)]"

fun set_rendered ::
  "('a \<Rightarrow> ('r, 'x) vu \<Rightarrow> (prepare_error, string) result \<times> ('r, 'x) vu) \<Rightarrow> (string \<times> 'a) list \<Rightarrow> (string \<times> string) list \<Rightarrow> ('r, 'x) vu
     \<Rightarrow> (prepare_error, (string \<times> string) list) result \<times> ('r, 'x) vu" where
  "set_rendered f [] headers v = (Inr headers, v)"
| "set_rendered f ((k, t) # hs) headers v = attempt (f t) (\<lambda>x. set_rendered f hs (set_header k x headers)) v"

definition prepare_headers ::
  "('h, 'g, 'r, 'x) vu_services \<Rightarrow> run_context \<Rightarrow> http_defaults \<Rightarrow> 'r compiled_request \<Rightarrow> ('r, 'x) vu
     \<Rightarrow> (prepare_error, (string \<times> string) list) result \<times> ('r, 'x) vu" where
  "prepare_headers sv rc ht req =
     attempt (set_rendered (render_str sv rc) (ht_headers ht) [])
       (set_rendered (render_template sv rc) (cq_headers req))"

definition crlf :: string where
  "crlf = [CHR 0x0D, CHR 0x0A]"

definition multipart_part ::
  "('h, 'g, 'r, 'x) vu_services \<Rightarrow> run_context \<Rightarrow> string \<Rightarrow> compiled_part \<Rightarrow> ('r, 'x) vu \<Rightarrow> (prepare_error, string) result \<times> ('r, 'x) vu" where
  "multipart_part sv rc boundary p =
     (let head = ''--'' @ boundary @ crlf @ ''Content-Disposition: form-data; name='' @ [CHR 0x22] @ cp_name p @ [CHR 0x22] @
            (case cp_filename p of Some n \<Rightarrow> ''; filename='' @ [CHR 0x22] @ n @ [CHR 0x22] | None \<Rightarrow> []) @ crlf @
            (case cp_content_type p of Some ct \<Rightarrow> ''Content-Type: '' @ ct @ crlf | None \<Rightarrow> []) @ crlf
      in case cp_value p of
           Some t \<Rightarrow> attempt (render_template sv rc t) (\<lambda>x w. (Inr (head @ x @ crlf), w))
         | None \<Rightarrow> (\<lambda>w. (Inr (head @ (case cp_bytes p of Some b \<Rightarrow> b | None \<Rightarrow> []) @ crlf), w)))"

text \<open>The body of a GraphQL call, and of the other kinds, with the content type each implies.\<close>

definition graphql_body ::
  "('h, 'g, 'r, 'x) vu_services \<Rightarrow> run_context \<Rightarrow> graphql_options \<Rightarrow> ('r, 'x) vu \<Rightarrow> (prepare_error, string \<times> string option) result \<times> ('r, 'x) vu" where
  "graphql_body sv rc q =
     attempt (\<lambda>v. case gq_variables q of
                    Some x \<Rightarrow> attempt (render_json sv rc x) (\<lambda>y w. (Inr [(''variables'', y)], w)) v
                  | None \<Rightarrow> (Inr [], v))
       (\<lambda>vars w. (Inr (sv_show_json sv (JObject ((case gq_operation_name q of Some n \<Rightarrow> [(''operationName'', JString n)] | None \<Rightarrow> []) @
                     [(''query'', JString (gq_query q))] @ vars)),
                   Some ''application/json''), w))"

fun render_body ::
  "('h, 'g, 'r, 'x) vu_services \<Rightarrow> run_context \<Rightarrow> compiled_body \<Rightarrow> ('r, 'x) vu \<Rightarrow> (prepare_error, string \<times> string option) result \<times> ('r, 'x) vu" where
  "render_body sv rc BodyNone v = (Inr ([], None), v)"
| "render_body sv rc (BodyText t) v = attempt (render_template sv rc t) (\<lambda>x w. (Inr (x, None), w)) v"
| "render_body sv rc (BodyJson j) v =
     attempt (render_json sv rc j) (\<lambda>x w. (Inr (sv_show_json sv x, Some ''application/json''), w)) v"
| "render_body sv rc (BodyBytes b) v = (Inr (b, None), v)"
| "render_body sv rc (BodyForm fs) v =
     attempt (render_query sv rc fs) (\<lambda>x w. (Inr (x, Some ''application/x-www-form-urlencoded''), w)) v"
| "render_body sv rc (BodyMultipart ps) v =
     (let (u, v1) = on_rest (sv_uuid sv) v; boundary = ''loadrboundary'' @ u
      in attempt (attempt_map (multipart_part sv rc boundary) ps)
           (\<lambda>xs w. (Inr (concat xs @ ''--'' @ boundary @ ''--'' @ crlf, Some (''multipart/form-data; boundary='' @ boundary)), w)) v1)"

definition prepare_body ::
  "('h, 'g, 'r, 'x) vu_services \<Rightarrow> run_context \<Rightarrow> 'r compiled_request \<Rightarrow> ('r, 'x) vu \<Rightarrow> (prepare_error, string \<times> string option) result \<times> ('r, 'x) vu" where
  "prepare_body sv rc req = (case cq_graphql req of Some q \<Rightarrow> graphql_body sv rc q | None \<Rightarrow> render_body sv rc (cq_body req))"

definition with_content_type :: "string option \<Rightarrow> (string \<times> string) list \<Rightarrow> (string \<times> string) list" where
  "with_content_type ct headers =
     (case ct of
        Some c \<Rightarrow>
          if list_ex (\<lambda>(k, _). eq_ignore_ascii_case k ''content-type'') headers then headers
          else headers @ [(''Content-Type'', c)]
      | None \<Rightarrow> headers)"

fun ws_message_frame ::
  "('h, 'g, 'r, 'x) vu_services \<Rightarrow> run_context \<Rightarrow> ws_message \<Rightarrow> ('r, 'x) vu \<Rightarrow> (prepare_error, ws_frame) result \<times> ('r, 'x) vu" where
  "ws_message_frame sv rc (WsText t) v =
     attempt (render_str sv rc t) (\<lambda>x w. (Inr \<lparr>wf_payload = x, wf_binary = False, wf_delay = None\<rparr>, w)) v"
| "ws_message_frame sv rc (WsDetailed txt b64 delay) v =
     (case txt of
        Some t \<Rightarrow> attempt (render_str sv rc t) (\<lambda>x w. (Inr \<lparr>wf_payload = x, wf_binary = False, wf_delay = delay\<rparr>, w)) v
      | None \<Rightarrow>
          (case b64 of
             Some b \<Rightarrow>
               (case sv_base64 sv (trim b) of
                  Inl e \<Rightarrow> (Inl (PrepareOther (''invalid binary_base64: '' @ e)), v)
                | Inr bytes \<Rightarrow> (Inr \<lparr>wf_payload = bytes, wf_binary = True, wf_delay = delay\<rparr>, v))
           | None \<Rightarrow> (Inr \<lparr>wf_payload = [], wf_binary = False, wf_delay = delay\<rparr>, v)))"

definition prepare_ws ::
  "('h, 'g, 'r, 'x) vu_services \<Rightarrow> run_context \<Rightarrow> ws_options \<Rightarrow> ('r, 'x) vu \<Rightarrow> (prepare_error, ws_request) result \<times> ('r, 'x) vu" where
  "prepare_ws sv rc ws =
     attempt (attempt_map (ws_message_frame sv rc) (wo_send ws)) (\<lambda>frames w.
       (Inr \<lparr>ws_subprotocols = wo_subprotocols ws, ws_send = frames, ws_receive_count = wo_receive_count ws,
             ws_receive_until = wo_receive_until ws, ws_session_duration = wo_session_duration ws\<rparr>, w))"

definition prepare_grpc ::
  "('h, 'g, 'r, 'x) vu_services \<Rightarrow> run_context \<Rightarrow> 'r compiled_request \<Rightarrow> compiled_grpc \<Rightarrow> ('r, 'x) vu \<Rightarrow> (prepare_error, grpc_request) result \<times> ('r, 'x) vu" where
  "prepare_grpc sv rc req g =
     attempt (render_messages sv rc (cg_messages g)) (\<lambda>messages.
     attempt (grpc_render sv rc g messages) (\<lambda>r w.
       let has_after_request = (vu_script w \<and> sv_has_function sv ''afterRequest'' (vu_rest w));
           has_protobuf_checks = (cq_protobuf_checks req \<noteq> None)
       in (Inr (r\<lparr>gr_discard_response_body :=
                    (\<not> cq_reads_response_body req \<and> \<not> has_protobuf_checks \<and> \<not> has_after_request \<and> \<not> rc_reports_results rc),
                  gr_protobuf_only_response :=
                    (has_protobuf_checks \<and> \<not> cq_reads_response_body req \<and> \<not> has_after_request),
                  gr_protobuf_checks := cq_protobuf_checks req\<rparr>), w)))"

definition hex_value :: "char \<Rightarrow> nat option" where
  "hex_value c =
     (let n = of_char c :: nat in
      if 48 \<le> n \<and> n \<le> 57 then Some (n - 48)
      else if 97 \<le> n \<and> n \<le> 102 then Some (n - 87)
      else if 65 \<le> n \<and> n \<le> 70 then Some (n - 55)
      else None)"

fun decode_hex :: "string \<Rightarrow> (prepare_error, string) result" where
  "decode_hex (a # b # s) =
     (case (hex_value a, hex_value b) of
        (Some hi, Some lo) \<Rightarrow>
          (case decode_hex s of Inl e \<Rightarrow> Inl e | Inr t \<Rightarrow> Inr (char_of (hi * 16 + lo) # t))
      | _ \<Rightarrow> Inl (PrepareOther ''invalid hex payload''))"
| "decode_hex _ = Inr []"

definition prepare_socket ::
  "('h, 'g, 'r, 'x) vu_services \<Rightarrow> run_context \<Rightarrow> socket_options \<Rightarrow> ('r, 'x) vu \<Rightarrow> (prepare_error, socket_request) result \<times> ('r, 'x) vu" where
  "prepare_socket sv rc so =
     attempt (\<lambda>v. case sk_send_text so of
                    Some t \<Rightarrow> render_str sv rc t v
                  | None \<Rightarrow>
                      (case sk_send_hex so of
                         Some h \<Rightarrow> (decode_hex (filter (\<lambda>c. \<not> is_ws c) h), v)
                       | None \<Rightarrow> (Inr [], v)))
       (\<lambda>payload w. (Inr \<lparr>so_payload = payload, so_read_bytes = sk_read_bytes so, so_read_until_close = sk_read_until_close so,
                          so_read_timeout = sk_read_timeout so\<rparr>, w))"

definition sse_plugin :: "sse_options \<Rightarrow> json option" where
  "sse_plugin se =
     (let obj = (case se_duration se of Some d \<Rightarrow> [(''duration'', JString (show_nat (d div 1000000) @ ''ms''))] | None \<Rightarrow> []) @
                (case se_events se of Some n \<Rightarrow> [(''events'', JInt (int n))] | None \<Rightarrow> []) @
                (case se_until se of Some u \<Rightarrow> [(''until'', JString u)] | None \<Rightarrow> [])
      in if obj = [] then None else Some (JObject obj))"

definition sql_plugin ::
  "('h, 'g, 'r, 'x) vu_services \<Rightarrow> run_context \<Rightarrow> sql_options \<Rightarrow> ('r, 'x) vu \<Rightarrow> (prepare_error, json) result \<times> ('r, 'x) vu" where
  "sql_plugin sv rc sql =
     attempt (render_str sv rc (sq_query sql)) (\<lambda>q.
     attempt (attempt_map (\<lambda>p. attempt (render_str sv rc p) (\<lambda>x w. (Inr (JString x), w))) (sq_params sql)) (\<lambda>ps w.
       (Inr (JObject [(''params'', JArray ps), (''query'', JString q)]), w)))"

text \<open>An option that is prepared when it is present.\<close>

definition attempt_option ::
  "('a \<Rightarrow> ('r, 'x) vu \<Rightarrow> (prepare_error, 'b) result \<times> ('r, 'x) vu) \<Rightarrow> 'a option \<Rightarrow> ('r, 'x) vu \<Rightarrow> (prepare_error, 'b option) result \<times> ('r, 'x) vu" where
  "attempt_option f o' v =
     (case o' of None \<Rightarrow> (Inr None, v) | Some a \<Rightarrow> attempt (f a) (\<lambda>b w. (Inr (Some b), w)) v)"

definition plugin_options ::
  "('h, 'g, 'r, 'x) vu_services \<Rightarrow> run_context \<Rightarrow> 'r compiled_request \<Rightarrow> ('r, 'x) vu \<Rightarrow> (prepare_error, json option) result \<times> ('r, 'x) vu" where
  "plugin_options sv rc req =
     attempt (attempt_option (sql_plugin sv rc) (cq_sql req)) (\<lambda>sql w.
       let typed = (case sql of Some j \<Rightarrow> Some j | None \<Rightarrow> Option.bind (cq_sse req) sse_plugin)
       in if typed = None then attempt_option (render_json sv rc) (cq_plugin req) w else (Inr typed, w))"

definition prepare_options ::
  "('h, grpc_request, 'r, 'x) vu_services \<Rightarrow> run_context \<Rightarrow> 'r compiled_request \<Rightarrow> ('r, 'x) vu
     \<Rightarrow> (prepare_error, grpc_request request_options) result \<times> ('r, 'x) vu" where
  "prepare_options sv rc req =
     attempt (attempt_option (prepare_ws sv rc) (cq_ws req)) (\<lambda>ws.
     attempt (attempt_option (prepare_grpc sv rc req) (cq_grpc req)) (\<lambda>grpc.
     attempt (attempt_option (prepare_socket sv rc) (cq_socket req)) (\<lambda>socket.
     attempt (plugin_options sv rc req) (\<lambda>plugin w.
       (Inr \<lparr>ro_ws = ws, ro_grpc = grpc, ro_socket = socket, ro_plugin = plugin\<rparr>, w)))))"

definition prepare ::
  "('h, grpc_request, 'r, 'x) vu_services \<Rightarrow> run_context \<Rightarrow> http_defaults \<Rightarrow> 'r compiled_request \<Rightarrow> ('r, 'x) vu
     \<Rightarrow> (prepare_error, grpc_request prepared_request) result \<times> ('r, 'x) vu" where
  "prepare sv rc ht req =
     attempt (prepare_url sv rc ht req) (\<lambda>url0.
     attempt (prepare_params sv rc req url0) (\<lambda>url.
     attempt (prepare_headers sv rc ht req) (\<lambda>headers.
     attempt (prepare_body sv rc req) (\<lambda>(body, ct).
     attempt (prepare_options sv rc req) (\<lambda>options.
     attempt (\<lambda>v. case cq_name req of Some t \<Rightarrow> render_template sv rc t v | None \<Rightarrow> (Inr (cq_display_name req), v)) (\<lambda>name w.
       (Inr \<lparr>pq_name = name, pq_protocol = cq_protocol req, pq_method = cq_method req, pq_url = url,
             pq_headers = with_content_type ct headers, pq_body = body,
             pq_timeout = (case cq_timeout req of Some t \<Rightarrow> t | None \<Rightarrow> ht_timeout ht),
             pq_follow_redirects = (case cq_follow_redirects req of Some b \<Rightarrow> b | None \<Rightarrow> ht_follow_redirects ht),
             pq_max_redirects = ht_max_redirects ht, pq_options = options\<rparr>, w)))))))"

end
