(* ===== verification/Flow.thy ===== *)
theory Flow
  imports Request
begin

text \<open>
  The flow of an iteration (\<open>loadr-core/src/flow.rs\<close>): one request with its hooks, faults, metrics, extraction,
  assertions and checks, the interpreter of compiled steps, parallel branches, and the iteration around them. A step
  program is run by a recursive function on the steps; the loop of a \<open>during\<close> step, which ends by the clock, takes a
  bound on its rounds, and \<open>None\<close> means that the bound was too small.
\<close>

section \<open>Names and errors\<close>

definition is_alnum_or_underscore :: "char \<Rightarrow> bool" where
  "is_alnum_or_underscore c \<longleftrightarrow>
     (let n = of_char c :: nat in 48 \<le> n \<and> n \<le> 57 \<or> 97 \<le> n \<and> n \<le> 122 \<or> 65 \<le> n \<and> n \<le> 90) \<or> c = CHR ''_''"

definition trim_char :: "char \<Rightarrow> string \<Rightarrow> string" where
  "trim_char c s = rev (dropWhile (\<lambda>x. x = c) (rev (dropWhile (\<lambda>x. x = c) s)))"

definition metric_family :: "string \<Rightarrow> string" where
  "metric_family protocol =
     (let cleaned = map (\<lambda>c. let d = to_lower c in if is_alnum_or_underscore d then d else CHR ''_'') protocol;
          trimmed_name = trim_char CHR ''_'' cleaned
      in if trimmed_name = [] then ''plugin'' else trimmed_name)"

definition FAULT_DROP_ERROR :: string where
  "FAULT_DROP_ERROR = ''fault injected: request dropped before send''"

definition FAULT_DROP_RESPONSE_ERROR :: string where
  "FAULT_DROP_RESPONSE_ERROR = ''fault injected: response dropped''"

definition REQUEST_CANCELLED_ERROR :: string where
  "REQUEST_CANCELLED_ERROR = ''request cancelled''"

definition classify_transport_error :: "string \<Rightarrow> string" where
  "classify_transport_error err =
     (let e = to_ascii_lowercase err in
      if str_contains e ''fault injected'' then ''fault_injected''
      else if str_contains e ''cancelled'' \<or> str_contains e ''canceled'' then ''cancelled''
      else if str_contains e ''timed out'' \<or> str_contains e ''timeout'' then ''timeout''
      else if str_contains e ''dns'' \<or> str_contains e ''resolve'' \<or> str_contains e ''name or service'' then ''dns''
      else if str_contains e ''tls'' \<or> str_contains e ''certificate'' \<or> str_contains e ''ssl'' then ''tls''
      else if str_contains e ''refused'' then ''connection_refused''
      else if str_contains e ''reset'' \<or> str_contains e ''broken pipe'' \<or> str_contains e ''closed'' then ''connection_reset''
      else if str_contains e ''connect'' then ''connection''
      else ''transport'')"

text \<open>
  \<open>normalize_exception\<close>: quoted literals and numbers of the first line become placeholders. \<open>None\<close> stands for the
  ellipsis character while characters are counted; it is written in its three bytes at the end.
\<close>

fun normalize_chars :: "string \<Rightarrow> bool \<Rightarrow> nat \<Rightarrow> char option list" where
  "normalize_chars s prev 0 = []"
| "normalize_chars [] prev (Suc n) = []"
| "normalize_chars (c # s) prev (Suc n) =
     (if c = CHR 0x22 \<or> c = CHR 0x27 \<or> c = CHR 0x60 then
        (if prev then [] else [None]) @ normalize_chars (tl (dropWhile (\<lambda>q. q \<noteq> c) s)) True n
      else if ascii_digit c then (if prev then [] else [Some CHR ''N'']) @ normalize_chars s True n
      else Some c # normalize_chars s False n)"

definition ws_token :: "char option \<Rightarrow> bool" where
  "ws_token t \<longleftrightarrow> (case t of Some c \<Rightarrow> is_ws c | None \<Rightarrow> False)"

definition token_bytes :: "char option \<Rightarrow> string" where
  "token_bytes t = (case t of Some c \<Rightarrow> [c] | None \<Rightarrow> [CHR 0xE2, CHR 0x80, CHR 0xA6])"

definition normalize_exception :: "string \<Rightarrow> string" where
  "normalize_exception message =
     (let first = trim (takeWhile (\<lambda>c. c \<noteq> CHR 0x0A) message);
          out = normalize_chars first False (length first);
          trimmed_out = rev (dropWhile ws_token (rev (dropWhile ws_token out)));
          capped = take 120 trimmed_out
      in if capped = [] then ''exception'' else concat (map token_bytes capped))"

section \<open>Request metrics\<close>

definition json_as_f64 :: "json \<Rightarrow> f64 option" where
  "json_as_f64 j = (case j of JInt i \<Rightarrow> Some (rnd (of_int i)) | JFloat x \<Rightarrow> Some x | _ \<Rightarrow> None)"

definition extra :: "string \<Rightarrow> protocol_response \<Rightarrow> f64 option" where
  "extra key r = (case rs_extras r of JObject fs \<Rightarrow> Option.bind (map_of fs key) json_as_f64 | _ \<Rightarrow> None)"

definition opt_extra :: "string \<Rightarrow> string \<Rightarrow> protocol_response \<Rightarrow> (string \<times> metric_kind \<times> f64) list" where
  "opt_extra metric key r = (case extra key r of Some x \<Rightarrow> [(metric, Counter, x)] | None \<Rightarrow> [])"

text \<open>The samples of one completed or cancelled request, in the order they are emitted.\<close>

definition request_metrics :: "string \<Rightarrow> protocol_response \<Rightarrow> (string \<times> metric_kind \<times> f64) list" where
  "request_metrics protocol r =
     (let t = rs_timings r; failed = (if response_failed r then 1 else 0 :: f64);
          traffic = [(''data_sent'', Counter, f64_of_nat (rs_bytes_sent r)), (''data_received'', Counter, f64_of_nat (rs_bytes_received r))]
      in
      if protocol = ''http'' \<or> protocol = ''graphql'' then
        traffic @
        [(''http_reqs'', Counter, 1), (''http_req_duration'', Trend, duration_ms t), (''http_req_blocked'', Trend, blocked_ms t),
         (''http_req_connecting'', Trend, connect_ms t), (''http_req_tls_handshaking'', Trend, tls_ms t),
         (''http_req_sending'', Trend, sending_ms t), (''http_req_waiting'', Trend, waiting_ms t),
         (''http_req_receiving'', Trend, receiving_ms t), (''http_req_failed'', Rate, failed)] @
        (if protocol = ''graphql'' then [(''graphql_reqs'', Counter, 1), (''graphql_req_duration'', Trend, duration_ms t)] else [])
      else if protocol = ''grpc'' then
        traffic @ [(''grpc_reqs'', Counter, 1), (''grpc_req_duration'', Trend, duration_ms t), (''http_req_failed'', Rate, failed)]
      else if protocol = ''ws'' then
        traffic @
        [(''ws_connecting'', Trend, blocked_ms t), (''ws_session_duration'', Trend, duration_ms t),
         (''ws_msgs_sent'', Counter, case extra ''msgs_sent'' r of Some x \<Rightarrow> x | None \<Rightarrow> 0),
         (''ws_msgs_received'', Counter, case extra ''msgs_received'' r of Some x \<Rightarrow> x | None \<Rightarrow> 0),
         (''http_req_failed'', Rate, if rs_error r \<noteq> None then 1 else 0)]
      else
        let family = (if protocol = ''tcp'' \<or> protocol = ''udp'' then protocol
                      else if protocol = ''sse'' \<or> protocol = ''browser'' then ''plugin''
                      else metric_family protocol)
        in traffic @ [(family @ ''_reqs'', Counter, 1), (family @ ''_req_duration'', Trend, duration_ms t)] @
           opt_extra (family @ ''_docs'') ''docs'' r @ opt_extra (family @ ''_rows'') ''rows'' r @
           opt_extra (family @ ''_msgs'') ''msgs'' r @ [(''http_req_failed'', Rate, failed)])"

definition request_tag_extras :: "'g prepared_request \<Rightarrow> protocol_response \<Rightarrow> (string \<times> string) list" where
  "request_tag_extras req r =
     [(''name'', pq_name req), (''method'', pq_method req), (''status'', show_int (rs_status r)), (''proto'', pq_protocol req)] @
     (case rs_error r of Some e \<Rightarrow> [(''error_kind'', classify_transport_error e)] | None \<Rightarrow> [])"

text \<open>\<open>RequestMetricsGuard\<close>: a request counts as in flight until it completes or its future is dropped.\<close>

definition guard_new :: "('r, 'x) vu \<Rightarrow> ('r, 'x) vu" where
  "guard_new v = v\<lparr>vu_in_flight := vu_in_flight v + 1\<rparr>"

definition record_completed :: "'g prepared_request \<Rightarrow> protocol_response \<Rightarrow> ('r, 'x) vu \<Rightarrow> ('r, 'x) vu" where
  "record_completed req r v =
     (let (ts, v1) = cached_sample_tags (request_tag_extras req r) v;
          v2 = emit_values (request_metrics (pq_protocol req) r) ts v1
      in v2\<lparr>vu_in_flight := vu_in_flight v2 - 1\<rparr>)"

definition cancelled_response :: "'g prepared_request \<Rightarrow> f64 \<Rightarrow> protocol_response" where
  "cancelled_response req elapsed_ms =
     response_default\<lparr>rs_error := Some REQUEST_CANCELLED_ERROR, rs_url := pq_url req,
                      rs_timings := timings_default\<lparr>duration_ms := elapsed_ms\<rparr>\<rparr>"

definition guard_drop :: "'g prepared_request \<Rightarrow> f64 \<Rightarrow> ('r, 'x) vu \<Rightarrow> ('r, 'x) vu" where
  "guard_drop req elapsed_ms v =
     (let r = cancelled_response req elapsed_ms;
          v1 = emit_values (request_metrics (pq_protocol req) r) (sample_tags (request_tag_extras req r) v) v
      in v1\<lparr>vu_in_flight := vu_in_flight v1 - 1\<rparr>)"

section \<open>One request\<close>

datatype drop_mode = BeforeSend | AfterResponse

record fault_spec =
  ft_latency :: "latency_fault option"
  ft_drop_rate :: "f64 option"
  ft_drop_mode :: "drop_mode option"

definition faults_default :: fault_spec where
  "faults_default = \<lparr>ft_latency = None, ft_drop_rate = None, ft_drop_mode = None\<rparr>"

datatype request_flow = RfContinue | RfAbortIteration | RfStopVu | RfAbortScenario | RfAbortTest string

record program_env =
  pe_name :: string
  pe_exec :: "string option"
  pe_on_start :: "string option"
  pe_on_stop :: "string option"
  pe_think_time :: "think_time_spec option"
  pe_throttle :: "duration option"
  pe_faults :: "fault_spec option"
  pe_http :: http_defaults

definition is_truthy :: "json \<Rightarrow> bool" where
  "is_truthy j =
     (case j of
        JNull \<Rightarrow> False
      | JBool b \<Rightarrow> b
      | JInt i \<Rightarrow> \<not> f64_eq (rnd (of_int i)) 0
      | JFloat x \<Rightarrow> \<not> f64_eq x 0
      | JString s \<Rightarrow> s \<noteq> []
      | JArray _ \<Rightarrow> True
      | JObject _ \<Rightarrow> True)"

definition note_fault :: "string \<Rightarrow> ('r, 'x) vu \<Rightarrow> ('r, 'x) vu" where
  "note_fault kind v = emit_to_bus ''faults_injected'' Counter 1 (sample_tags [(''kind'', kind)] v) v"

definition record_exception :: "string \<Rightarrow> string \<Rightarrow> ('r, 'x) vu \<Rightarrow> ('r, 'x) vu" where
  "record_exception site message v =
     emit_to_bus ''vu_exceptions'' Counter 1 (sample_tags [(''exception'', normalize_exception message), (''site'', site)] v) v"

definition mark_failed :: "(string \<times> string) list \<Rightarrow> ('r, 'x) vu \<Rightarrow> ('r, 'x) vu" where
  "mark_failed extras v = emit_rate ''http_req_failed'' True (sample_tags extras v) v"

definition throttle_acquire :: "('h, 'g, 'r, 'x) vu_services \<Rightarrow> duration \<Rightarrow> ('r, 'x) vu \<Rightarrow> ('r, 'x) vu" where
  "throttle_acquire sv interval v =
     (let (now, v1) = on_rest (sv_now sv) v;
          (wait, slot) = reserve interval now (sh_next_slot (vu_shared v1));
          v2 = v1\<lparr>vu_shared := (vu_shared v1)\<lparr>sh_next_slot := slot\<rparr>\<rparr>
      in if wait \<noteq> 0 then on_world (sv_sleep sv wait) v2 else v2)"

definition inject_latency :: "('h, 'g, 'r, 'x) vu_services \<Rightarrow> program_env \<Rightarrow> ('r, 'x) vu \<Rightarrow> ('r, 'x) vu" where
  "inject_latency sv pe v =
     (case Option.bind (pe_faults pe) ft_latency of
        None \<Rightarrow> v
      | Some latency \<Rightarrow>
          let (pause, v1) = on_rng (sv_fault_jitter sv latency) v
          in if pause \<noteq> 0 then on_world (sv_sleep sv pause) (note_fault ''latency'' v1) else v1)"

definition json_headers :: "(string \<times> string) list \<Rightarrow> (string \<times> json) list" where
  "json_headers hs = sort_key fst (fold (\<lambda>(k, x). AList.update k (JString x)) hs [])"

text \<open>The hooks. The maps of headers the hooks are shown are sorted by name, as the other JSON objects are.\<close>

definition request_json :: "'g prepared_request \<Rightarrow> json" where
  "request_json req =
     JObject [(''body'', JString (pq_body req)), (''headers'', JObject (json_headers (pq_headers req))),
              (''method'', JString (pq_method req)), (''name'', JString (pq_name req)), (''url'', JString (pq_url req))]"

definition to_ascii_uppercase :: "string \<Rightarrow> string" where
  "to_ascii_uppercase s =
     map (\<lambda>c. let n = of_char c :: nat in if 97 \<le> n \<and> n \<le> 122 then char_of (n - 32) else c) s"

definition apply_request_overrides ::
  "(json \<Rightarrow> string) \<Rightarrow> (string \<times> json) list \<Rightarrow> 'g prepared_request \<Rightarrow> 'g prepared_request" where
  "apply_request_overrides show_json upd req =
     (let r1 = (case map_of upd ''url'' of Some (JString u) \<Rightarrow> req\<lparr>pq_url := u\<rparr> | _ \<Rightarrow> req);
          r2 = (case map_of upd ''method'' of Some (JString m) \<Rightarrow> r1\<lparr>pq_method := to_ascii_uppercase m\<rparr> | _ \<Rightarrow> r1);
          r3 = (case map_of upd ''headers'' of
                  Some (JObject hs) \<Rightarrow>
                    r2\<lparr>pq_headers := fold (\<lambda>(k, x). set_header k (json_to_string show_json x)) hs (pq_headers r2)\<rparr>
                | _ \<Rightarrow> r2)
      in (case map_of upd ''body'' of Some (JString b) \<Rightarrow> r3\<lparr>pq_body := b\<rparr> | _ \<Rightarrow> r3))"

definition before_request :: "('h, 'g, 'r, 'x) vu_services \<Rightarrow> 'g prepared_request \<Rightarrow> ('r, 'x) vu \<Rightarrow> 'g prepared_request \<times> ('r, 'x) vu" where
  "before_request sv req v =
     (if vu_script v \<and> sv_has_function sv ''beforeRequest'' (vu_rest v) then
        (case sv_run_script sv (ScriptCall ''beforeRequest'' [request_json req]) v of
           (Inr (JObject upd), v') \<Rightarrow> (apply_request_overrides (sv_show_json sv) upd req, v')
         | (_, v') \<Rightarrow> (req, v'))
      else (req, v))"

definition response_to_json :: "protocol_response \<Rightarrow> json" where
  "response_to_json r =
     JObject [(''body'', JString (rs_body r)), (''duration_ms'', JFloat (duration_ms (rs_timings r))),
              (''error'', case rs_error r of Some e \<Rightarrow> JString e | None \<Rightarrow> JNull),
              (''headers'', JObject (json_headers (map (apfst to_ascii_lowercase) (rs_headers r)))),
              (''protocol'', JString (rs_protocol_version r)), (''status'', JInt (rs_status r)),
              (''status_text'', JString (rs_status_text r)), (''url'', JString (rs_url r))]"

definition after_request :: "('h, 'g, 'r, 'x) vu_services \<Rightarrow> protocol_response \<Rightarrow> ('r, 'x) vu \<Rightarrow> ('r, 'x) vu" where
  "after_request sv r v =
     (if vu_script v \<and> sv_has_function sv ''afterRequest'' (vu_rest v)
      then snd (sv_run_script sv (ScriptCall ''afterRequest'' [response_to_json r]) v) else v)"

definition drop_decision :: "('h, 'g, 'r, 'x) vu_services \<Rightarrow> fault_spec \<Rightarrow> ('r, 'x) vu \<Rightarrow> bool \<times> ('r, 'x) vu" where
  "drop_decision sv ft v =
     (case ft_drop_rate ft of
        None \<Rightarrow> (False, v)
      | Some rate \<Rightarrow> if 0 < rate then (let (x, v') = on_rng (sv_random_unit sv 1) v in (x < rate, v')) else (False, v))"

text \<open>Sending the request, unless a fault drops it before, or drops its response after.\<close>

definition execute_request ::
  "('h, 'g, 'r, 'x) vu_services \<Rightarrow> 'h \<Rightarrow> 'g prepared_request \<Rightarrow> bool \<Rightarrow> drop_mode \<Rightarrow> ('r, 'x) vu \<Rightarrow> protocol_response \<times> ('r, 'x) vu" where
  "execute_request sv handler req drop_fault mode v =
     (if drop_fault \<and> mode = BeforeSend
      then (response_default\<lparr>rs_error := Some FAULT_DROP_ERROR, rs_url := pq_url req\<rparr>, note_fault ''drop'' v)
      else
        let (res, v1) = sv_execute sv handler req v;
            r = (case res of
                   Inr r \<Rightarrow> r
                 | Inl e \<Rightarrow> response_default\<lparr>rs_error := Some e, rs_url := pq_url req\<rparr>)
        in if drop_fault then (r\<lparr>rs_error := Some FAULT_DROP_RESPONSE_ERROR\<rparr>, note_fault ''drop'' v1) else (r, v1))"

text \<open>What a failed chain check or assertion asks for.\<close>

fun requested_flow :: "failure_action \<Rightarrow> string \<Rightarrow> request_flow \<Rightarrow> request_flow" where
  "requested_flow ContinueOn reason flow = flow"
| "requested_flow AbortIterationOn reason flow = RfAbortIteration"
| "requested_flow AbortScenarioOn reason flow = RfAbortScenario"
| "requested_flow AbortTestOn reason flow = RfAbortTest reason"

definition emit_check :: "string \<Rightarrow> bool \<Rightarrow> ('r, 'x) vu \<Rightarrow> ('r, 'x) vu" where
  "emit_check name pass v =
     (let (ts, v1) = cached_sample_tags [(''check'', name)] v in emit_to_bus ''checks'' Rate (if pass then 1 else 0) ts v1)"

fun run_extractors ::
  "'r extractor list \<Rightarrow> string \<Rightarrow> protocol_response \<Rightarrow> request_flow \<times> bool \<Rightarrow> ('r, 'x) vu \<Rightarrow> (request_flow \<times> bool) \<times> ('r, 'x) vu" where
  "run_extractors [] name r acc v = (acc, v)"
| "run_extractors (e # es) name r (flow, failed) v =
     (case on_rng (ex_extract e r) v of
        (Inr x, v1) \<Rightarrow>
          let v2 = (if ex_chain_with_check e then emit_check (ex_name e) True v1 else v1)
          in run_extractors es name r (flow, failed) (v2\<lparr>vu_vars := AList.update (ex_name e) x (vu_vars v2)\<rparr>)
      | (Inl (CheckFailed n action), v1) \<Rightarrow>
          run_extractors es name r
            (requested_flow action (''chain `'' @ n @ ''` check failed on `'' @ name @ ''`'') flow, True) (emit_check n False v1)
      | (Inl (ExtractOther _), v1) \<Rightarrow> run_extractors es name r (flow, True) v1)"

text \<open>A script condition sees the response as a variable for the time it is evaluated.\<close>

definition eval_condition :: "('h, 'g, 'r, 'x) vu_services \<Rightarrow> condition \<Rightarrow> protocol_response \<Rightarrow> ('r, 'x) vu \<Rightarrow> condition_result \<times> ('r, 'x) vu" where
  "eval_condition sv c r v =
     (let res = evaluate_condition (sv_from_str sv) c r in
      case cr_needs_js res of
        None \<Rightarrow> (res, v)
      | Some expr \<Rightarrow>
          if vu_script v then
            (let v1 = v\<lparr>vu_vars := AList.update ''response'' (response_to_json r) (vu_vars v)\<rparr>;
                 (out, v2) = sv_run_script sv (ScriptEval expr) v1;
                 v3 = v2\<lparr>vu_vars := AList.delete ''response'' (vu_vars v2)\<rparr>
             in (res\<lparr>cr_needs_js := None, cr_pass := (case out of Inr x \<Rightarrow> is_truthy x | Inl _ \<Rightarrow> False)\<rparr>, v3))
          else (res\<lparr>cr_needs_js := None, cr_pass := False\<rparr>, v))"

fun run_assertions ::
  "('h, 'g, 'r, 'x) vu_services \<Rightarrow> condition list \<Rightarrow> string \<Rightarrow> protocol_response \<Rightarrow> request_flow \<times> bool \<Rightarrow> ('r, 'x) vu
     \<Rightarrow> (request_flow \<times> bool) \<times> ('r, 'x) vu" where
  "run_assertions sv [] name r acc v = (acc, v)"
| "run_assertions sv (c # cs) name r (flow, failed) v =
     (let (res, v1) = eval_condition sv c r v in
      if cr_pass res then run_assertions sv cs name r (flow, failed) v1
      else run_assertions sv cs name r
             (requested_flow (cr_on_failure res) (''assertion `'' @ cr_name res @ ''` failed on `'' @ name @ ''`'') flow, True) v1)"

definition record_check :: "condition_result \<Rightarrow> ('r, 'x) vu \<Rightarrow> ('r, 'x) vu" where
  "record_check res v =
     (case cr_failure_group res of
        None \<Rightarrow> emit_check (cr_name res) (cr_pass res) v
      | Some g \<Rightarrow>
          emit_rate ''checks'' (cr_pass res)
            (sample_tags ([(''check'', cr_name res), (''failure_group'', fg_label g)] @
               (case fg_code g of Some c \<Rightarrow> [(''failure_code'', show_int c)] | None \<Rightarrow> [])) v) v)"

fun run_checks :: "('h, 'g, 'r, 'x) vu_services \<Rightarrow> condition list \<Rightarrow> protocol_response \<Rightarrow> ('r, 'x) vu \<Rightarrow> ('r, 'x) vu" where
  "run_checks sv [] r v = v"
| "run_checks sv (c # cs) r v = (let (res, v1) = eval_condition sv c r v in run_checks sv cs r (record_check res v1))"

text \<open>From the response on: metrics, extraction, plugin feedback, hook, assertions and checks.\<close>

definition finish_request ::
  "('h, 'g, 'r, 'x) vu_services \<Rightarrow> 'r compiled_request \<Rightarrow> 'g prepared_request \<Rightarrow> protocol_response \<Rightarrow> ('r, 'x) vu \<Rightarrow> request_flow \<times> ('r, 'x) vu" where
  "finish_request sv req prepared r v0 =
     (let v1 = record_completed prepared r v0;
          ((chain_flow, extraction_failed), v2) = run_extractors (cq_extract req) (pq_name prepared) r (RfContinue, False) v1;
          v3 = (if extraction_failed then mark_failed [(''name'', pq_name prepared)] v2 else v2);
          v4 = v3\<lparr>vu_rest := sv_report_result sv (row_identity_of (Some (cq_display_name req)) v3) r (vu_rest v3)\<rparr>;
          v5 = after_request sv r v4;
          ((flow, assert_failed), v6) = run_assertions sv (cq_assert req) (pq_name prepared) r (chain_flow, False) v5;
          v7 = (if assert_failed then mark_failed [(''name'', pq_name prepared)] v6 else v6);
          v8 = run_checks sv (cq_checks req) r v7
      in (flow, v8\<lparr>vu_last_request_failed := (response_failed r \<or> assert_failed \<or> extraction_failed)\<rparr>))"

definition run_request ::
  "('h, grpc_request, 'r, 'x) vu_services \<Rightarrow> run_context \<Rightarrow> program_env \<Rightarrow> 'r compiled_request \<Rightarrow> ('r, 'x) vu \<Rightarrow> request_flow \<times> ('r, 'x) vu" where
  "run_request sv rc pe req v0 =
     (let v1 = (case pe_throttle pe of Some interval \<Rightarrow> throttle_acquire sv interval v0 | None \<Rightarrow> v0);
          v2 = inject_latency sv pe v1;
          (result, v3) = prepare sv rc (pe_http pe) req (begin_vu_request sv rc (cq_display_name req) v2);
          v4 = v3\<lparr>vu_current_request := None\<rparr>
      in case result of
           Inl DataExhausted \<Rightarrow> (RfStopVu, v4)
         | Inl (PrepareOther _) \<Rightarrow> (RfContinue, mark_failed [(''name'', cq_display_name req), (''error'', ''prepare'')] v4)
         | Inr prepared0 \<Rightarrow>
             let (prepared, v5) = before_request sv prepared0 v4 in
             (case map_of (sv_handlers sv) (pq_protocol prepared) of
                None \<Rightarrow> (RfContinue, mark_failed [(''name'', pq_name prepared), (''error'', ''protocol'')] v5)
              | Some handler \<Rightarrow>
                  let ft = (case pe_faults pe of Some f \<Rightarrow> f | None \<Rightarrow> faults_default);
                      (drop_fault, v6) = drop_decision sv ft v5;
                      mode = (case ft_drop_mode ft of Some m \<Rightarrow> m | None \<Rightarrow> BeforeSend);
                      (r, v7) = execute_request sv handler prepared drop_fault mode (guard_new v6)
                  in finish_request sv req prepared r v7))"

end
