(* ===== verification/Flow_Steps.thy ===== *)
theory Flow_Steps
  imports Flow
begin

text \<open>
  The interpreter of compiled steps, parallel branches and the iteration (\<open>run_steps\<close>, \<open>run_parallel\<close>,
  \<open>run_iteration\<close> and \<open>run_on_stop\<close> of \<open>loadr-core/src/flow.rs\<close>). The branches of a \<open>parallel\<close> step run
  concurrently; each gets the answers its own task gets from the services, whatever the interleaving, so a branch is
  run on its own child context and the services say what is left of the shared state when all have ended.
\<close>

datatype switch_strategy = RoundRobin | Uniform | Weighted

datatype 'r step =
    StRequest "'r compiled_request"
  | StThinkTime think_time_spec
  | StJs "string option" "string option"
  | StGroup string "'r step list"
  | StRepeat nat "string option" "'r step list"
  | StWhile string nat "'r step list"
  | StIf string "'r step list" "'r step list"
  | StRandom switch_strategy "'r choice list" nat
  | StForeach json string string "'r step list"
  | StSwitch template "'r switch_case list" "'r step list"
  | StDuring duration string "'r step list"
  | StRetry nat "string option" "duration option" "'r step list"
  | StParallel "'r step list list"
  | StRendezvous string nat duration
and 'r choice = Choice (ch_weight: f64) (ch_name: "string option") (ch_steps: "'r step list")
and 'r switch_case = SwitchCase (sc_key: string) (sc_steps: "'r step list")

section \<open>Loops\<close>

type_synonym ('r, 'x) run = "(iteration_outcome \<times> ('r, 'x) vu) option"

text \<open>\<open>if outcome != Completed { return outcome; }\<close>\<close>

definition and_then :: "('r, 'x) run \<Rightarrow> (('r, 'x) vu \<Rightarrow> ('r, 'x) run) \<Rightarrow> ('r, 'x) run" where
  "and_then r k = (case r of None \<Rightarrow> None | Some (out, v) \<Rightarrow> if out = Completed then k v else Some (out, v))"

definition set_var :: "string \<Rightarrow> json \<Rightarrow> ('r, 'x) vu \<Rightarrow> ('r, 'x) vu" where
  "set_var k x v = v\<lparr>vu_vars := AList.update k x (vu_vars v)\<rparr>"

fun repeat_loop :: "string \<Rightarrow> (('r, 'x) vu \<Rightarrow> ('r, 'x) run) \<Rightarrow> nat \<Rightarrow> nat \<Rightarrow> ('r, 'x) vu \<Rightarrow> ('r, 'x) run" where
  "repeat_loop var body i 0 v = Some (Completed, v)"
| "repeat_loop var body i (Suc n) v = and_then (body (set_var var (JInt (int i)) v)) (repeat_loop var body (Suc i) n)"

fun while_loop :: "(('r, 'x) vu \<Rightarrow> bool \<times> ('r, 'x) vu) \<Rightarrow> (('r, 'x) vu \<Rightarrow> ('r, 'x) run) \<Rightarrow> nat \<Rightarrow> ('r, 'x) vu \<Rightarrow> ('r, 'x) run" where
  "while_loop test body 0 v = Some (Completed, v)"
| "while_loop test body (Suc n) v =
     (let (b, v1) = test v in if b then and_then (body v1) (while_loop test body n) else Some (Completed, v1))"

fun foreach_loop :: "string \<Rightarrow> string \<Rightarrow> (('r, 'x) vu \<Rightarrow> ('r, 'x) run) \<Rightarrow> nat \<Rightarrow> json list \<Rightarrow> ('r, 'x) vu \<Rightarrow> ('r, 'x) run" where
  "foreach_loop var index body i [] v = Some (Completed, v)"
| "foreach_loop var index body i (x # xs) v =
     and_then (body (set_var index (JInt (int i)) (set_var var x v))) (foreach_loop var index body (Suc i) xs)"

text \<open>The rounds of \<open>during\<close> are bounded by the first argument.\<close>

fun during_loop ::
  "nat \<Rightarrow> (('r, 'x) vu \<Rightarrow> nat \<times> ('r, 'x) vu) \<Rightarrow> string \<Rightarrow> nat \<Rightarrow> (('r, 'x) vu \<Rightarrow> ('r, 'x) run) \<Rightarrow> nat \<Rightarrow> ('r, 'x) vu \<Rightarrow> ('r, 'x) run" where
  "during_loop 0 now counter deadline body i v = None"
| "during_loop (Suc fuel) now counter deadline body i v =
     (let (t, v1) = now v in
      if t < deadline
      then and_then (body (set_var counter (JInt (int i)) v1)) (during_loop fuel now counter deadline body (Suc i))
      else Some (Completed, v1))"

fun retry_loop ::
  "(('r, 'x) vu \<Rightarrow> bool \<times> ('r, 'x) vu) \<Rightarrow> (('r, 'x) vu \<Rightarrow> ('r, 'x) vu) \<Rightarrow> (('r, 'x) vu \<Rightarrow> ('r, 'x) run) \<Rightarrow> nat \<Rightarrow> nat \<Rightarrow> ('r, 'x) vu \<Rightarrow> ('r, 'x) run" where
  "retry_loop ok pause body attempt_no 0 v = Some (Completed, v)"
| "retry_loop ok pause body attempt_no (Suc n) v =
     and_then (body ((set_var ''attempt'' (JInt (int attempt_no)) v)\<lparr>vu_last_request_failed := False\<rparr>)) (\<lambda>v1.
       let (b, v2) = ok v1 in
       if b then Some (Completed, v2)
       else retry_loop ok pause body (Suc attempt_no) n (if 0 < n then pause v2 else v2))"

section \<open>Decisions\<close>

definition eval_condition_bool :: "('h, 'g, 'r, 'x) vu_services \<Rightarrow> string \<Rightarrow> ('r, 'x) vu \<Rightarrow> bool \<times> ('r, 'x) vu" where
  "eval_condition_bool sv expr v =
     (if \<not> vu_script v then (False, v)
      else
        (case sv_run_script sv (ScriptEval expr) v of
           (Inr x, v') \<Rightarrow> (is_truthy x, v')
         | (Inl _, v') \<Rightarrow> (False, v')))"

fun weighted_pick :: "f64 list \<Rightarrow> f64 \<Rightarrow> nat \<Rightarrow> nat option" where
  "weighted_pick [] pick i = None"
| "weighted_pick (w # ws) pick i =
     (let p = pick - f64_max w 0 in if p < 0 then Some i else weighted_pick ws p (Suc i))"

definition pick_branch ::
  "('h, 'g, 'r, 'x) vu_services \<Rightarrow> switch_strategy \<Rightarrow> f64 list \<Rightarrow> nat \<Rightarrow> ('r, 'x) vu \<Rightarrow> nat \<times> ('r, 'x) vu" where
  "pick_branch sv strategy weights key v =
     (case strategy of
        RoundRobin \<Rightarrow>
          let n = (case map_of (sh_round_robin (vu_shared v)) key of Some n \<Rightarrow> n | None \<Rightarrow> 0)
          in (n mod length weights,
              v\<lparr>vu_shared := (vu_shared v)\<lparr>sh_round_robin := AList.update key (n + 1) (sh_round_robin (vu_shared v))\<rparr>\<rparr>)
      | Uniform \<Rightarrow> on_rng (sv_random_range sv (length weights)) v
      | Weighted \<Rightarrow>
          let total = foldl (+) 0 (map (\<lambda>w. f64_max w 0) weights) in
          if total \<le> 0 then on_rng (sv_random_range sv (length weights)) v
          else
            let (pick, v1) = on_rng (sv_random_unit sv total) v
            in (case weighted_pick weights pick 0 of Some i \<Rightarrow> i | None \<Rightarrow> length weights - 1, v1))"

definition resolve_items ::
  "('h, 'g, 'r, 'x) vu_services \<Rightarrow> run_context \<Rightarrow> json \<Rightarrow> ('r, 'x) vu \<Rightarrow> json list \<times> ('r, 'x) vu" where
  "resolve_items sv rc items v =
     (case items of
        JArray a \<Rightarrow> (a, v)
      | JString s \<Rightarrow>
          (case render_str sv rc s v of
             (Inr rendered, v') \<Rightarrow>
               (case sv_from_str sv rendered of
                  Some (JArray a) \<Rightarrow> (a, v')
                | Some other \<Rightarrow> ([other], v')
                | None \<Rightarrow> ([], v'))
           | (Inl _, v') \<Rightarrow> ([], v'))
      | other \<Rightarrow> ([other], v))"

definition push_group :: "string \<Rightarrow> ('r, 'x) vu \<Rightarrow> ('r, 'x) vu" where
  "push_group name v = v\<lparr>vu_groups := vu_groups v @ [name]\<rparr>"

definition pop_group :: "('r, 'x) vu \<Rightarrow> ('r, 'x) vu" where
  "pop_group v = v\<lparr>vu_groups := butlast (vu_groups v)\<rparr>"

definition within_group :: "string \<Rightarrow> (('r, 'x) vu \<Rightarrow> ('r, 'x) run) \<Rightarrow> ('r, 'x) vu \<Rightarrow> ('r, 'x) run" where
  "within_group name body v =
     (case body (push_group name v) of None \<Rightarrow> None | Some (out, v') \<Rightarrow> Some (out, pop_group v'))"

definition think :: "('h, 'g, 'r, 'x) vu_services \<Rightarrow> think_time_spec \<Rightarrow> ('r, 'x) vu \<Rightarrow> ('r, 'x) vu" where
  "think sv tt v = (let (pause, v1) = on_rng (sv_think sv tt) v in on_world (sv_sleep sv pause) v1)"

definition js_step :: "('h, 'g, 'r, 'x) vu_services \<Rightarrow> run_context \<Rightarrow> string option \<Rightarrow> string option \<Rightarrow> ('r, 'x) vu \<Rightarrow> ('r, 'x) vu" where
  "js_step sv rc call code v =
     (if \<not> vu_script v then v
      else
        (case (case call of
                 Some name \<Rightarrow> Some (ScriptCall name [rc_setup_data rc])
               | None \<Rightarrow> map_option ScriptEval code) of
           None \<Rightarrow> v
         | Some invocation \<Rightarrow>
             (case sv_run_script sv invocation v of
                (Inl e, v') \<Rightarrow> record_exception ''js_step'' e v'
              | (Inr _, v') \<Rightarrow> v')))"

definition rendezvous :: "('h, 'g, 'r, 'x) vu_services \<Rightarrow> string \<Rightarrow> nat \<Rightarrow> duration \<Rightarrow> ('r, 'x) vu \<Rightarrow> ('r, 'x) vu" where
  "rendezvous sv name users timeout v =
     (let sh = vu_shared v;
          sh' = (if contains_key (sh_barriers sh) name then sh
                 else sh\<lparr>sh_barriers := AList.update name (max users 1) (sh_barriers sh)\<rparr>)
      in on_world (sv_barrier_wait sv name (case map_of (sh_barriers sh') name of Some n \<Rightarrow> n | None \<Rightarrow> max users 1) timeout)
           (v\<lparr>vu_shared := sh'\<rparr>))"

section \<open>Parallel branches\<close>

definition child_context :: "('h, 'g, 'r, 'x) vu_services \<Rightarrow> nat \<Rightarrow> ('r, 'x) vu \<Rightarrow> ('r, 'x) vu" where
  "child_context sv branch v =
     v\<lparr>vu_tag_cache := [], vu_current_rows := [], vu_current_request := None, vu_last_request_failed := False,
       vu_script := False, vu_emitted := [], vu_in_flight := 0, vu_rng := fst (sv_child sv branch v), vu_rest := snd (sv_child sv branch v)\<rparr>"

definition merge_vars :: "('r, 'x) vu list \<Rightarrow> ('r, 'x) vu \<Rightarrow> ('r, 'x) vu" where
  "merge_vars children v =
     v\<lparr>vu_vars := fold (\<lambda>child vars. fold (\<lambda>(k, x). AList.update k x) (vu_vars child) vars) children (vu_vars v)\<rparr>"

fun strongest :: "iteration_outcome list \<Rightarrow> iteration_outcome" where
  "strongest [] = Completed"
| "strongest (AbortTest r # os) = AbortTest r"
| "strongest (AbortScenario # os) = AbortScenario"
| "strongest (_ # os) = strongest os"

definition join_branches :: "('h, 'g, 'r, 'x) vu_services \<Rightarrow> (iteration_outcome \<times> ('r, 'x) vu) list \<Rightarrow> ('r, 'x) vu \<Rightarrow> iteration_outcome \<times> ('r, 'x) vu" where
  "join_branches sv results v =
     (let children = map snd results;
          v1 = merge_vars children v;
          (sh, rest) = sv_join sv children v
      in (strongest (map fst results),
          v1\<lparr>vu_last_request_failed := list_ex vu_last_request_failed children,
             vu_emitted := vu_emitted v @ concat (map vu_emitted children),
             vu_in_flight := vu_in_flight v + sum_list (map vu_in_flight children),
             vu_shared := sh, vu_rest := rest\<rparr>))"

section \<open>The interpreter\<close>

fun flow_outcome :: "request_flow \<Rightarrow> iteration_outcome option" where
  "flow_outcome RfContinue = None"
| "flow_outcome RfAbortIteration = Some Completed"
| "flow_outcome RfStopVu = Some StopVu"
| "flow_outcome RfAbortScenario = Some AbortScenario"
| "flow_outcome (RfAbortTest reason) = Some (AbortTest reason)"

definition request_step ::
  "('h, grpc_request, 'r, 'x) vu_services \<Rightarrow> run_context \<Rightarrow> program_env \<Rightarrow> 'r compiled_request \<Rightarrow> ('r, 'x) vu
     \<Rightarrow> iteration_outcome option \<times> ('r, 'x) vu" where
  "request_step sv rc pe req v =
     (let (flow, v1) = run_request sv rc pe req v in
      case flow_outcome flow of
        Some out \<Rightarrow> (Some out, v1)
      | None \<Rightarrow> (None, case pe_think_time pe of Some tt \<Rightarrow> think sv tt v1 | None \<Rightarrow> v1))"

text \<open>After a block: any outcome but \<open>Completed\<close> is returned from the list the block occurs in.\<close>

definition settled :: "('r, 'x) run \<Rightarrow> (iteration_outcome option \<times> ('r, 'x) vu) option" where
  "settled r = map_option (\<lambda>(out, v). (if out = Completed then None else Some out, v)) r"

definition switch_key :: "('h, 'g, 'r, 'x) vu_services \<Rightarrow> run_context \<Rightarrow> template \<Rightarrow> ('r, 'x) vu \<Rightarrow> string \<times> ('r, 'x) vu" where
  "switch_key sv rc t v = (case render_template sv rc t v of (Inr k, v1) \<Rightarrow> (k, v1) | (Inl _, v1) \<Rightarrow> ([], v1))"

definition retry_ok :: "('h, 'g, 'r, 'x) vu_services \<Rightarrow> string option \<Rightarrow> ('r, 'x) vu \<Rightarrow> bool \<times> ('r, 'x) vu" where
  "retry_ok sv until v = (case until of Some expr \<Rightarrow> eval_condition_bool sv expr v | None \<Rightarrow> (\<not> vu_last_request_failed v, v))"

definition retry_pause :: "('h, 'g, 'r, 'x) vu_services \<Rightarrow> duration option \<Rightarrow> ('r, 'x) vu \<Rightarrow> ('r, 'x) vu" where
  "retry_pause sv backoff v = (case backoff of Some b \<Rightarrow> on_world (sv_sleep sv b) v | None \<Rightarrow> v)"

text \<open>
  One step either falls through to the next (\<open>None\<close> in the first component) or returns from the list of steps. An
  aborted iteration returns \<open>Completed\<close> from the list the request occurs in.
\<close>

primrec run_flow_step ::
  "('h, grpc_request, 'r, 'x) vu_services \<Rightarrow> run_context \<Rightarrow> program_env \<Rightarrow> nat \<Rightarrow> 'r step \<Rightarrow> ('r, 'x) vu
     \<Rightarrow> (iteration_outcome option \<times> ('r, 'x) vu) option"
and run_choice ::
  "('h, grpc_request, 'r, 'x) vu_services \<Rightarrow> run_context \<Rightarrow> program_env \<Rightarrow> nat \<Rightarrow> 'r choice \<Rightarrow> string \<Rightarrow> ('r, 'x) vu \<Rightarrow> ('r, 'x) run"
and run_switch_case ::
  "('h, grpc_request, 'r, 'x) vu_services \<Rightarrow> run_context \<Rightarrow> program_env \<Rightarrow> nat \<Rightarrow> 'r switch_case \<Rightarrow> ('r, 'x) vu \<Rightarrow> ('r, 'x) run"
and run_steps ::
  "('h, grpc_request, 'r, 'x) vu_services \<Rightarrow> run_context \<Rightarrow> program_env \<Rightarrow> nat \<Rightarrow> 'r step list \<Rightarrow> ('r, 'x) vu \<Rightarrow> ('r, 'x) run"
and run_choices ::
  "('h, grpc_request, 'r, 'x) vu_services \<Rightarrow> run_context \<Rightarrow> program_env \<Rightarrow> nat \<Rightarrow> 'r choice list \<Rightarrow> nat \<Rightarrow> string \<Rightarrow> ('r, 'x) vu \<Rightarrow> ('r, 'x) run"
and run_cases ::
  "('h, grpc_request, 'r, 'x) vu_services \<Rightarrow> run_context \<Rightarrow> program_env \<Rightarrow> nat \<Rightarrow> 'r switch_case list \<Rightarrow> string \<Rightarrow> (('r, 'x) vu \<Rightarrow> ('r, 'x) run) \<Rightarrow> ('r, 'x) vu \<Rightarrow> ('r, 'x) run"
and run_branches ::
  "('h, grpc_request, 'r, 'x) vu_services \<Rightarrow> run_context \<Rightarrow> program_env \<Rightarrow> nat \<Rightarrow> 'r step list list \<Rightarrow> nat \<Rightarrow> ('r, 'x) vu
     \<Rightarrow> (iteration_outcome \<times> ('r, 'x) vu) list option" where
  "run_flow_step sv rc pe fuel (StRequest req) = (\<lambda>v. Some (request_step sv rc pe req v))"
| "run_flow_step sv rc pe fuel (StThinkTime tt) = (\<lambda>v. Some (None, think sv tt v))"
| "run_flow_step sv rc pe fuel (StJs call code) = (\<lambda>v. Some (None, js_step sv rc call code v))"
| "run_flow_step sv rc pe fuel (StGroup name ss) = (\<lambda>v. settled (within_group name (run_steps sv rc pe fuel ss) v))"
| "run_flow_step sv rc pe fuel (StRepeat n counter ss) = (\<lambda>v.
     settled (repeat_loop (case counter of Some c \<Rightarrow> c | None \<Rightarrow> ''index'') (run_steps sv rc pe fuel ss) 0 n v))"
| "run_flow_step sv rc pe fuel (StWhile cond max_iterations ss) = (\<lambda>v.
     settled (while_loop (eval_condition_bool sv cond) (run_steps sv rc pe fuel ss) max_iterations v))"
| "run_flow_step sv rc pe fuel (StIf cond th el) = (\<lambda>v.
     let (b, v1) = eval_condition_bool sv cond v
     in settled (if b then run_steps sv rc pe fuel th v1 else run_steps sv rc pe fuel el v1))"
| "run_flow_step sv rc pe fuel (StRandom strategy choices key) = (\<lambda>v.
     if choices = [] then Some (None, v)
     else
       let (idx, v1) = pick_branch sv strategy (map ch_weight choices) key v
       in settled (run_choices sv rc pe fuel choices idx (''branch-'' @ show_nat idx) v1))"
| "run_flow_step sv rc pe fuel (StForeach items var index ss) = (\<lambda>v.
     let (xs, v1) = resolve_items sv rc items v
     in settled (foreach_loop var index (run_steps sv rc pe fuel ss) 0 xs v1))"
| "run_flow_step sv rc pe fuel (StSwitch t cases dflt) = (\<lambda>v.
     let (key, v1) = switch_key sv rc t v
     in settled (run_cases sv rc pe fuel cases key (run_steps sv rc pe fuel dflt) v1))"
| "run_flow_step sv rc pe fuel (StDuring d counter ss) = (\<lambda>v.
     let (t, v1) = on_rest (sv_now sv) v
     in settled (during_loop fuel (on_rest (sv_now sv)) counter (t + d) (run_steps sv rc pe fuel ss) 0 v1))"
| "run_flow_step sv rc pe fuel (StRetry n until backoff ss) = (\<lambda>v.
     settled (retry_loop (retry_ok sv until) (retry_pause sv backoff) (run_steps sv rc pe fuel ss) 0 (max n 1) v))"
| "run_flow_step sv rc pe fuel (StParallel branches) = (\<lambda>v.
     settled (map_option (\<lambda>results. join_branches sv results v) (run_branches sv rc pe fuel branches 0 v)))"
| "run_flow_step sv rc pe fuel (StRendezvous name users timeout) = (\<lambda>v. Some (None, rendezvous sv name users timeout v))"
| "run_choice sv rc pe fuel (Choice w name ss) =
     (\<lambda>label. within_group (case name of Some n \<Rightarrow> n | None \<Rightarrow> label) (run_steps sv rc pe fuel ss))"
| "run_switch_case sv rc pe fuel (SwitchCase k ss) = run_steps sv rc pe fuel ss"
| "run_steps sv rc pe fuel [] = (\<lambda>v. Some (Completed, v))"
| "run_steps sv rc pe fuel (s # ss) = (\<lambda>v.
     case run_flow_step sv rc pe fuel s v of
       None \<Rightarrow> None
     | Some (Some out, v1) \<Rightarrow> Some (out, v1)
     | Some (None, v1) \<Rightarrow> run_steps sv rc pe fuel ss v1)"
| "run_choices sv rc pe fuel [] = (\<lambda>i label v. Some (Completed, v))"
| "run_choices sv rc pe fuel (c # cs) = (\<lambda>i label v.
     if i = 0 then run_choice sv rc pe fuel c label v else run_choices sv rc pe fuel cs (i - 1) label v)"
| "run_cases sv rc pe fuel [] = (\<lambda>key dflt v. dflt v)"
| "run_cases sv rc pe fuel (c # cs) = (\<lambda>key dflt v.
     if sc_key c = key then run_switch_case sv rc pe fuel c v else run_cases sv rc pe fuel cs key dflt v)"
| "run_branches sv rc pe fuel [] = (\<lambda>i v. Some [])"
| "run_branches sv rc pe fuel (b # bs) = (\<lambda>i v.
     case run_steps sv rc pe fuel b (child_context sv i v) of
       None \<Rightarrow> None
     | Some r \<Rightarrow>
         (case run_branches sv rc pe fuel bs (Suc i) v of None \<Rightarrow> None | Some rs \<Rightarrow> Some (r # rs)))"

section \<open>The iteration\<close>

definition run_on_start :: "('h, 'g, 'r, 'x) vu_services \<Rightarrow> run_context \<Rightarrow> program_env \<Rightarrow> ('r, 'x) vu \<Rightarrow> ('r, 'x) vu" where
  "run_on_start sv rc pe v =
     (case pe_on_start pe of
        Some f \<Rightarrow>
          if vu_iteration v = 1 \<and> vu_script v \<and> sv_has_function sv f (vu_rest v) then
            (case sv_run_script sv (ScriptCall f [rc_setup_data rc]) v of
               (Inl e, v') \<Rightarrow> record_exception ''on_start'' e v'
             | (Inr _, v') \<Rightarrow> v')
          else v
      | None \<Rightarrow> v)"

definition run_exec :: "('h, 'g, 'r, 'x) vu_services \<Rightarrow> run_context \<Rightarrow> program_env \<Rightarrow> iteration_outcome \<times> ('r, 'x) vu \<Rightarrow> iteration_outcome \<times> ('r, 'x) vu" where
  "run_exec sv rc pe r =
     (case r of (out, v) \<Rightarrow>
        (case (out, pe_exec pe) of
           (Completed, Some f) \<Rightarrow>
             if vu_script v then
               (let args = [rc_setup_data rc,
                            JObject [(''iteration'', JInt (int (vu_iteration v - 1))), (''scenario'', JString (vu_scenario v)),
                                     (''vu'', JInt (int (vu_id v)))]]
                in case sv_run_script sv (ScriptCall f args) v of
                     (Inl e, v') \<Rightarrow> (out, record_exception ''exec'' e (mark_failed [(''scenario_fn'', f)] v'))
                   | (Inr _, v') \<Rightarrow> (out, v'))
             else
               (AbortTest (''scenario `'' @ pe_name pe @ ''` requires JS function `'' @ f @
                           ''` but no script engine is configured''), v)
         | _ \<Rightarrow> (out, v)))"

definition run_iteration ::
  "('h, grpc_request, 'r, 'x) vu_services \<Rightarrow> run_context \<Rightarrow> program_env \<Rightarrow> nat \<Rightarrow> 'r step list \<Rightarrow> ('r, 'x) vu \<Rightarrow> ('r, 'x) run" where
  "run_iteration sv rc pe fuel steps v0 =
     (let v1 = run_on_start sv rc pe (begin_iteration sv v0);
          (started, v2) = on_rest (sv_now sv) v1
      in case run_steps sv rc pe fuel steps v2 of
           None \<Rightarrow> None
         | Some r \<Rightarrow>
             let (out, v3) = run_exec sv rc pe r;
                 (ts, v4) = cached_sample_tags [] v3;
                 (ended, v5) = on_rest (sv_now sv) v4
             in Some (out, emit_values [(''iterations'', Counter, 1),
                                        (''iteration_duration'', Trend, as_secs_f64 (ended - started) * Fin 1000)] ts v5))"

definition run_on_stop :: "('h, 'g, 'r, 'x) vu_services \<Rightarrow> run_context \<Rightarrow> program_env \<Rightarrow> ('r, 'x) vu \<Rightarrow> ('r, 'x) vu" where
  "run_on_stop sv rc pe v =
     (case pe_on_stop pe of
        Some f \<Rightarrow>
          if vu_iteration v \<noteq> 0 \<and> vu_script v \<and> sv_has_function sv f (vu_rest v) then
            (case sv_run_script sv (ScriptCall f [rc_setup_data rc]) v of
               (Inl e, v') \<Rightarrow> record_exception ''on_stop'' e v'
             | (Inr _, v') \<Rightarrow> v')
          else v
      | None \<Rightarrow> v)"

end
