(* ===== verification/Flow_Inv.thy ===== *)
theory Flow_Inv
  imports Flow_Steps
begin

text \<open>
  What every flow preserves, proved once: a relation between the context before and after that is a preorder, holds across
  each service call and local update, and is restored when a group is left, a request completes and parallel
  branches join, holds across whole requests, steps and iterations. It is used for the frame of a flow (group stack,
  requests in flight, samples only added) and for the clock.
\<close>

definition preserves :: "(('r, 'x) vu \<Rightarrow> ('r, 'x) vu \<Rightarrow> bool) \<Rightarrow> (('r, 'x) vu \<Rightarrow> 'a \<times> ('r, 'x) vu) \<Rightarrow> bool" where
  "preserves R m \<longleftrightarrow> (\<forall>v. R v (snd (m v)))"

definition preserves_run :: "(('r, 'x) vu \<Rightarrow> ('r, 'x) vu \<Rightarrow> bool) \<Rightarrow> (('r, 'x) vu \<Rightarrow> ('o \<times> ('r, 'x) vu) option) \<Rightarrow> bool" where
  "preserves_run R m \<longleftrightarrow> (\<forall>v out w. m v = Some (out, w) \<longrightarrow> R v w)"

locale render_relation =
  fixes sv :: "('h, grpc_request, 'r, 'x) vu_services"
    and R :: "('r, 'x) vu \<Rightarrow> ('r, 'x) vu \<Rightarrow> bool"
  assumes refl: "R v v"
    and trans: "R u v \<Longrightarrow> R v w \<Longrightarrow> R u w"
    and locals: "R v (v\<lparr>vu_tag_cache := c, vu_vars := a, vu_current_rows := b, vu_current_request := q, vu_rng := g\<rparr>)"
    and rows: "sv_next_row sv s rid (g, vu_rest v) = (r, g', x) \<Longrightarrow> R v (v\<lparr>vu_rest := x\<rparr>)"
    and draws_uuid: "R v (v\<lparr>vu_rest := snd (sv_uuid sv (vu_rest v))\<rparr>)"
    and runs_script: "R v (snd (sv_run_script sv call v))"
begin

lemma preservesI: "(\<And>v. R v (snd (m v))) \<Longrightarrow> preserves R m"
  by (simp add: preserves_def)

lemma preservesD: "preserves R m \<Longrightarrow> m v = (r, w) \<Longrightarrow> R v w"
  by (metis preserves_def snd_conv)

lemma preservesD': "preserves R m \<Longrightarrow> R v (snd (m v))"
  by (simp add: preserves_def)

lemma preserves_pair [simp]: "preserves R (\<lambda>v. (f v, v))"
  by (simp add: preserves_def refl)

lemma preserves_attempt: "preserves R m \<Longrightarrow> (\<And>a. preserves R (k a)) \<Longrightarrow> preserves R (attempt m k)"
  unfolding preserves_def attempt_def by (auto split: prod.splits sum.splits) (metis snd_conv trans)+

lemma preserves_map: "preserves R m \<Longrightarrow> preserves R (attempt m (\<lambda>x w. (f x, w)))"
  by (rule preserves_attempt) simp_all

lemma preserves_mapD: "preserves R m \<Longrightarrow> R v (snd (attempt m (\<lambda>x w. (f x, w)) v))"
  using preserves_map by (auto simp: preserves_def)

lemma preserves_attempt_map: "(\<And>a. preserves R (f a)) \<Longrightarrow> preserves R (attempt_map f xs)"
proof (induction xs)
  case Nil
  then show ?case by (simp add: preserves_def refl)
next
  case (Cons x xs)
  then have "preserves R (attempt (f x) (\<lambda>y. attempt (attempt_map f xs) (\<lambda>ys w. (Inr (y # ys), w))))"
    by (intro preserves_attempt) (auto simp: preserves_def refl)
  then show ?case by (simp add: preserves_def)
qed

lemma preserves_trans_update: "R v w \<Longrightarrow> R v (w\<lparr>vu_current_rows := b\<rparr>)"
  using trans [OF _ locals [where v = "w" and c = "vu_tag_cache w" and a = "vu_vars w" and b = "b" and q = "vu_current_request w" and g = "vu_rng w"]] by simp

lemma local_vars: "R v (v\<lparr>vu_vars := a\<rparr>)"
  using locals [where v = "v" and c = "vu_tag_cache v" and a = "a" and b = "vu_current_rows v" and q = "vu_current_request v" and g = "vu_rng v"] by simp

lemma local_rows: "R v (v\<lparr>vu_current_rows := a\<rparr>)"
  using locals [where v = "v" and c = "vu_tag_cache v" and a = "vu_vars v" and b = "a" and q = "vu_current_request v" and g = "vu_rng v"] by simp

lemma local_request: "R v (v\<lparr>vu_current_request := a\<rparr>)"
  using locals [where v = "v" and c = "vu_tag_cache v" and a = "vu_vars v" and b = "vu_current_rows v" and q = "a" and g = "vu_rng v"] by simp

lemma local_rng: "R v (v\<lparr>vu_rng := a\<rparr>)"
  using locals [where v = "v" and c = "vu_tag_cache v" and a = "vu_vars v" and b = "vu_current_rows v" and q = "vu_current_request v" and g = "a"] by simp

lemma local_cache: "R v (v\<lparr>vu_tag_cache := a\<rparr>)"
  using locals [where v = "v" and c = "a" and a = "vu_vars v" and b = "vu_current_rows v" and q = "vu_current_request v" and g = "vu_rng v"] by simp

lemma preserves_on_rng: "R v (snd (on_rng f v))"
  by (simp add: on_rng_def local_rng split: prod.splits)

lemma preserves_uuid: "R v (snd (on_rest (sv_uuid sv) v))"
  using draws_uuid [of v] by (cases "sv_uuid sv (vu_rest v)") (simp add: on_rest_def)

lemma preserves_next_row: "R v (snd (on_both (sv_next_row sv s rid) v))"
proof (cases "sv_next_row sv s rid (vu_rng v, vu_rest v)")
  case (fields r g x)
  with rows [of s rid "vu_rng v" "v\<lparr>vu_rng := g\<rparr>" r g x] have "R (v\<lparr>vu_rng := g\<rparr>) (v\<lparr>vu_rng := g, vu_rest := x\<rparr>)" by simp
  from trans [OF local_rng this] show ?thesis by (simp add: on_both_def fields)
qed

text \<open>Rendering.\<close>

lemma preserves_data_row: "R v (snd (data_row sv s v))"
  using preserves_next_row [of v s] trans [OF _ local_rows]
  by (auto simp: data_row_def refl split: option.splits prod.splits sum.splits) (metis snd_conv)+

lemma preserves_resolve: "R v (snd (resolve_expr sv rc e v))"
  using preserves_data_row [of v]
  by (auto simp: resolve_expr_def refl split: option.splits prod.splits sum.splits) (metis snd_conv)+

lemma preserves_render_expr: "preserves R (render_expr sv rc e)"
proof (rule preservesI)
  fix v
  show "R v (snd (render_expr sv rc e v))"
    using preserves_resolve [of v rc e] runs_script [of v]
    by (auto simp: render_expr_def refl split: option.splits prod.splits sum.splits next_row_error.splits) (metis snd_conv)+
qed

lemma preserves_parts: "preserves R (render_template_parts sv rc ps out)"
proof (induction ps arbitrary: out)
  case Nil
  then show ?case by (simp add: preserves_def refl)
next
  case (Cons p ps)
  show ?case
  proof (cases p)
    case (Lit l)
    with Cons show ?thesis by (simp add: preserves_def)
  next
    case (Expr e)
    have "preserves R (attempt (render_expr sv rc e) (\<lambda>x. render_template_parts sv rc ps (out @ x)))"
      by (intro preserves_attempt preserves_render_expr Cons)
    with Expr show ?thesis by (simp add: preserves_def)
  qed
qed

lemma preserves_template: "preserves R (render_template sv rc t)"
  using preserves_parts by (simp add: preserves_def render_template_def)

lemma preserves_str: "preserves R (render_str sv rc s)"
  using preserves_template by (simp add: preserves_def render_str_def refl split: sum.splits)

lemma preserves_items: "(\<And>j. j \<in> set js \<Longrightarrow> preserves R (render_json sv rc j)) \<Longrightarrow> preserves R (render_items sv rc js)"
proof (induction js)
  case Nil
  then show ?case by (simp add: preserves_def refl)
next
  case (Cons j js)
  then have "preserves R (attempt (render_json sv rc j) (\<lambda>y. attempt (render_items sv rc js) (\<lambda>ys w. (Inr (y # ys), w))))"
    by (intro preserves_attempt) auto
  then show ?case by (simp add: preserves_def)
qed

lemma preserves_entries: "(\<And>k j. (k, j) \<in> set fs \<Longrightarrow> preserves R (render_json sv rc j)) \<Longrightarrow> preserves R (render_entries sv rc fs out)"
proof (induction fs arbitrary: out)
  case Nil
  then show ?case by (simp add: preserves_def refl)
next
  case (Cons f fs)
  obtain k j where f: "f = (k, j)" by (cases f)
  have "preserves R (attempt (render_json sv rc j) (\<lambda>y. render_entries sv rc fs (AList.update k y out)))"
    using Cons f by (intro preserves_attempt) auto
  then show ?case by (simp add: preserves_def f)
qed

lemma preserves_json: "preserves R (render_json sv rc j)"
proof (induction j)
  case (JString s)
  have "preserves R (attempt (render_template sv rc t) (\<lambda>r w. (Inr (f r), w)))" for t and f :: "string \<Rightarrow> json"
    by (intro preserves_attempt preserves_template) auto
  then show ?case by (simp add: preserves_def refl split: sum.splits)
next
  case (JArray js)
  then have "preserves R (attempt (render_items sv rc js) (\<lambda>xs w. (Inr (JArray xs), w)))"
    by (intro preserves_attempt preserves_items) auto
  then show ?case by (simp add: preserves_def)
next
  case (JObject fs)
  have "preserves R (attempt (render_entries sv rc fs []) (\<lambda>xs w. (Inr (JObject xs), w)))"
    by (intro preserves_attempt preserves_entries) (auto intro: JObject)
  then show ?case by (simp add: preserves_def)
qed (simp_all add: preserves_def refl)

lemma preserves_cj_list: "(\<And>c. c \<in> set cs \<Longrightarrow> preserves R (cj_render sv rc c)) \<Longrightarrow> preserves R (cj_render_list sv rc cs)"
proof (induction cs)
  case Nil
  then show ?case by (simp add: preserves_def refl)
next
  case (Cons c cs)
  then have "preserves R (attempt (cj_render sv rc c) (\<lambda>y. attempt (cj_render_list sv rc cs) (\<lambda>ys w. (Inr (y # ys), w))))"
    by (intro preserves_attempt) auto
  then show ?case by (simp add: preserves_def)
qed

lemma preserves_cj_fields: "(\<And>k c. (k, c) \<in> set fs \<Longrightarrow> preserves R (cj_render sv rc c)) \<Longrightarrow> preserves R (cj_render_fields sv rc fs out)"
proof (induction fs arbitrary: out)
  case Nil
  then show ?case by (simp add: preserves_def refl)
next
  case (Cons f fs)
  obtain k c where f: "f = (k, c)" by (cases f)
  have "preserves R (attempt (cj_render sv rc c) (\<lambda>y. cj_render_fields sv rc fs (AList.update k y out)))"
    using Cons f by (intro preserves_attempt) auto
  then show ?case by (simp add: preserves_def f)
qed

lemma preserves_cj: "preserves R (cj_render sv rc c)"
proof (induction c)
  case (CArray cs)
  then have "preserves R (attempt (cj_render_list sv rc cs) (\<lambda>xs w. (Inr (JArray xs), w)))"
    by (intro preserves_attempt preserves_cj_list) auto
  then show ?case by (simp add: preserves_def)
next
  case (CObject fs)
  have "preserves R (attempt (cj_render_fields sv rc fs []) (\<lambda>xs w. (Inr (JObject xs), w)))"
    by (intro preserves_attempt preserves_cj_fields) (auto intro: CObject)
  then show ?case by (simp add: preserves_def)
next
  case (CString t)
  have "preserves R (attempt (render_template sv rc t) (\<lambda>r w. (Inr (JString r), w)))"
    by (intro preserves_attempt preserves_template) auto
  then show ?case by (simp add: preserves_def)
next
  case (CSplice t)
  have "preserves R (attempt (render_template sv rc t) (\<lambda>r w. (Inr (splice sv r), w)))"
    by (intro preserves_attempt preserves_template) auto
  then show ?case by (simp add: preserves_def)
qed (simp add: preserves_def refl)

text \<open>Preparation.\<close>

lemma preserves_begin_message: "R v (begin_message rc v)"
  by (simp add: begin_message_def refl local_rows)

lemma preserves_frames: "preserves R (render_frames sv rc cs frames)"
proof (induction cs arbitrary: frames)
  case Nil
  then show ?case by (simp add: preserves_def refl)
next
  case (Cons c cs)
  have k: "preserves R (attempt (cj_render sv rc c) (\<lambda>x. render_frames sv rc cs (frames @ [x])))"
    by (intro preserves_attempt preserves_cj Cons)
  have "R v (snd (render_frames sv rc (c # cs) frames v))" for v
    using k preserves_begin_message [of v rc] by (auto simp: preserves_def intro: trans)
  then show ?case by (simp add: preserves_def)
qed

lemma preserves_option: "(\<And>a. preserves R (f a)) \<Longrightarrow> preserves R (attempt_option f opt)"
proof (cases opt)
  case None
  then show ?thesis by (simp add: preserves_def attempt_option_def refl)
next
  case (Some a)
  assume f: "\<And>a. preserves R (f a)"
  have "preserves R (attempt (f a) (\<lambda>b w. (Inr (Some b), w)))" by (intro preserves_attempt f) auto
  then show ?thesis by (simp add: Some attempt_option_def preserves_def)
qed

lemma preserves_set_rendered: "(\<And>a. preserves R (f a)) \<Longrightarrow> preserves R (set_rendered f hs acc)"
proof (induction hs arbitrary: acc)
  case Nil
  then show ?case by (simp add: preserves_def refl)
next
  case (Cons h hs)
  obtain k t where h: "h = (k, t)" by (cases h)
  have "preserves R (attempt (f t) (\<lambda>x. set_rendered f hs (set_header k x acc)))"
    by (intro preserves_attempt Cons)
  then show ?case by (simp add: preserves_def h)
qed

lemma preserves_query: "preserves R (render_query sv rc ps)"
  unfolding render_query_def
  by (intro preserves_map preserves_attempt_map) (auto intro: preserves_map preserves_template split: prod.split)

lemma preserves_grpc_render: "preserves R (grpc_render sv rc g messages)"
proof -
  have pairs: "preserves R (render_pairs sv rc md)" for md
    unfolding render_pairs_def by (rule preserves_attempt_map) (auto intro: preserves_map preserves_template split: prod.split)
  have v: "preserves R (grpc_value_render sv rc m)" for m
    using preserves_cj by (cases m) (simp_all add: preserves_def refl)
  have "preserves R (\<lambda>v. case cg_message g of None \<Rightarrow> (Inr None, v) | Some m \<Rightarrow> attempt (grpc_value_render sv rc m) (\<lambda>x w. (Inr (Some x), w)) v)"
    using preserves_map [OF v] by (cases "cg_message g") simp_all
  then show ?thesis unfolding grpc_render_def by (intro preserves_attempt pairs) simp_all
qed

lemma preserves_grpc: "preserves R (prepare_grpc sv rc req g)"
proof -
  have "preserves R (render_messages sv rc ms)" for ms
    using preserves_frames by (cases ms) (simp_all add: preserves_def refl)
  then show ?thesis unfolding prepare_grpc_def Let_def by (intro preserves_attempt preserves_grpc_render) simp_all
qed

lemma preserves_body: "preserves R (prepare_body sv rc req)"
proof -
  have part: "preserves R (multipart_part sv rc b p)" for b p
    unfolding multipart_part_def Let_def by (cases "cp_value p") (auto intro: preserves_map preserves_template)
  have multi: "preserves R (render_body sv rc (BodyMultipart ps))" for ps
  proof (rule preservesI)
    fix v :: "('r, 'x) vu"
    obtain u w where u: "on_rest (sv_uuid sv) v = (u, w)" by (cases "on_rest (sv_uuid sv) v")
    have "R w (snd (render_body sv rc (BodyMultipart ps) v))"
      by (simp only: render_body.simps u Let_def prod.case) (intro preserves_mapD preserves_attempt_map part)
    with preserves_uuid [of v] show "R v (snd (render_body sv rc (BodyMultipart ps) v))" by (simp only: u snd_conv) (rule trans)
  qed
  have "preserves R (render_body sv rc b)" for b
    using preserves_map [OF preserves_template] preserves_map [OF preserves_json] preserves_map [OF preserves_query] multi
    by (cases b) (simp_all add: preserves_def refl)
  moreover have "preserves R (graphql_body sv rc q)" for q
  proof -
    have "preserves R (\<lambda>v. case gq_variables q of Some x \<Rightarrow> attempt (render_json sv rc x) (\<lambda>y w. (Inr [(''variables'', y)], w)) v | None \<Rightarrow> (Inr [], v))"
      using preserves_map [OF preserves_json] by (cases "gq_variables q") simp_all
    then show ?thesis unfolding graphql_body_def by (rule preserves_map)
  qed
  ultimately show ?thesis by (simp add: prepare_body_def split: option.split)
qed

lemma preserves_options: "preserves R (prepare_options sv rc req)"
proof -
  have ws: "preserves R (prepare_ws sv rc w)" for w
  proof -
    have "preserves R (ws_message_frame sv rc m)" for m
      by (cases m) (auto intro!: preservesI preserves_mapD preserves_str simp: refl split: option.split sum.split)
    then show ?thesis unfolding prepare_ws_def by (intro preserves_map preserves_attempt_map)
  qed
  have socket: "preserves R (prepare_socket sv rc s)" for s
  proof -
    have "preserves R (\<lambda>v. case sk_send_text s of Some t \<Rightarrow> render_str sv rc t v
      | None \<Rightarrow> (case sk_send_hex s of Some h \<Rightarrow> (decode_hex (filter (\<lambda>c. \<not> is_ws c) h), v) | None \<Rightarrow> (Inr [], v)))"
      using preserves_str by (cases "sk_send_text s"; cases "sk_send_hex s") simp_all
    then show ?thesis unfolding prepare_socket_def by (rule preserves_map)
  qed
  have sql: "preserves R (sql_plugin sv rc q)" for q
    unfolding sql_plugin_def by (intro preserves_attempt preserves_attempt_map preserves_map preserves_str)
  have "preserves R (plugin_options sv rc req)"
    unfolding plugin_options_def Let_def
    by (intro preserves_attempt preserves_option sql) (auto intro!: preservesI preservesD' [OF preserves_option] preserves_json simp: refl)
  then show ?thesis
    unfolding prepare_options_def by (intro preserves_attempt preserves_map preserves_option ws socket preserves_grpc)
qed

lemma preserves_prepare: "preserves R (prepare sv rc ht req)"
proof -
  have url: "preserves R (prepare_url sv rc ht req)"
    unfolding prepare_url_def
    by (intro preserves_attempt preserves_template)
      (auto intro!: preservesI preserves_mapD preserves_str simp: refl split: option.split)
  have params: "preserves R (prepare_params sv rc req u)" for u
    unfolding prepare_params_def by (auto intro!: preserves_map preserves_query)
  have headers: "preserves R (prepare_headers sv rc ht req)"
    unfolding prepare_headers_def by (intro preserves_attempt preserves_set_rendered preserves_str preserves_template)
  have name: "preserves R (\<lambda>v. case cq_name req of Some t \<Rightarrow> render_template sv rc t v | None \<Rightarrow> (Inr (cq_display_name req), v))"
    using preserves_template by (cases "cq_name req") simp_all
  have body: "preserves R (case bc of (body, ct) \<Rightarrow> k body ct)" if "\<And>b c. preserves R (k b c)" for k and bc :: "string \<times> string option"
    using that by (cases bc) simp
  show ?thesis
    unfolding prepare_def by (intro preserves_attempt url params headers preserves_body body preserves_options name preserves_pair)
qed

end

text \<open>A relation that also holds across what a request, a step and a join do to the context.\<close>

locale flow_relation = render_relation +
  assumes local_failed: "R v (v\<lparr>vu_last_request_failed := f\<rparr>)"
    and emits: "R v (v\<lparr>vu_emitted := vu_emitted v @ es\<rparr>)"
    and shares: "R v (v\<lparr>vu_shared := sh\<rparr>)"
    and clears: "R v (v\<lparr>vu_rest := sv_clear_pending sv (vu_rest v)\<rparr>)"
    and reports: "R v (v\<lparr>vu_rest := sv_report_result sv rid' rsp (vu_rest v)\<rparr>)"
    and reads_clock: "R v (v\<lparr>vu_rest := snd (sv_now sv (vu_rest v))\<rparr>)"
    and sleeps: "R v (on_world (sv_sleep sv d) v)"
    and waits: "R v (on_world (sv_barrier_wait sv n k d) v)"
    and executes: "R v (snd (sv_execute sv h pq v))"
    and leaves_group: "R (push_group n v) w \<Longrightarrow> R v (pop_group w)"
    and completes: "R (guard_new v) w \<Longrightarrow> R v (w\<lparr>vu_in_flight := vu_in_flight w - 1\<rparr>)"
    and joins: "\<forall>i < length rs. R (child_context sv i v) (snd (rs ! i)) \<Longrightarrow> R v (snd (join_branches sv rs v))"
begin

lemma preserves_now: "R v (snd (on_rest (sv_now sv) v))"
  using reads_clock [of v] by (cases "sv_now sv (vu_rest v)") (simp add: on_rest_def)


lemma preserves_emit: "R v (emit_to_bus m k x ts v)" "R v (emit_values vals ts v)" "R v (emit_rate m b ts v)"
  using emits by (simp_all add: emit_to_bus_def emit_values_def emit_rate_def)

lemma preserves_marks: "R v (mark_failed es v)" "R v (note_fault kind v)" "R v (record_exception site msg v)"
  by (simp_all add: mark_failed_def note_fault_def record_exception_def preserves_emit)

lemma preserves_cached: "R v (snd (cached_sample_tags es v))"
  by (auto simp: cached_sample_tags_def Let_def refl local_cache split: option.split)

lemma preserves_emit_check: "R v (emit_check n b v)"
  unfolding emit_check_def using trans [OF preserves_cached preserves_emit(1)] by (simp add: split_beta)

lemma preserves_record_check: "R v (record_check res v)"
  by (simp add: record_check_def preserves_emit_check preserves_emit split: option.split)

lemma preserves_throttle: "R v (throttle_acquire sv interval v)"
proof -
  obtain t v1 where v1: "on_rest (sv_now sv) v = (t, v1)" by (cases "on_rest (sv_now sv) v")
  then have "R v (v1\<lparr>vu_shared := sh\<rparr>)" for sh using trans [OF preserves_now [of v] shares] by simp
  then show ?thesis using trans [OF _ sleeps] by (auto simp: throttle_acquire_def v1 Let_def split: prod.split)
qed

lemma preserves_latency: "R v (inject_latency sv pe v)"
proof (cases "Option.bind (pe_faults pe) ft_latency")
  case (Some latency)
  obtain d v1 where v1: "on_rng (sv_fault_jitter sv latency) v = (d, v1)" by (cases "on_rng (sv_fault_jitter sv latency) v")
  then have "R v v1" using preserves_on_rng [of v "sv_fault_jitter sv latency"] by simp
  with Some show ?thesis
    using trans [OF trans [OF _ preserves_marks(2)] sleeps] by (simp add: inject_latency_def v1)
qed (simp add: inject_latency_def refl)

lemma preserves_begin_request: "R v (begin_vu_request sv rc n v)"
proof -
  have "R v (v\<lparr>vu_current_request := q, vu_rest := sv_clear_pending sv (vu_rest v)\<rparr>)" for q
    using trans [OF local_request [of v q] clears] by simp
  from trans [OF this local_rows] show ?thesis by (simp add: begin_vu_request_def begin_message_def refl)
qed

lemma preserves_hooks: "R v (snd (before_request sv req v))" "R v (after_request sv r v)"
  using runs_script [of v]
  by (auto simp: before_request_def after_request_def refl split: prod.split sum.split json.split) (metis snd_conv)+

lemma preserves_drop: "R v (snd (drop_decision sv ft v))"
  using preserves_on_rng [of v "sv_random_unit sv 1"]
  by (auto simp: drop_decision_def refl split: option.split prod.split)

lemma preserves_execute: "R v (snd (execute_request sv h req d mode v))"
  using executes [of v h req] trans [OF executes [of v h req] preserves_marks(2)]
  by (auto simp: execute_request_def preserves_marks Let_def split: prod.split)

lemma preserves_extractors: "R v (snd (run_extractors es n r acc v))"
proof (induction es arbitrary: acc v)
  case (Cons e es)
  have rest: "R v w \<Longrightarrow> R v (snd (run_extractors es n r acc' w))" for w acc' by (rule trans [OF _ Cons])
  obtain flow failed where acc: "acc = (flow, failed)" by (cases acc)
  obtain res v1 where v1: "on_rng (ex_extract e r) v = (res, v1)" by (cases "on_rng (ex_extract e r) v")
  then have "R v v1" using preserves_on_rng [of v "ex_extract e r"] by simp
  moreover from trans [OF this preserves_emit_check] have "R v (emit_check m b v1)" for m b .
  ultimately show ?case
    by (cases res) (auto simp: acc v1 Let_def split: extract_error.split intro!: rest intro: trans [OF _ local_vars])
qed (simp add: refl)

lemma preserves_eval_condition: "R v (snd (eval_condition sv c r v))"
proof -
  have "R v (snd (sv_run_script sv call (v\<lparr>vu_vars := a\<rparr>)))" for call a by (rule trans [OF local_vars runs_script])
  then have "sv_run_script sv call (v\<lparr>vu_vars := a\<rparr>) = (out, w) \<Longrightarrow> R v (w\<lparr>vu_vars := b\<rparr>)" for call a out w b
    by (metis snd_conv trans local_vars)
  then show ?thesis by (auto simp: eval_condition_def Let_def refl split: option.split prod.split)
qed

lemma preserves_assertions: "R v (snd (run_assertions sv cs n r acc v))"
proof (induction cs arbitrary: acc v)
  case (Cons c cs)
  from trans [OF preserves_eval_condition Cons] show ?case by (cases acc) (simp add: split_beta Let_def)
qed (simp add: refl)

lemma preserves_checks: "R v (run_checks sv cs r v)"
proof (induction cs arbitrary: v)
  case (Cons c cs)
  from trans [OF trans [OF preserves_eval_condition preserves_record_check] Cons] show ?case by (simp add: split_beta)
qed (simp add: refl)

lemma preserves_finish:
  assumes "R (guard_new v) w"
  shows "R v (snd (finish_request sv req p r w))"
proof -
  obtain ts w1 where w1: "cached_sample_tags (request_tag_extras p r) w = (ts, w1)" by fastforce
  with preserves_cached [of w "request_tag_extras p r"] have "R w w1" by simp
  from completes [OF trans [OF trans [OF assms this] preserves_emit(2)]] have completed: "R v (record_completed p r w)"
    by (simp add: record_completed_def w1 Let_def)
  obtain x b v2 where x: "run_extractors (cq_extract req) (pq_name p) r (RfContinue, False) (record_completed p r w) = ((x, b), v2)"
    by (metis surj_pair)
  with preserves_extractors [of "record_completed p r w" "cq_extract req" "pq_name p" r "(RfContinue, False)"] completed have "R v v2" by (auto intro: trans)
  define v3 where "v3 = (if b then mark_failed [(''name'', pq_name p)] v2 else v2)"
  define v5 where "v5 = after_request sv r (v3\<lparr>vu_rest := sv_report_result sv (row_identity_of (Some (cq_display_name req)) v3) r (vu_rest v3)\<rparr>)"
  have "R v v3" using \<open>R v v2\<close> by (auto simp: v3_def intro: trans preserves_marks)
  then have v5: "R v v5" unfolding v5_def by (blast intro: trans reports preserves_hooks)
  obtain y c v6 where y: "run_assertions sv (cq_assert req) (pq_name p) r (x, False) v5 = ((y, c), v6)" by (metis surj_pair)
  with preserves_assertions [of v5 "cq_assert req" "pq_name p" r "(x, False)"] v5 have "R v v6" by (auto intro: trans)
  then have "R v (if c then mark_failed es v6 else v6)" for es by (auto intro: trans preserves_marks)
  from trans [OF trans [OF this preserves_checks] local_failed] show ?thesis
    by (simp add: finish_request_def Let_def x y v3_def [symmetric] v5_def [symmetric])
qed

lemma preserves_request: "R v (snd (run_request sv rc pe req v))"
proof -
  define v2 where "v2 = inject_latency sv pe (case pe_throttle pe of Some i \<Rightarrow> throttle_acquire sv i v | None \<Rightarrow> v)"
  have "R v v2" by (simp add: v2_def preserves_latency trans [OF preserves_throttle preserves_latency] split: option.split)
  obtain res v3 where v3: "prepare sv rc (pe_http pe) req (begin_vu_request sv rc (cq_display_name req) v2) = (res, v3)" by fastforce
  from preservesD [OF preserves_prepare v3] \<open>R v v2\<close> have "R v v3" by (blast intro: trans preserves_begin_request)
  then have v4: "R v (v3\<lparr>vu_current_request := None\<rparr>)" by (rule trans [OF _ local_request])
  show ?thesis
  proof (cases res)
    case (Inl e)
    with v4 show ?thesis
      by (auto simp: run_request_def Let_def v2_def [symmetric] v3 intro: trans preserves_marks split: prepare_error.split)
  next
    case (Inr p0)
    obtain p v5 where v5: "before_request sv p0 (v3\<lparr>vu_current_request := None\<rparr>) = (p, v5)" by fastforce
    with preserves_hooks(1) [of "v3\<lparr>vu_current_request := None\<rparr>" p0] v4 have "R v v5" by (auto intro: trans)
    have "R v5 (snd (finish_request sv req p r w))"
      if "drop_decision sv ft v5 = (d, v6)" "execute_request sv h p d mode (guard_new v6) = (r, w)" for ft h d mode r w v6
    proof -
      from that preserves_drop [of v5 ft] preserves_execute [of "guard_new v6" h p d mode] show ?thesis
        by (auto intro: trans preserves_finish)
    qed
    with \<open>R v v5\<close> show ?thesis
      by (auto simp: run_request_def Let_def v2_def [symmetric] v3 Inr v5 split: option.split prod.split intro: trans preserves_marks)
  qed
qed

text \<open>Steps.\<close>

lemma preserves_settled: "preserves_run R m \<Longrightarrow> preserves_run R (\<lambda>v. settled (m v))"
  unfolding settled_def preserves_run_def by (auto split: prod.splits)

lemma preserves_some: "preserves R m \<Longrightarrow> preserves_run R (\<lambda>v. Some (m v))"
  by (simp add: preserves_run_def preservesD)

lemma preserves_first: "preserves R t \<Longrightarrow> (\<And>a. preserves_run R (m a)) \<Longrightarrow> preserves_run R (\<lambda>v. let (a, w) = t v in m a w)"
  unfolding preserves_run_def by (auto split: prod.splits) (metis preservesD trans)

lemma preserves_after: "preserves_run R m \<Longrightarrow> R u v \<Longrightarrow> m v = Some (out, w) \<Longrightarrow> R u w"
  unfolding preserves_run_def by (blast intro: trans)

lemma preserves_and_then: "preserves_run R m \<Longrightarrow> preserves_run R k \<Longrightarrow> and_then (m v) k = Some (out, w) \<Longrightarrow> R v w"
  unfolding preserves_run_def and_then_def by (auto split: option.splits if_splits) (blast intro: trans)

lemma preserves_and_then_after:
  "preserves_run R m \<Longrightarrow> preserves_run R k \<Longrightarrow> R u v \<Longrightarrow> and_then (m v) k = Some (out, w) \<Longrightarrow> R u w"
  by (blast intro: trans preserves_and_then)

lemma preserves_run_then: "preserves_run R m \<Longrightarrow> preserves_run R k \<Longrightarrow> preserves_run R (\<lambda>v. and_then (m v) k)"
  unfolding preserves_run_def [of R "\<lambda>v. and_then (m v) k"] by (blast intro: preserves_and_then)

lemma preserves_if: "preserves_run R m \<Longrightarrow> preserves_run R k \<Longrightarrow> preserves_run R (\<lambda>v. if b then m v else k v)"
  by (cases b) simp_all

lemma preserves_return: "preserves_run R (\<lambda>v. Some (x, v))"
  by (simp add: preserves_run_def refl)

lemma preserves_set_var: "R v (set_var k x v)"
  by (simp add: set_var_def local_vars)

lemma preserves_within_group: "preserves_run R m \<Longrightarrow> preserves_run R (within_group n m)"
  unfolding preserves_run_def within_group_def by (auto split: option.splits intro: leaves_group)

lemma preserves_repeat: "preserves_run R body \<Longrightarrow> preserves_run R (repeat_loop var body i n)"
proof (induction n arbitrary: i)
  case (Suc n)
  from Suc.prems Suc.IH [OF Suc.prems] show ?case
    unfolding preserves_run_def [of R "repeat_loop var body i (Suc n)"]
    by (auto intro: preserves_and_then_after [OF _ _ preserves_set_var])
qed (simp add: preserves_run_def refl)

lemma preserves_foreach: "preserves_run R body \<Longrightarrow> preserves_run R (foreach_loop var index body i xs)"
proof (induction xs arbitrary: i)
  case (Cons x xs)
  from Cons.prems Cons.IH [OF Cons.prems] show ?case
    unfolding preserves_run_def [of R "foreach_loop var index body i (x # xs)"]
    by (auto intro: preserves_and_then_after [OF _ _ trans [OF preserves_set_var preserves_set_var]])
qed (simp add: preserves_run_def refl)

lemma preserves_while:
  assumes "preserves R test" and "preserves_run R body"
  shows "preserves_run R (while_loop test body n)"
proof (induction n)
  case (Suc n)
  then have "preserves_run R (\<lambda>v. let (b, w) = test v in if b then and_then (body w) (while_loop test body n) else Some (Completed, w))"
    by (intro preserves_first preserves_if preserves_run_then preserves_return assms)
  then show ?case by (simp add: preserves_run_def)
qed (simp add: preserves_run_def refl)

lemma preserves_during:
  assumes "preserves R now" and "preserves_run R body"
  shows "preserves_run R (during_loop fuel now counter deadline body i)"
proof (induction fuel arbitrary: i)
  case (Suc fuel)
  have "preserves_run R (\<lambda>w. body (set_var counter x w))" for x
    using preserves_after [OF assms(2) preserves_set_var] unfolding preserves_run_def by blast
  with Suc have "preserves_run R (\<lambda>v. let (t, w) = now v in if t < deadline
      then and_then (body (set_var counter (JInt (int i)) w)) (during_loop fuel now counter deadline body (Suc i)) else Some (Completed, w))"
    by (intro preserves_first preserves_if preserves_run_then preserves_return assms)
  then show ?case by (simp add: preserves_run_def)
qed (simp add: preserves_run_def)

lemma preserves_retry:
  assumes "preserves R ok" and "\<And>v. R v (pause v)" and "preserves_run R body"
  shows "preserves_run R (retry_loop ok pause body i n)"
proof (induction n arbitrary: i)
  case (Suc n)
  have "preserves_run R (\<lambda>v1. let (b, v2) = ok v1 in if b then Some (Completed, v2)
      else retry_loop ok pause body (Suc i) n (if 0 < n then pause v2 else v2))"
    unfolding preserves_run_def using preservesD [OF assms(1)] preserves_after [OF Suc] trans [OF _ assms(2)]
    by (auto simp: Let_def split: prod.splits if_splits) blast+
  moreover have "R v ((set_var k x v)\<lparr>vu_last_request_failed := False\<rparr>)" for k x v by (rule trans [OF preserves_set_var local_failed])
  ultimately show ?case
    unfolding preserves_run_def [of R "retry_loop ok pause body i (Suc n)"] by (auto intro: preserves_and_then_after [OF assms(3)])
qed (simp add: preserves_run_def refl)

lemma preserves_condition: "preserves R (eval_condition_bool sv e)"
  using preservesD [OF preservesI [OF runs_script]]
  by (auto intro!: preservesI simp: eval_condition_bool_def refl split: prod.split sum.split)

lemma preserves_think: "R v (think sv tt v)"
  using trans [OF preserves_on_rng sleeps] by (simp add: think_def split_beta)

lemma preserves_request_step: "R v (snd (request_step sv rc pe req v))"
  using preservesD [OF preservesI [OF preserves_request]] trans [OF _ preserves_think]
  by (auto simp: request_step_def split: prod.split option.split)

lemma preserves_js: "R v (js_step sv rc call code v)"
  using preservesD [OF preservesI [OF runs_script]] trans [OF _ preserves_marks(3)]
  by (auto simp: js_step_def refl split: prod.split option.split sum.split)

lemma preserves_pick: "preserves R (pick_branch sv st ws key)"
  using preservesD [OF preservesI [OF preserves_on_rng]]
  by (auto intro!: preservesI preserves_on_rng shares simp: pick_branch_def Let_def split: switch_strategy.split prod.split)

lemma preserves_resolve_items: "preserves R (resolve_items sv rc items)"
  using preservesD [OF preserves_str]
  by (auto intro!: preservesI simp: resolve_items_def refl split: json.split prod.split sum.split option.split)

lemma preserves_switch_key: "preserves R (switch_key sv rc t)"
  using preservesD [OF preserves_template] by (auto intro!: preservesI simp: switch_key_def split: prod.split sum.split)

lemma preserves_rendezvous: "R v (rendezvous sv n k d v)"
  by (simp add: rendezvous_def Let_def trans [OF shares waits])

lemma preserves_retry_ok: "preserves R (retry_ok sv until)"
  using preserves_condition by (auto intro!: preservesI simp: retry_ok_def preserves_def refl split: option.split)

lemma preserves_retry_pause: "R v (retry_pause sv b v)"
  by (simp add: retry_pause_def refl sleeps split: option.split)

lemma preserves_steps: "\<forall>s \<in> set ss. preserves_run R (run_flow_step sv rc pe fuel s) \<Longrightarrow> preserves_run R (run_steps sv rc pe fuel ss)"
proof (induction ss)
  case (Cons s ss)
  then have s: "preserves_run R (run_flow_step sv rc pe fuel s)" and ss: "preserves_run R (run_steps sv rc pe fuel ss)" by simp_all
  show ?case unfolding preserves_run_def
  proof (intro allI impI)
    fix v out w
    assume run: "run_steps sv rc pe fuel (s # ss) v = Some (out, w)"
    then obtain o1 v1 where "run_flow_step sv rc pe fuel s v = Some (o1, v1)" by (auto split: option.splits)
    with run s preserves_after [OF ss, of v v1 out w] show "R v w" by (cases o1) (auto simp: preserves_run_def)
  qed
qed (simp add: preserves_return)

lemma preserves_choices:
  "\<forall>c \<in> set cs. \<forall>l. preserves_run R (run_choice sv rc pe fuel c l) \<Longrightarrow> preserves_run R (run_choices sv rc pe fuel cs i l)"
  by (induction cs arbitrary: i) (simp_all add: preserves_return preserves_if)

lemma preserves_cases:
  "\<forall>c \<in> set cs. preserves_run R (run_switch_case sv rc pe fuel c) \<Longrightarrow> preserves_run R dflt \<Longrightarrow> preserves_run R (run_cases sv rc pe fuel cs key dflt)"
  by (induction cs) (simp_all add: preserves_if)

lemma preserves_branches:
  "\<forall>b \<in> set bs. preserves_run R (run_steps sv rc pe fuel b) \<Longrightarrow> run_branches sv rc pe fuel bs i v = Some rs
     \<Longrightarrow> \<forall>j < length rs. R (child_context sv (i + j) v) (snd (rs ! j))"
proof (induction bs arbitrary: i rs)
  case (Cons b bs)
  from Cons.prems(2) obtain r rs' where r: "run_steps sv rc pe fuel b (child_context sv i v) = Some r"
    and rs': "run_branches sv rc pe fuel bs (Suc i) v = Some rs'" and rs: "rs = r # rs'"
    by (auto split: option.splits)
  from Cons.prems(1) r have "R (child_context sv i v) (snd r)" by (cases r) (simp add: preserves_run_def)
  with Cons.IH [OF _ rs'] Cons.prems(1) show ?case
    by (simp add: rs nth_Cons split: nat.split)
qed simp

lemma preserves_parallel:
  assumes "\<forall>b \<in> set bs. preserves_run R (run_steps sv rc pe fuel b)"
  shows "preserves_run R (\<lambda>v. map_option (\<lambda>rs. join_branches sv rs v) (run_branches sv rc pe fuel bs 0 v))"
proof -
  have "R v w" if rs: "run_branches sv rc pe fuel bs 0 v = Some rs" and w: "join_branches sv rs v = (out, w)" for v w out rs
    using joins [of rs v] preserves_branches [OF assms rs] w by simp
  then show ?thesis unfolding preserves_run_def by auto
qed

lemma preserves_step:
  "preserves_run R (run_flow_step sv rc pe fuel s)"
  "\<forall>l. preserves_run R (run_choice sv rc pe fuel c l)"
  "preserves_run R (run_switch_case sv rc pe fuel k)"
proof (induction s and c and k)
  case (StRequest req)
  then show ?case by (simp add: preserves_some preservesI preserves_request_step)
next
  case (StThinkTime tt)
  then show ?case by (simp add: preserves_some preservesI preserves_think)
next
  case (StJs call code)
  then show ?case by (simp add: preserves_some preservesI preserves_js)
next
  case (StGroup n ss)
  then show ?case by (simp add: preserves_settled preserves_within_group preserves_steps)
next
  case (StRepeat n c ss)
  then show ?case by (simp add: preserves_settled preserves_repeat preserves_steps)
next
  case (StWhile c n ss)
  then show ?case by (simp add: preserves_settled preserves_while preserves_condition preserves_steps)
next
  case (StIf c th el)
  then show ?case by (simp only: run_flow_step.simps) (intro preserves_first preserves_settled preserves_if preserves_condition preserves_steps ballI)
next
  case (StRandom st cs key)
  then have "preserves_run R (\<lambda>v. let (i, w) = pick_branch sv st (map ch_weight cs) key v in settled (run_choices sv rc pe fuel cs i (''branch-'' @ show_nat i) w))"
    by (intro preserves_first preserves_settled preserves_pick preserves_choices) simp
  then show ?case by (simp only: run_flow_step.simps) (intro preserves_if preserves_return)
next
  case (StForeach items var index ss)
  then show ?case by (simp only: run_flow_step.simps) (intro preserves_first preserves_settled preserves_foreach preserves_resolve_items preserves_steps ballI)
next
  case (StSwitch t cs d)
  then show ?case
    by (simp only: run_flow_step.simps) (intro preserves_first preserves_settled preserves_cases preserves_switch_key preserves_steps ballI)
next
  case (StDuring d c ss)
  then show ?case
    by (simp only: run_flow_step.simps) (intro preserves_first preserves_settled preserves_during preservesI preserves_now preserves_steps ballI)
next
  case (StRetry n u b ss)
  then show ?case by (simp add: preserves_settled preserves_retry preserves_retry_ok preserves_retry_pause preserves_steps)
next
  case (StParallel bs)
  then show ?case by (simp only: run_flow_step.simps) (intro preserves_settled preserves_parallel ballI preserves_steps)
next
  case (StRendezvous n k d)
  then show ?case by (simp add: preserves_some preservesI preserves_rendezvous)
next
  case (Choice x n ss)
  then show ?case by (simp add: preserves_within_group preserves_steps)
next
  case (SwitchCase k ss)
  then show ?case by (simp add: preserves_steps)
qed

lemma preserves_run_steps: "preserves_run R (run_steps sv rc pe fuel ss)"
  by (simp add: preserves_steps preserves_step)

lemma preserves_run_on_start: "R v (run_on_start sv rc pe v)"
  using preservesD [OF preservesI [OF runs_script]] trans [OF _ preserves_marks(3)]
  by (auto simp: run_on_start_def refl split: prod.split option.split sum.split)

lemma preserves_run_exec: "R (snd r) (snd (run_exec sv rc pe r))"
  using preservesD [OF preservesI [OF runs_script]] trans [OF trans [OF _ preserves_marks(1)] preserves_marks(3)]
  by (auto simp: run_exec_def refl Let_def split: prod.split option.split sum.split iteration_outcome.split)

lemma preserves_run_on_stop: "R v (run_on_stop sv rc pe v)"
  using preservesD [OF preservesI [OF runs_script]] trans [OF _ preserves_marks(3)]
  by (auto simp: run_on_stop_def refl split: prod.split option.split sum.split)

text \<open>An iteration ends with the two samples that count it and measure it.\<close>

lemma preserves_iteration:
  assumes "run_iteration sv rc pe fuel ss v = Some (out, w)"
  shows "\<exists>v' ts t. R (begin_iteration sv v) v' \<and> w = emit_values [(''iterations'', Counter, 1), (''iteration_duration'', Trend, t)] ts v'"
proof -
  define v1 where "v1 = run_on_start sv rc pe (begin_iteration sv v)"
  obtain t v2 where v2: "on_rest (sv_now sv) v1 = (t, v2)" by fastforce
  from assms obtain r where r: "run_steps sv rc pe fuel ss v2 = Some r"
    by (auto simp: run_iteration_def Let_def v1_def [symmetric] v2 split: option.splits)
  obtain ts v4 where v4: "cached_sample_tags [] (snd (run_exec sv rc pe r)) = (ts, v4)" by fastforce
  obtain t' v5 where v5: "on_rest (sv_now sv) v4 = (t', v5)" by fastforce
  have w: "\<exists>t. w = emit_values [(''iterations'', Counter, 1), (''iteration_duration'', Trend, t)] ts v5"
    using assms v4 v5 by (auto simp: run_iteration_def Let_def v1_def [symmetric] v2 r split: prod.splits)
  have "R (begin_iteration sv v) v1" unfolding v1_def by (rule preserves_run_on_start)
  moreover have "R v1 v2" using preserves_now [of v1] by (simp add: v2)
  moreover have "R v2 (snd r)" using preserves_run_steps [of rc pe fuel ss] r by (cases r) (simp add: preserves_run_def)
  moreover have "R (snd r) (snd (run_exec sv rc pe r))" by (rule preserves_run_exec)
  moreover have "R (snd (run_exec sv rc pe r)) v4" using preserves_cached [of "snd (run_exec sv rc pe r)" "[]"] by (simp add: v4)
  moreover have "R v4 v5" using preserves_now [of v4] by (simp add: v5)
  ultimately have "R (begin_iteration sv v) v5" by (blast intro: trans)
  with w show ?thesis by blast
qed

end

section \<open>The frame of a flow\<close>

definition frame :: "('r, 'x) vu \<Rightarrow> ('r, 'x) vu \<Rightarrow> bool" where
  "frame v w \<longleftrightarrow>
     vu_id w = vu_id v \<and> vu_scenario w = vu_scenario v \<and> vu_iteration w = vu_iteration v \<and> vu_base_tags w = vu_base_tags v \<and>
     vu_script w = vu_script v \<and> vu_groups w = vu_groups v \<and> vu_in_flight w = vu_in_flight v \<and>
     take (length (vu_emitted v)) (vu_emitted w) = vu_emitted v"

text \<open>A script and a protocol handler may emit samples and change variables, but leave the frame.\<close>

definition framed_services :: "('h, 'g, 'r, 'x) vu_services \<Rightarrow> bool" where
  "framed_services sv \<longleftrightarrow>
     (\<forall>call v. frame v (snd (sv_run_script sv call v))) \<and> (\<forall>h p v. frame v (snd (sv_execute sv h p v)))"

lemma frame_iff:
  "frame v w \<longleftrightarrow>
     vu_id w = vu_id v \<and> vu_scenario w = vu_scenario v \<and> vu_iteration w = vu_iteration v \<and> vu_base_tags w = vu_base_tags v \<and>
     vu_script w = vu_script v \<and> vu_groups w = vu_groups v \<and> vu_in_flight w = vu_in_flight v \<and>
     (\<exists>es. vu_emitted w = vu_emitted v @ es)"
  unfolding frame_def by (metis append_eq_conv_conj)

lemma frame_trans: "frame u v \<Longrightarrow> frame v w \<Longrightarrow> frame u w"
  by (auto simp: frame_iff)

lemma frame_world: "frame v (on_world f v)"
  by (simp add: frame_iff on_world_def split: prod.split)

lemma frame_joins:
  assumes "\<forall>i < length rs. frame (child_context sv i v) (snd (rs ! i))"
  shows "frame v (snd (join_branches sv rs v))"
proof -
  from assms have "\<forall>i < length rs. vu_in_flight (snd (rs ! i)) = 0" by (simp add: frame_iff child_context_def)
  then have "\<forall>r \<in> set rs. vu_in_flight (snd r) = 0" by (metis in_set_conv_nth)
  then have "sum_list (map (\<lambda>r. vu_in_flight (snd r)) rs) = 0" by simp
  then show ?thesis by (simp add: join_branches_def merge_vars_def frame_iff comp_def Let_def split_beta)
qed

interpretation framed: flow_relation sv "\<lambda>v w. framed_services sv \<longrightarrow> frame v w" for sv :: "('h, grpc_request, 'r, 'x) vu_services"
proof unfold_locales
  show "framed_services sv \<longrightarrow> frame u w" if "framed_services sv \<longrightarrow> frame u v" "framed_services sv \<longrightarrow> frame v w" for u v w
    using that frame_trans by blast
next
  show "framed_services sv \<longrightarrow> frame v (pop_group w)" if "framed_services sv \<longrightarrow> frame (push_group n v) w" for n v w
    using that by (auto simp: frame_iff push_group_def pop_group_def)
next
  show "framed_services sv \<longrightarrow> frame v (w\<lparr>vu_in_flight := vu_in_flight w - 1\<rparr>)" if "framed_services sv \<longrightarrow> frame (guard_new v) w" for v w
    using that by (auto simp: frame_iff guard_new_def)
next
  show "framed_services sv \<longrightarrow> frame v (snd (join_branches sv rs v))"
    if "\<forall>i < length rs. framed_services sv \<longrightarrow> frame (child_context sv i v) (snd (rs ! i))" for rs v
    using that frame_joins by blast
qed (auto simp: frame_iff framed_services_def frame_world [unfolded frame_iff])

section \<open>The clock\<close>

text \<open>
  Time does not go back, and reading the clock returns the current time and takes some. \<open>time_of\<close> is the time in the
  state outside the flow.
\<close>

definition clock_services :: "('x \<Rightarrow> nat) \<Rightarrow> ('h, 'g, 'r, 'x) vu_services \<Rightarrow> bool" where
  "clock_services time_of sv \<longleftrightarrow>
     (\<forall>x. fst (sv_now sv x) = time_of x \<and> time_of x < time_of (snd (sv_now sv x))) \<and>
     (\<forall>call v. time_of (vu_rest v) \<le> time_of (vu_rest (snd (sv_run_script sv call v)))) \<and>
     (\<forall>h p v. time_of (vu_rest v) \<le> time_of (vu_rest (snd (sv_execute sv h p v)))) \<and>
     (\<forall>s rid g x. time_of x \<le> time_of (snd (snd (sv_next_row sv s rid (g, x))))) \<and>
     (\<forall>x. time_of x \<le> time_of (sv_clear_pending sv x)) \<and>
     (\<forall>rid r x. time_of x \<le> time_of (sv_report_result sv rid r x)) \<and>
     (\<forall>x. time_of x \<le> time_of (snd (sv_uuid sv x))) \<and>
     (\<forall>d sh x. time_of x \<le> time_of (snd (sv_sleep sv d (sh, x)))) \<and>
     (\<forall>n k d sh x. time_of x \<le> time_of (snd (sv_barrier_wait sv n k d (sh, x)))) \<and>
     (\<forall>vs v. time_of (vu_rest v) \<le> time_of (snd (sv_join sv vs v)))"

definition later :: "('x \<Rightarrow> nat) \<Rightarrow> ('r, 'x) vu \<Rightarrow> ('r, 'x) vu \<Rightarrow> bool" where
  "later time_of v w \<longleftrightarrow> time_of (vu_rest v) \<le> time_of (vu_rest w)"

interpretation timed: flow_relation sv "\<lambda>v w. clock_services time_of sv \<longrightarrow> later time_of v w"
  for sv :: "('h, grpc_request, 'r, 'x) vu_services" and time_of
proof unfold_locales
  show "clock_services time_of sv \<longrightarrow> later time_of v (v\<lparr>vu_rest := x\<rparr>)" if "sv_next_row sv s rid (g, vu_rest v) = (r, g', x)"
    for s rid g r g' x and v :: "('r, 'x) vu"
  proof
    assume "clock_services time_of sv"
    then have "time_of (vu_rest v) \<le> time_of (snd (snd (sv_next_row sv s rid (g, vu_rest v))))" by (simp add: clock_services_def)
    then show "later time_of v (v\<lparr>vu_rest := x\<rparr>)" by (simp add: that later_def)
  qed
next
  show "clock_services time_of sv \<longrightarrow> later time_of v (v\<lparr>vu_rest := snd (sv_now sv (vu_rest v))\<rparr>)" for v :: "('r, 'x) vu"
    by (auto simp: later_def clock_services_def intro: less_imp_le)
next
  show "clock_services time_of sv \<longrightarrow> later time_of v (on_world (sv_sleep sv d) v)" for v :: "('r, 'x) vu" and d
    by (auto simp: clock_services_def later_def on_world_def split_beta)
next
  show "clock_services time_of sv \<longrightarrow> later time_of v (on_world (sv_barrier_wait sv n k d) v)" for v :: "('r, 'x) vu" and n k d
    by (auto simp: clock_services_def later_def on_world_def split_beta)
qed (auto simp: later_def clock_services_def push_group_def pop_group_def guard_new_def join_branches_def merge_vars_def Let_def split_beta)

section \<open>The failure flag\<close>

text \<open>Rendering a request leaves the flag that \<open>retry\<close> reads, when the scripts it runs do.\<close>

definition flag_services :: "('h, 'g, 'r, 'x) vu_services \<Rightarrow> bool" where
  "flag_services sv \<longleftrightarrow> (\<forall>call v. vu_last_request_failed (snd (sv_run_script sv call v)) = vu_last_request_failed v)"

interpretation flag: render_relation sv "\<lambda>v w. flag_services sv \<longrightarrow> vu_last_request_failed w = vu_last_request_failed v"
  for sv :: "('h, grpc_request, 'r, 'x) vu_services"
  by unfold_locales (auto simp: flag_services_def)

end
