(* ===== verification/Flow_Props.thy ===== *)
theory Flow_Props
  imports Flow_Inv
begin

text \<open>
  What an iteration guarantees: the frame of a flow, that it ends, how many failure samples a request leaves, which
  branch a random step takes, that compiled JSON renders like the value it was compiled from, and how aborts,
  retries and parallel branches behave.
\<close>

section \<open>Ending\<close>

text \<open>All durations of \<open>during\<close> steps, nested ones included, are below the bound.\<close>

primrec durings_below :: "nat \<Rightarrow> 'r step \<Rightarrow> bool"
and choice_below :: "nat \<Rightarrow> 'r choice \<Rightarrow> bool"
and case_below :: "nat \<Rightarrow> 'r switch_case \<Rightarrow> bool" where
  "durings_below n (StRequest _) = True"
| "durings_below n (StThinkTime _) = True"
| "durings_below n (StJs _ _) = True"
| "durings_below n (StGroup _ ss) = list_all (durings_below n) ss"
| "durings_below n (StRepeat _ _ ss) = list_all (durings_below n) ss"
| "durings_below n (StWhile _ _ ss) = list_all (durings_below n) ss"
| "durings_below n (StIf _ th el) = (list_all (durings_below n) th \<and> list_all (durings_below n) el)"
| "durings_below n (StRandom _ cs _) = list_all (choice_below n) cs"
| "durings_below n (StForeach _ _ _ ss) = list_all (durings_below n) ss"
| "durings_below n (StSwitch _ cs d) = (list_all (case_below n) cs \<and> list_all (durings_below n) d)"
| "durings_below n (StDuring d _ ss) = (d < n \<and> list_all (durings_below n) ss)"
| "durings_below n (StRetry _ _ _ ss) = list_all (durings_below n) ss"
| "durings_below n (StParallel bs) = list_all (list_all (durings_below n)) bs"
| "durings_below n (StRendezvous _ _ _) = True"
| "choice_below n (Choice _ _ ss) = list_all (durings_below n) ss"
| "case_below n (SwitchCase _ ss) = list_all (durings_below n) ss"

definition returns :: "(('r, 'x) vu \<Rightarrow> 'a option) \<Rightarrow> bool" where
  "returns m \<longleftrightarrow> (\<forall>v. m v \<noteq> None)"

lemma returns_settled: "returns m \<Longrightarrow> returns (\<lambda>v. settled (m v))"
  by (simp add: returns_def settled_def)

lemma returns_first: "(\<And>a. returns (m a)) \<Longrightarrow> returns (\<lambda>v. let (a, w) = t v in m a w)"
  by (simp add: returns_def split_beta)

lemma returns_if: "returns m \<Longrightarrow> returns k \<Longrightarrow> returns (\<lambda>v. if b then m v else k v)"
  by (simp add: returns_def)

lemma returns_and_then: "returns m \<Longrightarrow> \<forall>v. k v \<noteq> None \<Longrightarrow> and_then (m v) k \<noteq> None"
  by (auto simp: returns_def and_then_def split: option.split)

lemma returns_within_group: "returns m \<Longrightarrow> returns (within_group n m)"
  by (auto simp: returns_def within_group_def split: option.split)

lemma returns_repeat: "returns body \<Longrightarrow> returns (repeat_loop var body i n)"
  by (induction n arbitrary: i) (simp_all add: returns_def [of "repeat_loop var body _ _"] returns_and_then del: not_None_eq)

lemma returns_foreach: "returns body \<Longrightarrow> returns (foreach_loop var index body i xs)"
  by (induction xs arbitrary: i) (simp_all add: returns_def [of "foreach_loop var index body _ _"] returns_and_then del: not_None_eq)

lemma returns_while: "returns body \<Longrightarrow> returns (while_loop test body n)"
  by (induction n) (simp_all add: returns_def [of "while_loop test body _"] returns_and_then split_beta Let_def del: not_None_eq)

lemma returns_retry: "returns body \<Longrightarrow> returns (retry_loop ok pause body i n)"
proof (induction n arbitrary: i)
  case (Suc n)
  then show ?case
    unfolding returns_def [of "retry_loop ok pause body _ _"]
    by (simp add: returns_and_then split_beta Let_def del: not_None_eq)
qed (simp add: returns_def)

lemma clock_reads:
  assumes "clock_services time_of sv" and "on_rest (sv_now sv) v = (t, w)"
  shows "t = time_of (vu_rest v) \<and> time_of (vu_rest v) < time_of (vu_rest w)"
proof -
  from assms(1) have "fst (sv_now sv x) = time_of x \<and> time_of x < time_of (snd (sv_now sv x))" for x
    by (simp add: clock_services_def)
  from this [of "vu_rest v"] assms(2) show ?thesis by (auto simp: on_rest_def split: prod.splits)
qed

lemma clock_runs:
  fixes sv :: "('h, grpc_request, 'r, 'x) vu_services"
  assumes "clock_services time_of sv" and "run_steps sv rc pe fuel ss v = Some (out, w)"
  shows "time_of (vu_rest v) \<le> time_of (vu_rest w)"
  using timed.preserves_run_steps [of time_of sv rc pe fuel ss] assms by (auto simp: preserves_run_def later_def)

lemma returns_during:
  fixes sv :: "('h, grpc_request, 'r, 'x) vu_services"
  assumes law: "clock_services time_of sv" and body: "returns (run_steps sv rc pe bound ss)"
    and "deadline < time_of (vu_rest v) + fuel" and "0 < fuel"
  shows "during_loop fuel (on_rest (sv_now sv)) counter deadline (run_steps sv rc pe bound ss) i v \<noteq> None"
  using assms(3,4)
proof (induction fuel arbitrary: i v)
  case (Suc fuel)
  obtain t v1 where v1: "on_rest (sv_now sv) v = (t, v1)" by fastforce
  from clock_reads [OF law v1] have t: "t = time_of (vu_rest v)" "t < time_of (vu_rest v1)" by simp_all
  show ?case
  proof (cases "t < deadline")
    case True
    obtain out w where w: "run_steps sv rc pe bound ss (set_var counter (JInt (int i)) v1) = Some (out, w)"
      using body by (fastforce simp: returns_def)
    from clock_runs [OF law w] have "time_of (vu_rest v1) \<le> time_of (vu_rest w)" by (simp add: set_var_def)
    with t True Suc.prems have "deadline < time_of (vu_rest w) + fuel" "0 < fuel" by linarith+
    from Suc.IH [OF this] True show ?thesis by (simp add: v1 w and_then_def)
  qed (simp add: v1)
qed simp

lemma returns_steps: "\<forall>s \<in> set ss. returns (run_flow_step sv rc pe fuel s) \<Longrightarrow> returns (run_steps sv rc pe fuel ss)"
  by (induction ss) (auto simp: returns_def split: option.split prod.split)

lemma returns_choices:
  "\<forall>c \<in> set cs. \<forall>l. returns (run_choice sv rc pe fuel c l) \<Longrightarrow> returns (run_choices sv rc pe fuel cs i l)"
  by (induction cs arbitrary: i) (simp_all add: returns_def)

lemma returns_cases:
  "\<forall>c \<in> set cs. returns (run_switch_case sv rc pe fuel c) \<Longrightarrow> returns dflt \<Longrightarrow> returns (run_cases sv rc pe fuel cs key dflt)"
  by (induction cs) (simp_all add: returns_def)

lemma returns_branches:
  "\<forall>b \<in> set bs. returns (run_steps sv rc pe fuel b) \<Longrightarrow> run_branches sv rc pe fuel bs i v \<noteq> None"
  by (induction bs arbitrary: i) (simp_all add: returns_def split: option.split del: not_None_eq)

lemma returns_step:
  fixes sv :: "('h, grpc_request, 'r, 'x) vu_services"
  assumes law: "clock_services time_of sv"
  shows "durings_below fuel s \<Longrightarrow> returns (run_flow_step sv rc pe fuel s)"
    "choice_below fuel c \<Longrightarrow> \<forall>l. returns (run_choice sv rc pe fuel c l)"
    "case_below fuel k \<Longrightarrow> returns (run_switch_case sv rc pe fuel k)"
proof (induction s and c and k)
  case (StGroup n ss)
  then show ?case by (simp add: returns_settled returns_within_group returns_steps list_all_iff)
next
  case (StRepeat n c ss)
  then show ?case by (simp add: returns_settled returns_repeat returns_steps list_all_iff)
next
  case (StWhile c n ss)
  then show ?case by (simp add: returns_settled returns_while returns_steps list_all_iff)
next
  case (StIf c th el)
  then have "returns (run_steps sv rc pe fuel th)" "returns (run_steps sv rc pe fuel el)"
    by (simp_all add: returns_steps list_all_iff)
  then show ?case by (simp only: run_flow_step.simps) (intro returns_first returns_settled returns_if)
next
  case (StRandom st cs key)
  then have "returns (run_choices sv rc pe fuel cs i l)" for i l by (simp add: returns_choices list_all_iff)
  then show ?case by (simp add: returns_def settled_def split_beta del: not_None_eq)
next
  case (StForeach items var index ss)
  then have "returns (run_steps sv rc pe fuel ss)" by (simp add: returns_steps list_all_iff)
  then show ?case by (simp only: run_flow_step.simps) (intro returns_first returns_settled returns_foreach)
next
  case (StSwitch t cs d)
  then have "\<forall>c \<in> set cs. returns (run_switch_case sv rc pe fuel c)" "returns (run_steps sv rc pe fuel d)"
    by (simp_all add: returns_steps list_all_iff)
  then show ?case by (simp only: run_flow_step.simps) (intro returns_first returns_settled returns_cases)
next
  case (StDuring d c ss)
  then have body: "returns (run_steps sv rc pe fuel ss)" and "d < fuel" by (simp_all add: returns_steps list_all_iff)
  show ?case unfolding returns_def
  proof
    fix v :: "('r, 'x) vu"
    obtain t v1 where v1: "on_rest (sv_now sv) v = (t, v1)" by fastforce
    with clock_reads [OF law v1] \<open>d < fuel\<close> have "t + d < time_of (vu_rest v1) + fuel" "0 < fuel" by linarith+
    from returns_during [OF law body this] show "run_flow_step sv rc pe fuel (StDuring d c ss) v \<noteq> None"
      by (simp add: v1 settled_def)
  qed
next
  case (StRetry n u b ss)
  then show ?case by (simp add: returns_settled returns_retry returns_steps list_all_iff)
next
  case (StParallel bs)
  then have "\<forall>b \<in> set bs. returns (run_steps sv rc pe fuel b)" by (simp add: returns_steps list_all_iff)
  from returns_branches [OF this] show ?case by (simp add: returns_def settled_def)
next
  case (Choice x n ss)
  then show ?case by (simp add: returns_within_group returns_steps list_all_iff)
next
  case (SwitchCase k ss)
  then show ?case by (simp add: returns_steps list_all_iff)
qed (simp_all add: returns_def)

section \<open>Failure samples of a request\<close>

definition failure_count :: "('r, 'x) vu \<Rightarrow> nat" where
  "failure_count v = length (filter (\<lambda>(m, _). m = ''http_req_failed'') (vu_emitted v))"

lemma failure_count_emit [simp]:
  "failure_count (emit_to_bus m k x ts v) = failure_count v + of_bool (m = ''http_req_failed'')"
  "failure_count (v\<lparr>vu_vars := a\<rparr>) = failure_count v" "failure_count (v\<lparr>vu_rest := y\<rparr>) = failure_count v"
  "failure_count (v\<lparr>vu_rng := g\<rparr>) = failure_count v" "failure_count (v\<lparr>vu_tag_cache := c\<rparr>) = failure_count v"
  "failure_count (v\<lparr>vu_last_request_failed := b\<rparr>) = failure_count v"
  by (simp_all add: failure_count_def emit_to_bus_def)

lemma script_emit [simp]: "vu_script (emit_to_bus m k x ts v) = vu_script v"
  by (simp add: emit_to_bus_def)

lemma family_names:
  "f @ ''_reqs'' \<noteq> ''http_req_failed''" "f @ ''_req_duration'' \<noteq> ''http_req_failed''" "f @ ''_docs'' \<noteq> ''http_req_failed''"
  "f @ ''_rows'' \<noteq> ''http_req_failed''" "f @ ''_msgs'' \<noteq> ''http_req_failed''"
  by (auto dest!: arg_cong [of _ _ last])

lemma opt_extra_failure: "m \<noteq> ''http_req_failed'' \<Longrightarrow> filter (\<lambda>(m, _). m = ''http_req_failed'') (opt_extra m key r) = []"
  by (simp add: opt_extra_def split: option.split)

lemma request_metrics_failure:
  "length (filter (\<lambda>(m, _). m = ''http_req_failed'') (request_metrics protocol r)) = 1"
proof -
  consider "protocol = ''http''" | "protocol = ''graphql''" | "protocol = ''grpc''" | "protocol = ''ws''"
    | "protocol \<notin> {''http'', ''graphql'', ''grpc'', ''ws''}" by blast
  then show ?thesis
  proof cases
    case 5
    define f where "f = (if protocol = ''tcp'' \<or> protocol = ''udp'' then protocol
      else if protocol = ''sse'' \<or> protocol = ''browser'' then ''plugin'' else metric_family protocol)"
    from 5 show ?thesis
      unfolding request_metrics_def Let_def f_def [symmetric]
      by (simp only: insert_iff empty_iff de_Morgan_disj if_False disj_not1 filter_append opt_extra_failure family_names not_False_eq_True)
        (simp add: family_names opt_extra_failure [OF family_names(3)] opt_extra_failure [OF family_names(4)] opt_extra_failure [OF family_names(5)])
  qed (simp_all add: request_metrics_def Let_def)
qed

lemma failure_count_completed: "failure_count (record_completed p r v) = failure_count v + 1"
proof -
  obtain ts v1 where v1: "cached_sample_tags (request_tag_extras p r) v = (ts, v1)" by fastforce
  then have "vu_emitted v1 = vu_emitted v" by (auto simp: cached_sample_tags_def Let_def split: if_splits option.splits prod.splits)
  moreover have "filter (\<lambda>(m, _). m = n) (map (\<lambda>(m, k, x). (m, k, x, ts)) xs) = map (\<lambda>(m, k, x). (m, k, x, ts)) (filter (\<lambda>(m, _). m = n) xs)"
    for n and xs :: "(string \<times> metric_kind \<times> f64) list" by (induction xs) auto
  ultimately show ?thesis
    using request_metrics_failure [of "pq_protocol p" r] by (simp add: record_completed_def failure_count_def v1 emit_values_def Let_def)
qed

lemma quiet_emit_check [simp]: "failure_count (emit_check n b v) = failure_count v" "vu_script (emit_check n b v) = vu_script v"
  by (auto simp: emit_check_def cached_sample_tags_def Let_def emit_to_bus_def failure_count_def split: option.split)

lemma quiet_extractors:
  "failure_count (snd (run_extractors es n r acc v)) = failure_count v \<and> vu_script (snd (run_extractors es n r acc v)) = vu_script v"
proof (induction es arbitrary: acc v)
  case (Cons e es)
  obtain flow failed where acc: "acc = (flow, failed)" by (cases acc)
  obtain res g where "ex_extract e r (vu_rng v) = (res, g)" by fastforce
  with Cons show ?case by (cases res) (simp_all add: acc on_rng_def Let_def split: extract_error.split)
qed simp

lemma quiet_condition: "\<not> vu_script v \<Longrightarrow> eval_condition sv c r v = (res, w) \<Longrightarrow> w = v"
  by (auto simp: eval_condition_def Let_def split: option.splits)

lemma quiet_assertions: "\<not> vu_script v \<Longrightarrow> snd (run_assertions sv cs n r acc v) = v"
proof (induction cs arbitrary: acc)
  case (Cons c cs)
  obtain res w where w: "eval_condition sv c r v = (res, w)" by fastforce
  with Cons.prems have "w = v" by (rule quiet_condition)
  with Cons w show ?case by (cases acc) (simp add: Let_def)
qed simp

lemma quiet_checks: "\<not> vu_script v \<Longrightarrow> failure_count (run_checks sv cs r v) = failure_count v"
proof (induction cs arbitrary: v)
  case (Cons c cs)
  obtain res w where w: "eval_condition sv c r v = (res, w)" by fastforce
  with Cons.prems have "w = v" by (rule quiet_condition)
  moreover have "failure_count (record_check res v) = failure_count v" "vu_script (record_check res v) = vu_script v"
    by (simp_all add: record_check_def emit_rate_def split: option.split)
  ultimately show ?case using Cons w by simp
qed simp

section \<open>Properties\<close>

text \<open>
  Services for the witnesses: a clock that ticks with each reading, no feeds, scripts that do nothing, and one
  handler that answers at once.
\<close>

definition quiet_services :: "(unit, grpc_request, unit, nat) vu_services" where
  "quiet_services =
     \<lparr>sv_run_script = (\<lambda>call v. (Inr JNull, v)), sv_has_function = (\<lambda>f x. False),
      sv_execute = (\<lambda>h p v. (Inr response_default, v)), sv_next_row = (\<lambda>s rid (g, x). (Inl (UnknownSource s), g, x)),
      sv_clear_pending = (\<lambda>x. x), sv_report_result = (\<lambda>rid r x. x), sv_sleep = (\<lambda>d (sh, x). (sh, x + d)),
      sv_barrier_wait = (\<lambda>n k d w. w), sv_now = (\<lambda>x. (x, Suc x)), sv_random_range = (\<lambda>n g. (n - 1, g)),
      sv_random_unit = (\<lambda>t g. (0, g)), sv_think = (\<lambda>tt g. (0, g)), sv_fault_jitter = (\<lambda>l g. (0, g)),
      sv_uuid = (\<lambda>x. (''u'', x)), sv_child = (\<lambda>i v. (vu_rng v, vu_rest v)),
      sv_join = (\<lambda>vs v. (vu_shared v, fold max (map vu_rest vs) (vu_rest v))), sv_payload = (\<lambda>s. Inl s),
      sv_base64 = (\<lambda>s. Inl s), sv_from_str = (\<lambda>s. None), sv_show_json = (\<lambda>j. []), sv_handlers = [(''http'', ())]\<rparr>"

definition quiet_context :: run_context where
  "quiet_context = \<lparr>rc_variables = [], rc_secrets = [], rc_env = [], rc_setup_data = JNull, rc_on_demand = [], rc_reports_results = False\<rparr>"

definition quiet_program :: program_env where
  "quiet_program =
     \<lparr>pe_name = ''s'', pe_exec = None, pe_on_start = None, pe_on_stop = None, pe_think_time = None, pe_throttle = None,
      pe_faults = None,
      pe_http = \<lparr>ht_base_url = None, ht_headers = [], ht_timeout = 1, ht_follow_redirects = True, ht_max_redirects = 10\<rparr>\<rparr>"

definition quiet_vu :: "(unit, nat) vu" where
  "quiet_vu =
     \<lparr>vu_id = 1, vu_scenario = ''s'', vu_iteration = 0, vu_base_tags = [], vu_tag_cache = [], vu_groups = [], vu_vars = [],
      vu_current_rows = [], vu_current_request = None, vu_last_request_failed = False, vu_script = False, vu_emitted = [],
      vu_in_flight = 0, vu_shared = \<lparr>sh_next_slot = None, sh_round_robin = [], sh_barriers = []\<rparr>, vu_rng = (), vu_rest = 0\<rparr>"

lemma quiet_framed: "framed_services quiet_services"
  by (simp add: framed_services_def quiet_services_def frame_def)

lemma fold_max_ge: "x \<le> fold max ys (x :: nat)"
  by (induction ys arbitrary: x) (auto intro: order_trans [OF max.cobounded2])

lemma quiet_clock: "clock_services (\<lambda>x. x) quiet_services"
  by (simp add: clock_services_def quiet_services_def fold_max_ge split: prod.split)

lemma quiet_flag: "flag_services quiet_services"
  by (simp add: flag_services_def quiet_services_def)


lemma quiet_iteration:
  "\<exists>w. run_iteration quiet_services quiet_context quiet_program 1 [StGroup ''g'' [StJs None None]] quiet_vu = Some (Completed, w)"
  by (simp add: run_iteration_def run_on_start_def run_exec_def quiet_program_def begin_iteration_def js_step_def within_group_def
      push_group_def pop_group_def quiet_vu_def settled_def on_rest_def Let_def cached_sample_tags_def quiet_services_def)


text \<open>
  C12: the steps of a scenario end: when time does not go back and each reading of the clock takes some, a list of steps
  returns an outcome within a number of rounds of each \<open>during\<close> block that exceeds its duration in clock ticks, however
  blocks, loops, retries and parallel branches are nested.
\<close>

theorem run_steps_returns:
  fixes sv :: "('h, grpc_request, 'r, 'x) vu_services"
  assumes "clock_services time_of sv" and "list_all (durings_below fuel) ss"
  shows "\<exists>out w. run_steps sv rc pe fuel ss v = Some (out, w) \<and> time_of (vu_rest v) \<le> time_of (vu_rest w)"
proof -
  have "returns (run_steps sv rc pe fuel ss)"
    by (rule returns_steps) (use assms(2) returns_step(1) [OF assms(1)] in \<open>auto simp: list_all_iff\<close>)
  then obtain out w where "run_steps sv rc pe fuel ss v = Some (out, w)" by (fastforce simp: returns_def)
  with clock_runs [OF assms(1)] show ?thesis by blast
qed

theorem run_steps_returns_witness:
  "\<exists>out w. run_steps quiet_services quiet_context quiet_program 6 [StDuring 5 ''i'' [StThinkTime (ConstantThink 0)]] quiet_vu = Some (out, w)"
  using run_steps_returns [OF quiet_clock, of 6 "[StDuring 5 ''i'' [StThinkTime (ConstantThink 0)]]" quiet_context quiet_program quiet_vu]
  by auto

definition quiet_request :: "part list \<Rightarrow> unit extractor list \<Rightarrow> condition list \<Rightarrow> unit compiled_request" where
  "quiet_request url es asserts =
     \<lparr>cq_name = None, cq_display_name = ''r'', cq_protocol = ''http'', cq_method = ''GET'',
      cq_url = \<lparr>tpl_parts = url, tpl_source = []\<rparr>, cq_headers = [], cq_params = [], cq_body = BodyNone, cq_timeout = None,
      cq_follow_redirects = None, cq_extract = es, cq_assert = asserts, cq_checks = [], cq_protobuf_checks = None,
      cq_reads_response_body = False, cq_ws = None, cq_grpc = None, cq_graphql = None, cq_socket = None, cq_sse = None,
      cq_sql = None, cq_plugin = None\<rparr>"

text \<open>What fails a request whose response did not: an extraction, or an assertion (a script condition fails without a script).\<close>

definition extraction_fails :: "'r compiled_request \<Rightarrow> 'g prepared_request \<Rightarrow> protocol_response \<Rightarrow> ('r, 'x) vu \<Rightarrow> bool" where
  "extraction_fails req p r v \<longleftrightarrow> snd (fst (run_extractors (cq_extract req) (pq_name p) r (RfContinue, False) (record_completed p r v)))"

definition assertion_fails :: "(string \<Rightarrow> json option) \<Rightarrow> condition list \<Rightarrow> protocol_response \<Rightarrow> bool" where
  "assertion_fails from_slice cs r \<longleftrightarrow>
     list_ex (\<lambda>c. \<not> cr_pass (evaluate_condition from_slice c r) \<or> cr_needs_js (evaluate_condition from_slice c r) \<noteq> None) cs"

lemma assertions_fail:
  "\<not> vu_script v \<Longrightarrow> snd (fst (run_assertions sv cs n r (flow, a) v)) = (a \<or> assertion_fails (sv_from_str sv) cs r)"
proof (induction cs arbitrary: flow a)
  case (Cons c cs)
  then show ?case by (auto simp: eval_condition_def assertion_fails_def Let_def split: option.split)
qed (simp add: assertion_fails_def)


definition failing_request :: "unit compiled_request" where
  "failing_request = quiet_request [Lit ''u''] []
     [\<lparr>cn_name = ''a'', cn_on_failure = AbortIterationOn, cn_kind = StatusIs (Some 201) None None\<rparr>]"

definition sent_request :: "grpc_request prepared_request" where
  "sent_request = \<lparr>pq_name = ''r'', pq_protocol = ''http'', pq_method = ''GET'', pq_url = ''u'', pq_headers = [], pq_body = [],
     pq_timeout = 1, pq_follow_redirects = True, pq_max_redirects = 10, pq_options = options_default\<rparr>"


text \<open>
  \<open>abort_iteration\<close> leaves only the block the failing request stands in: in a group, the rest of the group is
  skipped, the group is left, and the iteration goes on with the step after the group.
\<close>

theorem abort_iteration_leaves_block:
  assumes "run_request sv rc pe req (push_group g v) = (RfAbortIteration, w)"
  shows "run_steps sv rc pe fuel (StGroup g (StRequest req # inner) # rest) v = run_steps sv rc pe fuel rest (pop_group w)"
  using assms by (simp add: within_group_def request_step_def settled_def)

lemma failing_request_aborts:
  "\<exists>w. run_request quiet_services quiet_context quiet_program failing_request (push_group ''g'' quiet_vu) = (RfAbortIteration, w)"
  by (simp add: run_request_def quiet_program_def inject_latency_def begin_vu_request_def quiet_context_def Let_def
      prepare_def attempt_def prepare_url_def render_template_def failing_request_def quiet_request_def prepare_params_def
      prepare_headers_def prepare_body_def prepare_options_def attempt_option_def plugin_options_def before_request_def
      push_group_def quiet_vu_def quiet_services_def drop_decision_def faults_default_def execute_request_def guard_new_def
      finish_request_def after_request_def eval_condition_def evaluate_condition_def response_default_def split_beta)

theorem abort_iteration_leaves_block_witness:
  "\<exists>w. run_steps quiet_services quiet_context quiet_program 1 [StGroup ''g'' [StRequest failing_request], StThinkTime (ConstantThink 1)] quiet_vu =
     run_steps quiet_services quiet_context quiet_program 1 [StThinkTime (ConstantThink 1)] (pop_group w)"
  using failing_request_aborts abort_iteration_leaves_block by blast


lemma parallel_stops: 
  "run_branches quiet_services quiet_context quiet_program 1 [[], [StJs None None]] 0 quiet_vu =
     Some [(Completed, child_context quiet_services 0 quiet_vu), (Completed, child_context quiet_services 1 quiet_vu)]"
  by (simp add: js_step_def child_context_def)


lemma unprepared_request:
  fixes sv :: "('h, grpc_request, 'r, 'x) vu_services"
  assumes "flag_services sv" and "\<forall>v. \<exists>e. fst (prepare sv rc (pe_http pe) req v) = Inl (PrepareOther e)"
  shows "\<exists>w. run_request sv rc pe req v = (RfContinue, w) \<and> vu_last_request_failed w = vu_last_request_failed v"
proof -
  define v2 where "v2 = begin_vu_request sv rc (cq_display_name req)
    (inject_latency sv pe (case pe_throttle pe of Some i \<Rightarrow> throttle_acquire sv i v | None \<Rightarrow> v))"
  have "vu_last_request_failed v2 = vu_last_request_failed v"
    by (simp add: v2_def begin_vu_request_def begin_message_def inject_latency_def throttle_acquire_def on_rest_def on_rng_def
        on_world_def note_fault_def emit_to_bus_def Let_def split_beta split: option.split)
  moreover obtain e v3 where v3: "prepare sv rc (pe_http pe) req v2 = (Inl (PrepareOther e), v3)"
    using assms(2) by (metis prod.collapse)
  moreover have "vu_last_request_failed (snd (prepare sv rc (pe_http pe) req v2)) = vu_last_request_failed v2"
    using flag.preserves_prepare [of sv rc "pe_http pe" req] assms(1) by (simp add: preserves_def)
  ultimately show ?thesis
    unfolding run_request_def Let_def v2_def [symmetric]
    by (simp add: v3 mark_failed_def emit_rate_def emit_to_bus_def)
qed



lemma weighted_pick_bound: "weighted_pick ws pick i = Some j \<Longrightarrow> j < i + length ws"
  by (induction ws pick i rule: weighted_pick.induct) (auto simp: Let_def split: if_splits)

text \<open>
  The branch a \<open>random\<close> step takes is one of its choices under every strategy, whatever its weights, when the random
  generator returns an index below the bound it is given; a round robin takes the choices in turn.
\<close>

theorem pick_branch_in_range:
  assumes "\<forall>n g. 0 < n \<longrightarrow> fst (sv_random_range sv n g) < n" and "weights \<noteq> []"
  shows "fst (pick_branch sv strategy weights key v) < length weights \<and>
    (strategy = RoundRobin \<longrightarrow>
      fst (pick_branch sv strategy weights key (snd (pick_branch sv strategy weights key v))) =
        (fst (pick_branch sv strategy weights key v) + 1) mod length weights)"
proof -
  have bound: "fst (on_rng (sv_random_range sv (length weights)) v) < length weights"
    using assms by (simp add: on_rng_def split_beta)
  have "fst (pick_branch sv strategy weights key v) < length weights"
    using bound assms(2) weighted_pick_bound [of weights _ 0]
    by (auto simp: pick_branch_def Let_def split_beta split: switch_strategy.split option.split)
  moreover have "fst (pick_branch sv RoundRobin weights key (snd (pick_branch sv RoundRobin weights key v))) =
      (fst (pick_branch sv RoundRobin weights key v) + 1) mod length weights"
    by (simp add: pick_branch_def Let_def update_conv mod_Suc_eq split: option.split)
  ultimately show ?thesis by blast
qed

theorem pick_branch_in_range_witness:
  "fst (pick_branch quiet_services Weighted [Fin 1, Fin 2] 0 quiet_vu) < 2"
  using pick_branch_in_range [of quiet_services "[Fin 1, Fin 2]" Weighted 0 quiet_vu] by (simp add: quiet_services_def)

section \<open>Compiled JSON\<close>

text \<open>A JSON value whose objects have no key twice, as a map of \<open>serde_json\<close> has not.\<close>

fun json_keys_distinct :: "json \<Rightarrow> bool" where
  "json_keys_distinct (JArray items) = list_all json_keys_distinct items"
| "json_keys_distinct (JObject fs) = (distinct (map fst fs) \<and> list_all (json_keys_distinct \<circ> snd) fs)"
| "json_keys_distinct _ = True"

lemma update_fresh: "k \<notin> fst ` set out \<Longrightarrow> AList.update k x out = out @ [(k, x)]"
  by (induction out) auto

lemma parse_template_for_Inr: "parse_template_for what s = Inr t \<longleftrightarrow> parse_template s = Inr t"
  by (cases "parse_template s") (simp_all add: parse_template_for_def)

text \<open>What compiles to a literal renders to itself without touching the VU.\<close>

lemma literal_renders:
  "cj_compile what j = Inr c \<Longrightarrow> cj_is_literal c \<Longrightarrow> json_keys_distinct j \<Longrightarrow> c = CLiteral j \<and> render_json sv rc j v = (Inr j, v)"
  "cj_compile_list what js = Inr cs \<Longrightarrow> list_all cj_is_literal cs \<Longrightarrow> list_all json_keys_distinct js \<Longrightarrow> render_items sv rc js v = (Inr js, v)"
  "cj_compile_fields what fs = Inr ds \<Longrightarrow> list_all (cj_is_literal \<circ> snd) ds \<Longrightarrow> list_all (json_keys_distinct \<circ> snd) fs
     \<Longrightarrow> distinct (map fst (out @ fs)) \<Longrightarrow> render_entries sv rc fs out v = (Inr (out @ fs), v)"
proof (induction what j and what js and what fs arbitrary: c v and cs v and ds out v rule: cj_compile_cj_compile_list_cj_compile_fields.induct)
  case (8 what k x fs)
  then obtain c ds' where "cj_compile what x = Inr c" "cj_compile_fields what fs = Inr ds'" "ds = (k, c) # ds'"
    by (auto split: sum.splits)
  with 8 show ?case by (simp add: attempt_def update_fresh)
next
  case (2 what items)
  then show ?case by (auto simp: attempt_def split: sum.splits if_splits)
next
  case (3 what fs)
  from 3(4) have "distinct (map fst ([] @ fs))" by simp
  with 3 show ?case by (fastforce simp: attempt_def split: sum.splits if_splits)
qed (auto simp: attempt_def parse_template_for_Inr split: sum.splits if_splits)

lemma compiled_renders:
  "cj_compile what j = Inr c \<Longrightarrow> json_keys_distinct j \<Longrightarrow> cj_render sv rc c v = render_json sv rc j v"
  "cj_compile_list what js = Inr cs \<Longrightarrow> list_all json_keys_distinct js \<Longrightarrow> cj_render_list sv rc cs v = render_items sv rc js v"
  "cj_compile_fields what fs = Inr ds \<Longrightarrow> list_all (json_keys_distinct \<circ> snd) fs \<Longrightarrow> cj_render_fields sv rc ds out v = render_entries sv rc fs out v"
proof (induction what j and what js and what fs arbitrary: c v and cs v and ds out v rule: cj_compile_cj_compile_list_cj_compile_fields.induct)
  case (1 what s)
  then show ?case by (auto simp: parse_template_for_Inr split: sum.splits if_splits)
next
  case (2 what items)
  then obtain cs where cs: "cj_compile_list what items = Inr cs"
    and c: "c = (if list_all cj_is_literal cs then CLiteral (JArray items) else CArray cs)" by (auto split: sum.splits)
  with 2 literal_renders(2) [OF cs, where sv = sv and rc = rc] show ?case by (auto simp: attempt_def)
next
  case (3 what fs)
  then obtain ds where ds: "cj_compile_fields what fs = Inr ds"
    and c: "c = (if list_all (cj_is_literal \<circ> snd) ds then CLiteral (JObject fs) else CObject ds)" by (auto split: sum.splits)
  with 3 literal_renders(3) [OF ds, where sv = sv and rc = rc and out = "[]"] show ?case by (auto simp: attempt_def comp_def)
next
  case (6 what x xs)
  then show ?case by (auto simp: attempt_def split: sum.splits prod.splits)
next
  case (8 what k x fs)
  then show ?case by (auto simp: attempt_def split: sum.splits prod.splits)
qed auto

text \<open>
  A string of a JSON body without an expression keeps the escape of a dollar brace, which a text body turns into the
  dollar brace it stands for.
\<close>

lemma json_literal_keeps_escape:
  "render_json sv rc (JString ''$${a}'') v = (Inr (JString ''$${a}''), v)" "render_str sv rc ''$${a}'' v = (Inr ''${a}'', v)"
proof -
  have "parse_template ''$${a}'' = Inr \<lparr>tpl_parts = [Lit ''${a}''], tpl_source = ''$${a}''\<rparr>" by code_simp
  then show "render_json sv rc (JString ''$${a}'') v = (Inr (JString ''$${a}''), v)" "render_str sv rc ''$${a}'' v = (Inr ''${a}'', v)"
    by (simp_all add: is_literal_def render_str_def render_template_def)
qed

text \<open>
  C16: JSON compiled once and rendered per message gives what rendering the JSON itself gives, the same value or error and
  the same change of the VU, for every JSON value that compiles.
\<close>

theorem compiled_json_renders:
  assumes "cj_compile what j = Inr c" and "json_keys_distinct j"
  shows "cj_render sv rc c v = render_json sv rc j v"
  using assms by (rule compiled_renders(1))

theorem compiled_json_renders_witness:
  "cj_render quiet_services quiet_context (CObject [(''a'', CSplice \<lparr>tpl_parts = [Expr ''vu''], tpl_source = ''${vu}''\<rparr>), (''b'', CLiteral (JInt 1))]) quiet_vu =
   render_json quiet_services quiet_context (JObject [(''a'', JString ''${vu}''), (''b'', JInt 1)]) quiet_vu"
proof (rule compiled_json_renders)
  show "cj_compile ''m'' (JObject [(''a'', JString ''${vu}''), (''b'', JInt 1)]) =
    Inr (CObject [(''a'', CSplice \<lparr>tpl_parts = [Expr ''vu''], tpl_source = ''${vu}''\<rparr>), (''b'', CLiteral (JInt 1))])"
    by code_simp
qed simp

end
