(* ===== verification/Spec2Isabelle.thy ===== *)
theory Spec2Isabelle
  imports Executor_Spec Scenario_Run Federation Junit Delivery Agent_Props Data_Props Flow_Props
begin

text \<open>
  A verification development for the load-testing tool \<open>loadr\<close> (the Rust workspace under \<open>src/crates\<close>).

  \<^bold>\<open>The program.\<close> A test plan (\<open>loadr-config\<close>) names scenarios, data sources and thresholds. The engine
  (\<open>loadr-core\<close>) runs each scenario with an executor, which decides how many virtual users (VUs) are live and when
  they start an iteration. An iteration interprets the steps of the scenario: it renders requests from templates and
  data rows, sends them through a protocol handler, and emits samples. The samples are aggregated into series, from
  which thresholds, live snapshots and the summary are computed. In a distributed run (\<open>loadr-agent\<close>) a controller
  splits the plan between agents, starts them together, merges the metric deltas they send over a sequenced uplink,
  and decides when the run has ended and with what verdict.

  \<^bold>\<open>Which theory models what.\<close>

  \<^item> \<open>Prelude\<close>, \<open>F64\<close>, \<open>Durations\<close>, \<open>Rust_Str\<close>: the language and its standard library. A \<open>u64\<close> whose overflow matters is
    a 64-bit word, an \<open>f64\<close> is a rational on the binary64 grid, an infinity or NaN with rounding to nearest even, a
    \<open>Duration\<close> is its nanoseconds with checked arithmetic, a panic is \<open>None\<close>, a \<open>Result\<close> is a sum, a hash map an
    association list.
  \<^item> \<open>Executor_Spec\<close> (\<open>plan.rs\<close>: \<open>Scenario::executor_spec\<close>, \<open>peak_vus\<close>; \<open>executor.rs\<close>: \<open>vus_at\<close>, \<open>RateSchedule\<close>,
    \<open>partition_spec\<close>, \<open>vu_capacity\<close>; \<open>engine.rs\<close>: \<open>vu_placement\<close>; \<open>controller.rs\<close>: \<open>scale_shares\<close>).
  \<^item> \<open>Vu_Env\<close>, \<open>Executors\<close>, \<open>Arrival\<close>, \<open>Scenario_Run\<close> (\<open>executor.rs\<close>): the tasks of a scenario. A task is a step
    function on the shared environment, its executor's shared state and its own phase; a run is any interleaving of
    such steps. A step goes from one \<open>await\<close> to the next, so everything between two awaits is atomic; where the
    code uses single atomics between awaits (the shared iteration counter, the arrival gate) each is its own step.
  \<^item> \<open>Template\<close>, \<open>Threshold_Expr\<close>, \<open>Dur_Text\<close> (\<open>template.rs\<close>, \<open>threshold.rs\<close>, \<open>duration.rs\<close>): the text languages of a plan.
  \<^item> \<open>Data_Feeds\<close>, \<open>Data_Props\<close> (\<open>data.rs\<close>): sources, the feeder state of each VU and parallel branch, and the cells they
    share, as a store of counters.
  \<^item> \<open>Pacing\<close> (\<open>pacing.rs\<close>, \<open>Throttle\<close> of \<open>flow.rs\<close>), \<open>Conditions\<close> (\<open>conditions.rs\<close>), \<open>Protocol\<close> (\<open>protocol.rs\<close>).
  \<^item> \<open>Vu_Context\<close>, \<open>Request\<close>, \<open>Flow\<close>, \<open>Flow_Steps\<close> (\<open>vu.rs\<close>, \<open>flow.rs\<close>): the context of a VU as a record, rendering,
    \<open>FlowRunner::prepare\<close>, \<open>run_request\<close>, the interpreter \<open>run_steps\<close> with parallel branches, \<open>run_iteration\<close> and
    \<open>run_on_stop\<close>. The record \<open>vu_services\<close> holds the functions the flow calls outside this code.
  \<^item> \<open>Metrics\<close>, \<open>Aggregate\<close>, \<open>Federation\<close>, \<open>Thresholds\<close>, \<open>Summary\<close>, \<open>Junit\<close> (\<open>metrics.rs\<close>, \<open>aggregate.rs\<close>, \<open>thresholds.rs\<close>,
    \<open>summary.rs\<close>): from samples to series, deltas, shards, verdicts and reports.
  \<^item> \<open>Engine_Run\<close> (\<open>engine.rs\<close>): \<open>Engine::new\<close>, \<open>RunHandle\<close> and the phases of \<open>Engine::run\<close>.
  \<^item> \<open>Uplink\<close> (\<open>uplink.rs\<close>), \<open>Controller_State\<close>, \<open>Controller\<close> (\<open>controller.rs\<close>, the messages of \<open>coordination.proto\<close>),
    \<open>Agent\<close>, \<open>Paths\<close> (\<open>agent.rs\<close>), \<open>Delivery\<close> (agent window, sessions and controller composed). Controller and agent
    are event systems: one step per message, timer or task poll, each holding the locks the code holds.

  \<^bold>\<open>What the lemmas show.\<close>

  \<^item> Executors: shared iterations are claimed once each and, uninterrupted, all run; arrivals of an open model are
    started, dropped or pending, exactly once; the VU gauge and ids stay exact through ramps; no scenario exceeds its
    capacity; splitting a plan between agents loses nothing and VU numbers stay unique. The bookkeeping is proved once in
    the locale \<open>vu_workers\<close>, interpreted for each of the five executors.
  \<^item> Flows: every iteration restores its group stack and in-flight count and only adds samples; steps end, given
    enough rounds; how many failure samples a request leaves; what parallel steps and retries return; compiled JSON
    renders as the JSON it came from. Preservation is proved once in the locales \<open>render_relation\<close> and its
    extension \<open>flow_relation\<close>, interpreted for the frame, the clock and the failure flag.
  \<^item> Data: rows come in order and once per pass, plugin rows are numbered without gaps, for every interleaving of VUs
    and branches. Throttle slots are spaced.
  \<^item> Metrics: across agents, deltas, refused deltas and shards every sample is accounted for once; percentile
    thresholds observe the quantile of what was recorded.
  \<^item> Distributed runs: uplink, sessions and controller refine a reliable ordered log; a start means every agent was
    ready; terminal runs are frozen; reservations never leak; an agent drives one engine, reports once and honours stops.
  \<^item> Text: durations, thresholds, selectors, templates and escaped XML round-trip.

  \<^bold>\<open>Parameters and hypotheses.\<close> Third-party code is an argument: the HDR histogram and its serialisation, the tokio
  semaphore, humantime, random generators, file and plugin access, CSV and JSON parsers, regular expressions, JSONPath
  and XPath, scripts, protocol handlers and clocks. Where a property needs their documented behaviour it is a named
  predicate (\<open>rng_laws\<close>, \<open>framed_services\<close>, \<open>clock_services\<close>, \<open>flag_services\<close> and the laws of \<open>Aggregate\<close> and \<open>Arrival\<close>), and a
  witness instantiates it with concrete functions. Text is bytes; the parsers only look for ASCII characters.

  \<^bold>\<open>Bounds and fuel.\<close> Only the rounds of a \<open>during\<close> block are bounded, by an argument of \<open>run_steps\<close>; \<open>None\<close> means that it
  was too small, and \<open>run_steps_returns\<close> shows that any bound above the longest duration in clock ticks is enough
  when each reading of the clock takes at least one tick. Counters that the code keeps in 64 bits and only increments
  by one are natural numbers; where wrap-around or saturation can be reached the words are kept.

  \<^bold>\<open>Not modelled.\<close> Protocol handlers, the JavaScript engine and its host bridge, the browser driver, outputs and plugins are
  I/O over third-party libraries. Plan loading, merging and validation diagnostics, the compilation of steps and
  requests, the command line, converters, recorder, history, the assistant client, the payload generators and the
  console and HTML reports translate or present data. Extractors and the cookie jar wrap third-party engines. In
  \<open>Engine::run\<close> the gauge reporter, \<open>handleSummary\<close> and the aggregator task, and in agent and controller connecting,
  back-off, TLS and the gRPC transport (queues that may be cut at any point) are left out. Log lines and the wording of
  diagnostics are left out except where a text is a value the code goes on to use.
\<close>

end
